(* ===== verification/Autobahn_Prelude.thy ===== *)
theory Autobahn_Prelude
  imports Main "HOL-Library.Word"
begin

text \<open>
  Shared vocabulary of the development: machine integers of the Rust sources as words,
  the result type of fallible Rust code (with panics as a third outcome), checked,
  saturating and panicking arithmetic, slices with their bounds checks, and
  little-endian byte encodings.

  The workspace is built with \<open>overflow-checks = true\<close> (\<^verbatim>\<open>Cargo.toml\<close>, profile release), so the
  plain operators \<open>+\<close>, \<open>-\<close>, \<open>*\<close> of the sources panic on overflow: they are \<open>padd\<close>,
  \<open>psub\<close>, \<open>pmul\<close> here. \<open>usize\<close> values (lengths and offsets) are natural numbers.
\<close>

named_theorems rust_arith \<open>characterisations of checked and panicking arithmetic\<close>
named_theorems rust_slice \<open>characterisations of slicing and indexing\<close>

type_synonym u8 = "8 word"
type_synonym u16 = "16 word"
type_synonym u32 = "32 word"
type_synonym u64 = "64 word"
type_synonym u128 = "128 word"
type_synonym bytes = "u8 list"

subsection \<open>Results\<close>

text \<open>\<open>Panic\<close> is an aborted computation: an index out of range, an overflow, a failed
  \<open>unwrap\<close> or \<open>assert!\<close>.\<close>

datatype ('a, 'e) result = Ok 'a | Err 'e | Panic

primrec rbind :: "('a, 'e) result \<Rightarrow> ('a \<Rightarrow> ('b, 'e) result) \<Rightarrow> ('b, 'e) result" where
  "rbind (Ok x) f = f x"
| "rbind (Err e) f = Err e"
| "rbind Panic f = Panic"

primrec ok_or :: "'e \<Rightarrow> 'a option \<Rightarrow> ('a, 'e) result" where
  "ok_or e None = Err e"
| "ok_or e (Some x) = Ok x"

primrec unwrap :: "'a option \<Rightarrow> ('a, 'e) result" where
  "unwrap None = Panic"
| "unwrap (Some x) = Ok x"

definition require :: "bool \<Rightarrow> 'e \<Rightarrow> (unit, 'e) result" where
  "require b e = (if b then Ok () else Err e)"

definition assert_that :: "bool \<Rightarrow> (unit, 'e) result" where
  "assert_that b = (if b then Ok () else Panic)"

lemma rbind_cong [fundef_cong]:
  "m = m' \<Longrightarrow> (\<And>x. m' = Ok x \<Longrightarrow> f x = g x) \<Longrightarrow> rbind m f = rbind m' g"
  by (cases m') auto

lemma rbind_eq_Ok [simp]: "rbind m f = Ok y \<longleftrightarrow> (\<exists>x. m = Ok x \<and> f x = Ok y)"
  by (cases m) auto

lemma rbind_eq_Err [simp]:
  "rbind m f = Err e \<longleftrightarrow> m = Err e \<or> (\<exists>x. m = Ok x \<and> f x = Err e)"
  by (cases m) auto

lemma rbind_eq_Panic [simp]:
  "rbind m f = Panic \<longleftrightarrow> m = Panic \<or> (\<exists>x. m = Ok x \<and> f x = Panic)"
  by (cases m) auto

lemma rbind_assoc: "rbind (rbind m f) g = rbind m (\<lambda>x. rbind (f x) g)"
  by (cases m) auto

lemma rbind_Ok_right [simp]: "rbind m Ok = m"
  by (cases m) auto

text \<open>Evaluation decides the outcome of a step before it looks at what follows.\<close>

lemma rbind_case [code_unfold]:
  "rbind m f = (case m of Ok x \<Rightarrow> f x | Err e \<Rightarrow> Err e | Panic \<Rightarrow> Panic)"
  by (cases m) auto

lemma ok_or_eq_Ok [simp]: "ok_or e m = Ok x \<longleftrightarrow> m = Some x"
  by (cases m) auto

lemma ok_or_eq_Err [simp]: "ok_or e m = Err e' \<longleftrightarrow> m = None \<and> e' = e"
  by (cases m) auto

lemma ok_or_not_Panic [simp]: "ok_or e m \<noteq> Panic"
  by (cases m) auto

lemma unwrap_eq_Ok [simp]: "unwrap m = Ok x \<longleftrightarrow> m = Some x"
  by (cases m) auto

lemma unwrap_eq_Panic [simp]: "unwrap m = Panic \<longleftrightarrow> m = None"
  by (cases m) auto

lemma unwrap_not_Err [simp]: "unwrap m \<noteq> Err e"
  by (cases m) auto

lemma require_eq_Ok [simp]: "require b e = Ok u \<longleftrightarrow> b"
  by (simp add: require_def)

lemma require_eq_Err [simp]: "require b e = Err e' \<longleftrightarrow> \<not> b \<and> e' = e"
  by (auto simp: require_def)

lemma require_not_Panic [simp]: "require b e \<noteq> Panic"
  by (simp add: require_def)

lemma require_simps [simp]: "require True e = Ok ()" "require False e = Err e"
  by (simp_all add: require_def)

lemma assert_that_simps [simp]:
  "assert_that True = Ok ()" "assert_that False = Panic"
  "assert_that b = Ok u \<longleftrightarrow> b" "assert_that b \<noteq> Err e" "assert_that b = Panic \<longleftrightarrow> \<not> b"
  by (simp_all add: assert_that_def)

subsection \<open>Loops that may panic\<close>

fun rfold :: "('a \<Rightarrow> 's \<Rightarrow> ('s, 'x) result) \<Rightarrow> 'a list \<Rightarrow> 's \<Rightarrow> ('s, 'x) result" where
  "rfold f [] s = Ok s"
| "rfold f (x # xs) s = rbind (f x s) (rfold f xs)"

text \<open>A loop whose body keeps an invariant without panicking returns with the invariant.\<close>

lemma rfold_inv:
  "(\<And>x s. x \<in> set xs \<Longrightarrow> I s \<Longrightarrow> \<exists>s'. f x s = Ok s' \<and> I s') \<Longrightarrow> I s \<Longrightarrow>
     \<exists>s'. rfold f xs s = Ok s' \<and> I s'"
proof (induction xs arbitrary: s)
  case (Cons x xs)
  obtain s' where s': "f x s = Ok s'" "I s'" using Cons.prems(1) [of x s] Cons.prems(2) by auto
  obtain s'' where "rfold f xs s' = Ok s''" "I s''"
    using Cons.IH [OF _ s'(2)] Cons.prems(1) by auto
  with s'(1) show ?case by simp
qed simp

text \<open>The same for an invariant that speaks of the part of the list already processed.\<close>

lemma rfold_prefix:
  "(\<And>k s. k < length xs \<Longrightarrow> I k s \<Longrightarrow> \<exists>s'. f (xs ! k) s = Ok s' \<and> I (Suc k) s') \<Longrightarrow> I 0 s \<Longrightarrow>
     \<exists>s'. rfold f xs s = Ok s' \<and> I (length xs) s'"
proof (induction xs arbitrary: I s)
  case (Cons x xs)
  obtain s' where s': "f x s = Ok s'" "I 1 s'"
    using Cons.prems(1) [of 0 s] Cons.prems(2) by auto
  have "\<exists>s''. rfold f xs s' = Ok s'' \<and> I (Suc (length xs)) s''"
    by (rule Cons.IH [where I = "\<lambda>k. I (Suc k)"]) (use Cons.prems(1) s'(2) in \<open>fastforce+\<close>)
  with s'(1) show ?case by simp
qed simp

text \<open>An invariant of a loop that happens to return.\<close>

lemma rfold_Ok_inv:
  "rfold f xs s = Ok t \<Longrightarrow> I s \<Longrightarrow> (\<And>x s s'. x \<in> set xs \<Longrightarrow> I s \<Longrightarrow> f x s = Ok s' \<Longrightarrow> I s') \<Longrightarrow> I t"
proof (induction xs arbitrary: s)
  case (Cons x xs)
  then obtain s' where s': "f x s = Ok s'" "rfold f xs s' = Ok t" by auto
  show ?case by (rule Cons.IH [OF s'(2)]) (use Cons.prems(2,3) s'(1) in \<open>auto intro: Cons.prems(3)\<close>)
qed simp

subsection \<open>Checked arithmetic\<close>

definition checked_add :: "'a::len word \<Rightarrow> 'a word \<Rightarrow> 'a word option" where
  "checked_add a b = (if unat a + unat b < 2 ^ LENGTH('a) then Some (a + b) else None)"

definition checked_sub :: "'a::len word \<Rightarrow> 'a word \<Rightarrow> 'a word option" where
  "checked_sub a b = (if unat b \<le> unat a then Some (a - b) else None)"

definition checked_mul :: "'a::len word \<Rightarrow> 'a word \<Rightarrow> 'a word option" where
  "checked_mul a b = (if unat a * unat b < 2 ^ LENGTH('a) then Some (a * b) else None)"

definition checked_div :: "'a::len word \<Rightarrow> 'a word \<Rightarrow> 'a word option" where
  "checked_div a b = (if b = 0 then None else Some (a div b))"

definition checked_rem :: "'a::len word \<Rightarrow> 'a word \<Rightarrow> 'a word option" where
  "checked_rem a b = (if b = 0 then None else Some (a mod b))"

definition saturating_sub :: "'a::len word \<Rightarrow> 'a word \<Rightarrow> 'a word" where
  "saturating_sub a b = (if unat b \<le> unat a then a - b else 0)"

definition saturating_mul :: "'a::len word \<Rightarrow> 'a word \<Rightarrow> 'a word" where
  "saturating_mul a b = (if unat a * unat b < 2 ^ LENGTH('a) then a * b else - 1)"

text \<open>The operators of the sources: a panic where the checked operation has no value.\<close>

definition padd :: "'a::len word \<Rightarrow> 'a word \<Rightarrow> ('a word, 'e) result" where
  "padd a b = unwrap (checked_add a b)"

definition psub :: "'a::len word \<Rightarrow> 'a word \<Rightarrow> ('a word, 'e) result" where
  "psub a b = unwrap (checked_sub a b)"

definition pmul :: "'a::len word \<Rightarrow> 'a word \<Rightarrow> ('a word, 'e) result" where
  "pmul a b = unwrap (checked_mul a b)"

lemma unat_add_lt:
  "unat (a :: 'a::len word) + unat b < 2 ^ LENGTH('a) \<Longrightarrow> unat (a + b) = unat a + unat b"
  by (simp add: unat_word_ariths)

lemma unat_mult_lt:
  "unat (a :: 'a::len word) * unat b < 2 ^ LENGTH('a) \<Longrightarrow> unat (a * b) = unat a * unat b"
  by (simp add: unat_word_ariths)

lemma checked_add_Some [rust_arith]:
  "checked_add a b = Some c \<longleftrightarrow> unat c = unat a + unat b"
  by (metis (no_types, lifting) checked_add_def option.inject option.simps(3) unat_add_lt
      unsigned_less word_unat_eq_iff)

lemma checked_sub_Some [rust_arith]:
  "checked_sub a b = Some c \<longleftrightarrow> unat a = unat b + unat c"
  by (auto simp: checked_sub_def word_unat_eq_iff unat_sub word_le_nat_alt)

lemma checked_mul_Some [rust_arith]:
  "checked_mul a b = Some c \<longleftrightarrow> unat c = unat a * unat b"
  by (metis (no_types, lifting) checked_mul_def option.inject option.simps(3) unat_mult_lt
      unsigned_less word_unat_eq_iff)

lemma checked_div_Some [rust_arith]:
  "checked_div a b = Some c \<longleftrightarrow> b \<noteq> 0 \<and> unat c = unat a div unat b"
  by (auto simp: checked_div_def word_unat_eq_iff unat_div)

lemma checked_rem_Some [rust_arith]:
  "checked_rem a b = Some c \<longleftrightarrow> b \<noteq> 0 \<and> unat c = unat a mod unat b"
  by (auto simp: checked_rem_def word_unat_eq_iff unat_mod)

lemma checked_add_None [rust_arith]:
  "checked_add (a :: 'a::len word) b = None \<longleftrightarrow> 2 ^ LENGTH('a) \<le> unat a + unat b"
  by (auto simp: checked_add_def)

lemma checked_sub_None [rust_arith]: "checked_sub a b = None \<longleftrightarrow> unat a < unat b"
  by (auto simp: checked_sub_def)

lemma checked_mul_None [rust_arith]:
  "checked_mul (a :: 'a::len word) b = None \<longleftrightarrow> 2 ^ LENGTH('a) \<le> unat a * unat b"
  by (auto simp: checked_mul_def)

lemma checked_div_None [rust_arith]: "checked_div a b = None \<longleftrightarrow> b = 0"
  by (auto simp: checked_div_def)

lemma checked_rem_None [rust_arith]: "checked_rem a b = None \<longleftrightarrow> b = 0"
  by (auto simp: checked_rem_def)

lemma unat_saturating_sub [simp]: "unat (saturating_sub a b) = unat a - unat b"
  by (auto simp: saturating_sub_def unat_sub word_le_nat_alt)

lemma padd_Ok [rust_arith]: "padd a b = Ok c \<longleftrightarrow> unat c = unat a + unat b"
  by (simp add: padd_def checked_add_Some)

lemma psub_Ok [rust_arith]: "psub a b = Ok c \<longleftrightarrow> unat a = unat b + unat c"
  by (simp add: psub_def checked_sub_Some)

lemma pmul_Ok [rust_arith]: "pmul a b = Ok c \<longleftrightarrow> unat c = unat a * unat b"
  by (simp add: pmul_def checked_mul_Some)

lemma padd_Panic [rust_arith]:
  "padd (a :: 'a::len word) b = Panic \<longleftrightarrow> 2 ^ LENGTH('a) \<le> unat a + unat b"
  by (simp add: padd_def checked_add_None)

lemma psub_Panic [rust_arith]: "psub a b = Panic \<longleftrightarrow> unat a < unat b"
  by (simp add: psub_def checked_sub_None)

lemma pmul_Panic [rust_arith]:
  "pmul (a :: 'a::len word) b = Panic \<longleftrightarrow> 2 ^ LENGTH('a) \<le> unat a * unat b"
  by (simp add: pmul_def checked_mul_None)

lemma parith_not_Err [simp]:
  "padd a b \<noteq> Err e" "psub a b \<noteq> Err e" "pmul a b \<noteq> Err e"
  by (simp_all add: padd_def psub_def pmul_def)

text \<open>Evaluation compares integers, not unary natural numbers.\<close>

lemma checked_code [code]:
  "checked_add a b = (if uint a + uint b < 2 ^ LENGTH('a) then Some (a + b) else None)"
  "checked_sub a b = (if b \<le> a then Some (a - b) else None)"
  "checked_mul a b = (if uint a * uint b < 2 ^ LENGTH('a) then Some (a * b) else None)"
  "saturating_sub a b = (if b \<le> a then a - b else 0)"
  "saturating_mul a b = (if uint a * uint b < 2 ^ LENGTH('a) then a * b else - 1)"
  for a b :: "'a::len word"
proof -
  have add: "uint a + uint b < 2 ^ LENGTH('a) \<longleftrightarrow> unat a + unat b < 2 ^ LENGTH('a)"
    by (simp only: uint_nat flip: of_nat_add of_nat_less_iff [where ?'a = int]) simp
  have mul: "uint a * uint b < 2 ^ LENGTH('a) \<longleftrightarrow> unat a * unat b < 2 ^ LENGTH('a)"
    by (simp only: uint_nat flip: of_nat_mult of_nat_less_iff [where ?'a = int]) simp
  show "checked_add a b = (if uint a + uint b < 2 ^ LENGTH('a) then Some (a + b) else None)"
    "checked_sub a b = (if b \<le> a then Some (a - b) else None)"
    "checked_mul a b = (if uint a * uint b < 2 ^ LENGTH('a) then Some (a * b) else None)"
    "saturating_sub a b = (if b \<le> a then a - b else 0)"
    "saturating_mul a b = (if uint a * uint b < 2 ^ LENGTH('a) then a * b else - 1)"
    by (simp_all add: checked_add_def checked_sub_def checked_mul_def saturating_sub_def saturating_mul_def add mul
        word_le_nat_alt)
qed

subsection \<open>Casts\<close>

lemma unat_ucast_small:
  "unat (n :: 'a::len word) < 2 ^ LENGTH('b) \<Longrightarrow> unat (ucast n :: 'b::len word) = unat n"
  by (simp only: unsigned_ucast_eq take_bit_nat_eq_self)

lemma ucast_ucast_small:
  "unat (n :: 'a::len word) < 2 ^ LENGTH('b) \<Longrightarrow> ucast (ucast n :: 'b::len word) = n"
  by (rule word_unat_eq_iff [THEN iffD2])
    (simp add: unsigned_ucast_eq unsigned_take_bit_eq take_bit_nat_eq_self)

subsection \<open>Slices\<close>

definition at_index :: "'a list \<Rightarrow> nat \<Rightarrow> ('a, 'e) result" where
  "at_index xs i = (if i < length xs then Ok (xs ! i) else Panic)"

text \<open>\<open>&xs[i..j]\<close> and \<open>&xs[i..]\<close>.\<close>

definition slice :: "'a list \<Rightarrow> nat \<Rightarrow> nat \<Rightarrow> ('a list, 'e) result" where
  "slice xs i j = (if i \<le> j \<and> j \<le> length xs then Ok (take (j - i) (drop i xs)) else Panic)"

definition slice_from :: "'a list \<Rightarrow> nat \<Rightarrow> ('a list, 'e) result" where
  "slice_from xs i = (if i \<le> length xs then Ok (drop i xs) else Panic)"

text \<open>\<open>xs[i..i + ys.len()].copy_from_slice(ys)\<close>.\<close>

definition copy_at :: "'a list \<Rightarrow> nat \<Rightarrow> 'a list \<Rightarrow> ('a list, 'e) result" where
  "copy_at xs i ys =
     (if i + length ys \<le> length xs then Ok (take i xs @ ys @ drop (i + length ys) xs)
      else Panic)"

text \<open>\<open>xs[i] = x\<close>.\<close>

definition set_index :: "'a list \<Rightarrow> nat \<Rightarrow> 'a \<Rightarrow> ('a list, 'e) result" where
  "set_index xs i x = (if i < length xs then Ok (xs[i := x]) else Panic)"

lemma set_index_Ok [rust_slice]: "set_index xs i x = Ok ys \<longleftrightarrow> i < length xs \<and> ys = xs[i := x]"
  by (auto simp: set_index_def)

lemma set_index_Panic [rust_slice]: "set_index xs i x = Panic \<longleftrightarrow> length xs \<le> i"
  by (auto simp: set_index_def)

lemma set_index_not_Err [simp]: "set_index xs i x \<noteq> Err e"
  by (simp add: set_index_def)

lemma at_index_Ok [rust_slice]: "at_index xs i = Ok x \<longleftrightarrow> i < length xs \<and> xs ! i = x"
  by (simp add: at_index_def)

lemma at_index_Panic [rust_slice]: "at_index xs i = Panic \<longleftrightarrow> length xs \<le> i"
  by (auto simp: at_index_def)

lemma at_index_not_Err [simp]: "at_index xs i \<noteq> Err e"
  by (simp add: at_index_def)

lemma at_index_Cons_0 [simp]: "at_index (x # xs) 0 = Ok x"
  by (simp add: at_index_def)

lemma slice_Ok [rust_slice]:
  "slice xs i j = Ok ys \<longleftrightarrow> i \<le> j \<and> j \<le> length xs \<and> ys = take (j - i) (drop i xs)"
  by (auto simp: slice_def)

lemma slice_Panic [rust_slice]: "slice xs i j = Panic \<longleftrightarrow> j < i \<or> length xs < j"
  by (auto simp: slice_def)

lemma slice_not_Err [simp]: "slice xs i j \<noteq> Err e"
  by (simp add: slice_def)

lemma slice_from_Ok [rust_slice]: "slice_from xs i = Ok ys \<longleftrightarrow> i \<le> length xs \<and> ys = drop i xs"
  by (auto simp: slice_from_def)

lemma slice_from_Panic [rust_slice]: "slice_from xs i = Panic \<longleftrightarrow> length xs < i"
  by (auto simp: slice_from_def)

lemma slice_from_not_Err [simp]: "slice_from xs i \<noteq> Err e"
  by (simp add: slice_from_def)

lemma copy_at_Ok [rust_slice]:
  "copy_at xs i ys = Ok zs \<longleftrightarrow>
     i + length ys \<le> length xs \<and> zs = take i xs @ ys @ drop (i + length ys) xs"
  by (auto simp: copy_at_def)

lemma copy_at_Panic [rust_slice]: "copy_at xs i ys = Panic \<longleftrightarrow> length xs < i + length ys"
  by (auto simp: copy_at_def)

lemma copy_at_not_Err [simp]: "copy_at xs i ys \<noteq> Err e"
  by (simp add: copy_at_def)

subsection \<open>Little-endian bytes\<close>

text \<open>\<open>le_bytes k n\<close> are the \<open>k\<close> low bytes of \<open>n\<close>, least significant first
  (\<open>to_le_bytes\<close>); \<open>le_val\<close> reads them back (\<open>from_le_bytes\<close>).\<close>

primrec le_bytes :: "nat \<Rightarrow> nat \<Rightarrow> bytes" where
  "le_bytes 0 n = []"
| "le_bytes (Suc k) n = of_nat n # le_bytes k (n div 256)"

primrec le_val :: "bytes \<Rightarrow> nat" where
  "le_val [] = 0"
| "le_val (b # bs) = unat b + 256 * le_val bs"

lemma length_le_bytes [simp]: "length (le_bytes k n) = k"
  by (induction k arbitrary: n) auto

lemma le_val_le_bytes: "le_val (le_bytes k n) = n mod 256 ^ k"
proof (induction k arbitrary: n)
  case 0
  then show ?case by simp
next
  case (Suc k)
  have "unat (of_nat n :: u8) = n mod 256" by (simp add: unat_of_nat)
  then show ?case
    using Suc.IH [of "n div 256"] by (simp add: mod_mult2_eq)
qed

lemma le_val_bound: "le_val bs < 256 ^ length bs"
proof (induction bs)
  case Nil
  then show ?case by simp
next
  case (Cons b bs)
  have "unat b < 256" using unsigned_less [of b] by simp
  with Cons.IH show ?case by simp
qed

lemma le_bytes_le_val: "le_bytes (length bs) (le_val bs) = bs"
proof (induction bs)
  case Nil
  then show ?case by simp
next
  case (Cons b bs)
  have "unat b < 256" using unsigned_less [of b] by simp
  then have "(unat b + 256 * le_val bs) div 256 = le_val bs" by simp
  moreover have "(of_nat (unat b + 256 * le_val bs) :: u8) = b"
    by (simp add: word_unat_eq_iff unat_of_nat \<open>unat b < 256\<close> del: of_nat_add)
  ultimately show ?case using Cons.IH by (simp del: of_nat_add)
qed

definition u64_le :: "u64 \<Rightarrow> bytes" where
  "u64_le n = le_bytes 8 (unat n)"

definition u64_of_le :: "bytes \<Rightarrow> u64" where
  "u64_of_le bs = of_nat (le_val bs)"

lemma length_u64_le [simp]: "length (u64_le n) = 8"
  by (simp add: u64_le_def)

lemma u64_of_le_u64_le [simp]: "u64_of_le (u64_le n) = n"
proof -
  have "unat n < 256 ^ 8" using unsigned_less [of n] by simp
  then show ?thesis by (simp add: u64_of_le_def u64_le_def le_val_le_bytes)
qed

lemma u64_le_u64_of_le [simp]:
  assumes "length bs = 8"
  shows "u64_le (u64_of_le bs) = bs"
proof -
  have "le_val bs < 2 ^ 64" using le_val_bound [of bs] assms by simp
  then have "unat (u64_of_le bs) = le_val bs" by (simp add: u64_of_le_def unat_of_nat)
  then show ?thesis using le_bytes_le_val [of bs] assms by (simp add: u64_le_def)
qed

end
