(* ===== verification/Exec_Utils.thy ===== *)
theory Exec_Utils
  imports Autobahn_Prelude
begin

text \<open>
  The wire format of the executor program (\<^verbatim>\<open>programs/autobahn-executor/src/utils.rs\<close>):
  writers into a mutable byte slice, which return the number of bytes written, and
  readers, which return the value and the rest of the slice.

  A writer's \<open>&mut [u8]\<close> argument is the slice before the call; the model returns the
  slice after the call beside the count. Indexing and slicing out of range panic.

  The interface between the client that assembles instruction data and the on-chain
  program that parses it is the locale \<open>wire_codec\<close>: what is put can be got back. It is
  interpreted for every writer/reader pair of the file.
\<close>

subsection \<open>Program errors\<close>

text \<open>The error enumeration of \<open>solana_program\<close>; an invoked program may return any of it.\<close>

datatype program_error =
    Custom u32 | InvalidArgument | InvalidInstructionData | InvalidAccountData
  | AccountDataTooSmall | InsufficientFunds | IncorrectProgramId | MissingRequiredSignature
  | AccountAlreadyInitialized | UninitializedAccount | NotEnoughAccountKeys
  | AccountBorrowFailed | MaxSeedLengthExceeded | InvalidSeeds | BorshIoError
  | AccountNotRentExempt | UnsupportedSysvar | IllegalOwner
  | MaxAccountsDataAllocationsExceeded | InvalidRealloc | MaxInstructionTraceLengthExceeded
  | BuiltinProgramsMustConsumeComputeUnits | InvalidAccountOwner | ArithmeticOverflow
  | Immutable | IncorrectAuthority

type_synonym 'a presult = "('a, program_error) result"

subsection \<open>Writers\<close>

function write_ux16 :: "bytes \<Rightarrow> u16 \<Rightarrow> (bytes \<times> nat) presult" where
  "write_ux16 data n =
     (if 255 \<le> n then
        rbind (set_index data 0 255) (\<lambda>data.
        rbind (slice_from data 1) (\<lambda>tail.
        rbind (write_ux16 tail (n - 255)) (\<lambda>(tail, k). Ok (take 1 data @ tail, 1 + k))))
      else
        rbind (set_index data 0 (ucast n)) (\<lambda>data. Ok (data, 1)))"
  by pat_completeness auto
termination
  by (relation "measure (\<lambda>(data, n). unat n)") (auto simp: unat_sub word_le_nat_alt)

declare write_ux16.simps [simp del]

definition write_bytes :: "bytes \<Rightarrow> bytes \<Rightarrow> (bytes \<times> nat) presult" where
  "write_bytes data b = rbind (copy_at data 0 b) (\<lambda>data. Ok (data, length b))"

definition write_u64 :: "bytes \<Rightarrow> u64 \<Rightarrow> (bytes \<times> nat) presult" where
  "write_u64 data n = rbind (copy_at data 0 (u64_le n)) (\<lambda>data. Ok (data, 8))"

definition write_u8 :: "bytes \<Rightarrow> u8 \<Rightarrow> (bytes \<times> nat) presult" where
  "write_u8 data n = rbind (set_index data 0 n) (\<lambda>data. Ok (data, 1))"

subsection \<open>Readers\<close>

fun read_ux16 :: "bytes \<Rightarrow> (u16 \<times> bytes) presult" where
  "read_ux16 [] = Panic"
| "read_ux16 (x # rest) =
     (if x < 255 then Ok (ucast x, rest)
      else rbind (read_ux16 rest) (\<lambda>(y, rest). rbind (padd (ucast x) y) (\<lambda>z. Ok (z, rest))))"

definition extract_part :: "bytes \<Rightarrow> nat \<Rightarrow> (bytes \<Rightarrow> 'a presult) \<Rightarrow> ('a \<times> bytes) presult" where
  "extract_part data sz transformer =
     rbind (slice data 0 sz) (\<lambda>part.
     rbind (slice_from data sz) (\<lambda>rest.
     rbind (transformer part) (\<lambda>v. Ok (v, rest))))"

definition read_bytes :: "nat \<Rightarrow> bytes \<Rightarrow> (bytes \<times> bytes) presult" where
  "read_bytes sz data = extract_part data sz Ok"

definition read_u64 :: "bytes \<Rightarrow> (u64 \<times> bytes) presult" where
  "read_u64 data = extract_part data 8 (\<lambda>x. Ok (u64_of_le x))"

definition read_u8 :: "bytes \<Rightarrow> (u8 \<times> bytes) presult" where
  "read_u8 data = extract_part data 1 (\<lambda>x. at_index x 0)"

subsection \<open>The encodings the writers produce\<close>

function ux16_enc :: "u16 \<Rightarrow> bytes" where
  "ux16_enc n = (if 255 \<le> n then 255 # ux16_enc (n - 255) else [ucast n])"
  by pat_completeness auto
termination
  by (relation "measure unat") (auto simp: unat_sub word_le_nat_alt)

declare ux16_enc.simps [simp del]

lemma length_ux16_enc: "length (ux16_enc n) = Suc (unat n div 255)"
proof (induction n rule: ux16_enc.induct)
  case (1 n)
  show ?case
  proof (cases "255 \<le> n")
    case True
    then have le: "255 \<le> unat n" by (simp add: word_le_nat_alt)
    then have "unat (n - 255) = unat n - 255" using True by (simp add: unat_sub)
    moreover have "unat n div 255 = Suc ((unat n - 255) div 255)"
      using le by (simp add: le_div_geq)
    ultimately show ?thesis using 1 [OF True] True by (simp add: ux16_enc.simps [of n])
  next
    case False
    then show ?thesis by (simp add: ux16_enc.simps [of n] word_le_nat_alt)
  qed
qed

lemma write_ux16_enc:
  "length (ux16_enc n) \<le> length data \<Longrightarrow>
     write_ux16 data n =
       Ok (ux16_enc n @ drop (length (ux16_enc n)) data, length (ux16_enc n))"
proof (induction n arbitrary: data rule: ux16_enc.induct)
  case (1 n)
  from "1.prems" obtain d ds where data: "data = d # ds"
    by (cases data) (auto simp: length_ux16_enc)
  show ?case
  proof (cases "255 \<le> n")
    case True
    with "1.prems" data have "length (ux16_enc (n - 255)) \<le> length ds"
      by (simp add: ux16_enc.simps [of n])
    from "1.IH" [OF True this] True data show ?thesis
      by (simp add: ux16_enc.simps [of n] write_ux16.simps [of "d # ds" n] set_index_def
          slice_from_def)
  next
    case False
    with data show ?thesis
      by (simp add: ux16_enc.simps [of n] write_ux16.simps [of "d # ds" n] set_index_def)
  qed
qed

lemma write_ux16_short: "length data < length (ux16_enc n) \<Longrightarrow> write_ux16 data n = Panic"
proof (induction n arbitrary: data rule: ux16_enc.induct)
  case (1 n)
  show ?case
  proof (cases data)
    case Nil
    then show ?thesis by (simp add: write_ux16.simps [of "[]" n] set_index_def)
  next
    case (Cons d ds)
    with "1.prems" have big: "255 \<le> n" and "length ds < length (ux16_enc (n - 255))"
      by (auto simp: ux16_enc.simps [of n] split: if_splits)
    from "1.IH" [OF this] big Cons show ?thesis
      by (simp add: write_ux16.simps [of "d # ds" n] set_index_def slice_from_def)
  qed
qed

lemma read_ux16_enc: "read_ux16 (ux16_enc n @ rest) = Ok (n, rest)"
proof (induction n rule: ux16_enc.induct)
  case (1 n)
  show ?case
  proof (cases "255 \<le> n")
    case True
    have "unat n = 255 + unat (n - 255)"
      using True by (simp add: unat_sub word_le_nat_alt)
    then have "padd (255 :: u16) (n - 255) = (Ok n :: u16 presult)"
      by (simp add: padd_Ok)
    with 1 [OF True] True show ?thesis by (simp add: ux16_enc.simps [of n])
  next
    case False
    then have small: "unat n < 255" by (simp add: word_le_nat_alt)
    then have "unat (ucast n :: u8) = unat n" by (simp add: unat_ucast_small)
    then have "(ucast n :: u8) < 255" using small by (simp add: word_less_nat_alt)
    moreover have "ucast (ucast n :: u8) = n"
      using small by (intro ucast_ucast_small) simp
    ultimately show ?thesis using False
      by (simp add: ux16_enc.simps [of n])
  qed
qed

subsection \<open>Writing at an offset\<close>

text \<open>\<open>offset += write_x(&mut buf[offset..], v)\<close>.\<close>

definition write_at ::
    "(bytes \<Rightarrow> (bytes \<times> nat) presult) \<Rightarrow> bytes \<times> nat \<Rightarrow> (bytes \<times> nat) presult" where
  "write_at w st = (case st of (buf, offset) \<Rightarrow>
     rbind (slice_from buf offset) (\<lambda>s.
     rbind (w s) (\<lambda>(s, k). Ok (take offset buf @ s, offset + k))))"

subsection \<open>The interface of a writer/reader pair\<close>

locale wire_codec =
  fixes put :: "bytes \<Rightarrow> 'v \<Rightarrow> (bytes \<times> nat) presult"
    and get :: "bytes \<Rightarrow> ('v \<times> bytes) presult"
    and enc :: "'v \<Rightarrow> bytes"
    and valid :: "'v \<Rightarrow> bool"
  assumes put_enc: "valid v \<Longrightarrow> length (enc v) \<le> length data \<Longrightarrow>
      put data v = Ok (enc v @ drop (length (enc v)) data, length (enc v))"
    and put_short: "valid v \<Longrightarrow> length data < length (enc v) \<Longrightarrow> put data v = Panic"
    and get_enc: "valid v \<Longrightarrow> get (enc v @ rest) = Ok (v, rest)"
begin

lemma put_Ok_iff:
  assumes "valid v"
  shows "put data v = Ok (data', k) \<longleftrightarrow>
    length (enc v) \<le> length data \<and> k = length (enc v) \<and> data' = enc v @ drop k data"
  using assms put_enc [of v data] put_short [of v data]
  by (cases "length (enc v) \<le> length data") auto

lemma roundtrip:
  assumes "valid v" and "put data v = Ok (data', k)"
  shows "get data' = Ok (v, drop k data')"
  using assms by (auto simp: put_Ok_iff get_enc)

lemma write_at_enc:
  assumes "valid v" and "length (enc v) \<le> length rest"
  shows "write_at (\<lambda>s. put s v) (out @ rest, length out) =
    Ok ((out @ enc v) @ drop (length (enc v)) rest, length (out @ enc v))"
  using assms by (simp add: write_at_def slice_from_def put_enc)

lemma enc_prefix_free:
  assumes "valid v" and "valid w" and "enc v @ xs = enc w @ ys"
  shows "v = w \<and> xs = ys"
proof -
  have "Ok (v, xs) = get (enc v @ xs)" using get_enc [OF assms(1)] by simp
  also have "\<dots> = get (enc w @ ys)" by (simp only: assms(3))
  also have "\<dots> = Ok (w, ys)" using get_enc [OF assms(2)] by simp
  finally show ?thesis by simp
qed

end

interpretation ux16: wire_codec write_ux16 read_ux16 ux16_enc "\<lambda>_. True"
  by unfold_locales (simp_all add: write_ux16_enc write_ux16_short read_ux16_enc)

interpretation u8: wire_codec write_u8 read_u8 "\<lambda>n. [n]" "\<lambda>_. True"
proof unfold_locales
  fix v :: u8 and data :: bytes
  show "length [v] \<le> length data \<Longrightarrow> write_u8 data v = Ok ([v] @ drop (length [v]) data, length [v])"
    by (cases data) (auto simp: write_u8_def set_index_def)
qed (auto simp: write_u8_def set_index_def read_u8_def extract_part_def slice_def
    slice_from_def at_index_def)

interpretation u64: wire_codec write_u64 read_u64 u64_le "\<lambda>_. True"
  by unfold_locales
    (simp_all add: write_u64_def read_u64_def extract_part_def copy_at_def slice_def
      slice_from_def)

interpretation raw: wire_codec write_bytes "read_bytes n" "\<lambda>b. b" "\<lambda>b. length b = n" for n
  by unfold_locales
    (auto simp: write_bytes_def read_bytes_def extract_part_def copy_at_def slice_def
      slice_from_def)

lemmas write_at_encs = u8.write_at_enc u64.write_at_enc ux16.write_at_enc raw.write_at_enc
lemmas read_encs = u8.get_enc u64.get_enc ux16.get_enc raw.get_enc

text \<open>
  Writing a \<open>u16\<close> takes one byte per full 255 and one more, panics
  exactly when the buffer is shorter than that, and leaves the rest of the buffer alone;
  reading the bytes written gives the number back and the bytes that follow.
\<close>

theorem ux16_roundtrip:
  "write_ux16 data n =
     (if unat n div 255 + 1 \<le> length data
      then Ok (ux16_enc n @ drop (unat n div 255 + 1) data, unat n div 255 + 1) else Panic) \<and>
   read_ux16 (ux16_enc n @ rest) = Ok (n, rest)"
  using ux16.put_enc [where v = n and data = data] ux16.put_short [where v = n and data = data]
    ux16.get_enc [where v = n and rest = rest]
  by (auto simp: length_ux16_enc)

end
