(* ===== verification/Exec_Runtime.thy ===== *)
theory Exec_Runtime
  imports Exec_Utils
begin

text \<open>
  The environment of the executor program and its helpers: \<^verbatim>\<open>token.rs\<close>,
  \<^verbatim>\<open>create_pda.rs\<close> and \<^verbatim>\<open>logs.rs\<close> of \<^verbatim>\<open>programs/autobahn-executor/src\<close>.

  The chain is a store of accounts by address, so that two account handles with the same
  key alias the same account, and the log. Everything the program calls outside the
  repository (the token programs' account decoders and instruction builders, the system
  program, program-derived addresses, rent and the cross-program invocation itself) is a
  field of the \<open>runtime\<close> record, a parameter of every operation. An operation returns the
  chain after it, an error (the transaction is rolled back) or a panic (the same).

  Not modelled: \<open>msg!\<close> output, compute budget, \<open>RefCell\<close> borrow state (the program takes
  shared borrows only, so \<open>try_borrow_data\<close> succeeds) and pointer alignment in \<open>bytemuck\<close>.
\<close>

type_synonym pubkey = "256 word"

record account_info =
  ai_key :: pubkey
  ai_is_signer :: bool
  ai_is_writable :: bool

record account_meta =
  am_pubkey :: pubkey
  am_is_signer :: bool
  am_is_writable :: bool

record instruction =
  ix_program_id :: pubkey
  ix_accounts :: "account_meta list"
  ix_data :: bytes

record account =
  acc_lamports :: u64
  acc_owner :: pubkey
  acc_data :: bytes

record chain =
  chain_accounts :: "pubkey \<Rightarrow> account"
  chain_logs :: "bytes list"

record token_account =
  ta_mint :: pubkey
  ta_owner :: pubkey
  ta_amount :: u64

text \<open>Code outside the repository.\<close>

record runtime =
  spl_token_id :: pubkey
  spl_token_2022_id :: pubkey
  system_program_id :: pubkey
  rt_invoke :: "instruction \<Rightarrow> account_info list \<Rightarrow> bytes list list \<Rightarrow> chain \<Rightarrow> chain presult"
  rt_create_program_address :: "bytes list \<Rightarrow> pubkey \<Rightarrow> pubkey presult"
  rt_rent_get :: "(nat \<Rightarrow> u64) presult"
  rt_token_len :: nat
  rt_unpack_token :: "bytes \<Rightarrow> token_account presult"
  rt_unpack_token_2022 :: "bytes \<Rightarrow> token_account presult"
  rt_unpack_mint_decimals :: "bytes \<Rightarrow> u8 presult"
  rt_mint_extension_types :: "bytes \<Rightarrow> u16 list presult"
  rt_required_init_extensions :: "u16 list \<Rightarrow> u16 list"
  rt_calculate_account_len :: "u16 list \<Rightarrow> nat presult"
  rt_token_transfer ::
    "pubkey \<Rightarrow> pubkey \<Rightarrow> pubkey \<Rightarrow> pubkey \<Rightarrow> pubkey list \<Rightarrow> u64 \<Rightarrow> instruction presult"
  rt_token_2022_transfer_checked ::
    "pubkey \<Rightarrow> pubkey \<Rightarrow> pubkey \<Rightarrow> pubkey \<Rightarrow> pubkey \<Rightarrow> pubkey list \<Rightarrow> u64 \<Rightarrow> u8 \<Rightarrow>
     instruction presult"
  rt_initialize_account3 :: "pubkey \<Rightarrow> pubkey \<Rightarrow> pubkey \<Rightarrow> pubkey \<Rightarrow> instruction presult"
  rt_system_transfer :: "pubkey \<Rightarrow> pubkey \<Rightarrow> u64 \<Rightarrow> instruction"
  rt_system_allocate :: "pubkey \<Rightarrow> u64 \<Rightarrow> instruction"
  rt_system_assign :: "pubkey \<Rightarrow> pubkey \<Rightarrow> instruction"
  rt_system_create_account :: "pubkey \<Rightarrow> pubkey \<Rightarrow> u64 \<Rightarrow> u64 \<Rightarrow> pubkey \<Rightarrow> instruction"

abbreviation account_of :: "chain \<Rightarrow> account_info \<Rightarrow> account" where
  "account_of ch ai \<equiv> chain_accounts ch (ai_key ai)"

text \<open>A public key is 32 bytes; the word is their big-endian reading, which is what the
  base-58 form of a key denotes.\<close>

definition pubkey_bytes :: "pubkey \<Rightarrow> bytes" where
  "pubkey_bytes k = rev (le_bytes 32 (unat k))"

definition pubkey_of_bytes :: "bytes \<Rightarrow> pubkey" where
  "pubkey_of_bytes bs = of_nat (le_val (rev bs))"

lemma length_pubkey_bytes [simp]: "length (pubkey_bytes k) = 32"
  by (simp add: pubkey_bytes_def)

lemma pubkey_of_bytes_inverse [simp]: "pubkey_of_bytes (pubkey_bytes k) = k"
proof -
  have "unat k < 2 ^ LENGTH(256)" by (rule unsigned_less)
  then have "unat k < 256 ^ 32" by simp
  then show ?thesis by (simp add: pubkey_bytes_def pubkey_of_bytes_def le_val_le_bytes)
qed

definition default_pubkey :: pubkey where
  "default_pubkey = 0"

text \<open>\<open>declare_id!("AutobNFLMzX1rFCDgwWpwr3ztG5c1oDbSrGq7Jj2LgE")\<close>.\<close>

definition crate_id :: pubkey where
  "crate_id = 1148510256978099333548209149406633146279044529025163764478059562747513138039"

subsection \<open>Logging (logs.rs)\<close>

record swap_event =
  se_input_mint :: pubkey
  se_input_amount :: u64
  se_output_mint :: pubkey
  se_output_amount :: u64

record platform_fee_log =
  pf_user :: pubkey
  pf_platform_token_account :: pubkey
  pf_platform_fee :: u64

record referrer_fee_log =
  rf_referee :: pubkey
  rf_referer_token_account :: pubkey
  rf_referrer_fee :: u64

record referrer_withdraw_log =
  rw_referer :: pubkey
  rw_referer_token_account :: pubkey
  rw_amount :: u64

record create_referral_log =
  cr_referee :: pubkey
  cr_referer :: pubkey
  cr_vault :: pubkey
  cr_mint :: pubkey

definition PLATFORM_FEE_LOG_DISCRIMINANT :: bytes where
  "PLATFORM_FEE_LOG_DISCRIMINANT = [160, 183, 104, 34, 255, 190, 119, 188]"

definition REFERRER_FEE_LOG_DISCRIMINANT :: bytes where
  "REFERRER_FEE_LOG_DISCRIMINANT = [198, 149, 221, 27, 28, 103, 76, 95]"

definition REFERRER_WITHDRAW_LOG_DISCRIMINANT :: bytes where
  "REFERRER_WITHDRAW_LOG_DISCRIMINANT = [25, 7, 239, 41, 67, 36, 141, 92]"

definition SWAP_EVENT_DISCRIMINANT :: bytes where
  "SWAP_EVENT_DISCRIMINANT = [56, 178, 48, 245, 42, 152, 27, 75]"

definition CREATE_REFERRAL_LOG_DISCRIMINANT :: bytes where
  "CREATE_REFERRAL_LOG_DISCRIMINANT = [114, 188, 157, 65, 100, 179, 129, 169]"

text \<open>The \<open>repr(C)\<close> layout of the events: fields in order, no padding.\<close>

definition swap_event_pod :: "swap_event \<Rightarrow> bytes" where
  "swap_event_pod e = pubkey_bytes (se_input_mint e) @ u64_le (se_input_amount e)
     @ pubkey_bytes (se_output_mint e) @ u64_le (se_output_amount e)"

definition platform_fee_pod :: "platform_fee_log \<Rightarrow> bytes" where
  "platform_fee_pod e = pubkey_bytes (pf_user e) @ pubkey_bytes (pf_platform_token_account e)
     @ u64_le (pf_platform_fee e)"

definition referrer_fee_pod :: "referrer_fee_log \<Rightarrow> bytes" where
  "referrer_fee_pod e = pubkey_bytes (rf_referee e) @ pubkey_bytes (rf_referer_token_account e)
     @ u64_le (rf_referrer_fee e)"

definition referrer_withdraw_pod :: "referrer_withdraw_log \<Rightarrow> bytes" where
  "referrer_withdraw_pod e = pubkey_bytes (rw_referer e)
     @ pubkey_bytes (rw_referer_token_account e) @ u64_le (rw_amount e)"

definition create_referral_pod :: "create_referral_log \<Rightarrow> bytes" where
  "create_referral_pod e = pubkey_bytes (cr_referee e) @ pubkey_bytes (cr_referer e)
     @ pubkey_bytes (cr_vault e) @ pubkey_bytes (cr_mint e)"

text \<open>\<open>emit_stack\<close> takes the discriminant and the bytes of the event.\<close>

definition emit_stack :: "bytes \<Rightarrow> bytes \<Rightarrow> chain \<Rightarrow> chain presult" where
  "emit_stack discriminant e ch =
     (let buffer = replicate 3000 (0 :: u8) in
      rbind (copy_at buffer 0 discriminant) (\<lambda>buffer.
      rbind (copy_at buffer 8 e) (\<lambda>buffer.
      rbind (slice buffer 0 (length e + 8)) (\<lambda>record.
      Ok (ch\<lparr>chain_logs := chain_logs ch @ [record]\<rparr>)))))"

lemma emit_stack_Ok:
  assumes "length d = 8" and "length e \<le> 2992"
  shows "emit_stack d e ch = Ok (ch\<lparr>chain_logs := chain_logs ch @ [d @ e]\<rparr>)"
  using assms by (simp add: emit_stack_def copy_at_def slice_def)

lemmas discriminant_defs = PLATFORM_FEE_LOG_DISCRIMINANT_def REFERRER_FEE_LOG_DISCRIMINANT_def
  REFERRER_WITHDRAW_LOG_DISCRIMINANT_def SWAP_EVENT_DISCRIMINANT_def
  CREATE_REFERRAL_LOG_DISCRIMINANT_def

lemma length_discriminants [simp]:
  "length PLATFORM_FEE_LOG_DISCRIMINANT = 8" "length REFERRER_FEE_LOG_DISCRIMINANT = 8"
  "length REFERRER_WITHDRAW_LOG_DISCRIMINANT = 8" "length SWAP_EVENT_DISCRIMINANT = 8"
  "length CREATE_REFERRAL_LOG_DISCRIMINANT = 8"
  by (simp_all add: discriminant_defs)

lemma length_pods [simp]:
  "length (swap_event_pod se) = 80" "length (platform_fee_pod pf) = 72"
  "length (referrer_fee_pod rf) = 72" "length (referrer_withdraw_pod rw) = 72"
  "length (create_referral_pod cr) = 128"
  by (simp_all add: swap_event_pod_def platform_fee_pod_def referrer_fee_pod_def
      referrer_withdraw_pod_def create_referral_pod_def)

lemma emit_stack_accounts:
  "emit_stack d e ch = Ok ch' \<Longrightarrow> chain_accounts ch' = chain_accounts ch"
  by (auto simp: emit_stack_def Let_def)

lemma emit_stack_not_Err [simp]: "emit_stack d e ch \<noteq> Err x"
  by (simp add: emit_stack_def)

subsection \<open>Program-derived accounts (create_pda.rs)\<close>

definition create_pda_account ::
    "runtime \<Rightarrow> account_info \<Rightarrow> (nat \<Rightarrow> u64) \<Rightarrow> nat \<Rightarrow> pubkey \<Rightarrow> account_info \<Rightarrow> account_info \<Rightarrow>
     bytes list \<Rightarrow> chain \<Rightarrow> chain presult" where
  "create_pda_account rt payer minimum_balance space owner system_program new_pda_account
       new_pda_signer_seeds ch =
     (if acc_lamports (account_of ch new_pda_account) > 0 then
        (let required_lamports =
           saturating_sub (max (minimum_balance space) 1) (acc_lamports (account_of ch new_pda_account)) in
         rbind (if required_lamports > 0 then
                  rt_invoke rt
                    (rt_system_transfer rt (ai_key payer) (ai_key new_pda_account) required_lamports)
                    [payer, new_pda_account, system_program] [] ch
                else Ok ch) (\<lambda>ch.
         rbind (rt_invoke rt (rt_system_allocate rt (ai_key new_pda_account) (of_nat space))
                  [new_pda_account, system_program] [new_pda_signer_seeds] ch) (\<lambda>ch.
         rt_invoke rt (rt_system_assign rt (ai_key new_pda_account) owner)
           [new_pda_account, system_program] [new_pda_signer_seeds] ch)))
      else
        rt_invoke rt
          (rt_system_create_account rt (ai_key payer) (ai_key new_pda_account)
             (max (minimum_balance space) 1) (of_nat space) owner)
          [payer, new_pda_account, system_program] [new_pda_signer_seeds] ch)"

subsection \<open>Token accounts (token.rs)\<close>

definition get_balance :: "runtime \<Rightarrow> chain \<Rightarrow> account_info \<Rightarrow> u64 presult" where
  "get_balance rt ch account =
     (let acc = account_of ch account in
      if acc_owner acc = spl_token_id rt then
        rbind (rt_unpack_token rt (acc_data acc)) (\<lambda>token. Ok (ta_amount token))
      else if acc_owner acc = spl_token_2022_id rt then
        rbind (rt_unpack_token_2022 rt (acc_data acc)) (\<lambda>token. Ok (ta_amount token))
      else Err IllegalOwner)"

definition get_mint :: "runtime \<Rightarrow> chain \<Rightarrow> account_info \<Rightarrow> pubkey presult" where
  "get_mint rt ch account =
     (let acc = account_of ch account in
      if acc_owner acc = spl_token_id rt then
        rbind (rt_unpack_token rt (acc_data acc)) (\<lambda>token. Ok (ta_mint token))
      else if acc_owner acc = spl_token_2022_id rt then
        rbind (rt_unpack_token_2022 rt (acc_data acc)) (\<lambda>token. Ok (ta_mint token))
      else Err IllegalOwner)"

definition get_owner :: "runtime \<Rightarrow> chain \<Rightarrow> account_info \<Rightarrow> pubkey presult" where
  "get_owner rt ch account =
     (let acc = account_of ch account in
      if acc_owner acc = spl_token_id rt then
        rbind (rt_unpack_token rt (acc_data acc)) (\<lambda>token. Ok (ta_owner token))
      else if acc_owner acc = spl_token_2022_id rt then
        rbind (rt_unpack_token_2022 rt (acc_data acc)) (\<lambda>token. Ok (ta_owner token))
      else Err IllegalOwner)"

definition intialize ::
    "runtime \<Rightarrow> account_info \<Rightarrow> account_info \<Rightarrow> account_info \<Rightarrow> account_info \<Rightarrow> account_info \<Rightarrow>
     bytes list \<Rightarrow> chain \<Rightarrow> chain presult" where
  "intialize rt payer system_program token_program mint account seeds ch =
     rbind (if ai_key token_program = spl_token_id rt then Ok (rt_token_len rt)
            else if ai_key token_program = spl_token_2022_id rt then
              (let mint_data = acc_data (account_of ch mint) in
               rbind (case rt_unpack_mint_decimals rt mint_data of Ok _ \<Rightarrow> Ok () | _ \<Rightarrow> Panic) (\<lambda>_.
               rbind (rt_mint_extension_types rt mint_data) (\<lambda>mint_extensions.
               rt_calculate_account_len rt (rt_required_init_extensions rt mint_extensions))))
            else Err IllegalOwner) (\<lambda>space.
     rbind (rt_rent_get rt) (\<lambda>rent.
     rbind (create_pda_account rt payer rent space (ai_key token_program) system_program account
              seeds ch) (\<lambda>ch.
     rbind (rt_initialize_account3 rt (ai_key token_program) (ai_key account) (ai_key mint)
              (ai_key account)) (\<lambda>initialize_ix.
     rt_invoke rt initialize_ix [account, mint, token_program] [] ch))))"

definition token_transfer ::
    "runtime \<Rightarrow> account_info \<Rightarrow> account_info \<Rightarrow> account_info \<Rightarrow> account_info \<Rightarrow> account_info \<Rightarrow>
     bytes list \<Rightarrow> u64 \<Rightarrow> chain \<Rightarrow> chain presult" where
  "token_transfer rt program mint source destination authority signer_seeds amount ch =
     (if ai_key program = spl_token_id rt then
        rbind (rt_token_transfer rt (ai_key program) (ai_key source) (ai_key destination)
                 (ai_key authority) [] amount) (\<lambda>transfer_ix.
        if signer_seeds = [] then rt_invoke rt transfer_ix [source, destination, program] [] ch
        else rt_invoke rt transfer_ix [source, destination, program] [signer_seeds] ch)
      else if ai_key program = spl_token_2022_id rt then
        rbind (rt_unpack_mint_decimals rt (acc_data (account_of ch mint))) (\<lambda>decimals.
        rbind (rt_token_2022_transfer_checked rt (ai_key program) (ai_key source) (ai_key mint)
                 (ai_key destination) (ai_key authority) [] amount decimals) (\<lambda>transfer_ix.
        if signer_seeds = [] then rt_invoke rt transfer_ix [source, destination, program] [] ch
        else rt_invoke rt transfer_ix [source, destination, program] [signer_seeds] ch))
      else Err IncorrectProgramId)"

definition verify_program_id :: "runtime \<Rightarrow> pubkey \<Rightarrow> unit presult" where
  "verify_program_id rt address =
     (if spl_token_id rt = address \<or> spl_token_2022_id rt = address then Ok ()
      else Err IncorrectProgramId)"

lemma verify_program_id_Ok [simp]:
  "verify_program_id rt p = Ok u \<longleftrightarrow> p = spl_token_id rt \<or> p = spl_token_2022_id rt"
  by (auto simp: verify_program_id_def)

lemma token_readers_frame:
  assumes "chain_accounts ch' = chain_accounts ch"
  shows "get_balance rt ch' = get_balance rt ch" "get_mint rt ch' = get_mint rt ch"
    "get_owner rt ch' = get_owner rt ch"
  using assms by (auto simp: fun_eq_iff get_balance_def get_mint_def get_owner_def Let_def)

text \<open>The balance of the token account at an address; the readers look at nothing else of
  an account handle.\<close>

definition balance_of :: "runtime \<Rightarrow> chain \<Rightarrow> pubkey \<Rightarrow> u64 presult" where
  "balance_of rt ch k = get_balance rt ch \<lparr>ai_key = k, ai_is_signer = False, ai_is_writable = False\<rparr>"

lemma get_balance_balance_of: "get_balance rt ch ai = balance_of rt ch (ai_key ai)"
  by (simp add: balance_of_def get_balance_def)

lemma balance_of_frame:
  "chain_accounts ch' k = chain_accounts ch k \<Longrightarrow> balance_of rt ch' k = balance_of rt ch k"
  by (simp add: balance_of_def get_balance_def)

text \<open>
  The documented effect of a successful SPL token transfer, which the fee and referral
  theorems rely on: the instruction built by the token program's \<open>transfer\<close> builder moves
  exactly \<open>amount\<close> from source to destination, touches no other account and writes no
  data log.
\<close>

definition token_transfer_law :: "runtime \<Rightarrow> bool" where
  "token_transfer_law rt \<longleftrightarrow>
     (\<forall>p s d a sg amt ix infos seeds ch ch'.
        rt_token_transfer rt p s d a sg amt = Ok ix \<longrightarrow>
        rt_invoke rt ix infos seeds ch = Ok ch' \<longrightarrow> s \<noteq> d \<longrightarrow>
        (\<exists>bs bd.
           balance_of rt ch s = Ok bs \<and> balance_of rt ch d = Ok bd \<and>
           unat amt \<le> unat bs \<and> unat bd + unat amt < 2 ^ 64 \<and>
           balance_of rt ch' s = Ok (bs - amt) \<and> balance_of rt ch' d = Ok (bd + amt) \<and>
           (\<forall>k. k \<noteq> s \<and> k \<noteq> d \<longrightarrow> chain_accounts ch' k = chain_accounts ch k) \<and>
           chain_logs ch' = chain_logs ch))"

lemma token_transfer_lawD:
  assumes "token_transfer_law rt" and "rt_token_transfer rt p s d a sg amt = Ok ix"
    and "rt_invoke rt ix infos seeds ch = Ok ch'" and "s \<noteq> d"
  obtains bs bd where "balance_of rt ch s = Ok bs" "balance_of rt ch d = Ok bd"
    "unat amt \<le> unat bs" "unat bd + unat amt < 2 ^ 64"
    "balance_of rt ch' s = Ok (bs - amt)" "balance_of rt ch' d = Ok (bd + amt)"
    "\<And>k. k \<noteq> s \<Longrightarrow> k \<noteq> d \<Longrightarrow> chain_accounts ch' k = chain_accounts ch k"
    "chain_logs ch' = chain_logs ch"
proof -
  from assms have "\<exists>bs bd. balance_of rt ch s = Ok bs \<and> balance_of rt ch d = Ok bd \<and>
      unat amt \<le> unat bs \<and> unat bd + unat amt < 2 ^ 64 \<and>
      balance_of rt ch' s = Ok (bs - amt) \<and> balance_of rt ch' d = Ok (bd + amt) \<and>
      (\<forall>k. k \<noteq> s \<and> k \<noteq> d \<longrightarrow> chain_accounts ch' k = chain_accounts ch k) \<and>
      chain_logs ch' = chain_logs ch"
    unfolding token_transfer_law_def by fast
  then show thesis using that by (elim exE conjE) simp
qed

end
