(* ===== verification/Exec_Reference_Runtime.thy ===== *)
theory Exec_Reference_Runtime
  imports Exec_Runtime
begin

text \<open>
  A small executable runtime on which theorems about the executor are instantiated: token
  accounts hold a mint, an owner and an amount of eight bytes each, the token program
  executes its transfer instruction (tag 3 and a little-endian amount, as the SPL token
  program lays it out), and a swap program does what \<^verbatim>\<open>programs/mock_swap\<close> does: read two
  amounts, transfer the first from the user to the pool and the second from the pool to
  the user. Its transfer satisfies the documented transfer law.
\<close>

definition ref_token_program :: pubkey where "ref_token_program = 1"
definition ref_system_program :: pubkey where "ref_system_program = 3"
definition ref_swap_program :: pubkey where "ref_swap_program = 9"

definition ref_unpack :: "bytes \<Rightarrow> token_account presult" where
  "ref_unpack data =
     (if length data = 24 then
        Ok \<lparr>ta_mint = of_nat (le_val (take 8 data)),
            ta_owner = of_nat (le_val (take 8 (drop 8 data))),
            ta_amount = u64_of_le (drop 16 data)\<rparr>
      else Err InvalidAccountData)"

definition ref_set_amount :: "u64 \<Rightarrow> account \<Rightarrow> account" where
  "ref_set_amount n acc = acc\<lparr>acc_data := take 16 (acc_data acc) @ u64_le n\<rparr>"

text \<open>A transfer between token accounts, as the token program performs it.\<close>

definition ref_move :: "pubkey \<Rightarrow> pubkey \<Rightarrow> u64 \<Rightarrow> chain \<Rightarrow> chain presult" where
  "ref_move s d amt ch =
     (let src = chain_accounts ch s; dst = chain_accounts ch d in
      if acc_owner src \<noteq> ref_token_program \<or> acc_owner dst \<noteq> ref_token_program then Err IllegalOwner
      else rbind (ref_unpack (acc_data src)) (\<lambda>ts.
           rbind (ref_unpack (acc_data dst)) (\<lambda>td.
           if ta_amount ts < amt then Err InsufficientFunds
           else if s = d then Ok ch
           else rbind (ok_or ArithmeticOverflow (checked_add (ta_amount td) amt)) (\<lambda>n.
           Ok (ch\<lparr>chain_accounts := (chain_accounts ch)
                 (s := ref_set_amount (ta_amount ts - amt) src, d := ref_set_amount n dst)\<rparr>)))))"

definition ref_invoke ::
    "instruction \<Rightarrow> account_info list \<Rightarrow> bytes list list \<Rightarrow> chain \<Rightarrow> chain presult" where
  "ref_invoke ix infos seeds ch =
     (if ix_program_id ix = ref_token_program then
        (case (ix_data ix, map am_pubkey (ix_accounts ix)) of
           (tag # amount, s # d # _) \<Rightarrow>
             if tag = 3 \<and> length amount = 8 then ref_move s d (u64_of_le amount) ch
             else Err InvalidInstructionData
         | _ \<Rightarrow> Err InvalidInstructionData)
      else if ix_program_id ix = ref_swap_program then
        (case map am_pubkey (ix_accounts ix) of
           [_, _, s1, d1, _, s2, d2] \<Rightarrow>
             rbind (slice (ix_data ix) 0 8) (\<lambda>a.
             rbind (slice (ix_data ix) 8 16) (\<lambda>b.
             rbind (ref_move s1 d1 (u64_of_le a) ch) (\<lambda>ch.
             ref_move s2 d2 (u64_of_le b) ch)))
         | _ \<Rightarrow> Err NotEnoughAccountKeys)
      else Err IncorrectProgramId)"

definition ref_transfer_ix ::
    "pubkey \<Rightarrow> pubkey \<Rightarrow> pubkey \<Rightarrow> pubkey \<Rightarrow> pubkey list \<Rightarrow> u64 \<Rightarrow> instruction presult" where
  "ref_transfer_ix p s d a signers amt =
     (if p = ref_token_program then
        Ok \<lparr>ix_program_id = p,
            ix_accounts =
              [\<lparr>am_pubkey = s, am_is_signer = False, am_is_writable = True\<rparr>,
               \<lparr>am_pubkey = d, am_is_signer = False, am_is_writable = True\<rparr>,
               \<lparr>am_pubkey = a, am_is_signer = True, am_is_writable = False\<rparr>],
            ix_data = 3 # u64_le amt\<rparr>
      else Err IncorrectProgramId)"

definition ref_runtime :: runtime where
  "ref_runtime = \<lparr>spl_token_id = ref_token_program, spl_token_2022_id = 2,
     system_program_id = ref_system_program, rt_invoke = ref_invoke,
     rt_create_program_address = (\<lambda>seeds p. Ok (of_nat (100 + length (concat seeds)))),
     rt_rent_get = Ok (\<lambda>space. of_nat space), rt_token_len = 24,
     rt_unpack_token = ref_unpack, rt_unpack_token_2022 = ref_unpack,
     rt_unpack_mint_decimals = (\<lambda>_. Ok 6), rt_mint_extension_types = (\<lambda>_. Ok []),
     rt_required_init_extensions = (\<lambda>xs. xs), rt_calculate_account_len = (\<lambda>_. Ok 24),
     rt_token_transfer = ref_transfer_ix,
     rt_token_2022_transfer_checked = (\<lambda>p s m d a sg amt dec. Err InvalidArgument),
     rt_initialize_account3 = (\<lambda>p acc m ow. Err InvalidArgument),
     rt_system_transfer = (\<lambda>s d n. \<lparr>ix_program_id = ref_system_program, ix_accounts = [], ix_data = []\<rparr>),
     rt_system_allocate = (\<lambda>k n. \<lparr>ix_program_id = ref_system_program, ix_accounts = [], ix_data = []\<rparr>),
     rt_system_assign = (\<lambda>k p. \<lparr>ix_program_id = ref_system_program, ix_accounts = [], ix_data = []\<rparr>),
     rt_system_create_account =
       (\<lambda>s d n sp ow. \<lparr>ix_program_id = ref_system_program, ix_accounts = [], ix_data = []\<rparr>)\<rparr>"

lemma ref_runtime_simps [simp]:
  "spl_token_id ref_runtime = 1" "spl_token_2022_id ref_runtime = 2"
  "system_program_id ref_runtime = 3" "rt_invoke ref_runtime = ref_invoke"
  "rt_unpack_token ref_runtime = ref_unpack" "rt_unpack_token_2022 ref_runtime = ref_unpack"
  "rt_token_transfer ref_runtime = ref_transfer_ix"
  "rt_create_program_address ref_runtime =
     (\<lambda>seeds p. Ok (of_nat (100 + length (concat seeds))))"
  by (simp_all add: ref_runtime_def ref_token_program_def ref_system_program_def)

lemma ref_balance:
  "balance_of ref_runtime ch k =
     (let acc = chain_accounts ch k in
      if acc_owner acc = 1 \<or> acc_owner acc = 2 then
        rbind (ref_unpack (acc_data acc)) (\<lambda>t. Ok (ta_amount t))
      else Err IllegalOwner)"
  by (simp add: balance_of_def get_balance_def Let_def)

lemma ref_unpack_set_amount:
  assumes "ref_unpack (acc_data acc) = Ok t"
  shows "ref_unpack (acc_data (ref_set_amount n acc)) = Ok (t\<lparr>ta_amount := n\<rparr>)"
  using assms by (auto simp: ref_unpack_def ref_set_amount_def drop_take split: if_splits)

lemma ref_set_amount_owner [simp]: "acc_owner (ref_set_amount n acc) = acc_owner acc"
  by (simp add: ref_set_amount_def)

lemma ref_move_effect:
  assumes "ref_move s d amt ch = Ok ch'" and "s \<noteq> d"
  shows "\<exists>bs bd. balance_of ref_runtime ch s = Ok bs \<and> balance_of ref_runtime ch d = Ok bd \<and>
    unat amt \<le> unat bs \<and> unat bd + unat amt < 2 ^ 64 \<and>
    balance_of ref_runtime ch' s = Ok (bs - amt) \<and> balance_of ref_runtime ch' d = Ok (bd + amt) \<and>
    (\<forall>k. k \<noteq> s \<and> k \<noteq> d \<longrightarrow> chain_accounts ch' k = chain_accounts ch k) \<and>
    chain_logs ch' = chain_logs ch"
proof -
  let ?src = "chain_accounts ch s" and ?dst = "chain_accounts ch d"
  from assms obtain ts td n where
    own: "acc_owner ?src = 1" "acc_owner ?dst = 1"
    and ts: "ref_unpack (acc_data ?src) = Ok ts" and td: "ref_unpack (acc_data ?dst) = Ok td"
    and le: "\<not> ta_amount ts < amt" and n: "checked_add (ta_amount td) amt = Some n"
    and ch': "ch' = ch\<lparr>chain_accounts := (chain_accounts ch)
        (s := ref_set_amount (ta_amount ts - amt) ?src, d := ref_set_amount n ?dst)\<rparr>"
    by (auto simp: ref_move_def Let_def ref_token_program_def split: if_splits)
  have n_eq: "n = ta_amount td + amt" and bound: "unat (ta_amount td) + unat amt < 2 ^ 64"
    using n by (auto simp: checked_add_def split: if_splits)
  have "balance_of ref_runtime ch' s = Ok (ta_amount ts - amt)"
    using assms(2) own ref_unpack_set_amount [OF ts] by (simp add: ref_balance ch')
  moreover have "balance_of ref_runtime ch' d = Ok (ta_amount td + amt)"
    using own ref_unpack_set_amount [OF td] by (simp add: ref_balance ch' n_eq)
  ultimately show ?thesis
    using own ts td le bound by (auto simp: ref_balance ch' word_less_nat_alt)
qed

lemma ref_transfer_law: "token_transfer_law ref_runtime"
  unfolding token_transfer_law_def
proof (intro allI impI)
  fix p s d a sg amt ix infos seeds ch ch'
  assume ix: "rt_token_transfer ref_runtime p s d a sg amt = Ok ix"
    and inv: "rt_invoke ref_runtime ix infos seeds ch = Ok ch'" and "s \<noteq> d"
  from ix inv have "ref_move s d amt ch = Ok ch'"
    by (auto simp: ref_transfer_ix_def ref_invoke_def split: if_splits)
  then show "\<exists>bs bd. balance_of ref_runtime ch s = Ok bs \<and> balance_of ref_runtime ch d = Ok bd \<and>
    unat amt \<le> unat bs \<and> unat bd + unat amt < 2 ^ 64 \<and>
    balance_of ref_runtime ch' s = Ok (bs - amt) \<and> balance_of ref_runtime ch' d = Ok (bd + amt) \<and>
    (\<forall>k. k \<noteq> s \<and> k \<noteq> d \<longrightarrow> chain_accounts ch' k = chain_accounts ch k) \<and>
    chain_logs ch' = chain_logs ch"
    using \<open>s \<noteq> d\<close> by (rule ref_move_effect)
qed

text \<open>A chain of token accounts: the user 20 (owner 7) and the pool accounts 30 and 31 hold
  tokens of mints 5 and 6.\<close>

definition ref_token :: "nat \<Rightarrow> nat \<Rightarrow> u64 \<Rightarrow> account" where
  "ref_token mint owner amount =
     \<lparr>acc_lamports = 1, acc_owner = ref_token_program,
      acc_data = le_bytes 8 mint @ le_bytes 8 owner @ u64_le amount\<rparr>"

definition ref_chain :: chain where
  "ref_chain =
     \<lparr>chain_accounts = (\<lambda>_. ref_token 5 7 0)
        (20 := ref_token 5 7 1000, 21 := ref_token 6 7 50,
         30 := ref_token 5 8 5000, 31 := ref_token 6 8 6000),
      chain_logs = []\<rparr>"

definition ref_info :: "pubkey \<Rightarrow> bool \<Rightarrow> account_info" where
  "ref_info k signer = \<lparr>ai_key = k, ai_is_signer = signer, ai_is_writable = True\<rparr>"

lemma ref_info_simps [simp]:
  "ai_key (ref_info k s) = k" "ai_is_signer (ref_info k s) = s" "ai_is_writable (ref_info k s)"
  by (simp_all add: ref_info_def)

end
