(* ===== verification/Exec_Swap.thy ===== *)
theory Exec_Swap
  imports Exec_Reference_Runtime
begin

text \<open>
  Multi-hop swaps: \<^verbatim>\<open>swap_ix.rs\<close>, the client-side assembly of a swap instruction, and
  \<^verbatim>\<open>execute_swap_v2.rs\<close>, \<^verbatim>\<open>execute_swap_v3.rs\<close>, the on-chain parse-and-invoke loops.

  The abstract specification is \<open>run_route\<close>: it executes the hops of a route one after
  the other with no byte format in sight. The refinement theorem at the end says that the
  on-chain loop on the assembled bytes is the abstract run.
\<close>

subsection \<open>Assembling the instruction (swap_ix.rs)\<close>

text \<open>One turn of the loop of \<open>generate_swap_ix_data\<close>: the buffer and offset, and the
  account list so far.\<close>

definition write_hop ::
    "instruction \<times> u16 \<times> pubkey \<Rightarrow> (bytes \<times> nat) \<times> account_meta list \<Rightarrow>
     ((bytes \<times> nat) \<times> account_meta list) presult" where
  "write_hop hop st = (case hop of (ix, in_amount_offset, out_account) \<Rightarrow>
     case st of (buf, accounts) \<Rightarrow>
     rbind (write_at (\<lambda>s. write_ux16 s (of_nat (length (ix_data ix)))) buf) (\<lambda>buf.
     rbind (write_at (\<lambda>s. write_ux16 s in_amount_offset) buf) (\<lambda>buf.
     rbind (write_at (\<lambda>s. write_bytes s (ix_data ix)) buf) (\<lambda>buf.
     rbind (padd 2 (of_nat (length (ix_accounts ix)))) (\<lambda>count.
     rbind (write_at (\<lambda>s. write_u8 s count) buf) (\<lambda>buf.
     Ok (buf, accounts
        @ [\<lparr>am_pubkey = out_account, am_is_signer = False, am_is_writable = True\<rparr>,
           \<lparr>am_pubkey = ix_program_id ix, am_is_signer = False, am_is_writable = False\<rparr>]
        @ ix_accounts ix)))))))"

fun write_hops ::
    "(instruction \<times> u16 \<times> pubkey) list \<Rightarrow> (bytes \<times> nat) \<times> account_meta list \<Rightarrow>
     ((bytes \<times> nat) \<times> account_meta list) presult" where
  "write_hops [] st = Ok st"
| "write_hops (hop # hops) st = rbind (write_hop hop st) (write_hops hops)"

definition generate_swap_ix_data ::
    "u64 \<Rightarrow> instruction list \<Rightarrow> u16 list \<Rightarrow> pubkey \<Rightarrow> pubkey list \<Rightarrow> pubkey \<Rightarrow> u8 \<Rightarrow>
     instruction presult" where
  "generate_swap_ix_data min_out_amount instructions in_amount_offsets in_account out_accounts
       program_id router_version =
     (let accounts = [\<lparr>am_pubkey = in_account, am_is_signer = False, am_is_writable = True\<rparr>];
          result = replicate 1232 (0 :: u8) in
      rbind (padd 1 (push_bit 4 router_version)) (\<lambda>discriminator.
      rbind (write_at (\<lambda>s. write_u8 s discriminator) (result, 0)) (\<lambda>buf.
      rbind (write_at (\<lambda>s. write_u64 s min_out_amount) buf) (\<lambda>buf.
      rbind (write_at (\<lambda>s. write_u8 s (of_nat (length instructions))) buf) (\<lambda>buf.
      rbind (write_hops (zip instructions (zip in_amount_offsets out_accounts)) (buf, accounts))
        (\<lambda>((result, offset), accounts).
      rbind (slice result 0 offset) (\<lambda>data.
      Ok \<lparr>ix_program_id = program_id, ix_accounts = accounts, ix_data = data\<rparr>)))))))"

subsection \<open>The on-chain loop\<close>

definition meta_of :: "account_info \<Rightarrow> account_meta" where
  "meta_of ai = \<lparr>am_pubkey = ai_key ai, am_is_signer = ai_is_signer ai,
     am_is_writable = ai_is_writable ai\<rparr>"

text \<open>Parsing one hop and building the instruction to invoke: the instruction, the hop's
  accounts and the rest of the data. From the second hop on, eight bytes at
  \<open>in_amount_offset\<close> are overwritten with the previous hop's output.\<close>

definition build_hop ::
    "account_info list \<Rightarrow> nat \<Rightarrow> u64 \<Rightarrow> nat \<Rightarrow> bytes \<Rightarrow>
     (instruction \<times> account_info list \<times> bytes) presult" where
  "build_hop accounts ix_index in_amount ix_account_index instruction_data =
     rbind (read_ux16 instruction_data) (\<lambda>(ix_size, instruction_data).
     rbind (read_ux16 instruction_data) (\<lambda>(in_amount_offset, instruction_data).
     rbind (read_bytes (unat ix_size) instruction_data) (\<lambda>(ix_data, instruction_data).
     rbind (read_u8 instruction_data) (\<lambda>(ix_account_count, instruction_data).
     rbind (slice accounts ix_account_index (ix_account_index + unat ix_account_count))
       (\<lambda>ix_accounts.
     rbind (if ix_index > 0 then copy_at ix_data (unat in_amount_offset) (u64_le in_amount)
            else Ok ix_data) (\<lambda>ix_data.
     rbind (at_index ix_accounts 1) (\<lambda>program.
     rbind (slice_from ix_accounts 2) (\<lambda>rest.
     Ok (\<lparr>ix_program_id = ai_key program, ix_accounts = map meta_of rest, ix_data = ix_data\<rparr>,
         ix_accounts, instruction_data)))))))))"

text \<open>\<open>execute_swap_v2\<close>: \<open>remaining\<close> counts the hops still to run.\<close>

fun swap_v2_loop ::
    "runtime \<Rightarrow> account_info list \<Rightarrow> nat \<Rightarrow> nat \<Rightarrow> u64 \<Rightarrow> nat \<Rightarrow> bytes \<Rightarrow> chain \<Rightarrow>
     (u64 \<times> chain) presult" where
  "swap_v2_loop rt accounts 0 ix_index in_amount ix_account_index data ch = Ok (in_amount, ch)"
| "swap_v2_loop rt accounts (Suc remaining) ix_index in_amount ix_account_index data ch =
     rbind (build_hop accounts ix_index in_amount ix_account_index data)
       (\<lambda>(instruction, ix_accounts, data).
     rbind (at_index ix_accounts 0) (\<lambda>ix_token_account.
     rbind (get_balance rt ch ix_token_account) (\<lambda>balance_before.
     rbind (rt_invoke rt instruction ix_accounts [] ch) (\<lambda>ch.
     rbind (get_balance rt ch ix_token_account) (\<lambda>balance_after.
     rbind (psub balance_after balance_before) (\<lambda>in_amount.
     swap_v2_loop rt accounts remaining (Suc ix_index) in_amount
       (ix_account_index + length ix_accounts) data ch))))))"

definition execute_swap_v2 ::
    "runtime \<Rightarrow> account_info list \<Rightarrow> bytes \<Rightarrow> u8 \<Rightarrow> chain \<Rightarrow> chain presult" where
  "execute_swap_v2 rt accounts instruction_data router_version ch =
     rbind (read_u64 instruction_data) (\<lambda>(min_out_amount, instruction_data).
     rbind (read_u8 instruction_data) (\<lambda>(number_of_ix, instruction_data).
     rbind (swap_v2_loop rt accounts (unat number_of_ix) 0 0 0 instruction_data ch)
       (\<lambda>(in_amount, ch).
     if in_amount < min_out_amount then Err (Custom 1) else Ok ch)))"

text \<open>The mutable variables of \<open>execute_swap_v3\<close>.\<close>

record swap_state =
  ss_in_amount :: u64
  ss_in_mint :: pubkey
  ss_account_index :: nat
  ss_data :: bytes
  ss_input_amount :: u64
  ss_input_mint :: pubkey
  ss_output_amount :: u64
  ss_output_mint :: pubkey

fun swap_v3_loop ::
    "runtime \<Rightarrow> account_info list \<Rightarrow> u64 \<Rightarrow> nat \<Rightarrow> nat \<Rightarrow> swap_state \<Rightarrow> chain \<Rightarrow>
     (swap_state \<times> chain) presult" where
  "swap_v3_loop rt accounts input_balance 0 ix_index st ch = Ok (st, ch)"
| "swap_v3_loop rt accounts input_balance (Suc remaining) ix_index st ch =
     rbind (build_hop accounts ix_index (ss_in_amount st) (ss_account_index st) (ss_data st))
       (\<lambda>(instruction, ix_accounts, data).
     rbind (at_index ix_accounts 0) (\<lambda>ix_token_account.
     rbind (get_balance rt ch ix_token_account) (\<lambda>balance_before.
     rbind (rt_invoke rt instruction ix_accounts [] ch) (\<lambda>ch.
     rbind (get_balance rt ch ix_token_account) (\<lambda>balance_after.
     rbind (psub balance_after balance_before) (\<lambda>out_amount.
     rbind (get_mint rt ch ix_token_account) (\<lambda>out_mint.
     rbind (if ix_index = 0 then
              rbind (at_index accounts 0) (\<lambda>input_account.
              rbind (get_balance rt ch input_account) (\<lambda>balance.
              rbind (psub input_balance balance) (\<lambda>input_amount.
              Ok (st\<lparr>ss_input_amount := input_amount, ss_input_mint := ss_in_mint st\<rparr>))))
            else Ok st) (\<lambda>st.
     swap_v3_loop rt accounts input_balance remaining (Suc ix_index)
       (st\<lparr>ss_in_amount := out_amount, ss_in_mint := out_mint, ss_data := data,
           ss_account_index := ss_account_index st + length ix_accounts,
           ss_output_amount := out_amount, ss_output_mint := out_mint\<rparr>) ch))))))))"

definition execute_swap_v3 ::
    "runtime \<Rightarrow> account_info list \<Rightarrow> bytes \<Rightarrow> u8 \<Rightarrow> chain \<Rightarrow> chain presult" where
  "execute_swap_v3 rt accounts instruction_data router_version ch =
     rbind (read_u64 instruction_data) (\<lambda>(min_out_amount, instruction_data).
     rbind (read_u8 instruction_data) (\<lambda>(number_of_ix, instruction_data).
     rbind (at_index accounts 0) (\<lambda>input_account.
     rbind (get_mint rt ch input_account) (\<lambda>in_mint.
     rbind (get_balance rt ch input_account) (\<lambda>input_token_account_balance.
     rbind (swap_v3_loop rt accounts input_token_account_balance (unat number_of_ix) 0
              \<lparr>ss_in_amount = 0, ss_in_mint = in_mint, ss_account_index = 1,
               ss_data = instruction_data, ss_input_amount = 0,
               ss_input_mint = default_pubkey, ss_output_amount = 0,
               ss_output_mint = default_pubkey\<rparr> ch) (\<lambda>(st, ch).
     rbind (emit_stack SWAP_EVENT_DISCRIMINANT
              (swap_event_pod \<lparr>se_input_mint = ss_input_mint st,
                 se_input_amount = ss_input_amount st, se_output_mint = ss_output_mint st,
                 se_output_amount = ss_output_amount st\<rparr>) ch) (\<lambda>ch.
     if ss_in_amount st < min_out_amount then Err (Custom 1) else Ok ch)))))))"

subsection \<open>The abstract run of a route\<close>

text \<open>A hop as the program sees it: the account receiving its output, the program, the
  accounts passed on, the data and where the input amount goes in it.\<close>

record route_hop =
  rh_out :: account_info
  rh_program :: account_info
  rh_accounts :: "account_info list"
  rh_data :: bytes
  rh_offset :: u16

definition rh_infos :: "route_hop \<Rightarrow> account_info list" where
  "rh_infos h = rh_out h # rh_program h # rh_accounts h"

text \<open>The data of a hop when the previous hop paid \<open>amount\<close>; \<open>None\<close> for the first hop.\<close>

fun patched_data :: "route_hop \<Rightarrow> u64 option \<Rightarrow> bytes presult" where
  "patched_data h None = Ok (rh_data h)"
| "patched_data h (Some amount) = copy_at (rh_data h) (unat (rh_offset h)) (u64_le amount)"

definition run_hop :: "runtime \<Rightarrow> route_hop \<Rightarrow> u64 option \<Rightarrow> chain \<Rightarrow> (u64 \<times> chain) presult" where
  "run_hop rt h amount ch =
     rbind (patched_data h amount) (\<lambda>data.
     rbind (get_balance rt ch (rh_out h)) (\<lambda>before.
     rbind (rt_invoke rt
              \<lparr>ix_program_id = ai_key (rh_program h), ix_accounts = map meta_of (rh_accounts h),
               ix_data = data\<rparr> (rh_infos h) [] ch) (\<lambda>ch.
     rbind (get_balance rt ch (rh_out h)) (\<lambda>after.
     rbind (psub after before) (\<lambda>out. Ok (out, ch))))))"

text \<open>What a run reports: input mint and amount, output mint and amount.\<close>

fun run_route_tail ::
    "runtime \<Rightarrow> route_hop list \<Rightarrow> u64 \<Rightarrow> pubkey \<Rightarrow> chain \<Rightarrow> (u64 \<times> pubkey \<times> chain) presult" where
  "run_route_tail rt [] amount mint ch = Ok (amount, mint, ch)"
| "run_route_tail rt (h # hs) amount mint ch =
     rbind (run_hop rt h (Some amount) ch) (\<lambda>(out, ch).
     rbind (get_mint rt ch (rh_out h)) (\<lambda>mint. run_route_tail rt hs out mint ch))"

definition run_route ::
    "runtime \<Rightarrow> account_info \<Rightarrow> route_hop list \<Rightarrow> chain \<Rightarrow> (swap_event \<times> chain) presult" where
  "run_route rt input hops ch =
     rbind (get_mint rt ch input) (\<lambda>in_mint.
     rbind (get_balance rt ch input) (\<lambda>start.
     case hops of
       [] \<Rightarrow> Ok (\<lparr>se_input_mint = default_pubkey, se_input_amount = 0,
                  se_output_mint = default_pubkey, se_output_amount = 0\<rparr>, ch)
     | h # hs \<Rightarrow>
         rbind (run_hop rt h None ch) (\<lambda>(out, ch).
         rbind (get_mint rt ch (rh_out h)) (\<lambda>mint.
         rbind (get_balance rt ch input) (\<lambda>now.
         rbind (psub start now) (\<lambda>spent.
         rbind (run_route_tail rt hs out mint ch) (\<lambda>(out, mint, ch).
         Ok (\<lparr>se_input_mint = in_mint, se_input_amount = spent, se_output_mint = mint,
              se_output_amount = out\<rparr>, ch))))))))"

text \<open>Slippage protection over a run: the specification of \<open>execute_swap_v3\<close>.\<close>

definition swap_spec ::
    "runtime \<Rightarrow> u64 \<Rightarrow> account_info \<Rightarrow> route_hop list \<Rightarrow> chain \<Rightarrow> chain presult" where
  "swap_spec rt min_out input hops ch =
     rbind (run_route rt input hops ch) (\<lambda>(event, ch).
     if se_output_amount event < min_out then Err (Custom 1)
     else Ok (ch\<lparr>chain_logs := chain_logs ch @ [SWAP_EVENT_DISCRIMINANT @ swap_event_pod event]\<rparr>))"

subsection \<open>The byte layout of a hop\<close>

definition rh_enc :: "route_hop \<Rightarrow> bytes" where
  "rh_enc h = ux16_enc (of_nat (length (rh_data h))) @ ux16_enc (rh_offset h) @ rh_data h
     @ [2 + of_nat (length (rh_accounts h))]"

text \<open>What a hop must satisfy for its sizes to fit their fields.\<close>

definition rh_sized :: "route_hop \<Rightarrow> bool" where
  "rh_sized h \<longleftrightarrow> length (rh_data h) < 65536 \<and> length (rh_accounts h) < 254"

text \<open>The client's description of a hop and the program's view of it name the same things;
  signer and writable flags are the transaction's and may differ.\<close>

definition hop_matches :: "instruction \<times> u16 \<times> pubkey \<Rightarrow> route_hop \<Rightarrow> bool" where
  "hop_matches hop h = (case hop of (ix, off, out) \<Rightarrow>
     ai_key (rh_out h) = out \<and> ai_key (rh_program h) = ix_program_id ix \<and>
     map ai_key (rh_accounts h) = map am_pubkey (ix_accounts ix) \<and>
     rh_data h = ix_data ix \<and> rh_offset h = off)"

lemma at_index_rh_infos [simp]: "at_index (rh_infos h) 0 = Ok (rh_out h)"
  by (simp add: at_index_def rh_infos_def)

lemma account_count_u8:
  assumes "n < 254"
  shows "padd 2 (of_nat n :: u8) = Ok (2 + of_nat n)" "unat (2 + of_nat n :: u8) = n + 2"
proof -
  have n: "unat (of_nat n :: u8) = n" using assms by (simp add: unat_of_nat)
  then have "unat (2 :: u8) + unat (of_nat n :: u8) < 2 ^ LENGTH(8)" using assms by simp
  then show *: "unat (2 + of_nat n :: u8) = n + 2"
    by (subst unat_add_lt) (simp_all add: n)
  show "padd 2 (of_nat n :: u8) = Ok (2 + of_nat n)"
    unfolding padd_Ok by (simp only: * n) simp
qed

lemma write_hop_enc:
  assumes "hop_matches hop h" and "rh_sized h" and "length (rh_enc h) \<le> length rest"
  shows "\<exists>metas. map am_pubkey metas = map ai_key (rh_infos h) \<and>
    write_hop hop ((out @ rest, length out), accounts) =
      Ok (((out @ rh_enc h) @ drop (length (rh_enc h)) rest, length (out @ rh_enc h)),
          accounts @ metas)"
proof -
  obtain ix off ok where hop: "hop = (ix, off, ok)" by (cases hop)
  have len: "length (ix_accounts ix) = length (rh_accounts h)"
    using assms(1) by (auto simp: hop hop_matches_def dest: map_eq_imp_length_eq)
  have m: "ix_data ix = rh_data h" "off = rh_offset h" "length (ix_accounts ix) < 254"
    using assms(1,2) len by (auto simp: hop hop_matches_def rh_sized_def)
  let ?a = "ux16_enc (of_nat (length (rh_data h)))" and ?b = "ux16_enc (rh_offset h)"
  let ?c = "2 + of_nat (length (rh_accounts h)) :: u8"
  have l: "length ?a + length ?b + length (rh_data h) + 1 \<le> length rest"
    using assms(3) by (simp add: rh_enc_def)
  have w1: "write_at (\<lambda>s. write_ux16 s (of_nat (length (rh_data h)))) (out @ rest, length out) =
      Ok ((out @ ?a) @ drop (length ?a) rest, length (out @ ?a))"
    by (rule ux16.write_at_enc) (use l in simp_all)
  have w2: "write_at (\<lambda>s. write_ux16 s (rh_offset h)) ((out @ ?a) @ drop (length ?a) rest, length (out @ ?a)) =
      Ok (((out @ ?a) @ ?b) @ drop (length ?b) (drop (length ?a) rest), length ((out @ ?a) @ ?b))"
    by (rule ux16.write_at_enc) (use l in simp_all)
  have w3: "write_at (\<lambda>s. write_bytes s (rh_data h))
        (((out @ ?a) @ ?b) @ drop (length ?b) (drop (length ?a) rest), length ((out @ ?a) @ ?b)) =
      Ok ((((out @ ?a) @ ?b) @ rh_data h) @
            drop (length (rh_data h)) (drop (length ?b) (drop (length ?a) rest)),
          length (((out @ ?a) @ ?b) @ rh_data h))"
    by (rule raw.write_at_enc [where n = "length (rh_data h)"]) (use l in simp_all)
  have w4: "write_at (\<lambda>s. write_u8 s ?c)
        ((((out @ ?a) @ ?b) @ rh_data h) @
            drop (length (rh_data h)) (drop (length ?b) (drop (length ?a) rest)),
          length (((out @ ?a) @ ?b) @ rh_data h)) =
      Ok (((((out @ ?a) @ ?b) @ rh_data h) @ [?c]) @
            drop (length [?c]) (drop (length (rh_data h)) (drop (length ?b) (drop (length ?a) rest))),
          length ((((out @ ?a) @ ?b) @ rh_data h) @ [?c]))"
    by (rule u8.write_at_enc) (use l in simp_all)
  have "write_hop hop ((out @ rest, length out), accounts) =
      Ok (((out @ rh_enc h) @ drop (length (rh_enc h)) rest, length (out @ rh_enc h)),
          accounts @ [\<lparr>am_pubkey = ok, am_is_signer = False, am_is_writable = True\<rparr>,
           \<lparr>am_pubkey = ix_program_id ix, am_is_signer = False, am_is_writable = False\<rparr>]
        @ ix_accounts ix)"
    unfolding write_hop_def hop prod.case m(1,2) w1 rbind.simps w2 w3 len
      account_count_u8(1) [OF m(3) [unfolded len]] w4
    by (simp add: rh_enc_def add.commute add.left_commute)
  then show ?thesis
    using assms(1) by (intro exI conjI) (auto simp: hop hop_matches_def rh_infos_def)
qed

lemma write_hops_enc:
  assumes "list_all2 hop_matches hops hs" and "\<forall>h \<in> set hs. rh_sized h"
    and "length (concat (map rh_enc hs)) \<le> length rest"
  shows "\<exists>metas. map am_pubkey metas = map ai_key (concat (map rh_infos hs)) \<and>
    write_hops hops ((out @ rest, length out), accounts) =
      Ok (((out @ concat (map rh_enc hs)) @ drop (length (concat (map rh_enc hs))) rest,
           length (out @ concat (map rh_enc hs))), accounts @ metas)"
  using assms
proof (induction hops hs arbitrary: out rest accounts rule: list_all2_induct)
  case Nil
  then show ?case by simp
next
  case (Cons hop hops h hs)
  have le: "length (rh_enc h) \<le> length rest"
    and le': "length (concat (map rh_enc hs)) \<le> length (drop (length (rh_enc h)) rest)"
    using Cons.prems(2) by auto
  obtain m1 where m1: "map am_pubkey m1 = map ai_key (rh_infos h)"
    "write_hop hop ((out @ rest, length out), accounts) =
      Ok (((out @ rh_enc h) @ drop (length (rh_enc h)) rest, length (out @ rh_enc h)),
          accounts @ m1)"
    using write_hop_enc [OF Cons.hyps(1) _ le, of out accounts] Cons.prems(1) by auto
  obtain m2 where m2: "map am_pubkey m2 = map ai_key (concat (map rh_infos hs))"
    "write_hops hops (((out @ rh_enc h) @ drop (length (rh_enc h)) rest, length (out @ rh_enc h)),
        accounts @ m1) =
      Ok ((((out @ rh_enc h) @ concat (map rh_enc hs)) @
             drop (length (concat (map rh_enc hs))) (drop (length (rh_enc h)) rest),
           length ((out @ rh_enc h) @ concat (map rh_enc hs))), (accounts @ m1) @ m2)"
    using Cons.IH [OF _ le', of "out @ rh_enc h" "accounts @ m1"] Cons.prems(1) by auto
  show ?case
    by (intro exI [of _ "m1 @ m2"] conjI)
      (simp_all only: write_hops.simps m1(2) rbind.simps m2(2),
       simp_all add: m1(1) m2(1) add.commute)
qed

subsection \<open>Parsing it back\<close>

lemma build_hop_enc:
  assumes "rh_sized h"
  shows "build_hop (pre @ rh_infos h @ post) i amount (length pre) (rh_enc h @ rest) =
    rbind (patched_data h (if i > 0 then Some amount else None)) (\<lambda>d.
    Ok (\<lparr>ix_program_id = ai_key (rh_program h), ix_accounts = map meta_of (rh_accounts h),
         ix_data = d\<rparr>, rh_infos h, rest))"
proof -
  have d: "unat (of_nat (length (rh_data h)) :: u16) = length (rh_data h)"
    using assms by (simp add: unat_of_nat rh_sized_def)
  have c: "unat (2 + of_nat (length (rh_accounts h)) :: u8) = length (rh_accounts h) + 2"
    using assms by (intro account_count_u8) (simp add: rh_sized_def)
  have r: "read_bytes (length (rh_data h)) (rh_data h @ t) = Ok (rh_data h, t)" for t
    by (rule raw.get_enc) simp
  have u: "read_u8 ((2 + of_nat (length (rh_accounts h))) # rest) =
      Ok (2 + of_nat (length (rh_accounts h)), rest)"
    using u8.get_enc [of "2 + of_nat (length (rh_accounts h))" rest] by simp
  show ?thesis
    by (simp add: build_hop_def rh_enc_def read_ux16_enc d r u c slice_def rh_infos_def at_index_def
        slice_from_def)
qed

lemma swap_v3_tail:
  assumes "\<forall>h \<in> set hs. rh_sized h"
    and "ss_account_index st = length pre" and "ss_data st = concat (map rh_enc hs)"
    and "ss_output_amount st = ss_in_amount st" and "ss_output_mint st = ss_in_mint st"
  shows "swap_v3_loop rt (pre @ concat (map rh_infos hs)) ib (length hs) (Suc i) st ch =
    rbind (run_route_tail rt hs (ss_in_amount st) (ss_in_mint st) ch) (\<lambda>(out, mint, ch).
    Ok (st\<lparr>ss_in_amount := out, ss_in_mint := mint, ss_data := [],
           ss_account_index := length pre + length (concat (map rh_infos hs)),
           ss_output_amount := out, ss_output_mint := mint\<rparr>, ch))"
  using assms
proof (induction hs arbitrary: pre st i ch)
  case Nil
  then show ?case by (cases st) simp
next
  case (Cons h hs)
  have b: "build_hop (pre @ rh_infos h @ concat (map rh_infos hs)) (Suc i) (ss_in_amount st)
        (length pre) (rh_enc h @ concat (map rh_enc hs)) =
      rbind (copy_at (rh_data h) (unat (rh_offset h)) (u64_le (ss_in_amount st))) (\<lambda>d.
      Ok (\<lparr>ix_program_id = ai_key (rh_program h), ix_accounts = map meta_of (rh_accounts h),
         ix_data = d\<rparr>, rh_infos h, concat (map rh_enc hs)))"
    using build_hop_enc [of h pre "concat (map rh_infos hs)" "Suc i"] Cons.prems(1) by simp
  have IH: "swap_v3_loop rt (pre @ rh_infos h @ concat (map rh_infos hs)) ib (length hs)
      (Suc (Suc i)) (st\<lparr>ss_in_amount := out, ss_in_mint := m, ss_data := concat (map rh_enc hs),
         ss_account_index := length pre + length (rh_infos h), ss_output_amount := out,
         ss_output_mint := m\<rparr>) ch' =
    rbind (run_route_tail rt hs out m ch') (\<lambda>(out', m', ch').
    Ok (st\<lparr>ss_in_amount := out', ss_in_mint := m', ss_data := [],
           ss_account_index := length pre + length (concat (map rh_infos (h # hs))),
           ss_output_amount := out', ss_output_mint := m'\<rparr>, ch'))" for out m ch'
    using Cons.IH [of "st\<lparr>ss_in_amount := out, ss_in_mint := m, ss_data := concat (map rh_enc hs),
         ss_account_index := length pre + length (rh_infos h), ss_output_amount := out,
         ss_output_mint := m\<rparr>" "pre @ rh_infos h" "Suc i" ch'] Cons.prems(1)
    by (simp add: add.assoc)
  show ?case
    using IH by (simp add: b Cons.prems run_hop_def rbind_assoc split_def cong: rbind_cong)
qed

lemma swap_v3_loop_spec:
  assumes "\<forall>h \<in> set hs. rh_sized h" and "get_mint rt ch input = Ok in_mint"
    and "get_balance rt ch input = Ok start"
  shows "rbind (swap_v3_loop rt (input # concat (map rh_infos hs)) start (length hs) 0
      \<lparr>ss_in_amount = 0, ss_in_mint = in_mint, ss_account_index = 1,
       ss_data = concat (map rh_enc hs), ss_input_amount = 0, ss_input_mint = default_pubkey,
       ss_output_amount = 0, ss_output_mint = default_pubkey\<rparr> ch) (\<lambda>(st, ch).
      Ok (ss_in_amount st, \<lparr>se_input_mint = ss_input_mint st,
          se_input_amount = ss_input_amount st, se_output_mint = ss_output_mint st,
          se_output_amount = ss_output_amount st\<rparr>, ch)) =
    rbind (run_route rt input hs ch) (\<lambda>(e, ch). Ok (se_output_amount e, e, ch))"
proof (cases hs)
  case Nil
  with assms show ?thesis by (simp add: run_route_def)
next
  case (Cons h hs')
  have b: "build_hop (input # rh_infos h @ concat (map rh_infos hs')) 0 0 (Suc 0)
        (rh_enc h @ concat (map rh_enc hs')) =
      Ok (\<lparr>ix_program_id = ai_key (rh_program h), ix_accounts = map meta_of (rh_accounts h),
         ix_data = rh_data h\<rparr>, rh_infos h, concat (map rh_enc hs'))"
    using build_hop_enc [of h "[input]" "concat (map rh_infos hs')" 0] assms(1) Cons by simp
  have tail: "swap_v3_loop rt (input # rh_infos h @ concat (map rh_infos hs')) start (length hs')
      (Suc 0) st ch' =
    rbind (run_route_tail rt hs' (ss_in_amount st) (ss_in_mint st) ch') (\<lambda>(out, mint, ch).
    Ok (st\<lparr>ss_in_amount := out, ss_in_mint := mint, ss_data := [],
           ss_account_index := Suc (length (rh_infos h)) + length (concat (map rh_infos hs')),
           ss_output_amount := out, ss_output_mint := mint\<rparr>, ch))"
    if "ss_account_index st = Suc (length (rh_infos h))" "ss_data st = concat (map rh_enc hs')"
      "ss_output_amount st = ss_in_amount st" "ss_output_mint st = ss_in_mint st" for st ch'
    using swap_v3_tail [of hs' st "input # rh_infos h" rt start 0 ch'] assms(1) Cons that
    by simp
  show ?thesis
    using assms tail Cons
    by (simp add: b run_route_def run_hop_def rbind_assoc split_def cong: rbind_cong)
qed

lemma execute_swap_v3_enc:
  assumes "\<forall>h \<in> set hs. rh_sized h" and "length hs < 256"
  shows "execute_swap_v3 rt (input # concat (map rh_infos hs))
      (u64_le min_out @ [of_nat (length hs)] @ concat (map rh_enc hs)) v ch =
    swap_spec rt min_out input hs ch"
proof -
  let ?init = "\<lambda>in_mint. \<lparr>ss_in_amount = 0, ss_in_mint = in_mint, ss_account_index = 1,
       ss_data = concat (map rh_enc hs), ss_input_amount = 0, ss_input_mint = default_pubkey,
       ss_output_amount = 0, ss_output_mint = default_pubkey\<rparr>"
  let ?event = "\<lambda>st. \<lparr>se_input_mint = ss_input_mint st, se_input_amount = ss_input_amount st,
       se_output_mint = ss_output_mint st, se_output_amount = ss_output_amount st\<rparr>"
  let ?finish = "\<lambda>(amount, event, ch'). if amount < min_out then Err (Custom 1)
       else Ok (ch'\<lparr>chain_logs := chain_logs ch' @ [SWAP_EVENT_DISCRIMINANT @ swap_event_pod event]\<rparr>)"
  have rd: "read_u64 (u64_le min_out @ [of_nat (length hs)] @ concat (map rh_enc hs)) =
      Ok (min_out, of_nat (length hs) # concat (map rh_enc hs))"
    "read_u8 (of_nat (length hs) # concat (map rh_enc hs)) =
      Ok (of_nat (length hs), concat (map rh_enc hs))"
    using u64.get_enc [of min_out] u8.get_enc [of "of_nat (length hs)"] by simp_all
  have n: "unat (of_nat (length hs) :: u8) = length hs"
    using assms(2) by (simp add: unat_of_nat)
  have loop: "rbind (swap_v3_loop rt (input # concat (map rh_infos hs)) start (length hs) 0
        (?init in_mint) ch) (\<lambda>(st, ch'). ?finish (ss_in_amount st, ?event st, ch')) =
      rbind (run_route rt input hs ch) (\<lambda>(e, ch'). ?finish (se_output_amount e, e, ch'))"
    if "get_mint rt ch input = Ok in_mint" "get_balance rt ch input = Ok start" for in_mint start
    using arg_cong [OF swap_v3_loop_spec [OF assms(1) that], of "\<lambda>m. rbind m ?finish"]
    by (simp add: rbind_assoc split_def cong: if_cong)
  show ?thesis
  proof (cases "get_mint rt ch input"; cases "get_balance rt ch input")
    fix in_mint start
    assume h: "get_mint rt ch input = Ok in_mint" "get_balance rt ch input = Ok start"
    show ?thesis
      using loop [OF h] unfolding execute_swap_v3_def rd rbind.simps prod.case n at_index_Cons_0
        swap_spec_def h by (simp add: split_def emit_stack_Ok cong: if_cong)
  qed (simp_all add: execute_swap_v3_def rd(1) [unfolded append_Cons append_Nil] rd(2) n swap_spec_def
      run_route_def)
qed

lemma generate_swap_layout:
  assumes "list_all2 hop_matches (zip ins (zip offs outs)) hs" and "\<forall>h \<in> set hs. rh_sized h"
    and "10 + length (concat (map rh_enc hs)) \<le> 1232"
    and "padd 1 (push_bit 4 version) = (Ok tag :: u8 presult)"
  shows "\<exists>metas. map am_pubkey metas = ai_key input # map ai_key (concat (map rh_infos hs)) \<and>
    generate_swap_ix_data min_out ins offs (ai_key input) outs pid version =
      Ok \<lparr>ix_program_id = pid, ix_accounts = metas,
          ix_data = tag # u64_le min_out @ [of_nat (length ins)] @ concat (map rh_enc hs)\<rparr>"
proof -
  let ?body = "concat (map rh_enc hs)" and ?n = "of_nat (length ins) :: u8"
  let ?first = "\<lparr>am_pubkey = ai_key input, am_is_signer = False, am_is_writable = True\<rparr>"
  have w1: "write_at (\<lambda>s. write_u8 s tag) (replicate 1232 0, 0) = Ok ([tag] @ replicate 1231 0, 1)"
    using u8.write_at_enc [of tag "replicate 1232 0" "[]"] by simp
  have w2: "write_at (\<lambda>s. write_u64 s min_out) ([tag] @ replicate 1231 0, 1) =
      Ok ((tag # u64_le min_out) @ replicate 1223 0, 9)"
    using u64.write_at_enc [of min_out "replicate 1231 0" "[tag]"] by simp
  have w3: "write_at (\<lambda>s. write_u8 s ?n) ((tag # u64_le min_out) @ replicate 1223 0, 9) =
      Ok ((tag # u64_le min_out @ [?n]) @ replicate 1222 0, 10)"
    using u8.write_at_enc [of ?n "replicate 1223 0" "tag # u64_le min_out"] by simp
  obtain metas where m: "map am_pubkey metas = map ai_key (concat (map rh_infos hs))"
    "write_hops (zip ins (zip offs outs))
        (((tag # u64_le min_out @ [?n]) @ replicate 1222 0, 10), [?first]) =
      Ok (((tag # u64_le min_out @ [?n]) @ ?body @ drop (length ?body) (replicate 1222 0),
           10 + length ?body), [?first] @ metas)"
    using write_hops_enc [OF assms(1,2), of "replicate 1222 0" "tag # u64_le min_out @ [?n]"
        "[?first]"] assms(3) by auto
  have cut: "take (10 + length ?body) ((tag # u64_le min_out @ [?n]) @ ?body @ r) =
      (tag # u64_le min_out @ [?n]) @ ?body" for r
  proof -
    have "length ((tag # u64_le min_out @ [?n]) @ ?body) = 10 + length ?body" by simp
    then show ?thesis by (metis append.assoc append_eq_conv_conj)
  qed
  show ?thesis
    using m assms(3) cut
    by (intro exI [of _ "[?first] @ metas"] conjI)
      (simp_all only: generate_swap_ix_data_def Let_def assms(4) rbind.simps w1 w2 w3 m(2) prod.case,
       simp_all add: slice_def)
qed

subsection \<open>Slippage protection on any data\<close>

lemma build_hop_accounts:
  "build_hop accounts i amount idx data = Ok (ix, ixa, data') \<Longrightarrow> set ixa \<subseteq> set accounts"
  by (auto simp: build_hop_def slice_Ok dest!: in_set_takeD in_set_dropD)

text \<open>The last executed hop: the account whose gain is the reported output.\<close>

definition last_hop_gain :: "runtime \<Rightarrow> account_info list \<Rightarrow> u64 \<Rightarrow> chain \<Rightarrow> bool" where
  "last_hop_gain rt accounts amount ch' \<longleftrightarrow>
     (\<exists>out \<in> set accounts. \<exists>ch0 ix infos b0 b1.
        rt_invoke rt ix infos [] ch0 = Ok ch' \<and> balance_of rt ch0 (ai_key out) = Ok b0 \<and>
        balance_of rt ch' (ai_key out) = Ok b1 \<and> unat b1 = unat b0 + unat amount)"

lemma swap_v2_loop_gain:
  "swap_v2_loop rt accounts (Suc n) i amount idx data ch = Ok (out, ch') \<Longrightarrow>
     last_hop_gain rt accounts out ch'"
proof (induction n arbitrary: i amount idx data ch)
  case 0
  then obtain ix ixa d t b0 ch1 b1 where
    h: "build_hop accounts i amount idx data = Ok (ix, ixa, d)" "at_index ixa 0 = (Ok t :: account_info presult)"
    "get_balance rt ch t = Ok b0" "rt_invoke rt ix ixa [] ch = Ok ch'"
    "get_balance rt ch' t = Ok b1" "psub b1 b0 = (Ok out :: u64 presult)"
    by clarsimp
  then have "t \<in> set accounts" using build_hop_accounts [OF h(1)] by (auto simp: at_index_Ok)
  with h show ?case
    unfolding last_hop_gain_def get_balance_balance_of psub_Ok by metis
next
  case (Suc n)
  from Suc.prems obtain i' amount' idx' data' ch1 where
    "swap_v2_loop rt accounts (Suc n) i' amount' idx' data' ch1 = Ok (out, ch')"
    by (auto simp del: swap_v2_loop.simps simp: swap_v2_loop.simps(2) [of rt accounts "Suc n"])
  then show ?case by (rule Suc.IH)
qed

lemma swap_v3_loop_gain:
  "swap_v3_loop rt accounts ib (Suc n) i st ch = Ok (st', ch') \<Longrightarrow>
     last_hop_gain rt accounts (ss_in_amount st') ch' \<and> ss_output_amount st' = ss_in_amount st'"
proof (induction n arbitrary: i st ch)
  case 0
  then obtain ix ixa d t b0 ch1 b1 out where
    h: "build_hop accounts i (ss_in_amount st) (ss_account_index st) (ss_data st) = Ok (ix, ixa, d)"
    "at_index ixa 0 = (Ok t :: account_info presult)"
    "get_balance rt ch t = Ok b0" "rt_invoke rt ix ixa [] ch = Ok ch'"
    "get_balance rt ch' t = Ok b1" "psub b1 b0 = (Ok out :: u64 presult)"
    and st': "ss_in_amount st' = out" "ss_output_amount st' = out"
    by clarsimp
  then have "t \<in> set accounts" using build_hop_accounts [OF h(1)] by (auto simp: at_index_Ok)
  with h have "last_hop_gain rt accounts out ch'"
    unfolding last_hop_gain_def get_balance_balance_of psub_Ok by metis
  then show ?case using st' by simp
next
  case (Suc n)
  from Suc.prems obtain i' st1 ch1 where
    "swap_v3_loop rt accounts ib (Suc n) i' st1 ch1 = Ok (st', ch')"
    by (auto simp del: swap_v3_loop.simps simp: swap_v3_loop.simps(2) [of rt accounts ib "Suc n"])
  then show ?case by (rule Suc.IH)
qed

lemma last_hop_gain_frame:
  assumes "last_hop_gain rt accounts amount ch1" and "chain_accounts ch' = chain_accounts ch1"
    and "unat min_out \<le> unat amount"
  shows "\<exists>out \<in> set accounts. \<exists>ch0 b0 b1. balance_of rt ch0 (ai_key out) = Ok b0 \<and>
    balance_of rt ch' (ai_key out) = Ok b1 \<and> unat b0 + unat min_out \<le> unat b1 \<and>
    (\<exists>ix infos. rt_invoke rt ix infos [] ch0 = Ok ch1)"
proof -
  from assms(1) obtain out ch0 ix infos b0 b1 where
    h: "out \<in> set accounts" "rt_invoke rt ix infos [] ch0 = Ok ch1"
    "balance_of rt ch0 (ai_key out) = Ok b0" "balance_of rt ch1 (ai_key out) = Ok b1"
    "unat b1 = unat b0 + unat amount"
    unfolding last_hop_gain_def by blast
  moreover have "balance_of rt ch' (ai_key out) = balance_of rt ch1 (ai_key out)"
    by (rule balance_of_frame) (simp add: assms(2))
  ultimately show ?thesis using assms(3)
    by (intro bexI [of _ out] exI [of _ ch0] exI [of _ b0] exI [of _ b1]) auto
qed

text \<open>
  C2 (swap_min_out). Whatever bytes and accounts a swap instruction carries, version 2 or
  3 succeeds only if some account passed to it gained at least \<open>min_out_amount\<close> over the
  last invoked hop and still holds it at the end; with no hop at all it succeeds only for
  \<open>min_out_amount = 0\<close>.
\<close>

theorem swap_min_out:
  assumes rd: "read_u64 data = Ok (min_out, rest)" "read_u8 rest = Ok (n, rest')"
    and ex: "execute_swap_v2 rt accounts data v ch = Ok ch' \<or>
      execute_swap_v3 rt accounts data v ch = Ok ch'"
  shows "(n = 0 \<and> min_out = 0) \<or>
    (\<exists>out \<in> set accounts. \<exists>ch0 ch1 b0 b1. balance_of rt ch0 (ai_key out) = Ok b0 \<and>
       balance_of rt ch' (ai_key out) = Ok b1 \<and> unat b0 + unat min_out \<le> unat b1 \<and>
       chain_accounts ch' = chain_accounts ch1 \<and> (\<exists>ix infos. rt_invoke rt ix infos [] ch0 = Ok ch1))"
  using ex
proof
  assume "execute_swap_v2 rt accounts data v ch = Ok ch'"
  then obtain out where l: "swap_v2_loop rt accounts (unat n) 0 0 0 rest' ch = Ok (out, ch')"
    and ge: "unat min_out \<le> unat out"
    by (auto simp: execute_swap_v2_def rd word_less_nat_alt split: if_splits)
  show ?thesis
  proof (cases "unat n")
    case 0
    with l ge show ?thesis by (simp add: unat_eq_zero)
  next
    case (Suc m)
    with l have "last_hop_gain rt accounts out ch'" by (simp only: swap_v2_loop_gain)
    from last_hop_gain_frame [OF this refl ge] show ?thesis by (intro disjI2) blast
  qed
next
  assume "execute_swap_v3 rt accounts data v ch = Ok ch'"
  then obtain in_mint ib st ch1 pod where
    l: "swap_v3_loop rt accounts ib (unat n) 0
      \<lparr>ss_in_amount = 0, ss_in_mint = in_mint, ss_account_index = 1, ss_data = rest',
       ss_input_amount = 0, ss_input_mint = default_pubkey, ss_output_amount = 0,
       ss_output_mint = default_pubkey\<rparr> ch = Ok (st, ch1)"
    and ge: "\<not> ss_in_amount st < min_out"
    and em: "emit_stack SWAP_EVENT_DISCRIMINANT pod ch1 = Ok ch'"
    unfolding execute_swap_v3_def rd rbind.simps prod.case
    by (clarsimp split: if_splits)
  have e: "chain_accounts ch' = chain_accounts ch1" using em by (rule emit_stack_accounts)
  have ge: "unat min_out \<le> unat (ss_in_amount st)" using ge by (simp add: word_less_nat_alt)
  show ?thesis
  proof (cases "unat n")
    case 0
    with l ge show ?thesis by (auto simp: unat_eq_zero)
  next
    case (Suc m)
    with l have "last_hop_gain rt accounts (ss_in_amount st) ch1"
      by (metis swap_v3_loop_gain)
    from last_hop_gain_frame [OF this e ge] e show ?thesis by (intro disjI2) blast
  qed
qed

text \<open>A one-hop route on the reference runtime: the user pays 100 of mint 5 into pool
  account 30 and receives 90 of mint 6 from pool account 31.\<close>

definition ref_hop :: route_hop where
  "ref_hop = \<lparr>rh_out = ref_info 21 False, rh_program = ref_info 9 False,
     rh_accounts = [ref_info 1 False, ref_info 7 True, ref_info 20 False, ref_info 30 False,
       ref_info 8 True, ref_info 31 False, ref_info 21 False],
     rh_data = u64_le 100 @ u64_le 90, rh_offset = 0\<rparr>"

lemmas ref_eval = ref_invoke_def ref_move_def ref_unpack_def ref_set_amount_def ref_token_def
  ref_token_program_def ref_swap_program_def ref_chain_def get_balance_def get_mint_def
  checked_add_def le_val_le_bytes Let_def

lemma ref_hop_runs:
  "\<exists>e ch'. run_route ref_runtime (ref_info 20 False) [ref_hop] ref_chain = Ok (e, ch') \<and>
     se_output_amount e = 90 \<and> se_input_amount e = 100"
  by (simp add: run_route_def run_hop_def ref_hop_def rh_infos_def meta_of_def ref_eval slice_def
      psub_def checked_sub_def)

lemma ref_hop_sized: "rh_sized ref_hop"
  by (simp add: rh_sized_def ref_hop_def)

lemma ref_swap_runs:
  "\<exists>ch'. execute_swap_v3 ref_runtime (ref_info 20 False # concat (map rh_infos [ref_hop]))
     (u64_le 80 @ [1] @ concat (map rh_enc [ref_hop])) 0 ref_chain = Ok ch'"
proof -
  obtain e ch' where "run_route ref_runtime (ref_info 20 False) [ref_hop] ref_chain = Ok (e, ch')"
    "se_output_amount e = 90" using ref_hop_runs by blast
  then show ?thesis
    using execute_swap_v3_enc [of "[ref_hop]" ref_runtime "ref_info 20 False" 80 0 ref_chain]
      ref_hop_sized by (simp add: swap_spec_def)
qed

theorem swap_min_out_witness:
  "\<exists>ch'. execute_swap_v3 ref_runtime (ref_info 20 False # concat (map rh_infos [ref_hop]))
      (u64_le 80 @ [1] @ concat (map rh_enc [ref_hop])) 0 ref_chain = Ok ch' \<and>
     (\<exists>out \<in> set (ref_info 20 False # concat (map rh_infos [ref_hop])). \<exists>ch0 ch1 b0 b1.
        balance_of ref_runtime ch0 (ai_key out) = Ok b0 \<and>
        balance_of ref_runtime ch' (ai_key out) = Ok b1 \<and> unat b0 + unat (80 :: u64) \<le> unat b1 \<and>
        chain_accounts ch' = chain_accounts ch1 \<and>
        (\<exists>ix infos. rt_invoke ref_runtime ix infos [] ch0 = Ok ch1))"
proof -
  obtain ch' where ex: "execute_swap_v3 ref_runtime
      (ref_info 20 False # concat (map rh_infos [ref_hop]))
      (u64_le 80 @ [1] @ concat (map rh_enc [ref_hop])) 0 ref_chain = Ok ch'"
    using ref_swap_runs by blast
  have rd: "read_u64 (u64_le 80 @ [1] @ concat (map rh_enc [ref_hop])) =
      Ok (80, [1] @ concat (map rh_enc [ref_hop]))"
    "read_u8 ([1] @ concat (map rh_enc [ref_hop])) = Ok (1, concat (map rh_enc [ref_hop]))"
    by (rule u64.get_enc, simp) (rule u8.get_enc, simp)
  from swap_min_out [OF rd disjI2, OF ex] ex show ?thesis by simp
qed

end
