(* ===== verification/Exec_Fees.thy ===== *)
theory Exec_Fees
  imports Exec_Reference_Runtime
begin

text \<open>
  Fees and referrals of the executor program: \<^verbatim>\<open>execute_charge_fees.rs\<close>,
  \<^verbatim>\<open>execute_charge_fees_v2.rs\<close>, \<^verbatim>\<open>execute_create_referral.rs\<close> and
  \<^verbatim>\<open>execute_withdraw_referral_fees.rs\<close> under
  \<^verbatim>\<open>programs/autobahn-executor/src/instructions\<close>.
\<close>

subsection \<open>Charging fees\<close>

text \<open>The split, computed the same way by both versions: a panic when
  \<open>fee_amount * platform_fee_percent\<close> does not fit 64 bits.\<close>

definition platform_share :: "u64 \<Rightarrow> u8 \<Rightarrow> bool \<Rightarrow> u64 presult" where
  "platform_share fee_amount platform_fee_percent has_referrer =
     (if has_referrer then
        rbind (pmul fee_amount (ucast platform_fee_percent)) (\<lambda>p. Ok (p div 100))
      else Ok fee_amount)"

definition execute_charge_fees ::
    "runtime \<Rightarrow> account_info list \<Rightarrow> bytes \<Rightarrow> chain \<Rightarrow> chain presult" where
  "execute_charge_fees rt accounts instruction_data ch =
     rbind (read_u64 instruction_data) (\<lambda>(fee_amount, instruction_data).
     rbind (read_u8 instruction_data) (\<lambda>(platform_fee_percent, _).
     let platform_fee_percent = min 100 platform_fee_percent in
     rbind (require (\<not> length accounts < 4) NotEnoughAccountKeys) (\<lambda>_.
     let token_program = accounts ! 0; token_account = accounts ! 1;
         platform_fee_account = accounts ! 2; signer_account = accounts ! 3;
         has_referrer = (length accounts = 5) in
     rbind (platform_share fee_amount platform_fee_percent has_referrer)
       (\<lambda>platform_fee_amount.
     rbind (require (spl_token_id rt = ai_key token_program) IncorrectProgramId) (\<lambda>_.
     rbind (rt_token_transfer rt (ai_key token_program) (ai_key token_account)
              (ai_key platform_fee_account) (ai_key signer_account) [ai_key signer_account]
              platform_fee_amount) (\<lambda>ix.
     rbind (rt_invoke rt ix (take 3 (drop 1 accounts)) [] ch) (\<lambda>ch.
     rbind (emit_stack PLATFORM_FEE_LOG_DISCRIMINANT
              (platform_fee_pod \<lparr>pf_user = ai_key signer_account,
                 pf_platform_token_account = ai_key platform_fee_account,
                 pf_platform_fee = platform_fee_amount\<rparr>) ch) (\<lambda>ch.
     if has_referrer then
       (let referrer_fee_account = accounts ! 4;
            referrer_fee_amount = saturating_sub fee_amount platform_fee_amount in
        rbind (rt_token_transfer rt (ai_key token_program) (ai_key token_account)
                 (ai_key referrer_fee_account) (ai_key signer_account) [ai_key signer_account]
                 referrer_fee_amount) (\<lambda>ix.
        rbind (rt_invoke rt ix [accounts ! 1, accounts ! 4, accounts ! 3] [] ch) (\<lambda>ch.
        emit_stack REFERRER_FEE_LOG_DISCRIMINANT
          (referrer_fee_pod \<lparr>rf_referee = ai_key signer_account,
             rf_referer_token_account = ai_key referrer_fee_account,
             rf_referrer_fee = referrer_fee_amount\<rparr>) ch)))
     else Ok ch))))))))"

definition execute_charge_fees_v2 ::
    "runtime \<Rightarrow> account_info list \<Rightarrow> bytes \<Rightarrow> chain \<Rightarrow> chain presult" where
  "execute_charge_fees_v2 rt accounts instruction_data ch =
     rbind (read_u64 instruction_data) (\<lambda>(fee_amount, instruction_data).
     rbind (read_u8 instruction_data) (\<lambda>(platform_fee_percent, _).
     let platform_fee_percent = min 100 platform_fee_percent in
     rbind (require (\<not> length accounts < 5) NotEnoughAccountKeys) (\<lambda>_.
     let token_program = accounts ! 0; mint_account = accounts ! 1;
         token_account = accounts ! 2; platform_fee_account = accounts ! 3;
         signer_account = accounts ! 4;
         has_referrer = (length accounts = 6) in
     rbind (platform_share fee_amount platform_fee_percent has_referrer)
       (\<lambda>platform_fee_amount.
     rbind (token_transfer rt token_program mint_account token_account platform_fee_account
              signer_account [] platform_fee_amount ch) (\<lambda>ch.
     rbind (emit_stack PLATFORM_FEE_LOG_DISCRIMINANT
              (platform_fee_pod \<lparr>pf_user = ai_key signer_account,
                 pf_platform_token_account = ai_key platform_fee_account,
                 pf_platform_fee = platform_fee_amount\<rparr>) ch) (\<lambda>ch.
     if has_referrer then
       (let referrer_fee_account = accounts ! 4;
            referrer_fee_amount = saturating_sub fee_amount platform_fee_amount in
        rbind (token_transfer rt token_program mint_account token_account referrer_fee_account
                 signer_account [] referrer_fee_amount ch) (\<lambda>ch.
        emit_stack REFERRER_FEE_LOG_DISCRIMINANT
          (referrer_fee_pod \<lparr>rf_referee = ai_key signer_account,
             rf_referer_token_account = ai_key referrer_fee_account,
             rf_referrer_fee = referrer_fee_amount\<rparr>) ch))
     else Ok ch))))))"

subsection \<open>Referral vaults\<close>

text \<open>\<open>b"referrer"\<close>, the referrer's key, the mint's key and the instruction data (the bump).\<close>

definition vault_seeds :: "pubkey \<Rightarrow> pubkey \<Rightarrow> bytes \<Rightarrow> bytes list" where
  "vault_seeds referrer mint instruction_data =
     [[114, 101, 102, 101, 114, 114, 101, 114], pubkey_bytes referrer, pubkey_bytes mint,
      instruction_data]"

definition execute_create_referral ::
    "runtime \<Rightarrow> account_info list \<Rightarrow> bytes \<Rightarrow> chain \<Rightarrow> chain presult" where
  "execute_create_referral rt accounts instruction_data ch =
     (case accounts of
        [payer, referrer, vault, mint, system_program, token_program] \<Rightarrow>
          rbind (verify_program_id rt (ai_key token_program)) (\<lambda>_.
          rbind (require (system_program_id rt = ai_key system_program) IncorrectProgramId) (\<lambda>_.
          let seeds = vault_seeds (ai_key referrer) (ai_key mint) instruction_data in
          rbind (rt_create_program_address rt seeds crate_id) (\<lambda>vault_pda.
          rbind (require (vault_pda = ai_key vault) InvalidSeeds) (\<lambda>_.
          rbind (intialize rt payer system_program token_program mint vault seeds ch) (\<lambda>ch.
          emit_stack CREATE_REFERRAL_LOG_DISCRIMINANT
            (create_referral_pod \<lparr>cr_referee = ai_key payer, cr_referer = ai_key referrer,
               cr_vault = ai_key vault, cr_mint = ai_key mint\<rparr>) ch)))))
      | _ \<Rightarrow> Err NotEnoughAccountKeys)"

definition execute_withdraw_referral_fees ::
    "runtime \<Rightarrow> account_info list \<Rightarrow> bytes \<Rightarrow> chain \<Rightarrow> chain presult" where
  "execute_withdraw_referral_fees rt accounts instruction_data ch =
     (case accounts of
        [referrer, vault, mint, referrer_ata, system_program, token_program] \<Rightarrow>
          rbind (verify_program_id rt (ai_key token_program)) (\<lambda>_.
          rbind (require (system_program_id rt = ai_key system_program) IncorrectProgramId) (\<lambda>_.
          rbind (require (ai_is_signer referrer) MissingRequiredSignature) (\<lambda>_.
          rbind (get_owner rt ch referrer_ata) (\<lambda>owner.
          rbind (require (owner = ai_key referrer) IllegalOwner) (\<lambda>_.
          let seeds = vault_seeds (ai_key referrer) (ai_key mint) instruction_data in
          rbind (rt_create_program_address rt seeds crate_id) (\<lambda>vault_pda.
          rbind (require (vault_pda = ai_key vault) InvalidSeeds) (\<lambda>_.
          rbind (get_balance rt ch vault) (\<lambda>full_amount.
          rbind (token_transfer rt token_program mint vault referrer_ata vault seeds full_amount
                   ch) (\<lambda>ch.
          emit_stack REFERRER_WITHDRAW_LOG_DISCRIMINANT
            (referrer_withdraw_pod \<lparr>rw_referer = ai_key referrer,
               rw_referer_token_account = ai_key referrer_ata, rw_amount = full_amount\<rparr>)
            ch)))))))))
      | _ \<Rightarrow> Err NotEnoughAccountKeys)"

subsection \<open>The split\<close>

lemma min_100_le: "unat (min 100 p :: u8) \<le> 100"
  by (simp add: min_def word_le_nat_alt)

lemma platform_share_no_referrer [simp]: "platform_share f p False = Ok f"
  by (simp add: platform_share_def)

lemma platform_share_referrer_Ok:
  assumes "unat p \<le> 100"
  shows "platform_share f p True = Ok a \<longleftrightarrow>
    unat f * unat p < 2 ^ 64 \<and> unat a = unat f * unat p div 100"
proof -
  have p: "unat (ucast p :: u64) = unat p"
    using unsigned_less [of p, where ?'a = nat] by (intro unat_ucast_small) simp
  have "checked_mul f (ucast p) = Some m \<longleftrightarrow> unat m = unat f * unat p" for m
    by (simp add: checked_mul_Some p)
  then have "platform_share f p True = Ok a \<longleftrightarrow> (\<exists>m. unat m = unat f * unat p \<and> a = m div 100)"
    by (auto simp: platform_share_def pmul_def)
  also have "\<dots> \<longleftrightarrow> unat f * unat p < 2 ^ 64 \<and> unat a = unat f * unat p div 100"
  proof
    assume "\<exists>m. unat m = unat f * unat p \<and> a = m div 100"
    then obtain m where m: "unat m = unat f * unat p" "a = m div 100" by blast
    then show "unat f * unat p < 2 ^ 64 \<and> unat a = unat f * unat p div 100"
      using unsigned_less [of m, where ?'a = nat] by (simp add: unat_div)
  next
    assume h: "unat f * unat p < 2 ^ 64 \<and> unat a = unat f * unat p div 100"
    let ?m = "of_nat (unat f * unat p) :: u64"
    have "unat ?m = unat f * unat p"
      using h by (simp add: unat_of_nat del: of_nat_mult)
    moreover from this have "a = ?m div 100"
      using h by (simp add: word_unat_eq_iff unat_div del: of_nat_mult)
    ultimately show "\<exists>m. unat m = unat f * unat p \<and> a = m div 100" by blast
  qed
  finally show ?thesis .
qed

lemma platform_share_le:
  assumes "unat p \<le> 100" and "platform_share f p r = Ok a"
  shows "unat a \<le> unat f"
proof (cases r)
  case True
  have "unat f * unat p div 100 \<le> unat f * 100 div 100"
    using assms(1) by (intro div_le_mono mult_le_mono) auto
  with True assms show ?thesis by (simp add: platform_share_referrer_Ok)
next
  case False
  with assms show ?thesis by simp
qed

subsection \<open>What charging fees does\<close>

text \<open>One transfer followed by a log record.\<close>

lemma transfer_then_emit:
  assumes law: "token_transfer_law rt" and ix: "rt_token_transfer rt p s d a sg amt = Ok ix"
    and inv: "rt_invoke rt ix infos seeds ch = Ok ch1" and sd: "s \<noteq> d"
    and em: "emit_stack disc pod ch1 = Ok ch2" and len: "length disc = 8" "length pod \<le> 2992"
  obtains bs bd where "balance_of rt ch s = Ok bs" "balance_of rt ch d = Ok bd"
    "unat amt \<le> unat bs" "unat bd + unat amt < 2 ^ 64"
    "balance_of rt ch2 s = Ok (bs - amt)" "balance_of rt ch2 d = Ok (bd + amt)"
    "\<And>k. k \<noteq> s \<Longrightarrow> k \<noteq> d \<Longrightarrow> balance_of rt ch2 k = balance_of rt ch k"
    "chain_logs ch2 = chain_logs ch @ [disc @ pod]"
proof -
  have ch2: "ch2 = ch1\<lparr>chain_logs := chain_logs ch1 @ [disc @ pod]\<rparr>"
    using em by (simp add: emit_stack_Ok [OF len])
  have frame: "balance_of rt ch2 k = balance_of rt ch1 k" for k
    by (rule balance_of_frame) (simp add: ch2)
  obtain bs bd where b: "balance_of rt ch s = Ok bs" "balance_of rt ch d = Ok bd"
    "unat amt \<le> unat bs" "unat bd + unat amt < 2 ^ 64"
    "balance_of rt ch1 s = Ok (bs - amt)" "balance_of rt ch1 d = Ok (bd + amt)"
    and others: "\<And>k. k \<noteq> s \<Longrightarrow> k \<noteq> d \<Longrightarrow> chain_accounts ch1 k = chain_accounts ch k"
    and logs: "chain_logs ch1 = chain_logs ch"
    by (rule token_transfer_lawD [OF law ix inv sd]) (rule that)
  show thesis
  proof (rule that [OF b(1-4)])
    show "balance_of rt ch2 s = Ok (bs - amt)" "balance_of rt ch2 d = Ok (bd + amt)"
      using b(5,6) by (simp_all add: frame)
    show "balance_of rt ch2 k = balance_of rt ch k" if "k \<noteq> s" "k \<noteq> d" for k
      using balance_of_frame [OF others [OF that], of rt] by (simp only: frame)
    show "chain_logs ch2 = chain_logs ch @ [disc @ pod]" by (simp add: ch2 logs)
  qed
qed

lemma charge_fees_referrer_steps:
  assumes "execute_charge_fees rt [prog, user, plat, signer, ref] data ch = Ok ch2"
    and "read_u64 data = Ok (fee, rest)" and "read_u8 rest = Ok (pct, rest')"
  obtains share ix1 chi ch1 ix2 chj where
    "platform_share fee (min 100 pct) True = Ok share" "ai_key prog = spl_token_id rt"
    "rt_token_transfer rt (ai_key prog) (ai_key user) (ai_key plat) (ai_key signer)
       [ai_key signer] share = Ok ix1"
    "rt_invoke rt ix1 [user, plat, signer] [] ch = Ok chi"
    "emit_stack PLATFORM_FEE_LOG_DISCRIMINANT
       (platform_fee_pod \<lparr>pf_user = ai_key signer, pf_platform_token_account = ai_key plat,
          pf_platform_fee = share\<rparr>) chi = Ok ch1"
    "rt_token_transfer rt (ai_key prog) (ai_key user) (ai_key ref) (ai_key signer)
       [ai_key signer] (saturating_sub fee share) = Ok ix2"
    "rt_invoke rt ix2 [user, ref, signer] [] ch1 = Ok chj"
    "emit_stack REFERRER_FEE_LOG_DISCRIMINANT
       (referrer_fee_pod \<lparr>rf_referee = ai_key signer, rf_referer_token_account = ai_key ref,
          rf_referrer_fee = saturating_sub fee share\<rparr>) chj = Ok ch2"
  using assms that by (auto simp: execute_charge_fees_def Let_def)

text \<open>
  C3 (charge_fees_split). A successful fee charge with a referrer debits the user by
  exactly the fee, credits the platform with \<open>fee * min(100, percent) / 100\<close> rounded down
  and the referrer with the rest, leaves every other balance alone, and logs exactly the
  two amounts.
\<close>

theorem charge_fees_split:
  assumes law: "token_transfer_law rt"
    and dist: "distinct [ai_key user, ai_key plat, ai_key ref]"
    and rd: "read_u64 data = Ok (fee, rest)" "read_u8 rest = Ok (pct, rest')"
    and ex: "execute_charge_fees rt [prog, user, plat, signer, ref] data ch = Ok ch'"
  shows "\<exists>bu bp br share.
    balance_of rt ch (ai_key user) = Ok bu \<and> balance_of rt ch (ai_key plat) = Ok bp \<and>
    balance_of rt ch (ai_key ref) = Ok br \<and>
    unat share = unat fee * unat (min 100 pct) div 100 \<and> unat fee \<le> unat bu \<and>
    balance_of rt ch' (ai_key user) = Ok (bu - fee) \<and>
    balance_of rt ch' (ai_key plat) = Ok (bp + share) \<and>
    balance_of rt ch' (ai_key ref) = Ok (br + (fee - share)) \<and>
    (\<forall>k. k \<notin> {ai_key user, ai_key plat, ai_key ref} \<longrightarrow>
       balance_of rt ch' k = balance_of rt ch k) \<and>
    chain_logs ch' = chain_logs ch @
      [PLATFORM_FEE_LOG_DISCRIMINANT @ platform_fee_pod \<lparr>pf_user = ai_key signer,
         pf_platform_token_account = ai_key plat, pf_platform_fee = share\<rparr>,
       REFERRER_FEE_LOG_DISCRIMINANT @ referrer_fee_pod \<lparr>rf_referee = ai_key signer,
         rf_referer_token_account = ai_key ref, rf_referrer_fee = fee - share\<rparr>]"
proof -
  obtain share ix1 chi ch1 ix2 chj where
    share: "platform_share fee (min 100 pct) True = Ok share"
    and t1: "rt_token_transfer rt (ai_key prog) (ai_key user) (ai_key plat) (ai_key signer)
       [ai_key signer] share = Ok ix1" "rt_invoke rt ix1 [user, plat, signer] [] ch = Ok chi"
    and e1: "emit_stack PLATFORM_FEE_LOG_DISCRIMINANT
       (platform_fee_pod \<lparr>pf_user = ai_key signer, pf_platform_token_account = ai_key plat,
          pf_platform_fee = share\<rparr>) chi = Ok ch1"
    and t2: "rt_token_transfer rt (ai_key prog) (ai_key user) (ai_key ref) (ai_key signer)
       [ai_key signer] (saturating_sub fee share) = Ok ix2"
      "rt_invoke rt ix2 [user, ref, signer] [] ch1 = Ok chj"
    and e2: "emit_stack REFERRER_FEE_LOG_DISCRIMINANT
       (referrer_fee_pod \<lparr>rf_referee = ai_key signer, rf_referer_token_account = ai_key ref,
          rf_referrer_fee = saturating_sub fee share\<rparr>) chj = Ok ch'"
    by (rule charge_fees_referrer_steps [OF ex rd]) (rule that)
  have le: "unat share \<le> unat fee"
    using platform_share_le [OF min_100_le share] .
  then have sub: "saturating_sub fee share = fee - share" by (simp add: saturating_sub_def)
  have val: "unat share = unat fee * unat (min 100 pct) div 100"
    using share by (simp add: platform_share_referrer_Ok [OF min_100_le])
  from dist have d1: "ai_key user \<noteq> ai_key plat" and d2: "ai_key user \<noteq> ai_key ref"
    and d3: "ai_key plat \<noteq> ai_key ref" by auto
  obtain bu bp where f1: "balance_of rt ch (ai_key user) = Ok bu"
    "balance_of rt ch (ai_key plat) = Ok bp" "unat share \<le> unat bu"
    "balance_of rt ch1 (ai_key user) = Ok (bu - share)"
    "balance_of rt ch1 (ai_key plat) = Ok (bp + share)"
    and o1: "\<And>k. k \<noteq> ai_key user \<Longrightarrow> k \<noteq> ai_key plat \<Longrightarrow> balance_of rt ch1 k = balance_of rt ch k"
    and l1: "chain_logs ch1 = chain_logs ch @ [PLATFORM_FEE_LOG_DISCRIMINANT @
       platform_fee_pod \<lparr>pf_user = ai_key signer, pf_platform_token_account = ai_key plat,
          pf_platform_fee = share\<rparr>]"
    by (rule transfer_then_emit [OF law t1 d1 e1]) (simp_all add: that)
  obtain bu' br where f2: "balance_of rt ch1 (ai_key user) = Ok bu'"
    "balance_of rt ch1 (ai_key ref) = Ok br" "unat (fee - share) \<le> unat bu'"
    "balance_of rt ch' (ai_key user) = Ok (bu' - (fee - share))"
    "balance_of rt ch' (ai_key ref) = Ok (br + (fee - share))"
    and o2: "\<And>k. k \<noteq> ai_key user \<Longrightarrow> k \<noteq> ai_key ref \<Longrightarrow> balance_of rt ch' k = balance_of rt ch1 k"
    and l2: "chain_logs ch' = chain_logs ch1 @ [REFERRER_FEE_LOG_DISCRIMINANT @
       referrer_fee_pod \<lparr>rf_referee = ai_key signer, rf_referer_token_account = ai_key ref,
          rf_referrer_fee = fee - share\<rparr>]"
    by (rule transfer_then_emit [OF law t2 d2 e2]) (simp_all add: that sub)
  have bu': "bu' = bu - share" using f1(4) f2(1) by simp
  have "unat fee - unat share \<le> unat bu - unat share"
    using f2(3) le f1(3) by (simp add: bu' unat_sub word_le_nat_alt)
  then have fund: "unat fee \<le> unat bu" using le f1(3) by linarith
  show ?thesis
    using f1 f2 d1 d2 d3 o1 o2 l1 l2 val fund
    by (intro exI [of _ bu] exI [of _ bp] exI [of _ br] exI [of _ share]) (auto simp: bu')
qed

theorem charge_fees_split_witness:
  "\<exists>ch' bu bp br share.
     execute_charge_fees ref_runtime
       [ref_info 1 False, ref_info 20 False, ref_info 30 False, ref_info 7 True, ref_info 31 False]
       (u64_le 200 @ [25]) ref_chain = Ok ch' \<and>
     balance_of ref_runtime ref_chain 20 = Ok bu \<and>
     unat share = unat (200 :: u64) * unat (min 100 (25 :: u8)) div 100 \<and>
     balance_of ref_runtime ch' 20 = Ok (bu - 200) \<and>
     balance_of ref_runtime ch' 30 = Ok (bp + share) \<and>
     balance_of ref_runtime ch' 31 = Ok (br + (200 - share))"
proof -
  let ?accs = "[ref_info 1 False, ref_info 20 False, ref_info 30 False, ref_info 7 True,
    ref_info 31 False]"
  have rd: "read_u64 (u64_le 200 @ [25]) = Ok (200, [25 :: u8])" "read_u8 [25] = Ok (25, [])"
    using u64.get_enc [of 200 "[25]"] u8.get_enc [of 25 "[]"] by simp_all
  have "\<exists>ch'. execute_charge_fees ref_runtime ?accs (u64_le 200 @ [25]) ref_chain = Ok ch'"
    by (simp add: execute_charge_fees_def rd Let_def platform_share_def pmul_def checked_mul_def
        ref_transfer_ix_def ref_token_program_def ref_invoke_def ref_move_def ref_chain_def
        ref_token_def ref_unpack_def ref_set_amount_def checked_add_def emit_stack_Ok
        saturating_sub_def)
  then obtain ch' where ex: "execute_charge_fees ref_runtime ?accs (u64_le 200 @ [25]) ref_chain = Ok ch'"
    by blast
  show ?thesis
    using charge_fees_split [OF ref_transfer_law _ rd ex] ex by auto
qed

text \<open>
  C5 (charge_fees_overflow). With a referrer the fee is multiplied by the percentage in 64
  bits first, so a fee of \<open>2^64 / percent\<close> or more aborts the instruction instead of
  being split, whatever the accounts hold.
\<close>

theorem charge_fees_overflow:
  assumes "read_u64 data = Ok (fee, rest)" and "read_u8 rest = Ok (pct, rest')"
    and "2 ^ 64 \<le> unat fee * unat (min 100 pct)"
  shows "execute_charge_fees rt [prog, user, plat, signer, ref] data ch = Panic \<and>
    execute_charge_fees_v2 rt [prog, mint, user, plat, signer, ref] data ch = Panic"
proof -
  have p: "unat (ucast (min 100 pct) :: u64) = unat (min 100 pct)"
    using unsigned_less [of "min 100 pct", where ?'a = nat] by (intro unat_ucast_small) simp
  have "platform_share fee (min 100 pct) True = Panic"
    using assms(3) by (simp add: platform_share_def pmul_Panic p)
  then show ?thesis
    using assms(1,2) by (simp_all add: execute_charge_fees_def execute_charge_fees_v2_def Let_def)
qed

theorem charge_fees_overflow_witness:
  "execute_charge_fees ref_runtime
     [ref_info 1 False, ref_info 20 False, ref_info 30 False, ref_info 7 True, ref_info 31 False]
     (u64_le (2 ^ 60) @ [50]) ref_chain = Panic"
proof -
  have rd: "read_u64 (u64_le (2 ^ 60) @ [50]) = Ok (2 ^ 60, [50 :: u8])"
    "read_u8 [50] = Ok (50, [])"
    using u64.get_enc [of "2 ^ 60" "[50]"] u8.get_enc [of 50 "[]"] by simp_all
  show ?thesis by (rule charge_fees_overflow [OF rd, THEN conjunct1]) simp
qed

text \<open>The second version moves tokens through \<open>token_transfer\<close>.\<close>

lemma token_transfer_spl:
  assumes "token_transfer rt prog mint src dst auth seeds amt ch = Ok ch'"
    and "ai_key prog = spl_token_id rt"
  obtains ix infos sds where
    "rt_token_transfer rt (ai_key prog) (ai_key src) (ai_key dst) (ai_key auth) [] amt = Ok ix"
    "rt_invoke rt ix infos sds ch = Ok ch'"
  using assms by (auto simp: token_transfer_def split: if_splits)

text \<open>
  C6 (charge_fees_v2_referrer_unpaid). The second version takes the referrer's account
  from position 4, which is the signer's. With a referrer passed at position 5, every
  successful charge under the legacy SPL token program (the \<open>ai_key prog = spl_token_id rt\<close>
  branch of \<open>transfer\<close>; the transfer of Token-2022 has no law here) debits the user by the
  whole fee, credits the platform with its share and account 4 with the rest, leaves every
  other balance alone, the referrer's among them, and logs account 4 as the referrer's.
\<close>

theorem charge_fees_v2_referrer_unpaid:
  assumes law: "token_transfer_law rt" and prog: "ai_key prog = spl_token_id rt"
    and dist: "distinct [ai_key user, ai_key plat, ai_key signer, ai_key ref]"
    and rd: "read_u64 data = Ok (fee, rest)" "read_u8 rest = Ok (pct, rest')"
    and ex: "execute_charge_fees_v2 rt [prog, mint, user, plat, signer, ref] data ch = Ok ch'"
  shows "balance_of rt ch' (ai_key ref) = balance_of rt ch (ai_key ref) \<and>
    (\<exists>bu bp bs share.
       balance_of rt ch (ai_key user) = Ok bu \<and> balance_of rt ch (ai_key plat) = Ok bp \<and>
       balance_of rt ch (ai_key signer) = Ok bs \<and>
       unat share = unat fee * unat (min 100 pct) div 100 \<and> unat fee \<le> unat bu \<and>
       balance_of rt ch' (ai_key user) = Ok (bu - fee) \<and>
       balance_of rt ch' (ai_key plat) = Ok (bp + share) \<and>
       balance_of rt ch' (ai_key signer) = Ok (bs + (fee - share)) \<and>
       (\<forall>k. k \<notin> {ai_key user, ai_key plat, ai_key signer} \<longrightarrow>
          balance_of rt ch' k = balance_of rt ch k) \<and>
       chain_logs ch' = chain_logs ch @
         [PLATFORM_FEE_LOG_DISCRIMINANT @ platform_fee_pod \<lparr>pf_user = ai_key signer,
            pf_platform_token_account = ai_key plat, pf_platform_fee = share\<rparr>,
          REFERRER_FEE_LOG_DISCRIMINANT @ referrer_fee_pod \<lparr>rf_referee = ai_key signer,
            rf_referer_token_account = ai_key signer, rf_referrer_fee = fee - share\<rparr>])"
proof -
  from ex rd obtain share ch1 ch2 ch3 where
    share: "platform_share fee (min 100 pct) True = Ok share"
    and t1: "token_transfer rt prog mint user plat signer [] share ch = Ok ch1"
    and e1: "emit_stack PLATFORM_FEE_LOG_DISCRIMINANT (platform_fee_pod
       \<lparr>pf_user = ai_key signer, pf_platform_token_account = ai_key plat,
        pf_platform_fee = share\<rparr>) ch1 = Ok ch2"
    and t2: "token_transfer rt prog mint user signer signer [] (saturating_sub fee share) ch2 = Ok ch3"
    and e2: "emit_stack REFERRER_FEE_LOG_DISCRIMINANT (referrer_fee_pod
       \<lparr>rf_referee = ai_key signer, rf_referer_token_account = ai_key signer,
        rf_referrer_fee = saturating_sub fee share\<rparr>) ch3 = Ok ch'"
    by (auto simp: execute_charge_fees_v2_def Let_def)
  obtain ix1 i1 s1 where x1: "rt_token_transfer rt (ai_key prog) (ai_key user) (ai_key plat)
      (ai_key signer) [] share = Ok ix1" "rt_invoke rt ix1 i1 s1 ch = Ok ch1"
    by (rule token_transfer_spl [OF t1 prog]) (rule that)
  obtain ix2 i2 s2 where x2: "rt_token_transfer rt (ai_key prog) (ai_key user) (ai_key signer)
      (ai_key signer) [] (saturating_sub fee share) = Ok ix2" "rt_invoke rt ix2 i2 s2 ch2 = Ok ch3"
    by (rule token_transfer_spl [OF t2 prog]) (rule that)
  have le: "unat share \<le> unat fee" using platform_share_le [OF min_100_le share] .
  then have sub: "saturating_sub fee share = fee - share" by (simp add: saturating_sub_def)
  have val: "unat share = unat fee * unat (min 100 pct) div 100"
    using share by (simp add: platform_share_referrer_Ok [OF min_100_le])
  from dist have d1: "ai_key user \<noteq> ai_key plat" and d2: "ai_key user \<noteq> ai_key signer"
    and d3: "ai_key plat \<noteq> ai_key signer" by auto
  obtain bu bp where f1: "balance_of rt ch (ai_key user) = Ok bu"
    "balance_of rt ch (ai_key plat) = Ok bp" "unat share \<le> unat bu"
    "balance_of rt ch2 (ai_key user) = Ok (bu - share)"
    "balance_of rt ch2 (ai_key plat) = Ok (bp + share)"
    and o1: "\<And>k. k \<noteq> ai_key user \<Longrightarrow> k \<noteq> ai_key plat \<Longrightarrow> balance_of rt ch2 k = balance_of rt ch k"
    and l1: "chain_logs ch2 = chain_logs ch @ [PLATFORM_FEE_LOG_DISCRIMINANT @
       platform_fee_pod \<lparr>pf_user = ai_key signer, pf_platform_token_account = ai_key plat,
          pf_platform_fee = share\<rparr>]"
    by (rule transfer_then_emit [OF law x1 d1 e1]) (simp_all add: that)
  obtain bu' bs where f2: "balance_of rt ch2 (ai_key user) = Ok bu'"
    "balance_of rt ch2 (ai_key signer) = Ok bs" "unat (fee - share) \<le> unat bu'"
    "balance_of rt ch' (ai_key user) = Ok (bu' - (fee - share))"
    "balance_of rt ch' (ai_key signer) = Ok (bs + (fee - share))"
    and o2: "\<And>k. k \<noteq> ai_key user \<Longrightarrow> k \<noteq> ai_key signer \<Longrightarrow>
       balance_of rt ch' k = balance_of rt ch2 k"
    and l2: "chain_logs ch' = chain_logs ch2 @ [REFERRER_FEE_LOG_DISCRIMINANT @
       referrer_fee_pod \<lparr>rf_referee = ai_key signer, rf_referer_token_account = ai_key signer,
          rf_referrer_fee = fee - share\<rparr>]"
    by (rule transfer_then_emit [OF law x2 d2 e2]) (simp_all add: that sub)
  have bu': "bu' = bu - share" using f1(4) f2(1) by simp
  have "unat fee - unat share \<le> unat bu - unat share"
    using f2(3) le f1(3) by (simp add: bu' unat_sub word_le_nat_alt)
  then have fund: "unat fee \<le> unat bu" using le f1(3) by linarith
  have rbal: "balance_of rt ch' (ai_key ref) = balance_of rt ch (ai_key ref)"
    using o1 [of "ai_key ref"] o2 [of "ai_key ref"] dist by auto
  have user: "balance_of rt ch' (ai_key user) = Ok (bu - fee)" using f2(4) by (simp add: bu')
  have plat: "balance_of rt ch' (ai_key plat) = Ok (bp + share)"
    using f1(5) o2 [of "ai_key plat"] d1 d3 by simp
  have signer: "balance_of rt ch (ai_key signer) = Ok bs"
    using f2(2) o1 [of "ai_key signer"] d2 d3 by simp
  have others: "\<forall>k. k \<notin> {ai_key user, ai_key plat, ai_key signer} \<longrightarrow>
      balance_of rt ch' k = balance_of rt ch k" using o1 o2 by simp
  have logs: "chain_logs ch' = chain_logs ch @
      [PLATFORM_FEE_LOG_DISCRIMINANT @ platform_fee_pod \<lparr>pf_user = ai_key signer,
         pf_platform_token_account = ai_key plat, pf_platform_fee = share\<rparr>,
       REFERRER_FEE_LOG_DISCRIMINANT @ referrer_fee_pod \<lparr>rf_referee = ai_key signer,
         rf_referer_token_account = ai_key signer, rf_referrer_fee = fee - share\<rparr>]"
    by (simp only: l1 l2 append_assoc append_Cons append_Nil)
  show ?thesis
    by (intro conjI exI [of _ bu] exI [of _ bp] exI [of _ bs] exI [of _ share];
      fact rbal f1(1,2) signer val fund user plat f2(5) others logs)
qed

theorem charge_fees_v2_referrer_unpaid_witness:
  "\<exists>ch' bs share. execute_charge_fees_v2 ref_runtime
     [ref_info 1 False, ref_info 5 False, ref_info 20 False, ref_info 30 False, ref_info 7 True,
      ref_info 31 False] (u64_le 200 @ [25]) ref_chain = Ok ch' \<and>
     balance_of ref_runtime ch' 31 = balance_of ref_runtime ref_chain 31 \<and>
     balance_of ref_runtime ref_chain 7 = Ok bs \<and> unat share = 50 \<and>
     balance_of ref_runtime ch' 7 = Ok (bs + (200 - share))"
proof -
  let ?accs = "[ref_info 1 False, ref_info 5 False, ref_info 20 False, ref_info 30 False,
    ref_info 7 True, ref_info 31 False]"
  have rd: "read_u64 (u64_le 200 @ [25]) = Ok (200, [25 :: u8])" "read_u8 [25] = Ok (25, [])"
    using u64.get_enc [of 200 "[25]"] u8.get_enc [of 25 "[]"] by simp_all
  have "\<exists>ch'. execute_charge_fees_v2 ref_runtime ?accs (u64_le 200 @ [25]) ref_chain = Ok ch'"
    by (simp add: execute_charge_fees_v2_def rd Let_def platform_share_def pmul_def checked_mul_def
        token_transfer_def ref_transfer_ix_def ref_token_program_def ref_invoke_def ref_move_def
        ref_chain_def ref_token_def ref_unpack_def ref_set_amount_def checked_add_def emit_stack_Ok
        saturating_sub_def)
  then obtain ch' where ex: "execute_charge_fees_v2 ref_runtime ?accs (u64_le 200 @ [25]) ref_chain = Ok ch'"
    by blast
  show ?thesis
    using charge_fees_v2_referrer_unpaid [OF ref_transfer_law _ _ rd ex] ex by auto
qed

text \<open>
  C4 (withdraw_referral_safe). A withdrawal succeeds only for a signing referrer, from the
  vault address derived from that referrer and mint, into a token account owned by that
  referrer; and then it empties the vault into that account and logs the amount.
\<close>

theorem withdraw_referral_safe:
  assumes law: "token_transfer_law rt" and prog: "ai_key tok = spl_token_id rt"
    and ne: "ai_key vault \<noteq> ai_key ata"
    and ex: "execute_withdraw_referral_fees rt [referrer, vault, mint, ata, sys, tok] data ch = Ok ch'"
  shows "ai_is_signer referrer \<and> get_owner rt ch ata = Ok (ai_key referrer) \<and>
    rt_create_program_address rt (vault_seeds (ai_key referrer) (ai_key mint) data) crate_id
      = Ok (ai_key vault) \<and>
    (\<exists>bv ba. balance_of rt ch (ai_key vault) = Ok bv \<and> balance_of rt ch (ai_key ata) = Ok ba \<and>
       balance_of rt ch' (ai_key vault) = Ok 0 \<and> balance_of rt ch' (ai_key ata) = Ok (ba + bv) \<and>
       (\<forall>k. k \<noteq> ai_key vault \<longrightarrow> k \<noteq> ai_key ata \<longrightarrow> balance_of rt ch' k = balance_of rt ch k) \<and>
       chain_logs ch' = chain_logs ch @ [REFERRER_WITHDRAW_LOG_DISCRIMINANT @
         referrer_withdraw_pod \<lparr>rw_referer = ai_key referrer,
           rw_referer_token_account = ai_key ata, rw_amount = bv\<rparr>])"
proof -
  from ex obtain full ch1 where
    guards: "ai_is_signer referrer" "get_owner rt ch ata = Ok (ai_key referrer)"
      "rt_create_program_address rt (vault_seeds (ai_key referrer) (ai_key mint) data) crate_id
         = Ok (ai_key vault)"
    and full: "balance_of rt ch (ai_key vault) = Ok full"
    and t: "token_transfer rt tok mint vault ata vault
        (vault_seeds (ai_key referrer) (ai_key mint) data) full ch = Ok ch1"
    and e: "emit_stack REFERRER_WITHDRAW_LOG_DISCRIMINANT (referrer_withdraw_pod
        \<lparr>rw_referer = ai_key referrer, rw_referer_token_account = ai_key ata,
         rw_amount = full\<rparr>) ch1 = Ok ch'"
    by (auto simp: execute_withdraw_referral_fees_def Let_def get_balance_balance_of)
  obtain ix i sds where x: "rt_token_transfer rt (ai_key tok) (ai_key vault) (ai_key ata)
      (ai_key vault) [] full = Ok ix" "rt_invoke rt ix i sds ch = Ok ch1"
    by (rule token_transfer_spl [OF t prog]) (rule that)
  show ?thesis
    by (rule transfer_then_emit [OF law x ne e]) (use guards full in auto)
qed

definition ref_referral_chain :: chain where
  "ref_referral_chain = ref_chain\<lparr>chain_accounts := (chain_accounts ref_chain)
     (173 := ref_token 5 173 90)\<rparr>"

theorem withdraw_referral_safe_witness:
  "\<exists>ch'. execute_withdraw_referral_fees ref_runtime
     [ref_info 7 True, ref_info 173 False, ref_info 5 False, ref_info 20 False, ref_info 3 False,
      ref_info 1 False] [255] ref_referral_chain = Ok ch' \<and>
     balance_of ref_runtime ch' 173 = Ok 0"
proof -
  let ?accs = "[ref_info 7 True, ref_info 173 False, ref_info 5 False, ref_info 20 False,
    ref_info 3 False, ref_info 1 False]"
  have "\<exists>ch'. execute_withdraw_referral_fees ref_runtime ?accs [255] ref_referral_chain = Ok ch'"
    by (simp add: execute_withdraw_referral_fees_def Let_def verify_program_id_def get_owner_def
        get_balance_def vault_seeds_def token_transfer_def ref_transfer_ix_def
        ref_token_program_def ref_invoke_def ref_move_def ref_referral_chain_def ref_chain_def
        ref_token_def ref_unpack_def le_val_le_bytes ref_set_amount_def checked_add_def
        emit_stack_Ok)
  then obtain ch' where ex:
    "execute_withdraw_referral_fees ref_runtime ?accs [255] ref_referral_chain = Ok ch'"
    by blast
  show ?thesis using withdraw_referral_safe [OF ref_transfer_law _ _ ex] ex by auto
qed

end
