(* ===== verification/Exec_Program.thy ===== *)
theory Exec_Program
  imports Exec_Swap Exec_Fees "HOL-Library.Signed_Division"
begin

unbundle bit_operations_syntax

text \<open>
  The entry point of the executor program (\<^verbatim>\<open>lib.rs\<close>), the OpenBook v2 forwarding
  instruction (\<^verbatim>\<open>execute_openbook_v2_swap.rs\<close>) and the swap program the tests use
  (\<^verbatim>\<open>programs/mock_swap/src/lib.rs\<close>). The end-to-end theorem of the executor is here: the
  program run on the bytes that \<open>generate_swap_ix_data\<close> assembles is the abstract run of
  the route.
\<close>

subsection \<open>OpenBook v2\<close>

definition i64_max :: u64 where
  "i64_max = 2 ^ 63 - 1"

text \<open>Signed 64-bit division: truncating, with the panics of Rust.\<close>

definition pdiv_i64 :: "u64 \<Rightarrow> u64 \<Rightarrow> u64 presult" where
  "pdiv_i64 a b =
     (if b = 0 then Panic
      else if a = 2 ^ 63 \<and> b = - 1 then Panic
      else Ok (word_of_int (sint a sdiv sint b)))"

definition execute_openbook_v2_swap ::
    "runtime \<Rightarrow> account_info list \<Rightarrow> bytes \<Rightarrow> chain \<Rightarrow> chain presult" where
  "execute_openbook_v2_swap rt accounts instruction_data ch =
     rbind (read_u64 instruction_data) (\<lambda>(in_amount, instruction_data).
     rbind (read_u8 instruction_data) (\<lambda>(is_bid, instruction_data).
     rbind (read_u8 instruction_data) (\<lambda>(limit, _).
     rbind (at_index accounts 3) (\<lambda>market.
     let market_data = acc_data (account_of ch market) in
     rbind (assert_that (length market_data = 848)) (\<lambda>_.
     let quote_lot_size = u64_of_le (take 8 (drop 448 market_data));
         base_lot_size = u64_of_le (take 8 (drop 456 market_data)) in
     rbind (if is_bid = 1 then
              rbind (pdiv_i64 in_amount quote_lot_size) (\<lambda>max_quote_lots.
              rbind (pdiv_i64 i64_max base_lot_size) (\<lambda>max_base_lots.
              Ok (0 :: u8, i64_max, max_base_lots, max_quote_lots)))
            else
              rbind (pdiv_i64 i64_max quote_lot_size) (\<lambda>max_quote_lots.
              rbind (pdiv_i64 in_amount base_lot_size) (\<lambda>max_base_lots.
              Ok (1, 1, max_base_lots, max_quote_lots))))
       (\<lambda>(side, price_lots, max_base_lots, max_quote_lots).
     let data = [3, 44, 71, 3, 26, 199, 203, 85] @ [side] @ u64_le price_lots
                @ u64_le max_base_lots @ u64_le max_quote_lots @ [1] @ [limit] in
     rbind (at_index accounts 0) (\<lambda>program.
     rbind (slice_from accounts 1) (\<lambda>rest.
     rt_invoke rt \<lparr>ix_program_id = ai_key program, ix_accounts = map meta_of rest,
         ix_data = data\<rparr> accounts [] ch))))))))"

subsection \<open>Dispatch\<close>

datatype instructions =
    ExecuteSwapV3 | OpenbookV2Swap | ExecuteSwapV2 | ChargeFees | CreateReferral
  | WithdrawReferral | ChargeFeesV2

fun instruction_tag :: "instructions \<Rightarrow> u8" where
  "instruction_tag ExecuteSwapV3 = 1"
| "instruction_tag OpenbookV2Swap = 2"
| "instruction_tag ExecuteSwapV2 = 3"
| "instruction_tag ChargeFees = 4"
| "instruction_tag CreateReferral = 5"
| "instruction_tag WithdrawReferral = 6"
| "instruction_tag ChargeFeesV2 = 7"

definition process_instruction ::
    "runtime \<Rightarrow> pubkey \<Rightarrow> account_info list \<Rightarrow> bytes \<Rightarrow> chain \<Rightarrow> chain presult" where
  "process_instruction rt program_id accounts instruction_data ch =
     rbind (at_index instruction_data 0) (\<lambda>byte.
     rbind (slice_from instruction_data 1) (\<lambda>rest.
     let ix_discriminator = byte AND 15; router_version = drop_bit 4 byte in
     if ix_discriminator = instruction_tag ExecuteSwapV2 then
       execute_swap_v2 rt accounts rest router_version ch
     else if ix_discriminator = instruction_tag ExecuteSwapV3 then
       execute_swap_v3 rt accounts rest router_version ch
     else if ix_discriminator = instruction_tag OpenbookV2Swap then
       execute_openbook_v2_swap rt accounts rest ch
     else if ix_discriminator = instruction_tag ChargeFees then
       execute_charge_fees rt accounts rest ch
     else if ix_discriminator = instruction_tag CreateReferral then
       execute_create_referral rt accounts rest ch
     else if ix_discriminator = instruction_tag WithdrawReferral then
       execute_withdraw_referral_fees rt accounts rest ch
     else if ix_discriminator = instruction_tag ChargeFeesV2 then
       execute_charge_fees_v2 rt accounts rest ch
     else Err InvalidInstructionData))"

subsection \<open>The mock swap program\<close>

definition unwrap_result :: "'a presult \<Rightarrow> 'a presult" where
  "unwrap_result r = (case r of Ok x \<Rightarrow> Ok x | _ \<Rightarrow> Panic)"

definition mock_transfer ::
    "runtime \<Rightarrow> u64 \<Rightarrow> account_info \<Rightarrow> account_info \<Rightarrow> account_info \<Rightarrow> account_info \<Rightarrow> chain \<Rightarrow>
     chain presult" where
  "mock_transfer rt amount source destination authority token_program ch =
     rbind (unwrap_result (rt_token_transfer rt (ai_key token_program) (ai_key source)
              (ai_key destination) (ai_key authority) [] amount)) (\<lambda>ix.
     unwrap_result (rt_invoke rt ix [source, destination, authority, token_program] [] ch))"

definition mock_process_instruction ::
    "runtime \<Rightarrow> pubkey \<Rightarrow> account_info list \<Rightarrow> bytes \<Rightarrow> chain \<Rightarrow> chain presult" where
  "mock_process_instruction rt program_id accounts instruction_data ch =
     rbind (slice instruction_data 0 8) (\<lambda>a.
     rbind (slice instruction_data 8 16) (\<lambda>b.
     rbind (at_index accounts 2) (\<lambda>a2. rbind (at_index accounts 3) (\<lambda>a3.
     rbind (at_index accounts 1) (\<lambda>a1. rbind (at_index accounts 0) (\<lambda>a0.
     rbind (mock_transfer rt (u64_of_le a) a2 a3 a1 a0 ch) (\<lambda>ch.
     rbind (at_index accounts 5) (\<lambda>a5. rbind (at_index accounts 6) (\<lambda>a6.
     rbind (at_index accounts 4) (\<lambda>a4.
     mock_transfer rt (u64_of_le b) a5 a6 a4 a0 ch))))))))))"

subsection \<open>The discriminator byte\<close>

lemma unat_push_bit_4: "unat (push_bit 4 v :: u8) = 16 * (unat v mod 16)"
proof -
  have "unat (push_bit 4 v :: u8) = (unat v * 16) mod 256"
    by (simp add: push_bit_eq_mult unat_word_ariths)
  also have "\<dots> = 16 * (unat v mod 16)"
    using mult_mod_right [of 16 "unat v" 16] by (simp add: mult.commute)
  finally show ?thesis .
qed

lemma tag_byte:
  fixes v :: u8
  shows "padd 1 (push_bit 4 v) = (Ok (1 + push_bit 4 v) :: u8 presult)"
    and "(1 + push_bit 4 v) AND 15 = 1"
    and "drop_bit 4 (1 + push_bit 4 v) = v AND 15"
proof -
  have bound: "1 + 16 * (unat v mod 16) < 256"
  proof -
    have "unat v mod 16 < 16" by simp
    then show ?thesis by linarith
  qed
  then have t: "unat (1 + push_bit 4 v) = 1 + 16 * (unat v mod 16)"
    by (subst unat_add_lt) (simp_all add: unat_push_bit_4)
  then show "padd 1 (push_bit 4 v) = (Ok (1 + push_bit 4 v) :: u8 presult)"
    by (simp add: padd_Ok unat_push_bit_4)
  have m: "unat (x AND 15) = unat x mod 16" for x :: u8
  proof -
    have "x AND 15 = take_bit 4 x" by (simp add: take_bit_eq_mask mask_eq_exp_minus_1)
    then show ?thesis by (simp add: take_bit_eq_mod unat_mod)
  qed
  show "(1 + push_bit 4 v) AND 15 = 1"
    by (simp add: word_unat_eq_iff m t mod_mult_self2)
  have "unat (drop_bit 4 (1 + push_bit 4 v)) = (1 + 16 * (unat v mod 16)) div 16"
    using t by (simp add: unsigned_drop_bit_eq drop_bit_eq_div unat_div)
  also have "\<dots> = unat (v AND 15)" by (simp add: m)
  finally show "drop_bit 4 (1 + push_bit 4 v) = v AND 15" by (simp add: word_unat_eq_iff)
qed

subsection \<open>End to end\<close>

lemma generated_swap_runs:
  assumes "list_all2 hop_matches (zip ins (zip offs outs)) hs" and "length hs = length ins"
    and "length ins < 256" and "\<forall>h \<in> set hs. rh_sized h"
    and "10 + length (concat (map rh_enc hs)) \<le> 1232"
  shows "\<exists>ix. generate_swap_ix_data min_out ins offs (ai_key input) outs pid version = Ok ix \<and>
    map am_pubkey (ix_accounts ix) = map ai_key (input # concat (map rh_infos hs)) \<and>
    process_instruction rt pid (input # concat (map rh_infos hs)) (ix_data ix) ch =
      swap_spec rt min_out input hs ch"
proof -
  let ?tag = "1 + push_bit 4 version :: u8"
  obtain metas where m: "map am_pubkey metas = ai_key input # map ai_key (concat (map rh_infos hs))"
    "generate_swap_ix_data min_out ins offs (ai_key input) outs pid version =
      Ok \<lparr>ix_program_id = pid, ix_accounts = metas,
          ix_data = ?tag # u64_le min_out @ [of_nat (length ins)] @ concat (map rh_enc hs)\<rparr>"
    using generate_swap_layout [OF assms(1,4,5) tag_byte(1), of input min_out pid version]
    by (elim exE conjE) (rule that)
  have "process_instruction rt pid (input # concat (map rh_infos hs))
      (?tag # u64_le min_out @ [of_nat (length hs)] @ concat (map rh_enc hs)) ch =
    swap_spec rt min_out input hs ch"
    using execute_swap_v3_enc [OF assms(4), of rt input min_out "version AND 15" ch] assms(2,3)
    by (simp add: process_instruction_def slice_from_def tag_byte)
  with m show ?thesis using assms(2) by simp
qed

text \<open>
  C1 (process_generated_swap). The bytes and accounts that the client assembles with
  \<open>generate_swap_ix_data\<close> make the on-chain entry point run the abstract route: every hop
  in order, each later hop's input amount patched with what the previous hop paid out, the
  slippage guard and the swap event at the end. The assembled instruction names exactly the
  accounts the program is then run with.
\<close>

theorem process_generated_swap:
  assumes "list_all2 hop_matches (zip ins (zip offs outs)) hs" and "length hs = length ins"
    and "length ins < 256" and "\<forall>h \<in> set hs. rh_sized h"
    and "10 + length (concat (map rh_enc hs)) \<le> 1232"
  shows "\<exists>ix. generate_swap_ix_data min_out ins offs (ai_key input) outs pid version = Ok ix \<and>
    map am_pubkey (ix_accounts ix) = map ai_key (input # concat (map rh_infos hs)) \<and>
    process_instruction rt pid (input # concat (map rh_infos hs)) (ix_data ix) ch =
      swap_spec rt min_out input hs ch"
  by (rule generated_swap_runs [OF assms])

definition ref_client_ix :: instruction where
  "ref_client_ix = \<lparr>ix_program_id = ai_key (rh_program ref_hop),
     ix_accounts = map meta_of (rh_accounts ref_hop), ix_data = rh_data ref_hop\<rparr>"

theorem process_generated_swap_witness:
  "\<exists>ix. generate_swap_ix_data 80 [ref_client_ix] [0] (ai_key (ref_info 20 False))
      [ai_key (rh_out ref_hop)] crate_id 3 = Ok ix \<and>
    process_instruction ref_runtime crate_id (ref_info 20 False # rh_infos ref_hop) (ix_data ix)
      ref_chain = swap_spec ref_runtime 80 (ref_info 20 False) [ref_hop] ref_chain"
proof -
  have "hop_matches (ref_client_ix, 0, ai_key (rh_out ref_hop)) ref_hop"
    by (simp add: hop_matches_def ref_client_ix_def meta_of_def) (simp add: ref_hop_def)
  moreover have "length (rh_enc ref_hop) \<le> 1222"
    by (simp add: rh_enc_def ref_hop_def length_ux16_enc)
  ultimately show ?thesis
    using process_generated_swap [of "[ref_client_ix]" "[0]" "[ai_key (rh_out ref_hop)]" "[ref_hop]"
        80 "ref_info 20 False" crate_id 3 ref_runtime ref_chain] ref_hop_sized by fastforce
qed

text \<open>
  A non-empty instruction whose low four discriminator
  bits name none of the seven instructions changes nothing and is
  \<open>InvalidInstructionData\<close>; an empty one panics.
\<close>

theorem process_unknown_discriminator:
  "process_instruction rt pid accounts [] ch = Panic \<and>
   (b AND 15 = 0 \<or> 7 < b AND 15 \<longrightarrow>
      process_instruction rt pid accounts (b # data) ch = Err InvalidInstructionData)"
proof (intro conjI impI)
  show "process_instruction rt pid accounts [] ch = Panic"
    by (simp add: process_instruction_def at_index_def)
  assume "b AND 15 = 0 \<or> 7 < b AND 15"
  moreover have "instruction_tag i \<noteq> 0 \<and> instruction_tag i \<le> 7" for i
    by (cases i) simp_all
  ultimately have "\<And>i. b AND 15 \<noteq> instruction_tag i" by (metis linorder_not_le)
  then show "process_instruction rt pid accounts (b # data) ch = Err InvalidInstructionData"
    by (simp add: process_instruction_def slice_from_def Let_def del: instruction_tag.simps)
qed

theorem process_unknown_discriminator_witness:
  "process_instruction ref_runtime crate_id [] [0x48, 1] ref_chain = Err InvalidInstructionData"
  using process_unknown_discriminator [of ref_runtime crate_id "[]" ref_chain "0x48" "[1]"] by simp

end
