(* ===== verification/Raydium_State.thy ===== *)
theory Raydium_State
  imports Exec_Runtime
begin

text \<open>
  The state types of the Raydium AMM (\<^verbatim>\<open>lib/dex-raydium/src/internal/state.rs\<close> and
  \<^verbatim>\<open>error.rs\<close>): the status, state, parameter and reset-flag enumerations with their
  conversions, the fee record with its validation and byte format, the pool record.

  The four enumerations share one contract, the locale \<open>u64_enum\<close>: the conversion from a
  number panics (\<open>unreachable!\<close>) exactly beyond the last variant and inverts the
  conversion to a number.
\<close>

subsection \<open>Errors\<close>

datatype (plugins only: code) amm_error =
    AlreadyInUse | InvalidProgramAddress | ExpectedMint | ExpectedAccount | InvalidCoinVault
  | InvalidPCVault | InvalidTokenLP | InvalidDestTokenCoin | InvalidDestTokenPC
  | InvalidPoolMint | InvalidOpenOrders | InvalidMarket | InvalidMarketProgram
  | InvalidTargetOrders | AccountNeedWriteable | AccountNeedReadOnly | InvalidCoinMint
  | InvalidPCMint | InvalidOwner | InvalidSupply | InvalidDelegate | InvalidSignAccount
  | InvalidStatus | InvalidInstruction | WrongAccountsNumber | InvalidTargetAccountOwner
  | InvalidTargetOwner | InvalidAmmAccountOwner | InvalidParamsSet | InvalidInput
  | ExceededSlippage | CalculationExRateFailure | CheckedSubOverflow | CheckedAddOverflow
  | CheckedMulOverflow | CheckedDivOverflow | CheckedEmptyFunds | CalcPnlError
  | InvalidSplTokenProgram | TakePnlError | AmmInsufficientFunds | ConversionFailure
  | InvalidUserToken | InvalidSrmMint | InvalidSrmToken | TooManyOpenOrders
  | OrderAtSlotIsPlaced | InvalidSysProgramAddress | InvalidFee | RepeatCreateAmm
  | NotAllowZeroLP | InvalidCloseAuthority | InvalidFreezeAuthority | InvalidReferPCMint
  | InvalidConfigAccount | RepeatCreateConfigAccount | MarketLotSizeIsTooLarge
  | InitLpAmountTooLess | UnknownAmmError

text \<open>\<open>e as u32\<close>: the position of the variant.\<close>

primrec amm_error_code :: "amm_error \<Rightarrow> u32" where
  "amm_error_code AlreadyInUse = 0"
| "amm_error_code InvalidProgramAddress = 1"
| "amm_error_code ExpectedMint = 2"
| "amm_error_code ExpectedAccount = 3"
| "amm_error_code InvalidCoinVault = 4"
| "amm_error_code InvalidPCVault = 5"
| "amm_error_code InvalidTokenLP = 6"
| "amm_error_code InvalidDestTokenCoin = 7"
| "amm_error_code InvalidDestTokenPC = 8"
| "amm_error_code InvalidPoolMint = 9"
| "amm_error_code InvalidOpenOrders = 10"
| "amm_error_code InvalidMarket = 11"
| "amm_error_code InvalidMarketProgram = 12"
| "amm_error_code InvalidTargetOrders = 13"
| "amm_error_code AccountNeedWriteable = 14"
| "amm_error_code AccountNeedReadOnly = 15"
| "amm_error_code InvalidCoinMint = 16"
| "amm_error_code InvalidPCMint = 17"
| "amm_error_code InvalidOwner = 18"
| "amm_error_code InvalidSupply = 19"
| "amm_error_code InvalidDelegate = 20"
| "amm_error_code InvalidSignAccount = 21"
| "amm_error_code InvalidStatus = 22"
| "amm_error_code InvalidInstruction = 23"
| "amm_error_code WrongAccountsNumber = 24"
| "amm_error_code InvalidTargetAccountOwner = 25"
| "amm_error_code InvalidTargetOwner = 26"
| "amm_error_code InvalidAmmAccountOwner = 27"
| "amm_error_code InvalidParamsSet = 28"
| "amm_error_code InvalidInput = 29"
| "amm_error_code ExceededSlippage = 30"
| "amm_error_code CalculationExRateFailure = 31"
| "amm_error_code CheckedSubOverflow = 32"
| "amm_error_code CheckedAddOverflow = 33"
| "amm_error_code CheckedMulOverflow = 34"
| "amm_error_code CheckedDivOverflow = 35"
| "amm_error_code CheckedEmptyFunds = 36"
| "amm_error_code CalcPnlError = 37"
| "amm_error_code InvalidSplTokenProgram = 38"
| "amm_error_code TakePnlError = 39"
| "amm_error_code AmmInsufficientFunds = 40"
| "amm_error_code ConversionFailure = 41"
| "amm_error_code InvalidUserToken = 42"
| "amm_error_code InvalidSrmMint = 43"
| "amm_error_code InvalidSrmToken = 44"
| "amm_error_code TooManyOpenOrders = 45"
| "amm_error_code OrderAtSlotIsPlaced = 46"
| "amm_error_code InvalidSysProgramAddress = 47"
| "amm_error_code InvalidFee = 48"
| "amm_error_code RepeatCreateAmm = 49"
| "amm_error_code NotAllowZeroLP = 50"
| "amm_error_code InvalidCloseAuthority = 51"
| "amm_error_code InvalidFreezeAuthority = 52"
| "amm_error_code InvalidReferPCMint = 53"
| "amm_error_code InvalidConfigAccount = 54"
| "amm_error_code RepeatCreateConfigAccount = 55"
| "amm_error_code MarketLotSizeIsTooLarge = 56"
| "amm_error_code InitLpAmountTooLess = 57"
| "amm_error_code UnknownAmmError = 58"

text \<open>\<open>anyhow::Error\<close>: an AMM error, a program error or a message.\<close>

datatype anyhow = AmmError amm_error | ProgramError program_error | Msg string

type_synonym 'a ares = "('a, anyhow) result"

definition amm_program_error :: "amm_error \<Rightarrow> program_error" where
  "amm_program_error e = Custom (amm_error_code e)"

text \<open>\<open>?\<close> into \<open>anyhow::Result\<close>.\<close>

fun lift_err :: "('e \<Rightarrow> anyhow) \<Rightarrow> ('a, 'e) result \<Rightarrow> 'a ares" where
  "lift_err f (Ok x) = Ok x"
| "lift_err f (Err e) = Err (f e)"
| "lift_err f Panic = Panic"

subsection \<open>Enumerations\<close>

locale u64_enum =
  fixes from_u64 :: "u64 \<Rightarrow> ('s, 'e) result" and into_u64 :: "'s \<Rightarrow> u64" and bound :: u64
  assumes from_into: "from_u64 (into_u64 s) = Ok s"
    and into_le: "into_u64 s \<le> bound"
    and into_from: "from_u64 n = Ok s \<Longrightarrow> into_u64 s = n"
    and from_Panic: "from_u64 n = Panic \<longleftrightarrow> bound < n"
    and from_not_Err: "from_u64 n \<noteq> Err e"
begin

lemma from_eq_Ok: "from_u64 n = Ok s \<longleftrightarrow> into_u64 s = n"
  using from_into into_from by auto

lemma into_inj: "into_u64 s = into_u64 t \<longleftrightarrow> s = t"
  using from_into by (metis result.inject(1))

lemma into_onto: "(\<exists>s. into_u64 s = n) \<longleftrightarrow> n \<le> bound"
  using into_le from_Panic from_not_Err into_from by (metis linorder_not_le result.exhaust)

end

datatype amm_status =
    Uninitialized | Initialized | Disabled | WithdrawOnly | LiquidityOnly | OrderBookOnly
  | SwapOnly | WaitingTrade

definition amm_status_from_u64 :: "u64 \<Rightarrow> (amm_status, 'e) result" where
  "amm_status_from_u64 n =
     (if n = 0 then Ok Uninitialized
      else if n = 1 then Ok Initialized
      else if n = 2 then Ok Disabled
      else if n = 3 then Ok WithdrawOnly
      else if n = 4 then Ok LiquidityOnly
      else if n = 5 then Ok OrderBookOnly
      else if n = 6 then Ok SwapOnly
      else if n = 7 then Ok WaitingTrade
      else Panic)"

primrec amm_status_into_u64 :: "amm_status \<Rightarrow> u64" where
  "amm_status_into_u64 Uninitialized = 0"
| "amm_status_into_u64 Initialized = 1"
| "amm_status_into_u64 Disabled = 2"
| "amm_status_into_u64 WithdrawOnly = 3"
| "amm_status_into_u64 LiquidityOnly = 4"
| "amm_status_into_u64 OrderBookOnly = 5"
| "amm_status_into_u64 SwapOnly = 6"
| "amm_status_into_u64 WaitingTrade = 7"

definition valid_status :: "u64 \<Rightarrow> bool" where
  "valid_status status \<longleftrightarrow> 1 \<le> status \<and> status \<le> 7"

primrec deposit_permission :: "amm_status \<Rightarrow> bool" where
  "deposit_permission Uninitialized = False"
| "deposit_permission Initialized = True"
| "deposit_permission Disabled = False"
| "deposit_permission WithdrawOnly = False"
| "deposit_permission LiquidityOnly = True"
| "deposit_permission OrderBookOnly = True"
| "deposit_permission SwapOnly = True"
| "deposit_permission WaitingTrade = True"

primrec withdraw_permission :: "amm_status \<Rightarrow> bool" where
  "withdraw_permission Uninitialized = False"
| "withdraw_permission Initialized = True"
| "withdraw_permission Disabled = False"
| "withdraw_permission WithdrawOnly = True"
| "withdraw_permission LiquidityOnly = True"
| "withdraw_permission OrderBookOnly = True"
| "withdraw_permission SwapOnly = True"
| "withdraw_permission WaitingTrade = True"

primrec swap_permission :: "amm_status \<Rightarrow> bool" where
  "swap_permission Uninitialized = False"
| "swap_permission Initialized = True"
| "swap_permission Disabled = False"
| "swap_permission WithdrawOnly = False"
| "swap_permission LiquidityOnly = False"
| "swap_permission OrderBookOnly = False"
| "swap_permission SwapOnly = True"
| "swap_permission WaitingTrade = True"

primrec orderbook_permission :: "amm_status \<Rightarrow> bool" where
  "orderbook_permission Uninitialized = False"
| "orderbook_permission Initialized = True"
| "orderbook_permission Disabled = False"
| "orderbook_permission WithdrawOnly = False"
| "orderbook_permission LiquidityOnly = False"
| "orderbook_permission OrderBookOnly = True"
| "orderbook_permission SwapOnly = False"
| "orderbook_permission WaitingTrade = False"

datatype amm_state =
    InvlidState | IdleState | CancelAllOrdersState | PlanOrdersState | CancelOrderState
  | PlaceOrdersState | PurgeOrderState

definition amm_state_from_u64 :: "u64 \<Rightarrow> (amm_state, 'e) result" where
  "amm_state_from_u64 n =
     (if n = 0 then Ok InvlidState
      else if n = 1 then Ok IdleState
      else if n = 2 then Ok CancelAllOrdersState
      else if n = 3 then Ok PlanOrdersState
      else if n = 4 then Ok CancelOrderState
      else if n = 5 then Ok PlaceOrdersState
      else if n = 6 then Ok PurgeOrderState
      else Panic)"

primrec amm_state_into_u64 :: "amm_state \<Rightarrow> u64" where
  "amm_state_into_u64 InvlidState = 0"
| "amm_state_into_u64 IdleState = 1"
| "amm_state_into_u64 CancelAllOrdersState = 2"
| "amm_state_into_u64 PlanOrdersState = 3"
| "amm_state_into_u64 CancelOrderState = 4"
| "amm_state_into_u64 PlaceOrdersState = 5"
| "amm_state_into_u64 PurgeOrderState = 6"

definition valid_state :: "u64 \<Rightarrow> bool" where
  "valid_state state \<longleftrightarrow> state \<le> 6"

datatype amm_params =
    ParamStatus | ParamState | OrderNum | Depth | AmountWave | MinPriceMultiplier
  | MaxPriceMultiplier | MinSize | VolMaxCutRatio | Fees | AmmOwner | SetOpenTime
  | LastOrderDistance | InitOrderDepth | SetSwitchTime | ClearOpenTime | Seperate
  | UpdateOpenOrder

definition amm_params_from_u64 :: "u64 \<Rightarrow> (amm_params, 'e) result" where
  "amm_params_from_u64 n =
     (if n = 0 then Ok ParamStatus
      else if n = 1 then Ok ParamState
      else if n = 2 then Ok OrderNum
      else if n = 3 then Ok Depth
      else if n = 4 then Ok AmountWave
      else if n = 5 then Ok MinPriceMultiplier
      else if n = 6 then Ok MaxPriceMultiplier
      else if n = 7 then Ok MinSize
      else if n = 8 then Ok VolMaxCutRatio
      else if n = 9 then Ok Fees
      else if n = 10 then Ok AmmOwner
      else if n = 11 then Ok SetOpenTime
      else if n = 12 then Ok LastOrderDistance
      else if n = 13 then Ok InitOrderDepth
      else if n = 14 then Ok SetSwitchTime
      else if n = 15 then Ok ClearOpenTime
      else if n = 16 then Ok Seperate
      else if n = 17 then Ok UpdateOpenOrder
      else Panic)"

primrec amm_params_into_u64 :: "amm_params \<Rightarrow> u64" where
  "amm_params_into_u64 ParamStatus = 0"
| "amm_params_into_u64 ParamState = 1"
| "amm_params_into_u64 OrderNum = 2"
| "amm_params_into_u64 Depth = 3"
| "amm_params_into_u64 AmountWave = 4"
| "amm_params_into_u64 MinPriceMultiplier = 5"
| "amm_params_into_u64 MaxPriceMultiplier = 6"
| "amm_params_into_u64 MinSize = 7"
| "amm_params_into_u64 VolMaxCutRatio = 8"
| "amm_params_into_u64 Fees = 9"
| "amm_params_into_u64 AmmOwner = 10"
| "amm_params_into_u64 SetOpenTime = 11"
| "amm_params_into_u64 LastOrderDistance = 12"
| "amm_params_into_u64 InitOrderDepth = 13"
| "amm_params_into_u64 SetSwitchTime = 14"
| "amm_params_into_u64 ClearOpenTime = 15"
| "amm_params_into_u64 Seperate = 16"
| "amm_params_into_u64 UpdateOpenOrder = 17"

datatype amm_reset_flag =
    ResetYes | ResetNo

definition amm_reset_flag_from_u64 :: "u64 \<Rightarrow> (amm_reset_flag, 'e) result" where
  "amm_reset_flag_from_u64 n =
     (if n = 0 then Ok ResetYes
      else if n = 1 then Ok ResetNo
      else Panic)"

primrec amm_reset_flag_into_u64 :: "amm_reset_flag \<Rightarrow> u64" where
  "amm_reset_flag_into_u64 ResetYes = 0"
| "amm_reset_flag_into_u64 ResetNo = 1"

interpretation amm_status: u64_enum amm_status_from_u64 amm_status_into_u64 7
proof unfold_locales
  fix s :: amm_status and n :: u64 and e
  show "amm_status_from_u64 (amm_status_into_u64 s) = Ok s" by (cases s) (simp_all add: amm_status_from_u64_def)
  show "amm_status_into_u64 s \<le> 7" by (cases s) simp_all
  show "amm_status_from_u64 n = Ok s \<Longrightarrow> amm_status_into_u64 s = n"
    by (auto simp: amm_status_from_u64_def split: if_splits)
  show "amm_status_from_u64 n = Panic \<longleftrightarrow> 7 < n"
    by (simp add: amm_status_from_u64_def word_unat_eq_iff word_less_nat_alt; presburger)
  show "amm_status_from_u64 n \<noteq> Err e" by (simp add: amm_status_from_u64_def)
qed

interpretation amm_state: u64_enum amm_state_from_u64 amm_state_into_u64 6
proof unfold_locales
  fix s :: amm_state and n :: u64 and e
  show "amm_state_from_u64 (amm_state_into_u64 s) = Ok s" by (cases s) (simp_all add: amm_state_from_u64_def)
  show "amm_state_into_u64 s \<le> 6" by (cases s) simp_all
  show "amm_state_from_u64 n = Ok s \<Longrightarrow> amm_state_into_u64 s = n"
    by (auto simp: amm_state_from_u64_def split: if_splits)
  show "amm_state_from_u64 n = Panic \<longleftrightarrow> 6 < n"
    by (simp add: amm_state_from_u64_def word_unat_eq_iff word_less_nat_alt; presburger)
  show "amm_state_from_u64 n \<noteq> Err e" by (simp add: amm_state_from_u64_def)
qed

interpretation amm_params: u64_enum amm_params_from_u64 amm_params_into_u64 17
proof unfold_locales
  fix s :: amm_params and n :: u64 and e
  show "amm_params_from_u64 (amm_params_into_u64 s) = Ok s" by (cases s) (simp_all add: amm_params_from_u64_def)
  show "amm_params_into_u64 s \<le> 17" by (cases s) simp_all
  show "amm_params_from_u64 n = Ok s \<Longrightarrow> amm_params_into_u64 s = n"
    by (auto simp: amm_params_from_u64_def split: if_splits)
  show "amm_params_from_u64 n = Panic \<longleftrightarrow> 17 < n"
    by (simp add: amm_params_from_u64_def word_unat_eq_iff word_less_nat_alt; presburger)
  show "amm_params_from_u64 n \<noteq> Err e" by (simp add: amm_params_from_u64_def)
qed

interpretation amm_reset_flag: u64_enum amm_reset_flag_from_u64 amm_reset_flag_into_u64 1
proof unfold_locales
  fix s :: amm_reset_flag and n :: u64 and e
  show "amm_reset_flag_from_u64 (amm_reset_flag_into_u64 s) = Ok s" by (cases s) (simp_all add: amm_reset_flag_from_u64_def)
  show "amm_reset_flag_into_u64 s \<le> 1" by (cases s) simp_all
  show "amm_reset_flag_from_u64 n = Ok s \<Longrightarrow> amm_reset_flag_into_u64 s = n"
    by (auto simp: amm_reset_flag_from_u64_def split: if_splits)
  show "amm_reset_flag_from_u64 n = Panic \<longleftrightarrow> 1 < n"
    by (simp add: amm_reset_flag_from_u64_def word_unat_eq_iff word_less_nat_alt; presburger)
  show "amm_reset_flag_from_u64 n \<noteq> Err e" by (simp add: amm_reset_flag_from_u64_def)
qed

subsection \<open>Fees\<close>

definition validate_fraction :: "u64 \<Rightarrow> u64 \<Rightarrow> (unit, amm_error) result" where
  "validate_fraction numerator denominator =
     (if numerator \<ge> denominator \<or> denominator = 0 then Err InvalidFee else Ok ())"

record fees =
  min_separate_numerator :: u64
  min_separate_denominator :: u64
  trade_fee_numerator :: u64
  trade_fee_denominator :: u64
  pnl_numerator :: u64
  pnl_denominator :: u64
  swap_fee_numerator :: u64
  swap_fee_denominator :: u64

definition fees_validate :: "fees \<Rightarrow> (unit, amm_error) result" where
  "fees_validate f =
     rbind (validate_fraction (min_separate_numerator f) (min_separate_denominator f)) (\<lambda>_.
     rbind (validate_fraction (trade_fee_numerator f) (trade_fee_denominator f)) (\<lambda>_.
     rbind (validate_fraction (pnl_numerator f) (pnl_denominator f)) (\<lambda>_.
     rbind (validate_fraction (swap_fee_numerator f) (swap_fee_denominator f)) (\<lambda>_. Ok ()))))"

definition TEN_THOUSAND :: u64 where
  "TEN_THOUSAND = 10000"

definition fees_initialize :: "fees \<Rightarrow> fees" where
  "fees_initialize f = f\<lparr>min_separate_numerator := 5, min_separate_denominator := TEN_THOUSAND,
     trade_fee_numerator := 25, trade_fee_denominator := TEN_THOUSAND,
     pnl_numerator := 12, pnl_denominator := 100,
     swap_fee_numerator := 25, swap_fee_denominator := TEN_THOUSAND\<rparr>"

text \<open>\<open>Pack\<close>: eight little-endian numbers in the first 64 bytes; a shorter slice panics.\<close>

definition fees_fields :: "fees \<Rightarrow> u64 list" where
  "fees_fields f = [min_separate_numerator f, min_separate_denominator f,
     trade_fee_numerator f, trade_fee_denominator f, pnl_numerator f, pnl_denominator f,
     swap_fee_numerator f, swap_fee_denominator f]"

definition fees_pack_into_slice :: "fees \<Rightarrow> bytes \<Rightarrow> bytes presult" where
  "fees_pack_into_slice f output = copy_at output 0 (concat (map u64_le (fees_fields f)))"

definition fees_unpack_from_slice :: "bytes \<Rightarrow> fees presult" where
  "fees_unpack_from_slice input =
     rbind (slice input 0 64) (\<lambda>b.
     let field = (\<lambda>i. u64_of_le (take 8 (drop (8 * i) b))) in
     Ok \<lparr>min_separate_numerator = field 0, min_separate_denominator = field 1,
         trade_fee_numerator = field 2, trade_fee_denominator = field 3,
         pnl_numerator = field 4, pnl_denominator = field 5,
         swap_fee_numerator = field 6, swap_fee_denominator = field 7\<rparr>)"

lemma fees_validate_Ok:
  "fees_validate f = Ok u \<longleftrightarrow> min_separate_numerator f < min_separate_denominator f \<and>
     trade_fee_numerator f < trade_fee_denominator f \<and> pnl_numerator f < pnl_denominator f \<and>
     swap_fee_numerator f < swap_fee_denominator f"
proof -
  have v: "validate_fraction n d = Ok x \<longleftrightarrow> n < d" for n d :: u64 and x
    by (auto simp: validate_fraction_def)
  show ?thesis by (simp add: fees_validate_def v)
qed

text \<open>
  Packing a fee record into a buffer of at least 64 bytes and
  unpacking it gives the record back and leaves the bytes after the first 64 alone; a
  shorter buffer panics. The initial fees are valid.
\<close>

theorem fees_pack_roundtrip:
  "(case fees_pack_into_slice f output of
      Ok output' \<Rightarrow> 64 \<le> length output \<and> length output' = length output \<and>
        fees_unpack_from_slice output' = Ok f \<and> drop 64 output' = drop 64 output
    | Err e \<Rightarrow> False
    | Panic \<Rightarrow> length output < 64) \<and>
   fees_validate (fees_initialize f) = Ok ()"
proof (intro conjI)
  have len: "length (concat (map u64_le (fees_fields f))) = 64" by (simp add: fees_fields_def)
  show "case fees_pack_into_slice f output of
      Ok output' \<Rightarrow> 64 \<le> length output \<and> length output' = length output \<and>
        fees_unpack_from_slice output' = Ok f \<and> drop 64 output' = drop 64 output
    | Err e \<Rightarrow> False | Panic \<Rightarrow> length output < 64"
  proof (cases "64 \<le> length output")
    case True
    let ?out = "concat (map u64_le (fees_fields f)) @ drop 64 output"
    have "fees_unpack_from_slice ?out = Ok f"
      using len by (simp add: fees_unpack_from_slice_def slice_def fees_fields_def Let_def)
    then show ?thesis using True len by (simp add: fees_pack_into_slice_def copy_at_def)
  qed (simp add: fees_pack_into_slice_def copy_at_def len)
  show "fees_validate (fees_initialize f) = Ok ()"
    by (simp add: fees_validate_Ok fees_initialize_def TEN_THOUSAND_def)
qed

subsection \<open>The pool\<close>

record state_data =
  need_take_pnl_coin :: u64
  need_take_pnl_pc :: u64
  total_pnl_pc :: u64
  total_pnl_coin :: u64
  pool_open_time :: u64
  sd_padding :: "u64 list"
  orderbook_to_init_time :: u64
  swap_coin_in_amount :: u128
  swap_pc_out_amount :: u128
  swap_acc_pc_fee :: u64
  swap_pc_in_amount :: u128
  swap_coin_out_amount :: u128
  swap_acc_coin_fee :: u64

definition state_data_initialize :: "u64 \<Rightarrow> state_data" where
  "state_data_initialize open_time =
     \<lparr>need_take_pnl_coin = 0, need_take_pnl_pc = 0, total_pnl_pc = 0, total_pnl_coin = 0,
      pool_open_time = open_time, sd_padding = [0, 0], orderbook_to_init_time = 0,
      swap_coin_in_amount = 0, swap_pc_out_amount = 0, swap_acc_pc_fee = 0,
      swap_pc_in_amount = 0, swap_coin_out_amount = 0, swap_acc_coin_fee = 0\<rparr>"

record amm_info =
  amm_status_field :: u64
  amm_nonce :: u64
  order_num :: u64
  amm_depth :: u64
  coin_decimals :: u64
  pc_decimals :: u64
  amm_state_field :: u64
  reset_flag :: u64
  min_size :: u64
  vol_max_cut_ratio :: u64
  amount_wave :: u64
  coin_lot_size :: u64
  pc_lot_size :: u64
  min_price_multiplier :: u64
  max_price_multiplier :: u64
  sys_decimal_value :: u64
  amm_fees :: fees
  amm_state_data :: state_data
  coin_vault :: pubkey
  pc_vault :: pubkey
  coin_vault_mint :: pubkey
  pc_vault_mint :: pubkey
  lp_mint :: pubkey
  open_orders :: pubkey
  amm_market :: pubkey
  market_program :: pubkey
  target_orders :: pubkey
  padding1 :: "u64 list"
  amm_owner :: pubkey
  lp_amount :: u64
  client_order_id :: u64
  recent_epoch :: u64
  padding2 :: u64

text \<open>\<open>load_checked\<close>. The byte image of the record (\<open>bytemuck::from_bytes\<close> and the
  compiler's layout) is a parameter: the size and the decoder.\<close>

definition amm_info_load_checked ::
    "nat \<Rightarrow> (bytes \<Rightarrow> amm_info presult) \<Rightarrow> bytes \<Rightarrow> amm_info presult" where
  "amm_info_load_checked size_of from_bytes account =
     (if length account \<noteq> size_of then Err (amm_program_error ExpectedAccount)
      else rbind (from_bytes account) (\<lambda>data.
        if amm_status_field data = amm_status_into_u64 Uninitialized
        then Err (amm_program_error InvalidStatus) else Ok data))"

definition incr_client_order_id :: "amm_info \<Rightarrow> u64 \<times> amm_info" where
  "incr_client_order_id amm =
     (let n = client_order_id amm + 1; n = (if n = 0 then n + 1 else n) in
      (n, amm\<lparr>client_order_id := n\<rparr>))"

end
