(* ===== verification/Raydium_Math.thy ===== *)
theory Raydium_Math
  imports Raydium_State
begin

text \<open>
  The arithmetic of the Raydium AMM (\<^verbatim>\<open>lib/dex-raydium/src/internal/math.rs\<close>), the
  initialisation of a pool record that uses it (\<^verbatim>\<open>state.rs\<close>) and the swap simulations
  (\<^verbatim>\<open>processor.rs\<close>). \<open>U128\<close> is a 128-bit word; its checked operations are those of the
  prelude, \<open>as_u64\<close> panics on a value that does not fit.

  The theorems: the constant product never decreases over a simulated swap, the fee is
  charged on the way in, the output never exceeds what the pool can pay, and a larger
  input never gives a smaller output.
\<close>

subsection \<open>128-bit helpers\<close>

definition checked_pow :: "'a::len word \<Rightarrow> nat \<Rightarrow> 'a word option" where
  "checked_pow a n = (if unat a ^ n < 2 ^ LENGTH('a) then Some (a ^ n) else None)"

definition as_u64 :: "u128 \<Rightarrow> (u64, 'e) result" where
  "as_u64 x = (if unat x < 2 ^ 64 then Ok (ucast x) else Panic)"

abbreviation to_wide :: "u64 \<Rightarrow> u128" where
  "to_wide x \<equiv> ucast x"

abbreviation mul_error :: "'a option \<Rightarrow> 'a ares" where "mul_error \<equiv> ok_or (Msg ''mul error'')"
abbreviation div_error :: "'a option \<Rightarrow> 'a ares" where "div_error \<equiv> ok_or (Msg ''div error'')"
abbreviation pow_error :: "'a option \<Rightarrow> 'a ares" where "pow_error \<equiv> ok_or (Msg ''pow error'')"
abbreviation add_error :: "'a option \<Rightarrow> 'a ares" where "add_error \<equiv> ok_or (Msg ''add error'')"
abbreviation sub_error :: "'a option \<Rightarrow> 'a ares" where "sub_error \<equiv> ok_or (Msg ''sub error'')"

lemma unat_to_wide [simp]: "unat (to_wide x) = unat x"
proof -
  have "unat x < 2 ^ LENGTH(64)" by (rule unsigned_less)
  then show ?thesis by (intro unat_ucast_small) simp
qed

lemma as_u64_Ok [rust_arith]: "as_u64 x = Ok y \<longleftrightarrow> unat x = unat y"
proof
  assume "as_u64 x = Ok y"
  then show "unat x = unat y" by (auto simp: as_u64_def unat_ucast_small split: if_splits)
next
  assume *: "unat x = unat y"
  have "unat y < 2 ^ LENGTH(64)" by (rule unsigned_less)
  with * have "unat x < 2 ^ 64" by simp
  then show "as_u64 x = Ok y" using * by (simp add: as_u64_def word_unat_eq_iff unat_ucast_small)
qed

lemma as_u64_Panic [rust_arith]: "as_u64 x = Panic \<longleftrightarrow> 2 ^ 64 \<le> unat x"
  by (auto simp: as_u64_def)

lemma as_u64_not_Err [simp]: "as_u64 x \<noteq> Err e"
  by (simp add: as_u64_def)

subsection \<open>Calculator\<close>

datatype swap_direction = PC2Coin | Coin2PC

datatype round_direction = Floor | Ceiling

definition to_u128 :: "u64 \<Rightarrow> (u128, amm_error) result" where
  "to_u128 val = Ok (ucast val)"

definition to_u64 :: "u128 \<Rightarrow> (u64, amm_error) result" where
  "to_u64 val = (if unat val < 2 ^ 64 then Ok (ucast val) else Err ConversionFailure)"

text \<open>The loop of \<open>fibonacci\<close> from index \<open>i\<close> on; the sum panics on overflow.\<close>

fun fibonacci_loop :: "nat \<Rightarrow> nat \<Rightarrow> u64 list \<Rightarrow> (u64 list, 'e) result" where
  "fibonacci_loop 0 i fb = Ok fb"
| "fibonacci_loop (Suc remaining) i fb =
     rbind (if i = 0 then Ok 0 else if i = 1 then Ok 1 else if i = 2 then Ok 2
            else rbind (at_index fb (i - 1)) (\<lambda>a. rbind (at_index fb (i - 2)) (\<lambda>b. padd a b)))
       (\<lambda>ret. fibonacci_loop remaining (Suc i) (fb @ [ret]))"

definition fibonacci :: "u64 \<Rightarrow> (u64 list, 'e) result" where
  "fibonacci order = fibonacci_loop (unat order) 0 []"

definition normalize_decimal :: "u64 \<Rightarrow> u64 \<Rightarrow> u64 \<Rightarrow> u64 ares" where
  "normalize_decimal val native_decimal sys_value =
     rbind (mul_error (checked_mul (to_wide val) (to_wide sys_value))) (\<lambda>ret_mut.
     rbind (pow_error (checked_pow 10 (unat native_decimal))) (\<lambda>scale.
     rbind (div_error (checked_div ret_mut scale)) (\<lambda>q. lift_err AmmError (to_u64 q))))"

definition restore_decimal :: "u128 \<Rightarrow> u64 \<Rightarrow> u64 \<Rightarrow> u128 ares" where
  "restore_decimal val native_decimal sys_value =
     rbind (pow_error (checked_pow 10 (unat native_decimal))) (\<lambda>scale.
     rbind (mul_error (checked_mul val scale)) (\<lambda>ret_mut.
     div_error (checked_div ret_mut (to_wide sys_value))))"

definition convert_in_pc_lot_size :: "u8 \<Rightarrow> u8 \<Rightarrow> u64 \<Rightarrow> u64 \<Rightarrow> u64 \<Rightarrow> u64 ares" where
  "convert_in_pc_lot_size pc_dec coin_dec pc_lot coin_lot sys_value =
     rbind (mul_error (checked_mul (to_wide pc_lot) (to_wide sys_value))) (\<lambda>x.
     rbind (pow_error (checked_pow 10 (unat coin_dec))) (\<lambda>coin_scale.
     rbind (mul_error (checked_mul x coin_scale)) (\<lambda>x.
     rbind (pow_error (checked_pow 10 (unat pc_dec))) (\<lambda>pc_scale.
     rbind (mul_error (checked_mul (to_wide coin_lot) pc_scale)) (\<lambda>y.
     rbind (div_error (checked_div x y)) (\<lambda>q. lift_err AmmError (to_u64 q)))))))"

definition calc_total_without_take_pnl_no_orderbook ::
    "u64 \<Rightarrow> u64 \<Rightarrow> amm_info \<Rightarrow> (u64 \<times> u64) ares" where
  "calc_total_without_take_pnl_no_orderbook pc_amount coin_amount amm =
     rbind (sub_error (checked_sub pc_amount (need_take_pnl_pc (amm_state_data amm)))) (\<lambda>pc.
     rbind (sub_error (checked_sub coin_amount (need_take_pnl_coin (amm_state_data amm)))) (\<lambda>coin.
     Ok (pc, coin)))"

text \<open>\<open>CheckedCeilDiv\<close>, the same text for \<open>u128\<close> and \<open>U128\<close>.\<close>

definition checked_ceil_div :: "u128 \<Rightarrow> u128 \<Rightarrow> (u128 \<times> u128) option" where
  "checked_ceil_div self rhs =
     Option.bind (checked_div self rhs) (\<lambda>quotient.
     if quotient = 0 then
       Option.bind (checked_mul self 2) (\<lambda>twice.
       if twice \<ge> rhs then Some (1, 0) else Some (0, 0))
     else
       Option.bind (checked_rem self rhs) (\<lambda>remainder.
       if remainder > 0 then
         Option.bind (checked_add quotient 1) (\<lambda>quotient.
         Option.bind (checked_div self quotient) (\<lambda>rhs.
         Option.bind (checked_rem self quotient) (\<lambda>remainder.
         if remainder > 0 then
           Option.bind (checked_add rhs 1) (\<lambda>rhs. Some (quotient, rhs))
         else Some (quotient, rhs))))
       else Some (quotient, rhs)))"

definition swap_token_amount_base_in :: "u128 \<Rightarrow> u128 \<Rightarrow> u128 \<Rightarrow> swap_direction \<Rightarrow> u128 ares" where
  "swap_token_amount_base_in amount_in total_pc total_coin swap_direction =
     (case swap_direction of
        Coin2PC \<Rightarrow>
          rbind (add_error (checked_add total_coin amount_in)) (\<lambda>denominator.
          rbind (mul_error (checked_mul total_pc amount_in)) (\<lambda>n.
          div_error (checked_div n denominator)))
      | PC2Coin \<Rightarrow>
          rbind (sub_error (checked_add total_pc amount_in)) (\<lambda>denominator.
          rbind (mul_error (checked_mul total_coin amount_in)) (\<lambda>n.
          div_error (checked_div n denominator))))"

definition swap_token_amount_base_out :: "u128 \<Rightarrow> u128 \<Rightarrow> u128 \<Rightarrow> swap_direction \<Rightarrow> u128 ares" where
  "swap_token_amount_base_out amount_out total_pc total_coin swap_direction =
     (case swap_direction of
        Coin2PC \<Rightarrow>
          rbind (sub_error (checked_sub total_pc amount_out)) (\<lambda>denominator.
          rbind (mul_error (checked_mul total_coin amount_out)) (\<lambda>n.
          rbind (ok_or (Msg ''ceil div error'') (checked_ceil_div n denominator)) (\<lambda>(q, _). Ok q)))
      | PC2Coin \<Rightarrow>
          rbind (sub_error (checked_sub total_coin amount_out)) (\<lambda>denominator.
          rbind (mul_error (checked_mul total_pc amount_out)) (\<lambda>n.
          rbind (ok_or (Msg ''ceil div error'') (checked_ceil_div n denominator)) (\<lambda>(q, _). Ok q))))"

subsection \<open>The swap simulations (processor.rs)\<close>

text \<open>The simulations read only the amounts of the vault accounts.\<close>

definition simulate_swap_base_in ::
    "amm_info \<Rightarrow> u64 \<Rightarrow> u64 \<Rightarrow> swap_direction \<Rightarrow> u64 \<Rightarrow> (u64 \<times> u64) ares" where
  "simulate_swap_base_in amm coin_vault_amount pc_vault_amount swap_direction in_amount =
     rbind (amm_status_from_u64 (amm_status_field amm)) (\<lambda>status.
     if \<not> swap_permission status then Err (AmmError InvalidStatus) else
     rbind (calc_total_without_take_pnl_no_orderbook pc_vault_amount coin_vault_amount amm)
       (\<lambda>(total_pc, total_coin).
     rbind (mul_error (checked_mul (to_wide in_amount)
              (to_wide (swap_fee_numerator (amm_fees amm))))) (\<lambda>n.
     rbind (div_error (checked_ceil_div n (to_wide (swap_fee_denominator (amm_fees amm)))))
       (\<lambda>(swap_fee, _).
     rbind (sub_error (checked_sub (to_wide in_amount) swap_fee)) (\<lambda>swap_in_after_deduct_fee.
     rbind (swap_token_amount_base_in swap_in_after_deduct_fee (to_wide total_pc)
              (to_wide total_coin) swap_direction) (\<lambda>out.
     rbind (as_u64 out) (\<lambda>swap_amount_out.
     let available_out_token = (case swap_direction of PC2Coin \<Rightarrow> total_coin | Coin2PC \<Rightarrow> total_pc);
         swap_amount_out = min swap_amount_out available_out_token in
     rbind (as_u64 swap_fee) (\<lambda>fee. Ok (swap_amount_out, fee)))))))))"

definition simulate_swap_base_out ::
    "amm_info \<Rightarrow> u64 \<Rightarrow> u64 \<Rightarrow> swap_direction \<Rightarrow> u64 \<Rightarrow> (u64 \<times> u64) ares" where
  "simulate_swap_base_out amm coin_vault_amount pc_vault_amount swap_direction out_amount =
     rbind (amm_status_from_u64 (amm_status_field amm)) (\<lambda>status.
     if \<not> swap_permission status then Err (AmmError InvalidStatus) else
     rbind (calc_total_without_take_pnl_no_orderbook pc_vault_amount coin_vault_amount amm)
       (\<lambda>(total_pc, total_coin).
     rbind (swap_token_amount_base_out (to_wide out_amount) (to_wide total_pc)
              (to_wide total_coin) swap_direction) (\<lambda>amount_in.
     rbind (as_u64 amount_in) (\<lambda>swap_amount_in.
     rbind (unwrap (checked_mul (to_wide swap_amount_in)
              (to_wide (swap_fee_numerator (amm_fees amm))))) (\<lambda>n.
     rbind (unwrap (checked_ceil_div n (to_wide (swap_fee_denominator (amm_fees amm)))))
       (\<lambda>(swap_fee, _).
     rbind (as_u64 swap_fee) (\<lambda>fee. Ok (swap_amount_in, fee))))))))"

subsection \<open>The division on natural numbers\<close>

text \<open>What \<open>checked_ceil_div\<close> computes: a ceiling, but rounding to the nearest when the
  quotient is below one.\<close>

definition ceil_val :: "nat \<Rightarrow> nat \<Rightarrow> nat" where
  "ceil_val n d = (if n < d then (if d \<le> 2 * n then 1 else 0) else (n + d - 1) div d)"

lemma div_add_pred:
  assumes "0 < (d :: nat)"
  shows "(n + d - Suc 0) div d = n div d + (if n mod d = 0 then 0 else 1)"
proof -
  define r where "r = n mod d"
  have r: "r < d" and n: "n = r + n div d * d" using assms by (simp_all add: r_def)
  have "n + d - Suc 0 = (r + d - Suc 0) + n div d * d" using n assms by linarith
  then have "(n + d - Suc 0) div d = n div d + (r + d - Suc 0) div d"
    using assms div_mult_self1 [of d "r + d - Suc 0" "n div d"] by simp
  moreover have "(r + d - Suc 0) div d = (if r = 0 then 0 else 1)"
  proof (cases r)
    case (Suc k)
    then have "r + d - Suc 0 = k + d" "k < d" using r by simp_all
    then show ?thesis using Suc assms div_add_self2 [of d k] by simp
  qed (use assms in simp)
  ultimately show ?thesis by (simp add: r_def)
qed

lemma checked_ceil_div_Some:
  assumes "checked_ceil_div a b = Some (q, r)"
  shows "unat q = ceil_val (unat a) (unat b)" "b \<noteq> 0"
proof -
  show b: "b \<noteq> 0" using assms by (auto simp: checked_ceil_div_def checked_div_def)
  then have b0: "0 < unat b" by (simp add: unat_gt_0)
  have z: "a div b = 0 \<longleftrightarrow> unat a < unat b"
    using b0 by (auto simp: word_unat_eq_iff unat_div div_eq_0_iff)
  have m: "0 < a mod b \<longleftrightarrow> unat a mod unat b \<noteq> 0"
    by (simp add: word_less_nat_alt unat_mod)
  have ge: "twice \<ge> b \<longleftrightarrow> unat b \<le> unat twice" for twice by (simp add: word_le_nat_alt)
  show "unat q = ceil_val (unat a) (unat b)"
  proof (cases "unat a < unat b")
    case True
    then have "checked_ceil_div a b = Option.bind (checked_mul a 2) (\<lambda>twice.
        if twice \<ge> b then Some (1, 0) else Some (0, 0))"
      using z b by (simp add: checked_ceil_div_def checked_div_def)
    with assms obtain twice where "checked_mul a 2 = Some twice"
      "(if twice \<ge> b then Some (1, 0) else Some (0, 0)) = Some (q, r)"
      by (auto simp only: bind_eq_Some_conv)
    then show ?thesis using True
      by (auto simp: ceil_val_def checked_mul_Some ge split: if_splits)
  next
    case False
    then have nz: "a div b \<noteq> 0" using z by blast
    show ?thesis
    proof (cases "0 < a mod b")
      case True
      then have "checked_add (a div b) 1 = Some q"
        using assms nz b
        by (auto simp: checked_ceil_div_def checked_div_def checked_rem_def bind_eq_Some_conv
            split: if_splits)
      then show ?thesis using True False m b0
        by (simp add: ceil_val_def div_add_pred checked_add_Some unat_div)
    next
      case False': False
      then have "q = a div b"
        using assms nz b by (auto simp: checked_ceil_div_def checked_div_def checked_rem_def)
      then show ?thesis using False' False m b0 by (simp add: ceil_val_def div_add_pred unat_div)
    qed
  qed
qed

lemma ceil_val_upper: "0 < d \<Longrightarrow> d \<le> 2 * n \<or> n = 0 \<Longrightarrow> n \<le> ceil_val n d * d"
proof (cases "n < d")
  case False
  assume d: "0 < d"
  have "n = n div d * d + n mod d" "n mod d < d" using d by simp_all
  moreover from this have "n \<le> n div d * d + d" by linarith
  ultimately have "n \<le> (n div d + (if n mod d = 0 then 0 else 1)) * d"
    by (cases "n mod d = 0") (simp_all only: distrib_right if_True if_False mult_1 add_0_right)
  then show ?thesis using False d by (simp add: ceil_val_def div_add_pred)
qed (auto simp: ceil_val_def)

text \<open>A fee never exceeds the amount, and grows by at most one per unit of input.\<close>

lemma ceil_val_le:
  assumes "n \<le> d" "0 < d"
  shows "ceil_val (a * n) d \<le> a"
proof (cases "a * n < d")
  case True
  then show ?thesis using assms by (cases a) (auto simp: ceil_val_def)
next
  case False
  have "a * n + d - Suc 0 < (a + 1) * d"
    using assms mult_le_mono2 [of n d a] unfolding distrib_right mult_1 by linarith
  then have "(a * n + d - Suc 0) div d < a + 1" using assms by (simp add: less_mult_imp_div_less)
  then show ?thesis using False by (simp add: ceil_val_def)
qed

lemma ceil_val_step:
  assumes "n \<le> d" "0 < d"
  shows "ceil_val (Suc a * n) d \<le> Suc (ceil_val (a * n) d)"
proof (cases "Suc a * n < d")
  case True
  then show ?thesis by (auto simp: ceil_val_def)
next
  case big: False
  have up: "ceil_val (Suc a * n) d = (a * n + n + d - Suc 0) div d"
    using big by (simp add: ceil_val_def add.commute)
  show ?thesis
  proof (cases "a * n < d")
    case False
    have "(a * n + n + d - Suc 0) div d \<le> (a * n + d - Suc 0 + d) div d"
      using assms by (intro div_le_mono) linarith
    also have "\<dots> = Suc ((a * n + d - Suc 0) div d)"
      using assms(2) div_add_self2 [of d "a * n + d - Suc 0"] by simp
    finally show ?thesis using False up by (simp add: ceil_val_def)
  next
    case small: True
    show ?thesis
    proof (cases "d \<le> 2 * (a * n)")
      case True
      have "a * n + n + d - Suc 0 < 3 * d" using small assms by linarith
      then have "(a * n + n + d - Suc 0) div d < 3" using assms by (simp add: less_mult_imp_div_less)
      then show ?thesis using True small up by (simp add: ceil_val_def)
    next
      case False
      have "a * n + n \<le> d"
      proof (cases a)
        case 0
        then show ?thesis using assms by simp
      next
        case (Suc k)
        then have "n \<le> a * n" by simp
        then show ?thesis using False by linarith
      qed
      then have "a * n + n + d - Suc 0 < 2 * d" using assms by linarith
      then have "(a * n + n + d - Suc 0) div d < 2" using assms by (simp add: less_mult_imp_div_less)
      then show ?thesis using up by simp
    qed
  qed
qed

lemma net_amount_mono:
  assumes "n \<le> d" "0 < d" "a \<le> b"
  shows "a - ceil_val (a * n) d \<le> b - ceil_val (b * n) d"
  using assms(3)
proof (induction rule: dec_induct)
  case (step k)
  have "k - ceil_val (k * n) d \<le> Suc k - ceil_val (Suc k * n) d"
    using ceil_val_step [OF assms(1,2), of k] by linarith
  with step.IH show ?case by (rule le_trans)
qed simp

subsection \<open>The constant product\<close>

text \<open>The reserves that price a swap, input side first: vault amounts less what is owed to
  the pool's owner. \<open>cp_out\<close> is the constant-product output.\<close>

fun reserves :: "amm_info \<Rightarrow> u64 \<Rightarrow> u64 \<Rightarrow> swap_direction \<Rightarrow> nat \<times> nat" where
  "reserves amm coin pc PC2Coin =
     (unat pc - unat (need_take_pnl_pc (amm_state_data amm)),
      unat coin - unat (need_take_pnl_coin (amm_state_data amm)))"
| "reserves amm coin pc Coin2PC =
     (unat coin - unat (need_take_pnl_coin (amm_state_data amm)),
      unat pc - unat (need_take_pnl_pc (amm_state_data amm)))"

definition cp_out :: "nat \<Rightarrow> nat \<Rightarrow> nat \<Rightarrow> nat" where
  "cp_out x y a = y * a div (x + a)"

lemma cp_out_le: "cp_out x y a \<le> y"
proof (cases "x + a = 0")
  case False
  have "y * a \<le> y * (x + a)" by simp
  then have "cp_out x y a \<le> y * (x + a) div (x + a)" unfolding cp_out_def by (rule div_le_mono)
  also have "\<dots> = y" using False by (metis nonzero_mult_div_cancel_right)
  finally show ?thesis .
qed (simp add: cp_out_def)

lemma cp_product: "x * y \<le> (x + a) * (y - cp_out x y a)"
proof -
  have "cp_out x y a * (x + a) \<le> y * a" unfolding cp_out_def by (rule div_times_less_eq_dividend)
  then have "x * y + cp_out x y a * (x + a) \<le> (x + a) * y" by (simp add: algebra_simps)
  then show ?thesis by (simp add: diff_mult_distrib2 mult.commute)
qed

lemma cp_out_mono:
  assumes "a \<le> b"
  shows "cp_out x y a \<le> cp_out x y b"
proof (cases "x + a = 0")
  case False
  then have pos: "0 < x + b" "0 < x + a" using assms by linarith+
  have "cp_out x y a * (x + b) * (x + a) = (y * a div (x + a) * (x + a)) * (x + b)"
    by (simp add: cp_out_def mult.commute mult.left_commute)
  also have "\<dots> \<le> (y * a) * (x + b)" by (intro mult_le_mono1 div_times_less_eq_dividend)
  also have "\<dots> \<le> (y * b) * (x + a)" using assms by (simp add: algebra_simps)
  finally have "cp_out x y a * (x + b) \<le> y * b"
    using pos by (auto simp only: mult_le_cancel2)
  then show ?thesis unfolding cp_out_def [of x y b] using pos by (simp add: less_eq_div_iff_mult_less_eq)
qed (simp add: cp_out_def)

lemma unat_min: "unat (min a b) = min (unat a) (unat b)"
  by (simp add: min_def word_le_nat_alt)

lemma base_in_Ok:
  assumes "swap_token_amount_base_in a pc coin dir = Ok out"
    and "(x, y) = (case dir of PC2Coin \<Rightarrow> (unat pc, unat coin) | Coin2PC \<Rightarrow> (unat coin, unat pc))"
  shows "unat out = cp_out x y (unat a)" "0 < x + unat a"
  using assms
  by (auto simp: swap_token_amount_base_in_def cp_out_def checked_add_Some checked_mul_Some
      checked_div_Some word_unat_eq_iff split: swap_direction.splits)

lemma totals_Ok:
  "calc_total_without_take_pnl_no_orderbook pc coin amm = Ok (tpc, tcoin) \<longleftrightarrow>
     unat pc = unat (need_take_pnl_pc (amm_state_data amm)) + unat tpc \<and>
     unat coin = unat (need_take_pnl_coin (amm_state_data amm)) + unat tcoin"
  by (auto simp: calc_total_without_take_pnl_no_orderbook_def checked_sub_Some)

lemma simulate_base_in_Ok:
  assumes "simulate_swap_base_in amm coin pc dir a = Ok (out, fee)"
    and "reserves amm coin pc dir = (x, y)"
  shows "unat fee = ceil_val (unat a * unat (swap_fee_numerator (amm_fees amm)))
      (unat (swap_fee_denominator (amm_fees amm)))" (is ?fee)
    and "unat fee \<le> unat a" (is ?le) and "unat out = cp_out x y (unat a - unat fee)" (is ?out)
    and "unat (swap_fee_denominator (amm_fees amm)) \<noteq> 0" (is ?den)
proof -
  from assms(1) obtain tpc tcoin n q r net o1 o2 where
    h: "calc_total_without_take_pnl_no_orderbook pc coin amm = Ok (tpc, tcoin)"
    "checked_mul (to_wide a) (to_wide (swap_fee_numerator (amm_fees amm))) = Some n"
    "checked_ceil_div n (to_wide (swap_fee_denominator (amm_fees amm))) = Some (q, r)"
    "checked_sub (to_wide a) q = Some net"
    "swap_token_amount_base_in net (to_wide tpc) (to_wide tcoin) dir = Ok o1"
    "as_u64 o1 = (Ok o2 :: u64 ares)" "as_u64 q = (Ok fee :: u64 ares)"
    "out = min o2 (case dir of PC2Coin \<Rightarrow> tcoin | Coin2PC \<Rightarrow> tpc)"
    by (auto simp: simulate_swap_base_in_def split: if_splits)
  have xy: "(x, y) = (case dir of PC2Coin \<Rightarrow> (unat tpc, unat tcoin) | Coin2PC \<Rightarrow> (unat tcoin, unat tpc))"
    using assms(2) h(1) by (cases dir) (auto simp: totals_Ok)
  have fee: "unat fee = unat q" using h(7) by (simp add: as_u64_Ok)
  show ?fee using fee checked_ceil_div_Some(1) [OF h(3)] h(2) by (simp add: checked_mul_Some)
  show ?den using checked_ceil_div_Some(2) [OF h(3)] by (simp add: word_unat_eq_iff)
  have net: "unat a = unat fee + unat net" using h(4) fee by (simp add: checked_sub_Some)
  then show ?le by simp
  have "unat o2 = cp_out x y (unat net)"
    using base_in_Ok(1) [OF h(5), of x y] xy h(6) by (cases dir) (simp_all add: as_u64_Ok)
  moreover have "unat (case dir of PC2Coin \<Rightarrow> tcoin | Coin2PC \<Rightarrow> tpc) = y"
    using xy by (cases dir) auto
  ultimately show ?out using h(8) net cp_out_le [of x y "unat net"] by (simp add: unat_min)
qed

text \<open>A pool for the witnesses: open for swaps, 0.25\<open>%\<close> fee, nothing owed.\<close>

definition ref_amm :: amm_info where
  "ref_amm = \<lparr>amm_status_field = 6, amm_nonce = 0, order_num = 7, amm_depth = 3,
     coin_decimals = 6, pc_decimals = 6, amm_state_field = 1, reset_flag = 1, min_size = 1,
     vol_max_cut_ratio = 500, amount_wave = 5000, coin_lot_size = 1, pc_lot_size = 1,
     min_price_multiplier = 1, max_price_multiplier = 1000000000, sys_decimal_value = 1000000,
     amm_fees = \<lparr>min_separate_numerator = 5, min_separate_denominator = 10000,
       trade_fee_numerator = 25, trade_fee_denominator = 10000, pnl_numerator = 12,
       pnl_denominator = 100, swap_fee_numerator = 25, swap_fee_denominator = 10000\<rparr>,
     amm_state_data = state_data_initialize 0, coin_vault = 11, pc_vault = 12,
     coin_vault_mint = 5, pc_vault_mint = 6, lp_mint = 13, open_orders = 14, amm_market = 15,
     market_program = 16, target_orders = 17, padding1 = replicate 8 0, amm_owner = 18,
     lp_amount = 0, client_order_id = 0, recent_epoch = 0, padding2 = 0\<rparr>"

lemmas raydium_eval = simulate_swap_base_in_def simulate_swap_base_out_def
  calc_total_without_take_pnl_no_orderbook_def checked_ceil_div_def swap_token_amount_base_in_def
  swap_token_amount_base_out_def checked_mul_def checked_add_def checked_sub_def checked_div_def
  checked_rem_def as_u64_def amm_status_from_u64_def state_data_initialize_def ref_amm_def

lemma ref_swap_in:
  "simulate_swap_base_in ref_amm 1000000000 1000000000 Coin2PC 1003505 = Ok (999995, 2509)"
  "simulate_swap_base_in ref_amm 1000000000 1000000000 Coin2PC 1006025 = Ok (1002502, 2516)"
  by (simp_all add: raydium_eval)

text \<open>
  C7 (raydium_swap_in_sound). A simulated exact-in swap charges the fee the pool's
  fraction asks for (at most the input), pays out exactly the constant-product amount of
  what is left, never more than the reserve, and the product of the reserves does not
  decrease even if the fee were paid out of the pool.
\<close>

theorem raydium_swap_in_sound:
  assumes "simulate_swap_base_in amm coin pc dir a = Ok (out, fee)"
    and "reserves amm coin pc dir = (x, y)"
  shows "unat fee = ceil_val (unat a * unat (swap_fee_numerator (amm_fees amm)))
      (unat (swap_fee_denominator (amm_fees amm))) \<and> unat fee \<le> unat a \<and>
    unat out = cp_out x y (unat a - unat fee) \<and> unat out \<le> y \<and>
    x * y \<le> (x + (unat a - unat fee)) * (y - unat out)"
  using simulate_base_in_Ok [OF assms] cp_out_le cp_product
  by (intro conjI) (simp_all only:)

theorem raydium_swap_in_sound_witness:
  "simulate_swap_base_in ref_amm 1000000000 1000000000 Coin2PC 1003505 = Ok (999995, 2509) \<and>
   1000000000 * 1000000000 \<le> (1000000000 + (1003505 - 2509)) * (1000000000 - 999995 :: nat)"
  using raydium_swap_in_sound [OF ref_swap_in(1), of 1000000000 1000000000] ref_swap_in(1)
  by (simp add: ref_amm_def state_data_initialize_def)

text \<open>
  With a fee fraction of at most one, more input never gives
  less output.
\<close>

theorem raydium_swap_in_mono:
  assumes "simulate_swap_base_in amm coin pc dir a = Ok (out, fee)"
    and "simulate_swap_base_in amm coin pc dir b = Ok (out', fee')"
    and "a \<le> b" and "swap_fee_numerator (amm_fees amm) \<le> swap_fee_denominator (amm_fees amm)"
  shows "out \<le> out'"
proof -
  obtain x y where xy: "reserves amm coin pc dir = (x, y)" by fastforce
  note A = simulate_base_in_Ok [OF assms(1) xy] and B = simulate_base_in_Ok [OF assms(2) xy]
  have "unat a - unat fee \<le> unat b - unat fee'"
    unfolding A(1) B(1) using assms(3,4) A(4) by (intro net_amount_mono) (auto simp: word_le_nat_alt)
  then have "unat out \<le> unat out'" unfolding A(3) B(3) by (rule cp_out_mono)
  then show ?thesis by (simp add: word_le_nat_alt)
qed

theorem raydium_swap_in_mono_witness: "(999995 :: u64) \<le> 1002502"
  by (rule raydium_swap_in_mono [OF ref_swap_in]) (simp_all add: ref_amm_def)

subsection \<open>Exact output\<close>

lemma base_out_Ok:
  assumes "swap_token_amount_base_out o' pc coin dir = Ok inn"
    and "(x, y) = (case dir of PC2Coin \<Rightarrow> (unat pc, unat coin) | Coin2PC \<Rightarrow> (unat coin, unat pc))"
  shows "unat inn = ceil_val (x * unat o') (y - unat o')" "unat o' < y"
proof -
  let ?x = "case dir of PC2Coin \<Rightarrow> pc | Coin2PC \<Rightarrow> coin"
  let ?y = "case dir of PC2Coin \<Rightarrow> coin | Coin2PC \<Rightarrow> pc"
  obtain den n q where h: "checked_sub ?y o' = Some den" "checked_mul ?x o' = Some n"
    "checked_ceil_div n den = Some (inn, q)"
    using assms(1) by (cases dir) (auto simp: swap_token_amount_base_out_def)
  have xy: "unat ?x = x" "unat ?y = y" using assms(2) by (cases dir; simp)+
  have d: "y = unat o' + unat den" using h(1) xy by (simp add: checked_sub_Some)
  show "unat inn = ceil_val (x * unat o') (y - unat o')"
    using checked_ceil_div_Some(1) [OF h(3)] h(2) d xy by (simp add: checked_mul_Some)
  show "unat o' < y" using checked_ceil_div_Some(2) [OF h(3)] d by (simp add: word_unat_eq_iff)
qed

lemma simulate_base_out_Ok:
  assumes "simulate_swap_base_out amm coin pc dir o' = Ok (inn, fee)"
    and "reserves amm coin pc dir = (x, y)"
  shows "unat inn = ceil_val (x * unat o') (y - unat o')" "unat o' < y"
    and "unat fee = ceil_val (unat inn * unat (swap_fee_numerator (amm_fees amm)))
      (unat (swap_fee_denominator (amm_fees amm)))"
proof -
  from assms(1) obtain tpc tcoin i1 n q r where
    h: "calc_total_without_take_pnl_no_orderbook pc coin amm = Ok (tpc, tcoin)"
    "swap_token_amount_base_out (to_wide o') (to_wide tpc) (to_wide tcoin) dir = Ok i1"
    "as_u64 i1 = (Ok inn :: u64 ares)"
    "checked_mul (to_wide inn) (to_wide (swap_fee_numerator (amm_fees amm))) = Some n"
    "checked_ceil_div n (to_wide (swap_fee_denominator (amm_fees amm))) = Some (q, r)"
    "as_u64 q = (Ok fee :: u64 ares)"
    by (auto simp: simulate_swap_base_out_def split: if_splits)
  have xy: "(x, y) = (case dir of PC2Coin \<Rightarrow> (unat (to_wide tpc), unat (to_wide tcoin))
      | Coin2PC \<Rightarrow> (unat (to_wide tcoin), unat (to_wide tpc)))"
    using assms(2) h(1) by (cases dir) (auto simp: totals_Ok)
  show "unat inn = ceil_val (x * unat o') (y - unat o')" "unat o' < y"
    using base_out_Ok [OF h(2) xy] h(3) by (simp_all add: as_u64_Ok)
  show "unat fee = ceil_val (unat inn * unat (swap_fee_numerator (amm_fees amm)))
      (unat (swap_fee_denominator (amm_fees amm)))"
    using checked_ceil_div_Some(1) [OF h(5)] h(4,6) by (simp add: checked_mul_Some as_u64_Ok)
qed

lemma cp_out_enough:
  assumes "o' < y" and "x * o' \<le> i * (y - o')" and "0 < x + i"
  shows "o' \<le> cp_out x y i"
proof -
  have "i * (y - o') + i * o' = i * y" using assms(1) by (simp add: diff_mult_distrib2)
  then have "o' * (x + i) \<le> y * i" using assms(2) by (simp add: algebra_simps)
  then show ?thesis unfolding cp_out_def using assms(3) by (simp add: less_eq_div_iff_mult_less_eq)
qed

text \<open>
  The input a simulated exact-out swap names buys the output
  at the constant product, before fees, as long as its value is at least half a unit of
  the input token. Below that the division rounds to zero: the input and the fee are both
  zero, for an output that may be positive.
\<close>

theorem raydium_swap_out_sound:
  assumes "simulate_swap_base_out amm coin pc dir out = Ok (inn, fee)"
    and "reserves amm coin pc dir = (x, y)"
  shows "unat out < y \<and> (y - unat out \<le> 2 * (x * unat out) \<longrightarrow> unat out \<le> cp_out x y (unat inn)) \<and>
    (2 * (x * unat out) < y - unat out \<longrightarrow> inn = 0 \<and> fee = 0)"
proof -
  note A = simulate_base_out_Ok [OF assms]
  have d: "0 < y - unat out" using A(2) by simp
  have "unat out \<le> cp_out x y (unat inn)" if c: "y - unat out \<le> 2 * (x * unat out)"
  proof (rule cp_out_enough)
    show le: "x * unat out \<le> unat inn * (y - unat out)"
      unfolding A(1) using d c by (intro ceil_val_upper) simp_all
    show "0 < x + unat inn" using c d by (cases x) auto
  qed (rule A(2))
  moreover have "inn = 0 \<and> fee = 0" if c: "2 * (x * unat out) < y - unat out"
  proof -
    have "unat inn = 0" using A(1) c by (simp add: ceil_val_def)
    moreover from this have "unat fee = 0" using A(3) by (simp add: ceil_val_def)
    ultimately show ?thesis by (simp add: unat_eq_zero)
  qed
  ultimately show ?thesis using A(2) by blast
qed

lemma ref_swap_out:
  "simulate_swap_base_out ref_amm 1000000000 1000000000 Coin2PC 1000000 = Ok (1001002, 2503)"
  "simulate_swap_base_out ref_amm 1 1000000 Coin2PC 1000 = Ok (0, 0)"
  by (simp_all add: raydium_eval)

theorem raydium_swap_out_sound_witness:
  "(1000000 :: nat) \<le> cp_out 1000000000 1000000000 1001002 \<and>
   simulate_swap_base_out ref_amm 1 1000000 Coin2PC 1000 = Ok (0, 0)"
  using raydium_swap_out_sound [OF ref_swap_out(1), of 1000000000 1000000000] ref_swap_out(2)
  by (simp add: ref_amm_def state_data_initialize_def)

end
