(* ===== verification/Float64.thy ===== *)
theory Float64
  imports Autobahn_Prelude Complex_Main
begin

text \<open>
  The \<open>f64\<close> arithmetic of the sources: IEEE 754 binary64, round to nearest, ties to even.
  A finite number is a sign and a non-negative rational, so negative zero is a value of its
  own; operations compute the exact rational and round it. All definitions are executable.

  \<open>ln\<close> and \<open>powf\<close> have unspecified precision in Rust; the operations that use them take
  them as parameters.
\<close>

named_theorems f64_simps \<open>evaluation of floating point operations\<close>

subsection \<open>Rounding\<close>

definition pow2 :: "int \<Rightarrow> rat" where
  "pow2 k = (if 0 \<le> k then of_int (2 ^ nat k) else 1 / of_int (2 ^ nat (- k)))"

text \<open>The exponent of a positive rational: \<open>2^k \<le> m < 2^(k+1)\<close>.\<close>

function ilog2 :: "int \<Rightarrow> int" where
  "ilog2 n = (if n < 2 then 0 else 1 + ilog2 (n div 2))"
  by pat_completeness auto
termination
  by (relation "measure nat") auto

declare ilog2.simps [simp del]

definition rat_log2 :: "rat \<Rightarrow> int" where
  "rat_log2 m = (case quotient_of m of (n, d) \<Rightarrow>
     let k = ilog2 n - ilog2 d in if pow2 k \<le> m then k else k - 1)"

definition round_half_even :: "rat \<Rightarrow> int" where
  "round_half_even x =
     (let f = \<lfloor>x\<rfloor>; r = x - of_int f in
      if r < 1 / 2 \<or> (r = 1 / 2 \<and> even f) then f else f + 1)"

text \<open>The unit in the last place: 53 significant bits, and not below the subnormals.\<close>

definition ulp_exp :: "rat \<Rightarrow> int" where
  "ulp_exp m = max (rat_log2 m) (- 1022) - 52"

definition round_mag :: "rat \<Rightarrow> rat" where
  "round_mag m = (if m = 0 then 0 else
     let u = pow2 (ulp_exp m) in of_int (round_half_even (m / u)) * u)"

subsection \<open>Values\<close>

datatype f64 = NaN | Infinity bool | Finite bool rat

abbreviation f64_infinity :: f64 where "f64_infinity \<equiv> Infinity False"
abbreviation f64_neg_infinity :: f64 where "f64_neg_infinity \<equiv> Infinity True"

text \<open>Rounding a signed magnitude.\<close>

definition f64_pack :: "bool \<Rightarrow> rat \<Rightarrow> f64" where
  "f64_pack s m = (let r = round_mag m in if of_int (2 ^ 1024) \<le> r then Infinity s else Finite s r)"

definition f64_of_rat :: "rat \<Rightarrow> f64" where
  "f64_of_rat q = f64_pack (q < 0) \<bar>q\<bar>"

definition f64_of_u64 :: "u64 \<Rightarrow> f64" where
  "f64_of_u64 n = f64_of_rat (of_int (uint n))"

definition f64_of_i32 :: "u32 \<Rightarrow> f64" where
  "f64_of_i32 n = f64_of_rat (of_int (sint n))"

fun f64_val :: "f64 \<Rightarrow> rat" where
  "f64_val (Finite s m) = (if s then - m else m)"
| "f64_val _ = 0"

fun is_nan :: "f64 \<Rightarrow> bool" where
  "is_nan NaN = True"
| "is_nan _ = False"

fun is_finite :: "f64 \<Rightarrow> bool" where
  "is_finite (Finite s m) = True"
| "is_finite _ = False"

text \<open>\<open>is_sign_negative\<close> of a NaN depends on its sign bit, which is not modelled: the
  sources ask it only behind a NaN check or of a \<open>NotNan\<close>.\<close>

fun is_sign_negative :: "f64 \<Rightarrow> bool" where
  "is_sign_negative NaN = False"
| "is_sign_negative (Infinity s) = s"
| "is_sign_negative (Finite s m) = s"

definition is_sign_positive :: "f64 \<Rightarrow> bool" where
  "is_sign_positive x = (\<not> is_sign_negative x)"

subsection \<open>Comparison\<close>

fun f64_less :: "f64 \<Rightarrow> f64 \<Rightarrow> bool" where
  "f64_less NaN y = False"
| "f64_less x NaN = False"
| "f64_less (Infinity s) (Infinity t) = (s \<and> \<not> t)"
| "f64_less (Infinity s) (Finite t m) = s"
| "f64_less (Finite s m) (Infinity t) = (\<not> t)"
| "f64_less (Finite s m) (Finite t n) = (f64_val (Finite s m) < f64_val (Finite t n))"

fun f64_eq :: "f64 \<Rightarrow> f64 \<Rightarrow> bool" where
  "f64_eq NaN y = False"
| "f64_eq x NaN = False"
| "f64_eq (Infinity s) (Infinity t) = (s = t)"
| "f64_eq (Finite s m) (Finite t n) = (f64_val (Finite s m) = f64_val (Finite t n))"
| "f64_eq x y = False"

definition f64_le :: "f64 \<Rightarrow> f64 \<Rightarrow> bool" where
  "f64_le x y = (f64_less x y \<or> f64_eq x y)"

subsection \<open>Arithmetic\<close>

fun f64_mul :: "f64 \<Rightarrow> f64 \<Rightarrow> f64" where
  "f64_mul NaN y = NaN"
| "f64_mul x NaN = NaN"
| "f64_mul (Infinity s) (Infinity t) = Infinity (s \<noteq> t)"
| "f64_mul (Infinity s) (Finite t n) = (if n = 0 then NaN else Infinity (s \<noteq> t))"
| "f64_mul (Finite s m) (Infinity t) = (if m = 0 then NaN else Infinity (s \<noteq> t))"
| "f64_mul (Finite s m) (Finite t n) = f64_pack (s \<noteq> t) (m * n)"

fun f64_div :: "f64 \<Rightarrow> f64 \<Rightarrow> f64" where
  "f64_div NaN y = NaN"
| "f64_div x NaN = NaN"
| "f64_div (Infinity s) (Infinity t) = NaN"
| "f64_div (Infinity s) (Finite t n) = Infinity (s \<noteq> t)"
| "f64_div (Finite s m) (Infinity t) = Finite (s \<noteq> t) 0"
| "f64_div (Finite s m) (Finite t n) =
     (if n = 0 then (if m = 0 then NaN else Infinity (s \<noteq> t)) else f64_pack (s \<noteq> t) (m / n))"

fun f64_add :: "f64 \<Rightarrow> f64 \<Rightarrow> f64" where
  "f64_add NaN y = NaN"
| "f64_add x NaN = NaN"
| "f64_add (Infinity s) (Infinity t) = (if s = t then Infinity s else NaN)"
| "f64_add (Infinity s) (Finite t n) = Infinity s"
| "f64_add (Finite s m) (Infinity t) = Infinity t"
| "f64_add (Finite s m) (Finite t n) =
     (let v = f64_val (Finite s m) + f64_val (Finite t n) in
      if v = 0 then Finite (s \<and> t) 0 else f64_of_rat v)"

fun f64_neg :: "f64 \<Rightarrow> f64" where
  "f64_neg NaN = NaN"
| "f64_neg (Infinity s) = Infinity (\<not> s)"
| "f64_neg (Finite s m) = Finite (\<not> s) m"

definition f64_sub :: "f64 \<Rightarrow> f64 \<Rightarrow> f64" where
  "f64_sub x y = f64_add x (f64_neg y)"

subsection \<open>Rounding to integers and casts\<close>

text \<open>\<open>floor\<close>, \<open>ceil\<close>, and \<open>round\<close> (half away from zero) keep the sign, also of a zero
  result.\<close>

definition f64_floor :: "f64 \<Rightarrow> f64" where
  "f64_floor x = (case x of Finite s m \<Rightarrow> Finite s (of_int (if s then \<lceil>m\<rceil> else \<lfloor>m\<rfloor>)) | _ \<Rightarrow> x)"

definition f64_ceil :: "f64 \<Rightarrow> f64" where
  "f64_ceil x = (case x of Finite s m \<Rightarrow> Finite s (of_int (if s then \<lfloor>m\<rfloor> else \<lceil>m\<rceil>)) | _ \<Rightarrow> x)"

definition f64_round :: "f64 \<Rightarrow> f64" where
  "f64_round x = (case x of Finite s m \<Rightarrow> Finite s (of_int \<lfloor>m + 1 / 2\<rfloor>) | _ \<Rightarrow> x)"

text \<open>\<open>as u64\<close>: towards zero, saturating, NaN to zero.\<close>

definition f64_as_u64 :: "f64 \<Rightarrow> u64" where
  "f64_as_u64 x = (case x of NaN \<Rightarrow> 0
     | Infinity s \<Rightarrow> (if s then 0 else - 1)
     | Finite s m \<Rightarrow> (if s then 0 else if 2 ^ 64 \<le> m then - 1 else of_int \<lfloor>m\<rfloor>))"

subsection \<open>Rounding is exact on representable numbers\<close>

lemma pow2_pos [simp]: "0 < pow2 k"
  by (simp add: pow2_def)

lemma pow2_nonzero [simp]: "pow2 k \<noteq> 0" and pow2_nonneg [simp]: "0 \<le> pow2 k"
  using pow2_pos [of k] by linarith+

lemma pow2_0 [simp]: "pow2 0 = 1"
  by (simp add: pow2_def)

lemma pow2_Suc: "pow2 (k + 1) = 2 * pow2 k"
proof (cases "0 \<le> k")
  case True
  then show ?thesis by (simp add: pow2_def nat_add_distrib)
next
  case False
  then have "nat (- k) = Suc (nat (- (k + 1)))" by linarith
  then show ?thesis using False by (simp add: pow2_def)
qed

lemma pow2_add: "pow2 (j + k) = pow2 j * pow2 k"
proof (induction k rule: int_induct [where k = 0])
  case (step1 i)
  then show ?case using pow2_Suc [of "j + i"] pow2_Suc [of i] by (simp add: algebra_simps)
next
  case (step2 i)
  then show ?case using pow2_Suc [of "j + (i - 1)"] pow2_Suc [of "i - 1"] by (simp add: algebra_simps)
qed simp

lemma pow2_nat: "pow2 (int n) = 2 ^ n"
  by (simp add: pow2_def)

lemma pow2_mono: "j \<le> k \<Longrightarrow> pow2 j \<le> pow2 k"
proof -
  assume "j \<le> k"
  then obtain n where "k = j + int n" by (metis zle_iff_zadd)
  then show ?thesis by (simp add: pow2_add pow2_nat)
qed

lemma pow2_less_imp: "pow2 j < pow2 k \<Longrightarrow> j < k"
  using pow2_mono [of k j] by (meson linorder_not_le)

lemma ilog2_bounds: "0 < n \<Longrightarrow> 0 \<le> ilog2 n \<and> 2 ^ nat (ilog2 n) \<le> n \<and> n < 2 * 2 ^ nat (ilog2 n)"
proof (induction n rule: ilog2.induct)
  case (1 n)
  show ?case
  proof (cases "n < 2")
    case True
    then show ?thesis using "1.prems" by (simp add: ilog2.simps [of n])
  next
    case False
    then have pos: "0 < n div 2" by simp
    note IH = "1.IH" [OF False pos]
    have "nat (1 + ilog2 (n div 2)) = Suc (nat (ilog2 (n div 2)))"
      using IH by (simp add: Suc_nat_eq_nat_zadd1)
    then show ?thesis using False IH by (simp add: ilog2.simps [of n]) linarith
  qed
qed

lemma ilog2_rat:
  assumes "0 < (n :: int)"
  shows "pow2 (ilog2 n) \<le> of_int n" "of_int n < pow2 (ilog2 n + 1)"
proof -
  note * = ilog2_bounds [OF assms]
  have "(of_int (2 ^ nat (ilog2 n)) :: rat) \<le> of_int n" using * by (simp only: of_int_le_iff)
  then show "pow2 (ilog2 n) \<le> of_int n" using * by (simp add: pow2_def)
  have "(of_int n :: rat) < of_int (2 * 2 ^ nat (ilog2 n))" using * by (simp only: of_int_less_iff)
  then show "of_int n < pow2 (ilog2 n + 1)" using * unfolding pow2_Suc by (simp add: pow2_def)
qed

lemma rat_log2_bounds:
  assumes "0 < m"
  shows "pow2 (rat_log2 m) \<le> m" "m < pow2 (rat_log2 m + 1)"
proof -
  obtain n d where q: "quotient_of m = (n, d)" by fastforce
  then have m: "m = of_int n / of_int d" and d: "0 < d"
    using quotient_of_div quotient_of_denom_pos by blast+
  have n: "0 < n" using assms m d by (simp add: zero_less_divide_iff)
  let ?k = "ilog2 n - ilog2 d"
  have "pow2 (?k - 1) * of_int d < pow2 (?k - 1) * pow2 (ilog2 d + 1)"
    using ilog2_rat(2) [OF d] by simp
  also have "\<dots> = pow2 (ilog2 n)" by (simp flip: pow2_add)
  also have "\<dots> \<le> of_int n" by (rule ilog2_rat(1) [OF n])
  finally have lo: "pow2 (?k - 1) < m" using d by (simp add: m pos_less_divide_eq)
  have "of_int n < pow2 (ilog2 n + 1)" by (rule ilog2_rat(2) [OF n])
  also have "\<dots> = pow2 (?k + 1) * pow2 (ilog2 d)" by (simp flip: pow2_add)
  also have "\<dots> \<le> pow2 (?k + 1) * of_int d" using ilog2_rat(1) [OF d] by simp
  finally have hi: "m < pow2 (?k + 1)" using d by (simp add: m pos_divide_less_eq)
  show "pow2 (rat_log2 m) \<le> m" "m < pow2 (rat_log2 m + 1)"
    using lo hi q by (auto simp: rat_log2_def Let_def)
qed

text \<open>The exponent of a concrete number, for evaluation.\<close>

lemma rat_log2_unique: "pow2 k \<le> m \<Longrightarrow> m < pow2 (k + 1) \<Longrightarrow> rat_log2 m = k"
proof -
  assume k: "pow2 k \<le> m" "m < pow2 (k + 1)"
  then have m: "0 < m" using pow2_pos [of k] by linarith
  have "pow2 (rat_log2 m) < pow2 (k + 1)" "pow2 k < pow2 (rat_log2 m + 1)"
    using k rat_log2_bounds [OF m] by linarith+
  from this [THEN pow2_less_imp] show ?thesis by linarith
qed

lemma round_half_even_int [simp]: "round_half_even (of_int k) = k"
  by (simp add: round_half_even_def)

lemma round_mag_0 [simp]: "round_mag 0 = 0"
  by (simp add: round_mag_def)

lemma round_mag_exact:
  assumes "m = of_int k * pow2 e" and "ulp_exp m \<le> e"
  shows "round_mag m = m"
proof (cases "m = 0")
  case False
  have e: "pow2 e = pow2 (e - ulp_exp m) * pow2 (ulp_exp m)" by (simp flip: pow2_add)
  have "pow2 (e - ulp_exp m) = of_int (2 ^ nat (e - ulp_exp m))" using assms(2) by (simp add: pow2_def)
  with e assms(1) have "m = of_int (k * 2 ^ nat (e - ulp_exp m)) * pow2 (ulp_exp m)" by simp
  then have "m / pow2 (ulp_exp m) =
      of_int (k * 2 ^ nat (e - ulp_exp m)) * pow2 (ulp_exp m) / pow2 (ulp_exp m)"
    by (rule arg_cong)
  also have "\<dots> = of_int (k * 2 ^ nat (e - ulp_exp m))"
    using pow2_pos [of "ulp_exp m"] by simp
  finally have "m / pow2 (ulp_exp m) = of_int (k * 2 ^ nat (e - ulp_exp m))" .
  then show ?thesis using False pow2_pos [of "ulp_exp m"]
    by (simp only: round_mag_def Let_def round_half_even_int if_False) (metis nonzero_eq_divide_eq order_less_irrefl)
qed simp

text \<open>Integers up to \<open>2^53\<close> are exact.\<close>

lemma round_mag_nat:
  assumes "n \<le> 2 ^ 53"
  shows "round_mag (of_nat n) = of_nat n"
proof (cases "n = 0 \<or> n = 2 ^ 53")
  case True
  have "rat_log2 (2 ^ 53) \<le> 53"
  proof -
    have "pow2 (rat_log2 (2 ^ 53)) < pow2 54" using rat_log2_bounds(1) [of "2 ^ 53"]
      by (simp add: pow2_def)
    then show ?thesis using pow2_less_imp by fastforce
  qed
  then have "ulp_exp (2 ^ 53) \<le> 53" by (simp add: ulp_exp_def)
  then have "round_mag (2 ^ 53) = 2 ^ 53"
    by (intro round_mag_exact [of _ 1 53]) (simp_all add: pow2_def)
  with True show ?thesis by auto
next
  case False
  then have n: "0 < n" "n < 2 ^ 53" using assms by simp_all
  have "pow2 (rat_log2 (of_nat n)) \<le> of_nat n" using n by (intro rat_log2_bounds(1)) simp
  also have "(of_nat n :: rat) < of_nat (2 ^ 53)" using n(2) by (simp only: of_nat_less_iff)
  also have "\<dots> = pow2 53" by (simp add: pow2_def)
  finally have "rat_log2 (of_nat n) < 53" by (rule pow2_less_imp)
  then have "ulp_exp (of_nat n) \<le> 0" by (simp add: ulp_exp_def)
  then show ?thesis by (intro round_mag_exact [of _ "int n" 0]) simp_all
qed

subsection \<open>Rounding is monotone and fixes its own results\<close>

lemma round_half_even_mono: "x \<le> y \<Longrightarrow> round_half_even x \<le> round_half_even y"
proof -
  assume le: "x \<le> y"
  have f: "\<lfloor>x\<rfloor> \<le> \<lfloor>y\<rfloor>" using le by (rule floor_mono)
  show ?thesis
  proof (cases "\<lfloor>x\<rfloor> = \<lfloor>y\<rfloor>")
    case True
    then show ?thesis using le by (auto simp: round_half_even_def Let_def)
  next
    case False
    with f have "\<lfloor>x\<rfloor> + 1 \<le> \<lfloor>y\<rfloor>" by simp
    then show ?thesis by (auto simp: round_half_even_def Let_def)
  qed
qed

lemma round_mag_nonneg: "0 \<le> m \<Longrightarrow> 0 \<le> round_mag m"
proof -
  assume "0 \<le> m"
  then have "0 \<le> m / pow2 (ulp_exp m)" by simp
  then have "round_half_even (of_int 0) \<le> round_half_even (m / pow2 (ulp_exp m))"
    by (intro round_half_even_mono) simp
  then have "0 \<le> round_half_even (m / pow2 (ulp_exp m))" by (simp only: round_half_even_int)
  then show ?thesis by (simp add: round_mag_def Let_def)
qed

text \<open>A power of two at or above the unit in the last place bounds the rounded value.\<close>

lemma round_mag_le_pow2:
  assumes "0 < m" and "m \<le> pow2 e" and "ulp_exp m \<le> e"
  shows "round_mag m \<le> pow2 e"
proof -
  let ?u = "pow2 (ulp_exp m)"
  have e: "pow2 e = of_int (2 ^ nat (e - ulp_exp m)) * ?u"
    using assms(3) pow2_add [of "e - ulp_exp m" "ulp_exp m"] by (simp add: pow2_def)
  have "m / ?u \<le> of_int (2 ^ nat (e - ulp_exp m))"
    using assms(2) unfolding e by (simp add: pos_divide_le_eq)
  from round_half_even_mono [OF this] have "round_half_even (m / ?u) \<le> 2 ^ nat (e - ulp_exp m)"
    by (metis round_half_even_int)
  then have "(of_int (round_half_even (m / ?u)) :: rat) \<le> of_int (2 ^ nat (e - ulp_exp m))"
    by (simp only: of_int_le_iff)
  then show ?thesis using assms(1) unfolding e by (simp add: round_mag_def Let_def)
qed

lemma pow2_le_round_mag:
  assumes "pow2 e \<le> m" and "ulp_exp m \<le> e"
  shows "pow2 e \<le> round_mag m"
proof -
  let ?u = "pow2 (ulp_exp m)"
  have m: "0 < m" using assms(1) pow2_pos [of e] by (rule less_le_trans [rotated])
  have e: "pow2 e = of_int (2 ^ nat (e - ulp_exp m)) * ?u"
    using assms(2) pow2_add [of "e - ulp_exp m" "ulp_exp m"] by (simp add: pow2_def)
  have "of_int (2 ^ nat (e - ulp_exp m)) \<le> m / ?u"
    using assms(1) unfolding e by (simp add: pos_le_divide_eq)
  from round_half_even_mono [OF this] have "2 ^ nat (e - ulp_exp m) \<le> round_half_even (m / ?u)"
    by (metis round_half_even_int)
  then have "(of_int (2 ^ nat (e - ulp_exp m)) :: rat) \<le> of_int (round_half_even (m / ?u))"
    by (simp only: of_int_le_iff)
  then show ?thesis using m unfolding e by (simp add: round_mag_def Let_def)
qed

lemma rat_log2_mono: "0 < x \<Longrightarrow> x \<le> y \<Longrightarrow> rat_log2 x \<le> rat_log2 y"
proof -
  assume "0 < x" "x \<le> y"
  then have "pow2 (rat_log2 x) < pow2 (rat_log2 y + 1)"
    using rat_log2_bounds(1) [of x] rat_log2_bounds(2) [of y] by linarith
  then show ?thesis using pow2_less_imp by fastforce
qed

lemma round_mag_mono:
  assumes "0 \<le> x" and "x \<le> y"
  shows "round_mag x \<le> round_mag y"
proof (cases "x = 0")
  case True
  then show ?thesis using assms round_mag_nonneg [of y] by simp
next
  case False
  then have x: "0 < x" and y: "0 < y" using assms by simp_all
  show ?thesis
  proof (cases "ulp_exp x = ulp_exp y")
    case True
    have "x / pow2 (ulp_exp x) \<le> y / pow2 (ulp_exp x)" using assms(2) by (simp add: divide_right_mono)
    then have "round_half_even (x / pow2 (ulp_exp x)) \<le> round_half_even (y / pow2 (ulp_exp x))"
      by (rule round_half_even_mono)
    then show ?thesis using x y True by (simp add: round_mag_def Let_def)
  next
    case False
    then have *: "rat_log2 x < rat_log2 y" "- 1022 < rat_log2 y"
      using rat_log2_mono [OF x assms(2)] by (auto simp: ulp_exp_def max_def split: if_splits)
    have "x \<le> pow2 (rat_log2 y)"
      using rat_log2_bounds(2) [OF x] pow2_mono [of "rat_log2 x + 1" "rat_log2 y"] * by linarith
    then have "round_mag x \<le> pow2 (rat_log2 y)"
      using x * by (intro round_mag_le_pow2) (auto simp: ulp_exp_def)
    also have "\<dots> \<le> round_mag y"
      using rat_log2_bounds(1) [OF y] * by (intro pow2_le_round_mag) (auto simp: ulp_exp_def)
    finally show ?thesis .
  qed
qed

lemma ulp_exp_le: "0 < m \<Longrightarrow> m \<le> pow2 e \<Longrightarrow> - 1022 \<le> e \<Longrightarrow> ulp_exp m \<le> e"
proof -
  assume m: "0 < m" "m \<le> pow2 e" and e: "- 1022 \<le> e"
  have "pow2 (rat_log2 m) < pow2 (e + 1)"
    using rat_log2_bounds(1) [OF m(1)] m(2) pow2_Suc [of e] pow2_pos [of e] by linarith
  then have "rat_log2 m \<le> e" using pow2_less_imp by fastforce
  then show ?thesis using e by (simp add: ulp_exp_def)
qed

lemma round_mag_idem:
  assumes "0 \<le> m"
  shows "round_mag (round_mag m) = round_mag m"
proof (cases "0 < m \<and> 0 < round_mag m")
  case False
  then have "round_mag m = 0" using assms round_mag_nonneg [OF assms] by (cases "m = 0") auto
  then show ?thesis by simp
next
  case True
  let ?k = "rat_log2 m + 1"
  have b: "m \<le> pow2 ?k" using rat_log2_bounds(2) [of m] True by simp
  have le: "round_mag m \<le> pow2 (max ?k (- 1022))"
    using True by (intro round_mag_le_pow2 order_trans [OF b pow2_mono]) (auto simp: ulp_exp_def)
  show ?thesis
  proof (cases "round_mag m = pow2 (max ?k (- 1022))")
    case eq: True
    show ?thesis unfolding eq
      by (rule round_mag_exact [of _ 1 "max ?k (- 1022)"]) (auto intro: ulp_exp_le)
  next
    case False
    then have "round_mag m < pow2 (max ?k (- 1022))" using le by simp
    then have "pow2 (rat_log2 (round_mag m)) < pow2 (max ?k (- 1022))"
      using rat_log2_bounds(1) [of "round_mag m"] True by linarith
    then have "rat_log2 (round_mag m) < max ?k (- 1022)" by (rule pow2_less_imp)
    then have "ulp_exp (round_mag m) \<le> ulp_exp m" by (auto simp: ulp_exp_def)
    then show ?thesis
      using True by (intro round_mag_exact [where k = "round_half_even (m / pow2 (ulp_exp m))"])
        (simp_all add: round_mag_def [of m] Let_def)
  qed
qed

text \<open>A rounded natural number is a natural number.\<close>

lemma round_mag_of_nat: "\<exists>k. round_mag (of_nat n) = of_nat k"
proof (cases "n \<le> 2 ^ 53")
  case True
  then show ?thesis using round_mag_nat by blast
next
  case False
  then have n: "(2 ^ 53 :: rat) \<le> of_nat n"
    by (metis linorder_linear of_nat_le_iff of_nat_numeral of_nat_power)
  then have n0: "(0 :: rat) < of_nat n" by (rule less_le_trans [rotated]) simp
  have "pow2 53 < pow2 (rat_log2 (of_nat n) + 1)"
    using rat_log2_bounds(2) [OF n0] n by (simp add: pow2_def)
  then have "0 \<le> ulp_exp (of_nat n)" using pow2_less_imp [of 53 "rat_log2 (of_nat n) + 1"]
    by (simp add: ulp_exp_def)
  then have "round_mag (of_nat n) =
      of_int (round_half_even (of_nat n / pow2 (ulp_exp (of_nat n))) * 2 ^ nat (ulp_exp (of_nat n)))"
    using n0 by (simp add: round_mag_def Let_def pow2_def)
  then obtain z where z: "round_mag (of_nat n) = of_int z" by blast
  have "(0 :: rat) \<le> of_int z" using round_mag_nonneg [of "of_nat n"] z by simp
  then have "0 \<le> z" by simp
  then have "round_mag (of_nat n) = of_nat (nat z)" using z by simp
  then show ?thesis by blast
qed

subsection \<open>Conversions of unsigned integers\<close>

lemma of_nat_unat_word: "of_nat (unat n) = (n :: 'a::len word)"
  by simp

lemma of_int_uint_rat: "of_int (uint (n :: u64)) = (of_nat (unat n) :: rat)"
  by simp

declare of_nat_unat [simp del] of_int_uint [simp del]

lemma round_mag_bound: "0 \<le> m \<Longrightarrow> m \<le> 2 ^ k \<Longrightarrow> round_mag m \<le> 2 ^ k"
proof (cases "m = 0")
  case False
  assume "0 \<le> m" "m \<le> 2 ^ k"
  then have "0 < m" "m \<le> pow2 (int k)" using False by (simp_all add: pow2_nat)
  then have "round_mag m \<le> pow2 (int k)" by (intro round_mag_le_pow2 ulp_exp_le) simp_all
  then show ?thesis by (simp add: pow2_nat)
qed simp

lemma f64_pack_finite:
  assumes "0 \<le> m" and "m \<le> 2 ^ 1023"
  shows "f64_pack s m = Finite s (round_mag m)"
proof -
  have "round_mag m \<le> 2 ^ 1023" using assms by (rule round_mag_bound)
  also have "\<dots> < (2 ^ 1024 :: rat)" by (rule power_strict_increasing) simp_all
  finally show ?thesis by (simp add: f64_pack_def Let_def)
qed

lemma unat_u64_le: "(of_nat (unat (n :: u64)) :: rat) \<le> 2 ^ 64"
proof -
  have "unat n < 2 ^ LENGTH(64)" by (rule unsigned_less)
  then have "(of_nat (unat n) :: rat) \<le> of_nat (2 ^ 64)" by (simp only: of_nat_le_iff) simp
  then show ?thesis by simp
qed

lemma f64_of_u64_eq: "f64_of_u64 n = Finite False (round_mag (of_nat (unat n)))"
proof -
  have "(2 ^ 64 :: rat) \<le> 2 ^ 1023" by (rule power_increasing) simp_all
  then show ?thesis
    using unat_u64_le [of n] by (simp add: f64_of_u64_def f64_of_rat_def f64_pack_finite of_int_uint_rat)
qed

lemma f64_of_u64_exact:
  "unat n \<le> 2 ^ 53 \<Longrightarrow> f64_of_u64 n = Finite False (of_nat (unat n))"
  by (simp only: f64_of_u64_eq round_mag_nat)

lemma f64_of_u64_facts [simp]:
  "\<not> is_nan (f64_of_u64 n)" "is_finite (f64_of_u64 n)" "\<not> is_sign_negative (f64_of_u64 n)"
  "0 \<le> f64_val (f64_of_u64 n)" "f64_of_u64 n \<noteq> NaN"
  by (simp_all add: f64_of_u64_eq round_mag_nonneg)

lemma f64_of_u64_mono: "m \<le> n \<Longrightarrow> f64_le (f64_of_u64 m) (f64_of_u64 n)"
proof -
  assume "m \<le> n"
  then have "round_mag (of_nat (unat m)) \<le> round_mag (of_nat (unat n))"
    by (intro round_mag_mono) (simp_all add: word_le_nat_alt)
  then show ?thesis by (auto simp: f64_le_def f64_of_u64_eq)
qed

text \<open>The cast back of an exact integer; \<open>floor\<close>, \<open>ceil\<close> and \<open>round\<close> do not change it.\<close>

lemma f64_round_trips:
  assumes "unat n \<le> 2 ^ 53"
  shows "f64_as_u64 (f64_of_u64 n) = n" "f64_round (f64_of_u64 n) = f64_of_u64 n"
    "f64_floor (f64_of_u64 n) = f64_of_u64 n" "f64_ceil (f64_of_u64 n) = f64_of_u64 n"
proof -
  have "(of_nat (unat n) :: rat) \<le> of_nat (2 ^ 53)" using assms by (simp only: of_nat_le_iff)
  then have "\<not> (2 ^ 64 :: rat) \<le> of_nat (unat n)" by simp
  then show "f64_as_u64 (f64_of_u64 n) = n"
    using assms by (simp add: f64_of_u64_exact f64_as_u64_def of_nat_unat_word)
  have "\<lfloor>of_nat k + 1 / 2 :: rat\<rfloor> = int k" for k by (simp add: floor_unique)
  then show "f64_round (f64_of_u64 n) = f64_of_u64 n"
    using assms by (simp add: f64_of_u64_exact f64_round_def)
  show "f64_floor (f64_of_u64 n) = f64_of_u64 n" "f64_ceil (f64_of_u64 n) = f64_of_u64 n"
    using assms by (simp_all add: f64_of_u64_exact f64_floor_def f64_ceil_def)
qed

text \<open>For every \<open>u64\<close>, exact or not, the cast back of the rounded float compares with an
  amount the way the floats do.\<close>

lemma f64_of_u64_integral:
  obtains k where "f64_of_u64 c = Finite False (of_nat k)" "k \<le> 2 ^ 64"
    "round_mag (of_nat k) = of_nat k"
    "f64_as_u64 (f64_round (f64_of_u64 c)) = (if k = 2 ^ 64 then - 1 else of_nat k)"
proof -
  obtain k where k: "round_mag (of_nat (unat c)) = of_nat k" using round_mag_of_nat by blast
  have "(of_nat k :: rat) \<le> 2 ^ 64"
    unfolding k [symmetric] by (rule round_mag_bound [OF of_nat_0_le_iff unat_u64_le])
  then have "(of_nat k :: rat) \<le> of_nat (2 ^ 64)" by simp
  then have le: "k \<le> 2 ^ 64" by (simp only: of_nat_le_iff)
  have idem: "round_mag (of_nat k) = of_nat k"
    using round_mag_idem [of "of_nat (unat c)"] by (simp add: k)
  have fl: "\<lfloor>of_nat k + 1 / 2 :: rat\<rfloor> = int k" by (simp add: floor_unique)
  have ge: "(2 ^ 64 :: rat) \<le> of_nat k \<longleftrightarrow> k = 2 ^ 64"
  proof -
    have "(2 ^ 64 :: rat) \<le> of_nat k \<longleftrightarrow> (of_nat (2 ^ 64) :: rat) \<le> of_nat k" by simp
    also have "\<dots> \<longleftrightarrow> k = 2 ^ 64" using le by (simp only: of_nat_le_iff) auto
    finally show ?thesis .
  qed
  have "f64_as_u64 (f64_round (f64_of_u64 c)) = (if k = 2 ^ 64 then - 1 else of_nat k)"
    by (simp only: f64_of_u64_eq k f64_round_def f64.case fl f64_as_u64_def of_int_of_nat_eq
        floor_of_nat ge if_False)
  with le idem show thesis by (intro that) (simp_all add: f64_of_u64_eq k)
qed

lemma f64_cast_compare:
  fixes a c :: u64
  shows "f64_as_u64 (f64_round (f64_of_u64 c)) \<le> a \<Longrightarrow> f64_le (f64_of_u64 c) (f64_of_u64 a)"
    and "a \<le> f64_as_u64 (f64_round (f64_of_u64 c)) \<Longrightarrow> f64_le (f64_of_u64 a) (f64_of_u64 c)"
proof -
  obtain k where k: "f64_of_u64 c = Finite False (of_nat k)" "k \<le> 2 ^ 64"
    "round_mag (of_nat k) = of_nat k"
    "f64_as_u64 (f64_round (f64_of_u64 c)) = (if k = 2 ^ 64 then - 1 else of_nat k)"
    by (rule f64_of_u64_integral)
  obtain l where l: "f64_of_u64 a = Finite False (of_nat l)" "l \<le> 2 ^ 64"
    by (rule f64_of_u64_integral)
  have le: "f64_le (Finite False (of_nat m)) (Finite False (of_nat n)) \<longleftrightarrow> m \<le> n" for m n
    by (auto simp: f64_le_def)
  have small: "f64_of_u64 (of_nat k) = Finite False (of_nat k)" if "k \<noteq> 2 ^ 64"
  proof -
    have "unat (of_nat k :: u64) = k" using that k(2) by (simp add: unat_of_nat)
    then show ?thesis by (simp add: f64_of_u64_eq k(3))
  qed
  show "f64_le (f64_of_u64 c) (f64_of_u64 a)" if le_a: "f64_as_u64 (f64_round (f64_of_u64 c)) \<le> a"
  proof (cases "k = 2 ^ 64")
    case True
    then have "- 1 \<le> a" using le_a k(4) by simp
    then have "a = - 1" using antisym by fastforce
    moreover have "c \<le> - 1" by simp
    ultimately show ?thesis using f64_of_u64_mono [of c a] by simp
  next
    case False
    then show ?thesis using le_a k(4) small f64_of_u64_mono [of "of_nat k" a] k(1) by simp
  qed
  show "f64_le (f64_of_u64 a) (f64_of_u64 c)" if ge_a: "a \<le> f64_as_u64 (f64_round (f64_of_u64 c))"
  proof (cases "k = 2 ^ 64")
    case True
    then show ?thesis using k(1) l by (simp only: le)
  next
    case False
    then show ?thesis using ge_a k(4) small f64_of_u64_mono [of a "of_nat k"] k(1) by simp
  qed
qed

subsection \<open>Signs and NaN\<close>

text \<open>Products of non-negative numbers are non-negative or NaN.\<close>

lemma f64_pack_sign [simp]: "is_sign_negative (f64_pack s m) = s" "\<not> is_nan (f64_pack s m)"
  by (simp_all add: f64_pack_def Let_def)

lemma f64_mul_sign:
  "\<not> is_nan (f64_mul x y) \<Longrightarrow>
     is_sign_negative (f64_mul x y) = (is_sign_negative x \<noteq> is_sign_negative y)"
  by (induction x y rule: f64_mul.induct) auto

lemma f64_less_irrefl [simp]: "\<not> f64_less x x"
  by (cases x) auto

lemma f64_le_refl [simp]: "f64_le x x \<longleftrightarrow> \<not> is_nan x"
  by (cases x) (auto simp: f64_le_def)

lemma f64_less_trans: "f64_less x y \<Longrightarrow> f64_less y z \<Longrightarrow> f64_less x z"
  by (cases x; cases y; cases z) (auto split: if_splits)

lemma f64_le_trans: "f64_le x y \<Longrightarrow> f64_le y z \<Longrightarrow> f64_le x z"
  by (cases x; cases y; cases z) (auto simp: f64_le_def split: if_splits)

lemma f64_not_less: "\<not> is_nan x \<Longrightarrow> \<not> is_nan y \<Longrightarrow> \<not> f64_less x y \<longleftrightarrow> f64_le y x"
  by (cases x; cases y) (auto simp: f64_le_def split: if_splits)

lemma f64_less_not_nan: "f64_less x y \<Longrightarrow> \<not> is_nan x \<and> \<not> is_nan y"
  by (cases x; cases y) auto

lemma f64_le_not_nan: "f64_le x y \<Longrightarrow> \<not> is_nan x \<and> \<not> is_nan y"
  by (cases x; cases y) (auto simp: f64_le_def)

end
