(* ===== verification/Dex_Interface.thy ===== *)
theory Dex_Interface
  imports Float64 Exec_Runtime
begin

text \<open>
  The interface between the router and the exchange adapters
  (\<^verbatim>\<open>lib/router-lib/src/dex/interface.rs\<close>). A trait object \<open>Arc<dyn DexInterface>\<close> is a
  record of functions; what an adapter stores per edge (\<open>DexEdge\<close>) and how it identifies
  edges are type parameters, and so is the error type.

  The contract the router's route assembly relies on is the locale \<open>quoting_dex\<close>: a quote
  answers for the amount that was asked.
\<close>

record quote =
  q_in_amount :: u64
  q_out_amount :: u64
  q_fee_amount :: u64
  q_fee_mint :: pubkey

record swap_instruction =
  si_instruction :: instruction
  si_out_pubkey :: pubkey
  si_out_mint :: pubkey
  si_in_amount_offset :: u16
  si_cu_estimate :: "u32 option"

datatype swap_mode = ExactIn | ExactOut

definition swap_mode_from_str :: "string \<Rightarrow> (swap_mode, unit) result" where
  "swap_mode_from_str s =
     (if s = ''ExactIn'' then Ok ExactIn else if s = ''ExactOut'' then Ok ExactOut else Err ())"

fun swap_mode_to_string :: "swap_mode \<Rightarrow> string" where
  "swap_mode_to_string ExactIn = ''ExactIn''"
| "swap_mode_to_string ExactOut = ''ExactOut''"

text \<open>\<open>AccountProviderView\<close>: account data by address and the newest slot.\<close>

record 'e account_view =
  av_account :: "pubkey \<Rightarrow> (bytes, 'e) result"
  av_newest_processed_slot :: u64

text \<open>\<open>DexEdgeIdentifier\<close>.\<close>

record edge_ident =
  id_key :: pubkey
  id_desc :: string
  id_input_mint :: pubkey
  id_output_mint :: pubkey
  id_accounts_needed :: nat

text \<open>\<open>DexInterface\<close>, after \<open>initialize\<close>.\<close>

record ('i, 'd, 'e) dex_interface =
  dex_name :: string
  dex_load :: "'i \<Rightarrow> 'e account_view \<Rightarrow> ('d, 'e) result"
  dex_quote :: "'i \<Rightarrow> 'd \<Rightarrow> 'e account_view \<Rightarrow> u64 \<Rightarrow> (quote, 'e) result"
  dex_quote_exact_out :: "'i \<Rightarrow> 'd \<Rightarrow> 'e account_view \<Rightarrow> u64 \<Rightarrow> (quote, 'e) result"
  dex_supports_exact_out :: "'i \<Rightarrow> bool"

locale quoting_dex =
  fixes dex :: "('i, 'd, 'e) dex_interface"
  assumes quote_echo: "dex_quote dex i d v a = Ok q \<Longrightarrow> q_in_amount q = a"
    and exact_out_echo: "dex_quote_exact_out dex i d v a = Ok q \<Longrightarrow> q_out_amount q = a"

end
