(* ===== verification/Raydium_Dex.thy ===== *)
theory Raydium_Dex
  imports Raydium_Math Dex_Interface
begin

text \<open>
  The Raydium adapter: edge identifiers (\<^verbatim>\<open>raydium_edge.rs\<close>), pool selection, loading and
  quoting (\<^verbatim>\<open>raydium_dex.rs\<close>), the swap instruction (\<^verbatim>\<open>raydium_ix_builder.rs\<close>) and the
  initialisation of a pool record (\<open>AmmInfo::initialize\<close> in \<^verbatim>\<open>internal/state.rs\<close>).

  Parameters for code outside the repository: the byte image of \<open>AmmInfo\<close> (its size and
  decoder), the decoder of token accounts, the associated token address, the system clock.
  The list of pool accounts that \<open>fetch_raydium_accounts\<close> reads over RPC is an argument.
\<close>

subsection \<open>Edges\<close>

record raydium_edge_identifier =
  ray_amm :: pubkey
  ray_mint_pc :: pubkey
  ray_mint_coin :: pubkey
  is_pc_to_coin :: bool

definition ray_input_mint :: "raydium_edge_identifier \<Rightarrow> pubkey" where
  "ray_input_mint i = (if is_pc_to_coin i then ray_mint_pc i else ray_mint_coin i)"

definition ray_output_mint :: "raydium_edge_identifier \<Rightarrow> pubkey" where
  "ray_output_mint i = (if is_pc_to_coin i then ray_mint_coin i else ray_mint_pc i)"

text \<open>A token account, as far as the adapter reads it.\<close>

datatype account_state = AccountUninitialized | AccountInitialized | AccountFrozen

record vault =
  vault_amount :: u64
  vault_state :: account_state

record raydium_edge =
  ray_edge_amm :: amm_info
  ray_edge_pc_vault :: vault
  ray_edge_coin_vault :: vault

subsection \<open>Pool selection\<close>

text \<open>The three filters of \<open>initialize\<close>; a status outside the enumeration panics.\<close>

definition ray_pool_kept :: "u64 \<Rightarrow> amm_info \<Rightarrow> bool ares" where
  "ray_pool_kept now amm =
     rbind (amm_status_from_u64 (amm_status_field amm)) (\<lambda>status. Ok (
       swap_permission status \<and> \<not> orderbook_permission status \<and>
       coin_vault_mint amm \<noteq> pc_vault_mint amm \<and>
       (amm_status_field amm \<noteq> amm_status_into_u64 WaitingTrade \<or>
        pool_open_time (amm_state_data amm) < now)))"

fun ray_filter_pools :: "u64 \<Rightarrow> (pubkey \<times> amm_info) list \<Rightarrow> (pubkey \<times> amm_info) list ares" where
  "ray_filter_pools now [] = Ok []"
| "ray_filter_pools now (p # ps) =
     rbind (ray_pool_kept now (snd p)) (\<lambda>keep.
     rbind (ray_filter_pools now ps) (\<lambda>rest. Ok (if keep then p # rest else rest)))"

definition ray_edge_pair :: "pubkey \<Rightarrow> amm_info \<Rightarrow> raydium_edge_identifier list" where
  "ray_edge_pair pk pool =
     [\<lparr>ray_amm = pk, ray_mint_pc = pc_vault_mint pool, ray_mint_coin = coin_vault_mint pool,
       is_pc_to_coin = True\<rparr>,
      \<lparr>ray_amm = pk, ray_mint_pc = pc_vault_mint pool, ray_mint_coin = coin_vault_mint pool,
       is_pc_to_coin = False\<rparr>]"

definition ray_edges_per_pk ::
    "(pubkey \<times> amm_info) list \<Rightarrow> (pubkey \<rightharpoonup> raydium_edge_identifier list)" where
  "ray_edges_per_pk pools =
     fold (\<lambda>(pk, pool) m. let entry = ray_edge_pair pk pool in
       m(pk \<mapsto> entry, coin_vault pool \<mapsto> entry, pc_vault pool \<mapsto> entry)) pools Map.empty"

definition raydium_initialize ::
    "u64 \<Rightarrow> (pubkey \<times> amm_info) list \<Rightarrow> (pubkey \<rightharpoonup> raydium_edge_identifier list) ares" where
  "raydium_initialize now pools =
     rbind (ray_filter_pools now pools) (\<lambda>kept. Ok (ray_edges_per_pk kept))"

subsection \<open>Loading and quoting\<close>

text \<open>The decoders the adapter calls.\<close>

record ray_codec =
  rc_amm_size :: nat
  rc_amm_from_bytes :: "bytes \<Rightarrow> amm_info presult"
  rc_unpack_account :: "bytes \<Rightarrow> vault presult"

definition raydium_load ::
    "ray_codec \<Rightarrow> raydium_edge_identifier \<Rightarrow> anyhow account_view \<Rightarrow> raydium_edge ares" where
  "raydium_load c i view =
     rbind (av_account view (ray_amm i)) (\<lambda>amm_account.
     rbind (lift_err ProgramError
              (amm_info_load_checked (rc_amm_size c) (rc_amm_from_bytes c) amm_account)) (\<lambda>amm.
     rbind (av_account view (coin_vault amm)) (\<lambda>coin_vault_account.
     rbind (lift_err ProgramError (rc_unpack_account c coin_vault_account)) (\<lambda>coin.
     rbind (av_account view (pc_vault amm)) (\<lambda>pc_vault_account.
     rbind (lift_err ProgramError (rc_unpack_account c pc_vault_account)) (\<lambda>pc.
     Ok \<lparr>ray_edge_amm = amm, ray_edge_pc_vault = pc, ray_edge_coin_vault = coin\<rparr>))))))"

definition ray_direction :: "raydium_edge_identifier \<Rightarrow> swap_direction" where
  "ray_direction i = (if is_pc_to_coin i then PC2Coin else Coin2PC)"

definition ray_fee_mint :: "raydium_edge_identifier \<Rightarrow> amm_info \<Rightarrow> pubkey" where
  "ray_fee_mint i amm = (if is_pc_to_coin i then pc_vault_mint amm else coin_vault_mint amm)"

definition raydium_quote ::
    "raydium_edge_identifier \<Rightarrow> raydium_edge \<Rightarrow> anyhow account_view \<Rightarrow> u64 \<Rightarrow> quote ares" where
  "raydium_quote i edge view in_amount =
     (if vault_state (ray_edge_coin_vault edge) = AccountFrozen \<or>
         vault_state (ray_edge_pc_vault edge) = AccountFrozen
      then Ok \<lparr>q_in_amount = in_amount, q_out_amount = 0, q_fee_amount = 0,
               q_fee_mint = default_pubkey\<rparr>
      else
        rbind (simulate_swap_base_in (ray_edge_amm edge) (vault_amount (ray_edge_coin_vault edge))
                 (vault_amount (ray_edge_pc_vault edge)) (ray_direction i) in_amount)
          (\<lambda>(out_amount, fee_amount).
        rbind (amm_status_from_u64 (amm_status_field (ray_edge_amm edge))) (\<lambda>status.
        Ok \<lparr>q_in_amount = in_amount,
            q_out_amount = (if \<not> swap_permission status then 0 else out_amount),
            q_fee_amount = fee_amount, q_fee_mint = ray_fee_mint i (ray_edge_amm edge)\<rparr>)))"

definition raydium_quote_exact_out ::
    "raydium_edge_identifier \<Rightarrow> raydium_edge \<Rightarrow> anyhow account_view \<Rightarrow> u64 \<Rightarrow> quote ares" where
  "raydium_quote_exact_out i edge view out_amount =
     rbind (simulate_swap_base_out (ray_edge_amm edge) (vault_amount (ray_edge_coin_vault edge))
              (vault_amount (ray_edge_pc_vault edge)) (ray_direction i) out_amount)
       (\<lambda>(in_amount, fee_amount).
     rbind (amm_status_from_u64 (amm_status_field (ray_edge_amm edge))) (\<lambda>status.
     rbind (padd in_amount fee_amount) (\<lambda>total.
     Ok \<lparr>q_in_amount = total, q_out_amount = out_amount, q_fee_amount = fee_amount,
         q_fee_mint = ray_fee_mint i (ray_edge_amm edge)\<rparr>)))"

definition raydium_dex :: "ray_codec \<Rightarrow> (raydium_edge_identifier, raydium_edge, anyhow) dex_interface"
  where
  "raydium_dex c = \<lparr>dex_name = ''Raydium'', dex_load = raydium_load c, dex_quote = raydium_quote,
     dex_quote_exact_out = raydium_quote_exact_out, dex_supports_exact_out = (\<lambda>_. True)\<rparr>"

interpretation raydium: quoting_dex "raydium_dex c" for c
  by unfold_locales
    (auto simp: raydium_dex_def raydium_quote_def raydium_quote_exact_out_def split: if_splits)

subsection \<open>The swap instruction\<close>

text \<open>\<open>declare_id!\<close> of the program and of its authority.\<close>

definition raydium_id :: pubkey where
  "raydium_id = 34307378574122751251753648456821433629702160761243254248185250197633836157645"

definition raydium_authority_id :: pubkey where
  "raydium_authority_id =
     29555267933980536489500274975650497092513243748647118716558015509797207118600"

text \<open>\<open>((out_amount as f64 * (10_000f64 - max_slippage_bps as f64)) / 10_000f64).floor() as u64\<close>.\<close>

definition minimum_amount_out :: "u64 \<Rightarrow> u32 \<Rightarrow> u64" where
  "minimum_amount_out out_amount max_slippage_bps =
     f64_as_u64 (f64_floor (f64_div
       (f64_mul (f64_of_u64 out_amount) (f64_sub (Finite False 10000) (f64_of_i32 max_slippage_bps)))
       (Finite False 10000)))"

definition raydium_build_swap_ix ::
    "ray_codec \<Rightarrow> pubkey \<Rightarrow> (pubkey \<Rightarrow> pubkey \<Rightarrow> pubkey) \<Rightarrow> raydium_edge_identifier \<Rightarrow>
     anyhow account_view \<Rightarrow> pubkey \<Rightarrow> u64 \<Rightarrow> u64 \<Rightarrow> u32 \<Rightarrow> swap_instruction ares" where
  "raydium_build_swap_ix c token_program ata i view wallet_pk amount_in out_amount
       max_slippage_bps =
     rbind (av_account view (ray_amm i)) (\<lambda>pool_account.
     rbind (lift_err ProgramError
              (amm_info_load_checked (rc_amm_size c) (rc_amm_from_bytes c) pool_account)) (\<lambda>pool.
     let input_token_account = ata wallet_pk (ray_input_mint i);
         output_token_account = ata wallet_pk (ray_output_mint i);
         data = [9] @ u64_le amount_in @ u64_le (minimum_amount_out out_amount max_slippage_bps);
         ro = (\<lambda>k. \<lparr>am_pubkey = k, am_is_signer = False, am_is_writable = False\<rparr>);
         rw = (\<lambda>k s. \<lparr>am_pubkey = k, am_is_signer = s, am_is_writable = True\<rparr>) in
     rbind (assert_that (length data = 1 + 8 + 8)) (\<lambda>_.
     Ok \<lparr>si_instruction = \<lparr>ix_program_id = raydium_id,
           ix_accounts = [ro token_program, rw (ray_amm i) False, ro raydium_authority_id,
             rw (ray_amm i) False, rw (coin_vault pool) False, rw (pc_vault pool) False,
             rw (ray_amm i) False, rw (ray_amm i) False, rw (ray_amm i) False,
             rw (ray_amm i) False, rw (ray_amm i) False, rw (ray_amm i) False,
             rw (ray_amm i) False, rw (ray_amm i) False, rw input_token_account False,
             rw output_token_account False, rw wallet_pk True],
           ix_data = data\<rparr>,
         si_out_pubkey = output_token_account, si_out_mint = ray_output_mint i,
         si_in_amount_offset = 1, si_cu_estimate = Some 40000\<rparr>)))"

subsection \<open>Initialising a pool record\<close>

text \<open>\<open>AmmInfo::initialize\<close>; \<open>epoch\<close> is the answer of \<open>Clock::get()\<close>. An error aborts
  the instruction, so the half-written record is not part of the result.\<close>

definition amm_info_initialize ::
    "u64 presult \<Rightarrow> u8 \<Rightarrow> u64 \<Rightarrow> u8 \<Rightarrow> u8 \<Rightarrow> u64 \<Rightarrow> u64 \<Rightarrow> amm_info \<Rightarrow> amm_info ares" where
  "amm_info_initialize epoch nonce open_time coin_dec pc_dec coin_lot pc_lot amm =
     (let amm = amm\<lparr>amm_fees := fees_initialize (amm_fees amm),
            amm_state_data := state_data_initialize open_time,
            amm_status_field := amm_status_into_u64 Uninitialized, amm_nonce := ucast nonce,
            order_num := 7, amm_depth := 3, coin_decimals := ucast coin_dec,
            pc_decimals := ucast pc_dec, amm_state_field := amm_state_into_u64 IdleState,
            reset_flag := amm_reset_flag_into_u64 ResetNo\<rparr> in
      rbind (pow_error (checked_pow (10 :: u64) (unat (if pc_dec > coin_dec then pc_dec else coin_dec))))
        (\<lambda>sys_value.
      rbind (pow_error (checked_pow (10 :: u128) (unat pc_dec))) (\<lambda>pc_scale.
      rbind (mul_error (checked_mul (to_wide coin_lot) pc_scale)) (\<lambda>numerator.
      rbind (pow_error (checked_pow (10 :: u128) (unat coin_dec))) (\<lambda>coin_scale.
      rbind (mul_error (checked_mul (to_wide pc_lot) coin_scale)) (\<lambda>denominator.
      rbind (div_error (checked_div numerator denominator)) (\<lambda>ratio.
      rbind (if to_wide sys_value \<le> ratio then lift_err AmmError (to_u64 ratio) else Ok sys_value)
        (\<lambda>sys_value.
      rbind (mul_error (checked_mul (to_wide coin_lot) (to_wide sys_value))) (\<lambda>x.
      rbind (div_error (checked_div x coin_scale)) (\<lambda>min_size_value.
      rbind (if min_size_value < to_wide (- 1) then lift_err AmmError (to_u64 min_size_value) else Ok 0)
        (\<lambda>min_size_value.
      rbind (mul_error (checked_mul sys_value 5)) (\<lambda>wave.
      rbind (div_error (checked_div wave 1000)) (\<lambda>wave.
      rbind (convert_in_pc_lot_size pc_dec coin_dec pc_lot coin_lot sys_value) (\<lambda>pc_lot_value.
      rbind (lift_err ProgramError epoch) (\<lambda>now.
      Ok (amm\<lparr>sys_decimal_value := sys_value, min_size := min_size_value,
             vol_max_cut_ratio := 500, amount_wave := wave, coin_lot_size := coin_lot,
             pc_lot_size := pc_lot_value, min_price_multiplier := 1,
             max_price_multiplier := 1000000000, client_order_id := 0,
             padding1 := replicate 8 0, recent_epoch := now, padding2 := 0\<rparr>))))))))))))))))"

subsection \<open>Properties\<close>

lemma ray_filter_pools_Ok:
  "ray_filter_pools now pools = Ok kept \<Longrightarrow>
     set kept = {p \<in> set pools. ray_pool_kept now (snd p) = Ok True}"
  by (induction pools arbitrary: kept) (auto split: if_splits)

lemma ray_edges_per_pk_Some:
  "ray_edges_per_pk pools k = Some ids \<Longrightarrow>
     \<exists>(pk, pool) \<in> set pools. ids = ray_edge_pair pk pool \<and> k \<in> {pk, coin_vault pool, pc_vault pool}"
proof (induction pools rule: rev_induct)
  case (snoc p pools)
  obtain pk pool where p: "p = (pk, pool)" by fastforce
  from snoc.prems show ?case
    using snoc.IH by (auto simp: ray_edges_per_pk_def p Let_def split: if_splits)
qed (simp add: ray_edges_per_pk_def)

text \<open>
  Every edge the adapter offers comes from a listed pool that
  permits swaps without an order book, trades two different mints, and is not waiting for
  its opening time; the two edges of a pool are each other's reverse.
\<close>

theorem raydium_edges_tradable:
  assumes "raydium_initialize now pools = Ok edges" and "edges k = Some ids"
  shows "\<exists>pk pool a b. (pk, pool) \<in> set pools \<and> ids = [a, b] \<and> ray_amm a = pk \<and> ray_amm b = pk \<and>
    ray_input_mint a = ray_output_mint b \<and> ray_output_mint a = ray_input_mint b \<and>
    ray_input_mint a \<noteq> ray_output_mint a \<and> amm_status_field pool \<in> {6, 7} \<and>
    (amm_status_field pool = 7 \<longrightarrow> pool_open_time (amm_state_data pool) < now)"
proof -
  from assms(1) obtain kept where f: "ray_filter_pools now pools = Ok kept"
    and e: "edges = ray_edges_per_pk kept" by (auto simp: raydium_initialize_def)
  from ray_edges_per_pk_Some [of kept k ids] assms(2) e obtain pk pool where
    p: "(pk, pool) \<in> set kept" "ids = ray_edge_pair pk pool" by auto
  then have mem: "(pk, pool) \<in> set pools" and keep: "ray_pool_kept now pool = Ok True"
    using ray_filter_pools_Ok [OF f] by auto
  from keep obtain status where st: "amm_status_from_u64 (amm_status_field pool) = (Ok status :: amm_status ares)"
    "swap_permission status" "\<not> orderbook_permission status"
    "coin_vault_mint pool \<noteq> pc_vault_mint pool"
    "amm_status_field pool \<noteq> 7 \<or> pool_open_time (amm_state_data pool) < now"
    by (auto simp: ray_pool_kept_def)
  then have "amm_status_field pool \<in> {6, 7}"
    using amm_status.into_from [OF st(1)] by (cases status) auto
  with p mem st show ?thesis
    by (intro exI [of _ pk] exI [of _ pool])
      (auto simp: ray_edge_pair_def ray_input_mint_def ray_output_mint_def)
qed

theorem raydium_edges_tradable_witness:
  "\<exists>edges ids. raydium_initialize 100 [(9, ref_amm)] = Ok edges \<and> edges 9 = Some ids \<and> length ids = 2"
proof -
  let ?edges = "ray_edges_per_pk [(9, ref_amm)]"
  have i: "raydium_initialize 100 [(9, ref_amm)] = Ok ?edges"
    by (simp add: raydium_initialize_def ray_pool_kept_def amm_status_from_u64_def ref_amm_def)
  have "?edges 9 = Some (ray_edge_pair 9 ref_amm)" by (simp add: ray_edges_per_pk_def Let_def ref_amm_def)
  from raydium_edges_tradable [OF i this] i this show ?thesis by auto
qed

text \<open>
  The fee of an exact-out quote is computed on the net
  input, but the fee of the swap is charged on the gross input: on a pool with a quarter
  percent fee, swapping the input that \<open>quote_exact_out\<close> names for 1000000 tokens is
  quoted fewer than 1000000 tokens.
\<close>

theorem raydium_exact_out_short:
  "\<exists>edge i q q'. raydium_quote_exact_out i edge view 1000000 = Ok q \<and>
     raydium_quote i edge view (q_in_amount q) = Ok q' \<and> q_out_amount q = 1000000 \<and>
     q_out_amount q' < q_out_amount q"
proof -
  let ?v = "\<lparr>vault_amount = 1000000000, vault_state = AccountInitialized\<rparr>"
  let ?edge = "\<lparr>ray_edge_amm = ref_amm, ray_edge_pc_vault = ?v, ray_edge_coin_vault = ?v\<rparr>"
  let ?i = "\<lparr>ray_amm = 9, ray_mint_pc = 6, ray_mint_coin = 5, is_pc_to_coin = False\<rparr>"
  have s: "amm_status_from_u64 (amm_status_field ref_amm) = (Ok SwapOnly :: amm_status ares)"
    by (simp add: amm_status_from_u64_def ref_amm_def)
  have "raydium_quote_exact_out ?i ?edge view 1000000 = Ok \<lparr>q_in_amount = 1003505,
      q_out_amount = 1000000, q_fee_amount = 2503, q_fee_mint = ray_fee_mint ?i ref_amm\<rparr>"
    by (simp add: raydium_quote_exact_out_def ray_direction_def ref_swap_out s padd_def checked_add_def)
  moreover have "raydium_quote ?i ?edge view 1003505 = Ok \<lparr>q_in_amount = 1003505,
      q_out_amount = 999995, q_fee_amount = 2509, q_fee_mint = ray_fee_mint ?i ref_amm\<rparr>"
    by (simp add: raydium_quote_def ray_direction_def ref_swap_in s)
  ultimately show ?thesis by (intro exI [of _ ?edge] exI [of _ ?i]) simp
qed

text \<open>
  The swap instruction declares offset 1 for its input amount:
  overwriting the eight bytes there, as the executor does between hops, gives the
  instruction that would have been built for the other amount.
\<close>

theorem raydium_ix_patchable:
  assumes "raydium_build_swap_ix c tp ata i view wallet amount out bps = Ok si"
  shows "\<exists>si'. raydium_build_swap_ix c tp ata i view wallet amount' out bps = Ok si' \<and>
    copy_at (ix_data (si_instruction si)) (unat (si_in_amount_offset si)) (u64_le amount') =
      (Ok (ix_data (si_instruction si')) :: bytes presult) \<and>
    si' = si\<lparr>si_instruction := (si_instruction si)\<lparr>ix_data := ix_data (si_instruction si')\<rparr>\<rparr>"
  using assms
  by (auto simp: raydium_build_swap_ix_def Let_def copy_at_def)

theorem raydium_ix_patchable_witness:
  "\<exists>c view si. raydium_build_swap_ix c 1 (\<lambda>w m. m) \<lparr>ray_amm = 9, ray_mint_pc = 6,
      ray_mint_coin = 5, is_pc_to_coin = False\<rparr> view 7 100 90 50 = Ok si \<and>
    length (ix_data (si_instruction si)) = 17"
proof -
  let ?c = "\<lparr>rc_amm_size = 0, rc_amm_from_bytes = (\<lambda>_. Ok ref_amm),
    rc_unpack_account = (\<lambda>_. Err InvalidAccountData)\<rparr>"
  let ?view = "\<lparr>av_account = (\<lambda>_. Ok []), av_newest_processed_slot = 0\<rparr> :: anyhow account_view"
  let ?i = "\<lparr>ray_amm = 9, ray_mint_pc = 6, ray_mint_coin = 5, is_pc_to_coin = False\<rparr>"
  obtain si where si: "raydium_build_swap_ix ?c 1 (\<lambda>w m. m) ?i ?view 7 100 90 50 = Ok si"
    by (simp add: raydium_build_swap_ix_def amm_info_load_checked_def ref_amm_def Let_def)
  from raydium_ix_patchable [OF si, of 5] have "length (ix_data (si_instruction si)) = 17"
    using si by (auto simp: raydium_build_swap_ix_def Let_def)
  with si show ?thesis by blast
qed

end
