(* ===== verification/Edge_State.thy ===== *)
theory Edge_State
  imports Dex_Interface
begin

text \<open>
  Edges of the routing graph and their cached prices
  (\<^verbatim>\<open>bin/autobahn-router/src/edge.rs\<close>). An edge is a record with its mutable state inside;
  an operation returns the new state. The clock (\<open>millis_since_epoch\<close>), \<open>f64::ln\<close> and
  \<open>powf\<close> are parameters. Logging is not modelled.

  The invariant \<open>edge_state_ok\<close> is what the rest of the router relies on: a valid edge has
  one cached price per warming amount, none of them NaN, and at least one that is not
  negligible.
\<close>

subsection \<open>State\<close>

record edge_state =
  cached_prices :: "(u64 \<times> f64 \<times> f64) list"
  es_is_valid :: bool
  last_update :: u64
  last_update_slot :: u64
  cooldown_event :: u64
  cooldown_until :: "u64 option"

definition default_edge_state :: edge_state where
  "default_edge_state = \<lparr>cached_prices = [], es_is_valid = False, last_update = 0,
     last_update_slot = 0, cooldown_event = 0, cooldown_until = None\<rparr>"

record ('i, 'd, 'e) edge =
  e_input_mint :: pubkey
  e_output_mint :: pubkey
  e_dex :: "('i, 'd, 'e) dex_interface"
  e_id :: 'i
  e_ident :: edge_ident
  e_accounts_needed :: nat
  e_state :: edge_state

definition edge_unique_id :: "('i, 'd, 'e) edge \<Rightarrow> pubkey \<times> pubkey" where
  "edge_unique_id e = (id_key (e_ident e), id_input_mint (e_ident e))"

definition edge_prepare :: "('i, 'd, 'e) edge \<Rightarrow> 'e account_view \<Rightarrow> ('d, 'e) result" where
  "edge_prepare e view = dex_load (e_dex e) (e_id e) view"

definition edge_quote ::
    "('i, 'd, 'e) edge \<Rightarrow> 'd \<Rightarrow> 'e account_view \<Rightarrow> u64 \<Rightarrow> (quote, 'e) result" where
  "edge_quote e prepared view in_amount = dex_quote (e_dex e) (e_id e) prepared view in_amount"

definition edge_quote_exact_out ::
    "('i, 'd, 'e) edge \<Rightarrow> 'd \<Rightarrow> 'e account_view \<Rightarrow> u64 \<Rightarrow> (quote, 'e) result" where
  "edge_quote_exact_out e prepared view out_amount =
     dex_quote_exact_out (e_dex e) (e_id e) prepared view out_amount"

definition edge_supports_exact_out :: "('i, 'd, 'e) edge \<Rightarrow> bool" where
  "edge_supports_exact_out e = dex_supports_exact_out (e_dex e) (e_id e)"

subsection \<open>Reading prices\<close>

definition edge_is_valid :: "edge_state \<Rightarrow> bool" where
  "edge_is_valid st =
     (if \<not> es_is_valid st then False else if cooldown_until st \<noteq> None then False else True)"

definition cached_price_for :: "edge_state \<Rightarrow> u64 \<Rightarrow> (f64 \<times> f64) option" where
  "cached_price_for st in_amount =
     (if \<not> edge_is_valid st \<or> cached_prices st = [] then None
      else Some (case find (\<lambda>(a, p, l). a \<ge> in_amount) (cached_prices st) of
                   Some (a, p, l) \<Rightarrow> (p, l) | None \<Rightarrow> snd (last (cached_prices st))))"

text \<open>The argument of \<open>unwrap_or\<close> is evaluated in any case: \<open>last().unwrap()\<close> panics on an
  empty list.\<close>

definition cached_price_exact_out_for ::
    "(f64 \<Rightarrow> f64) \<Rightarrow> edge_state \<Rightarrow> u64 \<Rightarrow> ((f64 \<times> f64) option, 'x) result" where
  "cached_price_exact_out_for ln_fn st out_amount =
     (if \<not> edge_is_valid st then Ok None
      else if cached_prices st = [] then Panic
      else
        let out_amount_f = f64_of_u64 out_amount;
            cached_price = (case find (\<lambda>(a, p, l). f64_le out_amount_f (f64_mul (f64_of_u64 a) p))
                                   (cached_prices st) of
                              Some c \<Rightarrow> c | None \<Rightarrow> last (cached_prices st));
            price = f64_div (Finite False 1) (fst (snd cached_price)) in
        Ok (Some (price, ln_fn price)))"

subsection \<open>Updating\<close>

text \<open>The amounts to quote: the warming amounts at the price of the mint, in native units.\<close>

definition warming_amount :: "f64 \<Rightarrow> f64 \<Rightarrow> u64 \<Rightarrow> u64" where
  "warming_amount price multiplier amount =
     f64_as_u64 (f64_ceil (f64_mul (f64_div (f64_of_u64 amount) price) multiplier))"

text \<open>One quote; a panic in the adapter is a panic here.\<close>

fun quote_all ::
    "('i, 'd, 'e) edge \<Rightarrow> ('d, 'e) result \<Rightarrow> 'e account_view \<Rightarrow> u64 list \<Rightarrow>
     ((u64 \<times> quote option) list, 'x) result" where
  "quote_all e prepared view [] = Ok []"
| "quote_all e prepared view (amount # amounts) =
     rbind (case prepared of
              Ok p \<Rightarrow> (case edge_quote e p view amount of
                         Ok q \<Rightarrow> Ok (amount, Some q) | Err _ \<Rightarrow> Ok (amount, None) | Panic \<Rightarrow> Panic)
            | Err _ \<Rightarrow> Ok (amount, None)
            | Panic \<Rightarrow> Panic) (\<lambda>r.
     rbind (quote_all e prepared view amounts) (\<lambda>rs. Ok (r # rs)))"

text \<open>The loop over the quotes: the cached prices, the valid flag and whether some price is
  not negligible. The threshold is the \<open>f64\<close> nearest to \<open>0.0000001\<close>.\<close>

definition negligible_price :: f64 where
  "negligible_price = f64_of_rat (1 / 10000000)"

fun push_quotes ::
    "(f64 \<Rightarrow> f64) \<Rightarrow> (u64 \<times> quote option) list \<Rightarrow>
     (u64 \<times> f64 \<times> f64) list \<times> bool \<times> bool \<Rightarrow> (u64 \<times> f64 \<times> f64) list \<times> bool \<times> bool" where
  "push_quotes ln_fn [] st = st"
| "push_quotes ln_fn ((in_amount, None) # rs) (prices, valid, non_zero) =
     push_quotes ln_fn rs (prices, False, non_zero)"
| "push_quotes ln_fn ((in_amount, Some q) # rs) (prices, valid, non_zero) =
     (let price = f64_div (f64_of_u64 (q_out_amount q)) (f64_of_u64 in_amount) in
      if is_nan price then push_quotes ln_fn rs (prices, False, non_zero)
      else push_quotes ln_fn rs (prices @ [(in_amount, price, ln_fn price)], valid,
             non_zero \<or> f64_less negligible_price price))"

definition pow10_u64 :: "u8 \<Rightarrow> (u64, 'x) result" where
  "pow10_u64 decimals = (if 10 ^ unat decimals < (2 ^ 64 :: nat) then Ok (10 ^ unat decimals) else Panic)"

definition update_internal ::
    "(f64 \<Rightarrow> f64) \<Rightarrow> u64 \<Rightarrow> 'e account_view \<Rightarrow> u8 \<Rightarrow> f64 \<Rightarrow> u64 list \<Rightarrow> ('i, 'd, 'e) edge \<Rightarrow>
     (edge_state, 'x) result" where
  "update_internal ln_fn now view decimals price path_warming_amounts e =
     rbind (pow10_u64 decimals) (\<lambda>scale.
     let amounts = map (warming_amount price (f64_of_u64 scale)) path_warming_amounts;
         st = e_state e in
     if - 1 \<in> set amounts then
       Ok (st\<lparr>last_update := now, last_update_slot := av_newest_processed_slot view,
             cached_prices := [], es_is_valid := False\<rparr>)
     else
       rbind (quote_all e (edge_prepare e view) view amounts) (\<lambda>results.
       let cooldown = (case cooldown_until st of
             Some timestamp \<Rightarrow> (if timestamp < now then None else Some timestamp) | None \<Rightarrow> None) in
       case push_quotes ln_fn results ([], True, False) of (prices, valid, non_zero) \<Rightarrow>
       Ok (st\<lparr>last_update := now, last_update_slot := av_newest_processed_slot view,
             cached_prices := prices, es_is_valid := valid \<and> non_zero,
             cooldown_until := cooldown\<rparr>)))"

text \<open>\<open>update\<close>: the decimals from the token cache and the price from the price cache.\<close>

definition edge_update ::
    "(f64 \<Rightarrow> f64) \<Rightarrow> u64 \<Rightarrow> 'e account_view \<Rightarrow> (pubkey \<Rightarrow> u8 option) \<Rightarrow> (pubkey \<Rightarrow> f64 option) \<Rightarrow>
     u64 list \<Rightarrow> ('i, 'd, 'e) edge \<Rightarrow> (edge_state, 'x) result" where
  "edge_update ln_fn now view token_decimals price_ui path_warming_amounts e =
     (case token_decimals (e_input_mint e) of
        None \<Rightarrow> Ok ((e_state e)\<lparr>es_is_valid := False\<rparr>)
      | Some decimals \<Rightarrow>
          (case price_ui (e_input_mint e) of
             None \<Rightarrow> Ok ((e_state e)\<lparr>es_is_valid := False\<rparr>)
           | Some price \<Rightarrow> update_internal ln_fn now view decimals price path_warming_amounts e))"

subsection \<open>Cooldown\<close>

definition reset_cooldown :: "edge_state \<Rightarrow> edge_state" where
  "reset_cooldown st = st\<lparr>cooldown_event := cooldown_event st + 0, cooldown_until := None\<rparr>"

text \<open>The multiplier of the n-th cooldown: \<open>n * 1.2^n\<close>, rounded, for at most five.\<close>

definition cooldown_factor :: "(f64 \<Rightarrow> f64 \<Rightarrow> f64) \<Rightarrow> u64 \<Rightarrow> u64" where
  "cooldown_factor powf event =
     (let counter = f64_of_u64 (min event 5);
          exp_factor = powf (f64_of_rat (6 / 5)) counter in
      f64_as_u64 (f64_round (f64_mul counter exp_factor)))"

definition add_cooldown ::
    "(f64 \<Rightarrow> f64 \<Rightarrow> f64) \<Rightarrow> u64 \<Rightarrow> u64 \<Rightarrow> edge_state \<Rightarrow> (edge_state, 'x) result" where
  "add_cooldown powf now duration_millis st =
     rbind (padd (cooldown_event st) 1) (\<lambda>event.
     rbind (pmul duration_millis (cooldown_factor powf event)) (\<lambda>delay.
     rbind (padd now delay) (\<lambda>until.
     Ok (st\<lparr>cooldown_event := event,
            cooldown_until := (case cooldown_until st of
              None \<Rightarrow> Some until | Some current \<Rightarrow> Some (max current until))\<rparr>))))"

subsection \<open>The invariant\<close>

definition edge_state_ok :: "nat \<Rightarrow> edge_state \<Rightarrow> bool" where
  "edge_state_ok n st \<longleftrightarrow> (es_is_valid st \<longrightarrow>
     length (cached_prices st) = n \<and>
     list_all (\<lambda>x. \<not> is_nan (fst (snd x))) (cached_prices st) \<and>
     list_ex (\<lambda>x. f64_less negligible_price (fst (snd x))) (cached_prices st))"

lemma quote_all_amounts: "quote_all e prepared view amounts = Ok rs \<Longrightarrow> map fst rs = amounts"
  by (induction amounts arbitrary: rs) (auto split: result.splits)

lemma push_quotes_amounts:
  "push_quotes ln_fn rs (ps, v, nz) = (ps', v', nz') \<Longrightarrow> v' \<Longrightarrow> v \<and> map fst ps' = map fst ps @ map fst rs"
  by (induction ln_fn rs "(ps, v, nz)" arbitrary: ps v nz rule: push_quotes.induct)
    (auto simp: Let_def split: if_splits)

lemma push_quotes_not_nan:
  "push_quotes ln_fn rs (ps, v, nz) = (ps', v', nz') \<Longrightarrow>
     list_all (\<lambda>x. \<not> is_nan (fst (snd x))) ps \<Longrightarrow> list_all (\<lambda>x. \<not> is_nan (fst (snd x))) ps'"
  by (induction ln_fn rs "(ps, v, nz)" arbitrary: ps v nz rule: push_quotes.induct)
    (auto simp: Let_def split: if_splits)

lemma push_quotes_non_zero:
  "push_quotes ln_fn rs (ps, v, nz) = (ps', v', nz') \<Longrightarrow>
     (nz \<longrightarrow> list_ex (\<lambda>x. f64_less negligible_price (fst (snd x))) ps) \<Longrightarrow>
     (nz' \<longrightarrow> list_ex (\<lambda>x. f64_less negligible_price (fst (snd x))) ps')"
proof (induction ln_fn rs "(ps, v, nz)" arbitrary: ps v nz rule: push_quotes.induct)
  case (3 ln_fn a q rs ps v nz)
  let ?price = "f64_div (f64_of_u64 (q_out_amount q)) (f64_of_u64 a)"
  show ?case
  proof (cases "is_nan ?price")
    case True
    show ?thesis by (rule "3.hyps"(1) [OF refl True]) (use 3 True in \<open>simp_all add: Let_def\<close>)
  next
    case False
    show ?thesis
      by (rule "3.hyps"(2) [OF refl False]) (use 3 False in \<open>auto simp add: Let_def list_ex_iff\<close>)
  qed
qed simp_all

lemma update_internal_ok:
  assumes "update_internal ln_fn now view decimals price amounts e = (Ok st :: (edge_state, 'x) result)"
  shows "edge_state_ok (length amounts) st"
proof -
  from assms obtain scale where c: "pow10_u64 decimals = (Ok scale :: (u64, 'x) result)"
    by (auto simp: update_internal_def)
  let ?amounts = "map (warming_amount price (f64_of_u64 scale)) amounts"
  show ?thesis
  proof (cases "- 1 \<in> set ?amounts")
    case True
    then have "\<not> es_is_valid st"
      using assms unfolding update_internal_def c Let_def by (simp only: rbind.simps if_True) auto
    then show ?thesis by (simp add: edge_state_ok_def)
  next
    case False
    with assms obtain rs where q: "quote_all e (edge_prepare e view) view ?amounts = (Ok rs :: (_, 'x) result)"
      unfolding update_internal_def c Let_def by (auto simp only: rbind.simps if_False rbind_eq_Ok)
    obtain ps v nz where pq: "push_quotes ln_fn rs ([], True, False) = (ps, v, nz)"
      by (metis prod.exhaust)
    have st: "cached_prices st = ps" "es_is_valid st = (v \<and> nz)"
      using assms False unfolding update_internal_def c Let_def
      by (simp_all only: rbind.simps if_False q pq prod.case) auto
    have "length rs = length amounts" using arg_cong [OF quote_all_amounts [OF q], of length] by simp
    moreover have "v \<Longrightarrow> map fst ps = map fst rs" using push_quotes_amounts [OF pq] by simp
    then have "v \<Longrightarrow> length ps = length rs" by (metis length_map)
    ultimately show ?thesis
      using push_quotes_not_nan [OF pq] push_quotes_non_zero [OF pq] by (simp add: edge_state_ok_def st)
  qed
qed

lemma add_cooldown_Ok:
  "add_cooldown powf now d st = Ok st' \<Longrightarrow> cached_prices st' = cached_prices st \<and>
     es_is_valid st' = es_is_valid st \<and> cooldown_until st' \<noteq> None"
  by (auto simp: add_cooldown_def split: option.splits)

text \<open>The life of an edge: any sequence of updates and cooldown changes.\<close>

inductive edge_reach :: "u64 list \<Rightarrow> ('i, 'd, 'e) edge \<Rightarrow> edge_state \<Rightarrow> bool"
  for amounts e where
  initial: "edge_reach amounts e default_edge_state"
| updated: "edge_reach amounts e st \<Longrightarrow>
    edge_update ln_fn now view decs prices amounts (e\<lparr>e_state := st\<rparr>) = (Ok st' :: (edge_state, unit) result) \<Longrightarrow>
    edge_reach amounts e st'"
| cooled: "edge_reach amounts e st \<Longrightarrow>
    add_cooldown powf now d st = (Ok st' :: (edge_state, unit) result) \<Longrightarrow> edge_reach amounts e st'"
| reset: "edge_reach amounts e st \<Longrightarrow> edge_reach amounts e (reset_cooldown st)"

lemma edge_reach_ok: "edge_reach amounts e st \<Longrightarrow> edge_state_ok (length amounts) st"
proof (induction rule: edge_reach.induct)
  case (updated st ln_fn now view decs prices st')
  show ?case
  proof (cases "decs (e_input_mint e) = None \<or> prices (e_input_mint e) = None")
    case True
    then have "\<not> es_is_valid st'" using updated(2) by (auto simp: edge_update_def split: option.splits)
    then show ?thesis by (simp add: edge_state_ok_def)
  next
    case False
    then show ?thesis using updated(2) by (auto simp: edge_update_def intro: update_internal_ok)
  qed
next
  case (cooled st powf now d st')
  then show ?case using add_cooldown_Ok [OF cooled(2)] by (simp add: edge_state_ok_def)
qed (auto simp: edge_state_ok_def default_edge_state_def reset_cooldown_def)

subsection \<open>Properties\<close>

text \<open>
  C8 (edge_prices_safe). Whatever updates and cooldowns an edge went through, while it is
  valid it has exactly one cached price per warming amount, so the price lookups of the
  router by warming index are in range and the exact-out lookup finds a last price; no
  cached price is NaN.
\<close>

theorem edge_prices_safe:
  assumes "edge_reach amounts e st" and "edge_is_valid st"
  shows "length (cached_prices st) = length amounts \<and>
    (\<forall>i < length amounts. \<exists>c. at_index (cached_prices st) i = (Ok c :: (_, unit) result) \<and>
       \<not> is_nan (fst (snd c))) \<and>
    (\<exists>p. cached_price_for st a = Some p) \<and>
    (\<exists>p. cached_price_exact_out_for ln_fn st a = (Ok (Some p) :: (_, unit) result))"
proof -
  have v: "es_is_valid st" using assms(2) by (simp add: edge_is_valid_def split: if_splits)
  with edge_reach_ok [OF assms(1)] have ok: "length (cached_prices st) = length amounts"
    "list_all (\<lambda>x. \<not> is_nan (fst (snd x))) (cached_prices st)" "cached_prices st \<noteq> []"
    by (auto simp: edge_state_ok_def)
  have "\<forall>i < length amounts. \<exists>c. at_index (cached_prices st) i = (Ok c :: (_, unit) result) \<and>
      \<not> is_nan (fst (snd c))"
    using ok(1,2) by (auto simp: at_index_def list_all_length)
  then show ?thesis using ok assms(2)
    by (simp add: cached_price_for_def cached_price_exact_out_for_def Let_def)
qed

text \<open>A concrete edge: a pool that pays 99 for 100.\<close>

definition ref_dex :: "(unit, unit, unit) dex_interface" where
  "ref_dex = \<lparr>dex_name = ''ref'', dex_load = (\<lambda>i view. Ok ()),
     dex_quote = (\<lambda>i d view a. Ok \<lparr>q_in_amount = a, q_out_amount = 99, q_fee_amount = 1, q_fee_mint = 5\<rparr>),
     dex_quote_exact_out = (\<lambda>i d view a. Err ()), dex_supports_exact_out = (\<lambda>i. False)\<rparr>"

definition ref_edge :: "(unit, unit, unit) edge" where
  "ref_edge = \<lparr>e_input_mint = 5, e_output_mint = 6, e_dex = ref_dex, e_id = (),
     e_ident = \<lparr>id_key = 9, id_desc = ''ref'', id_input_mint = 5, id_output_mint = 6,
       id_accounts_needed = 4\<rparr>, e_accounts_needed = 4, e_state = default_edge_state\<rparr>"

definition ref_view :: "unit account_view" where
  "ref_view = \<lparr>av_account = (\<lambda>_. Err ()), av_newest_processed_slot = 77\<rparr>"

definition ref_price :: f64 where
  "ref_price = Finite False (8917127262193582 / 9007199254740992)"

lemma ref_price_eval:
  "warming_amount (Finite False 1) (f64_of_u64 1) 100 = 100"
  "f64_div (f64_of_u64 99) (f64_of_u64 100) = ref_price"
  "f64_less negligible_price ref_price"
  by code_simp+

lemma ref_edge_update:
  "edge_update (\<lambda>x. NaN) 50 ref_view (\<lambda>_. Some 0) (\<lambda>_. Some (Finite False 1)) [100] ref_edge =
     (Ok \<lparr>cached_prices = [(100, ref_price, NaN)], es_is_valid = True, last_update = 50,
        last_update_slot = 77, cooldown_event = 0, cooldown_until = None\<rparr> :: (_, unit) result)"
  using ref_price_eval
  by (simp add: edge_update_def update_internal_def pow10_u64_def edge_prepare_def edge_quote_def
      ref_edge_def ref_dex_def ref_view_def default_edge_state_def ref_price_def Let_def)

lemma ref_edge_reach:
  "edge_reach [100] ref_edge \<lparr>cached_prices = [(100, ref_price, NaN)], es_is_valid = True,
     last_update = 50, last_update_slot = 77, cooldown_event = 0, cooldown_until = None\<rparr>"
proof (rule edge_reach.updated [OF edge_reach.initial])
  show "edge_update (\<lambda>x. NaN) 50 ref_view (\<lambda>_. Some 0) (\<lambda>_. Some (Finite False 1)) [100]
      (ref_edge\<lparr>e_state := default_edge_state\<rparr>) =
    (Ok \<lparr>cached_prices = [(100, ref_price, NaN)], es_is_valid = True, last_update = 50,
        last_update_slot = 77, cooldown_event = 0, cooldown_until = None\<rparr> :: (_, unit) result)"
    using ref_edge_update by (simp add: ref_edge_def)
qed

theorem edge_prices_safe_witness:
  "\<exists>st. edge_reach [100] ref_edge st \<and> edge_is_valid st \<and> length (cached_prices st) = length [100 :: u64]"
proof -
  let ?st = "\<lparr>cached_prices = [(100, ref_price, NaN)], es_is_valid = True, last_update = 50,
    last_update_slot = 77, cooldown_event = 0, cooldown_until = None\<rparr>"
  have v: "edge_is_valid ?st" by (simp add: edge_is_valid_def)
  from edge_prices_safe [OF ref_edge_reach v] ref_edge_reach v show ?thesis by blast
qed

lemma edge_update_cooldown:
  assumes "edge_update ln_fn now view decs prices amounts e = (Ok st :: (edge_state, 'x) result)"
    and "cooldown_until (e_state e) = Some until" and "now \<le> until"
  shows "cooldown_until st = Some until"
  using assms
  by (auto simp: edge_update_def update_internal_def Let_def case_prod_beta split: option.splits if_splits)

text \<open>
  What the router does to a cooled edge \<open>e\<close> short of resetting it: price updates at clock times
  up to \<open>until\<close> and further cooldowns, in any number and order.
\<close>

inductive cooled_reach :: "('i, 'd, 'e) edge \<Rightarrow> u64 \<Rightarrow> edge_state \<Rightarrow> edge_state \<Rightarrow> bool"
  for e until st where
  start: "cooled_reach e until st st"
| updated: "cooled_reach e until st st' \<Longrightarrow> now \<le> until \<Longrightarrow>
    edge_update ln_fn now view decs prices amounts (e\<lparr>e_state := st'\<rparr>) =
      (Ok st'' :: (edge_state, unit) result) \<Longrightarrow> cooled_reach e until st st''"
| cooled: "cooled_reach e until st st' \<Longrightarrow>
    add_cooldown powf now d st' = (Ok st'' :: (edge_state, unit) result) \<Longrightarrow>
    cooled_reach e until st st''"

lemma add_cooldown_later:
  assumes "add_cooldown powf now d st = (Ok st' :: (edge_state, 'x) result)"
  shows "\<exists>until. cooldown_until st' = Some until \<and>
    unat now + unat d * unat (cooldown_factor powf (cooldown_event st + 1)) \<le> unat until \<and>
    (\<forall>c. cooldown_until st = Some c \<longrightarrow> c \<le> until)"
proof -
  from assms obtain event delay until where
    h: "padd (cooldown_event st) 1 = (Ok event :: (u64, 'x) result)"
    "pmul d (cooldown_factor powf event) = (Ok delay :: (u64, 'x) result)"
    "padd now delay = (Ok until :: (u64, 'x) result)"
    "cooldown_until st' = Some (case cooldown_until st of None \<Rightarrow> until | Some c \<Rightarrow> max c until)"
    by (cases "cooldown_until st") (auto simp: add_cooldown_def)
  let ?u = "case cooldown_until st of None \<Rightarrow> until | Some c \<Rightarrow> max c until"
  have "event = cooldown_event st + 1"
    using h(1) by (simp add: padd_def checked_add_def split: if_splits)
  then have "unat now + unat d * unat (cooldown_factor powf (cooldown_event st + 1)) = unat until"
    using h(2,3) by (simp add: padd_Ok pmul_Ok)
  moreover have "until \<le> ?u" by (simp split: option.splits)
  ultimately have "unat now + unat d * unat (cooldown_factor powf (cooldown_event st + 1)) \<le> unat ?u"
    by (simp add: word_le_nat_alt)
  moreover have "\<forall>c. cooldown_until st = Some c \<longrightarrow> c \<le> ?u" by simp
  ultimately show ?thesis using h(4) by blast
qed

lemma cooled_reach_until:
  assumes "cooled_reach e until st st'" and "cooldown_until st = Some until"
  shows "\<exists>u. cooldown_until st' = Some u \<and> until \<le> u"
  using assms
proof (induction rule: cooled_reach.induct)
  case (updated st' now ln_fn view decs prices amounts st'')
  then obtain u where u: "cooldown_until st' = Some u" "until \<le> u" by blast
  have "cooldown_until st'' = Some u"
    by (rule edge_update_cooldown [OF updated(3)]) (use u updated(2) in auto)
  with u(2) show ?case by blast
next
  case (cooled st' powf now d st'')
  then show ?case using add_cooldown_later [OF cooled(2)] by fastforce
qed simp

text \<open>
  C9 (cooldown_holds). Cooling an edge down makes it invalid until the backoff has passed or
  a successful transaction through it resets it: the end is not before now plus the duration
  times the factor nor before an end already set; through any number of price updates at
  times up to that end and any number of further cooldowns the edge stays invalid; and the
  reset (\<open>reset_cooldown\<close>, what the watcher does on a successful transaction) makes it at
  once as valid as its last price update left it.
\<close>

theorem cooldown_holds:
  assumes "add_cooldown powf now d st = (Ok st' :: (edge_state, unit) result)"
  shows "\<exists>until. cooldown_until st' = Some until \<and>
    unat now + unat d * unat (cooldown_factor powf (cooldown_event st + 1)) \<le> unat until \<and>
    (\<forall>c. cooldown_until st = Some c \<longrightarrow> c \<le> until) \<and>
    (\<forall>(e :: ('i, 'd, 'e) edge) st''. cooled_reach e until st' st'' \<longrightarrow> \<not> edge_is_valid st'' \<and>
       (edge_is_valid (reset_cooldown st'') \<longleftrightarrow> es_is_valid st''))"
proof -
  obtain until where u: "cooldown_until st' = Some until"
    "unat now + unat d * unat (cooldown_factor powf (cooldown_event st + 1)) \<le> unat until"
    "\<forall>c. cooldown_until st = Some c \<longrightarrow> c \<le> until"
    using add_cooldown_later [OF assms] by blast
  have "\<not> edge_is_valid st'' \<and> (edge_is_valid (reset_cooldown st'') \<longleftrightarrow> es_is_valid st'')"
    if "cooled_reach e until st' st''" for e :: "('i, 'd, 'e) edge" and st''
    using cooled_reach_until [OF that u(1)] by (auto simp: edge_is_valid_def reset_cooldown_def)
  with u show ?thesis by blast
qed

text \<open>The reference edge, priced at time 50, cooled down at 1000 for 30 seconds, and priced
  again at 20000: still invalid, and valid again after a reset.\<close>

theorem cooldown_holds_witness:
  "\<exists>st' st''. add_cooldown (\<lambda>x y. x) 1000 30000 default_edge_state =
       (Ok st' :: (edge_state, unit) result) \<and>
     edge_update (\<lambda>x. NaN) 20000 ref_view (\<lambda>_. Some 0) (\<lambda>_. Some (Finite False 1)) [100]
       (ref_edge\<lparr>e_state := st'\<rparr>) = (Ok st'' :: (edge_state, unit) result) \<and>
     \<not> edge_is_valid st'' \<and> edge_is_valid (reset_cooldown st'')"
proof -
  have "cooldown_factor (\<lambda>x y. x) 1 = 1" by code_simp
  then have c: "add_cooldown (\<lambda>x y. x) 1000 30000 default_edge_state = (Ok (default_edge_state
      \<lparr>cooldown_event := 1, cooldown_until := Some 31000\<rparr>) :: (edge_state, unit) result)"
    by (simp add: add_cooldown_def default_edge_state_def padd_def pmul_def checked_add_def checked_mul_def)
  let ?st' = "default_edge_state\<lparr>cooldown_event := 1, cooldown_until := Some 31000\<rparr>"
  let ?st'' = "?st'\<lparr>cached_prices := [(100, ref_price, NaN)], es_is_valid := True,
    last_update := 20000, last_update_slot := 77\<rparr>"
  have up: "edge_update (\<lambda>x. NaN) 20000 ref_view (\<lambda>_. Some 0) (\<lambda>_. Some (Finite False 1)) [100]
      (ref_edge\<lparr>e_state := ?st'\<rparr>) = (Ok ?st'' :: (edge_state, unit) result)"
    using ref_price_eval
    by (simp add: edge_update_def update_internal_def pow10_u64_def edge_prepare_def edge_quote_def
        ref_edge_def ref_dex_def ref_view_def default_edge_state_def ref_price_def Let_def)
  have "cooled_reach ref_edge 31000 ?st' ?st''"
    by (rule cooled_reach.updated [OF cooled_reach.start _ up]) simp
  with cooldown_holds [OF c] have "\<not> edge_is_valid ?st'' \<and>
      (edge_is_valid (reset_cooldown ?st'') \<longleftrightarrow> es_is_valid ?st'')"
    by auto
  with c up show ?thesis by force
qed

end
