(* ===== verification/Routing_Types.thy ===== *)
theory Routing_Types
  imports Edge_State
begin

text \<open>
  The types of the path search (\<^verbatim>\<open>bin/autobahn-router/src/routing_types.rs\<close>) and the pooled
  work arrays (\<^verbatim>\<open>routing_objectpool.rs\<close>). Node and edge indices are 32-bit words; a \<open>MintVec\<close>
  is a list indexed with a bounds check. \<open>NotNan<f64>\<close> is an \<open>f64\<close> that is not NaN.

  The object pool itself (\<open>opool\<close>) is third-party: it hands out either a fresh object or a
  used one after \<open>reset\<close>. The contract that makes reuse invisible is the locale
  \<open>pool_allocator\<close>: resetting an object of the right shape gives what allocation gives.
\<close>

type_synonym mint_node = u32
type_synonym edge_index = u32

record edge_with_nodes =
  source_node :: mint_node
  target_node :: mint_node
  ewn_edge :: edge_index

record edge_info =
  ei_price :: f64
  ei_accounts :: nat

type_synonym path_entry = "f64 \<times> edge_with_nodes list"

text \<open>\<open>From<usize>\<close> truncates.\<close>

definition node_of_usize :: "nat \<Rightarrow> u32" where
  "node_of_usize n = of_nat n"

definition mint_index :: "'a list \<Rightarrow> mint_node \<Rightarrow> ('a, 'x) result" where
  "mint_index v i = at_index v (unat i)"

definition new_from_prototype :: "nat \<Rightarrow> 'a \<Rightarrow> 'a list" where
  "new_from_prototype n prototype = replicate n prototype"

definition try_clone_from :: "'a list \<Rightarrow> 'a list \<Rightarrow> 'a list \<times> bool" where
  "try_clone_from self other =
     (if length self \<noteq> length other then (self, False) else (other, True))"

subsection \<open>Pooled objects\<close>

definition zero_f64 :: f64 where
  "zero_f64 = Finite False 0"

definition worst_value :: "swap_mode \<Rightarrow> f64" where
  "worst_value mode = (case mode of ExactIn \<Rightarrow> f64_neg_infinity | ExactOut \<Rightarrow> f64_infinity)"

definition best_by_node_allocate :: "nat \<Rightarrow> f64 list list" where
  "best_by_node_allocate out_edges_per_node =
     replicate (8 * out_edges_per_node) (replicate 3 zero_f64)"

definition best_by_node_reset :: "f64 list list \<Rightarrow> (f64 list list, 'x) result" where
  "best_by_node_reset obj = Ok (map (\<lambda>v. replicate (length v) zero_f64) obj)"

definition best_paths_allocate :: "nat \<Rightarrow> nat \<Rightarrow> swap_mode \<Rightarrow> path_entry list list" where
  "best_paths_allocate out_edges_per_node n_paths mode =
     new_from_prototype out_edges_per_node (replicate n_paths (worst_value mode, []))"

definition best_paths_reset ::
    "nat \<Rightarrow> swap_mode \<Rightarrow> path_entry list list \<Rightarrow> (path_entry list list, 'x) result" where
  "best_paths_reset n_paths mode obj =
     rbind (assert_that (\<forall>paths \<in> set obj. length paths = n_paths)) (\<lambda>_.
     Ok (map (map (\<lambda>entry. (worst_value mode, []))) obj))"

definition best_by_node_shape :: "nat \<Rightarrow> f64 list list \<Rightarrow> bool" where
  "best_by_node_shape n obj \<longleftrightarrow> length obj = 8 * n \<and> (\<forall>v \<in> set obj. length v = 3)"

definition best_paths_shape :: "nat \<Rightarrow> nat \<Rightarrow> path_entry list list \<Rightarrow> bool" where
  "best_paths_shape n n_paths obj \<longleftrightarrow> length obj = n \<and> (\<forall>v \<in> set obj. length v = n_paths)"

locale pool_allocator =
  fixes allocate :: 'o and reset :: "'o \<Rightarrow> ('o, 'x) result" and shape :: "'o \<Rightarrow> bool"
  assumes shape_allocate: "shape allocate"
    and reset_fresh: "shape obj \<Longrightarrow> reset obj = Ok allocate"
begin

text \<open>An object that only ever passes through users that keep its shape is fresh at every
  use after the first, too.\<close>

lemma reuse_fresh: "(\<And>obj. shape obj \<Longrightarrow> shape (user obj)) \<Longrightarrow> reset (user allocate) = Ok allocate"
  using shape_allocate reset_fresh by blast

end

lemma map_const_replicate:
  "length xs = k \<Longrightarrow> (\<And>x. x \<in> set xs \<Longrightarrow> f x = c) \<Longrightarrow> map f xs = replicate k c"
  by (induction xs arbitrary: k) auto

interpretation best_by_node_pool: pool_allocator
  "best_by_node_allocate n" best_by_node_reset "best_by_node_shape n" for n
  by unfold_locales
    (auto simp: best_by_node_allocate_def best_by_node_reset_def best_by_node_shape_def
      intro!: map_const_replicate)

interpretation best_paths_pool: pool_allocator
  "best_paths_allocate n n_paths mode" "best_paths_reset n_paths mode" "best_paths_shape n n_paths"
  for n n_paths mode
  by unfold_locales
    (auto simp: best_paths_allocate_def best_paths_reset_def best_paths_shape_def
      new_from_prototype_def map_replicate_const intro!: map_const_replicate)

subsection \<open>Stable sorting of path entries\<close>

text \<open>\<open>sort_by_key\<close> is stable. \<open>NotNan\<close> compares like \<open>f64\<close>, with the two zeros equal.\<close>

fun insert_by :: "('a \<Rightarrow> 'a \<Rightarrow> bool) \<Rightarrow> 'a \<Rightarrow> 'a list \<Rightarrow> 'a list" where
  "insert_by le x [] = [x]"
| "insert_by le x (y # ys) = (if le x y then x # y # ys else y # insert_by le x ys)"

definition sort_by :: "('a \<Rightarrow> 'a \<Rightarrow> bool) \<Rightarrow> 'a list \<Rightarrow> 'a list" where
  "sort_by le xs = foldr (insert_by le) xs []"

definition entry_le :: "swap_mode \<Rightarrow> f64 \<times> 'p \<Rightarrow> f64 \<times> 'p \<Rightarrow> bool" where
  "entry_le mode x y =
     (case mode of ExactIn \<Rightarrow> f64_le (fst y) (fst x) | ExactOut \<Rightarrow> f64_le (fst x) (fst y))"

lemma length_insert_by [simp]: "length (insert_by le x xs) = Suc (length xs)"
  by (induction xs) auto

lemma set_insert_by [simp]: "set (insert_by le x xs) = insert x (set xs)"
  by (induction xs) auto

lemma length_sort_by [simp]: "length (sort_by le xs) = length xs"
  by (induction xs) (auto simp: sort_by_def)

lemma set_sort_by [simp]: "set (sort_by le xs) = set xs"
  by (induction xs) (auto simp: sort_by_def)

locale total_preorder_on =
  fixes le :: "'a \<Rightarrow> 'a \<Rightarrow> bool" and carrier :: "'a \<Rightarrow> bool"
  assumes total: "carrier x \<Longrightarrow> carrier y \<Longrightarrow> le x y \<or> le y x"
    and trans: "le x y \<Longrightarrow> le y z \<Longrightarrow> le x z"
begin

lemma sorted_insert_by:
  "sorted_wrt le xs \<Longrightarrow> \<forall>y \<in> set xs. carrier y \<Longrightarrow> carrier x \<Longrightarrow> sorted_wrt le (insert_by le x xs)"
proof (induction xs)
  case (Cons y ys)
  show ?case
  proof (cases "le x y")
    case True
    then show ?thesis using Cons.prems trans by auto
  next
    case False
    then have "le y x" using Cons.prems total by auto
    then show ?thesis using False Cons by auto
  qed
qed simp

lemma sorted_sort_by: "\<forall>y \<in> set xs. carrier y \<Longrightarrow> sorted_wrt le (sort_by le xs)"
proof (induction xs)
  case (Cons x xs)
  then show ?case
    using sorted_insert_by [of "sort_by le xs" x] by (simp add: sort_by_def) (simp flip: sort_by_def)
qed (simp add: sort_by_def)

end

interpretation entries: total_preorder_on "entry_le mode" "\<lambda>x. \<not> is_nan (fst x)" for mode
proof unfold_locales
  fix x y z :: "f64 \<times> 'b"
  show "\<not> is_nan (fst x) \<Longrightarrow> \<not> is_nan (fst y) \<Longrightarrow> entry_le mode x y \<or> entry_le mode y x"
    using f64_not_less [of "fst x" "fst y"] by (cases mode) (auto simp: entry_le_def f64_le_def)
  show "entry_le mode x y \<Longrightarrow> entry_le mode y z \<Longrightarrow> entry_le mode x z"
    by (cases mode) (auto simp: entry_le_def intro: f64_le_trans)
qed

end
