(* ===== verification/Routing_Search.thy ===== *)
theory Routing_Search
  imports Routing_Types
begin

text \<open>
  The path search (\<^verbatim>\<open>bin/autobahn-router/src/routing.rs\<close>, the functions above \<open>Routing\<close>):
  a depth-first walk over the pruned graph that keeps, per mint, the best few paths.

  The work arrays are state passed through; counters that are only logged are left out.
  The price of an edge is a parameter of the search, as in the source; it may panic.
  \<open>walk\<close> recurses on the remaining path length.

  The theorems: the search returns (no index is out of range and no NaN is unwrapped) when
  the work arrays have the shape the pool gives them, and every path it returns is a path
  of the graph from the input node to the node it is filed under, without revisiting a
  node, within the length and account limits, with the amount the prices along it give.
\<close>

subsection \<open>State and helpers\<close>

record search_state =
  best_paths_by_node :: "path_entry list list"
  best_by_node :: "f64 list list"

text \<open>What stays the same during a search.\<close>

record 'x search_env =
  se_mode :: swap_mode
  se_max_accounts :: nat
  se_out_edges :: "edge_with_nodes list list"
  se_edge_price :: "edge_index \<Rightarrow> u64 \<Rightarrow> (edge_info option, 'x) result"
  se_hot_mints :: "mint_node list"
  se_avoid_cold_mints :: bool

text \<open>\<open>position_min_by_key\<close>: the first index of a minimal key.\<close>

fun position_min_from :: "nat \<Rightarrow> nat \<Rightarrow> u64 \<Rightarrow> u64 list \<Rightarrow> nat" where
  "position_min_from best i key [] = best"
| "position_min_from best i key (k # ks) =
     (if k < key then position_min_from i (Suc i) k ks else position_min_from best (Suc i) key ks)"

definition get_already_seen_worst_kept_output :: "f64 list \<Rightarrow> (nat, 'x) result" where
  "get_already_seen_worst_kept_output values =
     (case map (\<lambda>v. f64_as_u64 (f64_floor v)) values of
        [] \<Rightarrow> Panic | k # ks \<Rightarrow> Ok (position_min_from 0 1 k ks))"

text \<open>\<open>path_already_in\<close>: same amount, same length, same edges.\<close>

definition path_already_in ::
    "edge_with_nodes list \<Rightarrow> edge_with_nodes \<Rightarrow> f64 \<Rightarrow> path_entry list \<Rightarrow> bool" where
  "path_already_in current_path added_hop out_amount best_paths =
     list_ex (\<lambda>(p, existing).
       f64_eq p out_amount \<and> length existing = length current_path + 1 \<and>
       map ewn_edge (take (length current_path) existing) = map ewn_edge current_path \<and>
       ewn_edge (existing ! (length existing - 1)) = ewn_edge added_hop) best_paths"

text \<open>\<open>NotNan::new(out_amount).unwrap()\<close> panics on NaN; it is evaluated for each kept path
  and for the new one.\<close>

definition replace_worst_path ::
    "edge_with_nodes list \<Rightarrow> edge_with_nodes \<Rightarrow> f64 \<Rightarrow> path_entry list \<Rightarrow> swap_mode \<Rightarrow>
     (path_entry list, 'x) result" where
  "replace_worst_path current_path added_hop out_amount best_paths mode =
     rbind (assert_that (best_paths = [] \<or> \<not> is_nan out_amount)) (\<lambda>_.
     if path_already_in current_path added_hop out_amount best_paths then Ok best_paths
     else
       rbind (assert_that (\<not> is_nan out_amount)) (\<lambda>_.
       Ok (sort_by (entry_le mode)
         (butlast best_paths @ [(out_amount, current_path @ [added_hop])]))))"

text \<open>The slot of a node for a number of accounts, in 32-bit arithmetic.\<close>

definition node_bucket :: "mint_node \<Rightarrow> nat \<Rightarrow> (nat, 'x) result" where
  "node_bucket node accounts =
     rbind (pmul node 8) (\<lambda>base.
     rbind (padd base (of_nat (accounts div 8))) (\<lambda>b. Ok (unat b)))"

text \<open>The two halves of \<open>try_append_to_best_results\<close>: keeping the path if it beats the
  worst kept one of its target, and remembering the amount in the target's slot, which
  tells whether the search goes on from there.\<close>

definition keep_if_better ::
    "'x search_env \<Rightarrow> edge_with_nodes list \<Rightarrow> edge_with_nodes \<Rightarrow> f64 \<Rightarrow> search_state \<Rightarrow>
     (search_state, 'x) result" where
  "keep_if_better env path out_edge out_amount st =
     rbind (mint_index (best_paths_by_node st) (target_node out_edge)) (\<lambda>best_paths.
     let worst = (if best_paths = [] then worst_value (se_mode env) else fst (last best_paths)) in
     if (se_mode env = ExactOut \<and> f64_less out_amount worst) \<or>
        (se_mode env = ExactIn \<and> f64_less worst out_amount)
     then rbind (replace_worst_path path out_edge out_amount best_paths (se_mode env))
            (\<lambda>best_paths. Ok (st\<lparr>best_paths_by_node :=
               (best_paths_by_node st)[unat (target_node out_edge) := best_paths]\<rparr>))
     else Ok st)"

definition remember_amount ::
    "edge_with_nodes \<Rightarrow> nat \<Rightarrow> f64 \<Rightarrow> search_state \<Rightarrow> (bool \<times> search_state, 'x) result" where
  "remember_amount out_edge accounts out_amount st =
     rbind (node_bucket (target_node out_edge) accounts) (\<lambda>bucket.
     rbind (at_index (best_by_node st) bucket) (\<lambda>vals.
     rbind (get_already_seen_worst_kept_output vals) (\<lambda>smaller.
     rbind (at_index vals smaller) (\<lambda>seen.
     if f64_less out_amount seen then Ok (False, st)
     else Ok (True,
       st\<lparr>best_by_node := (best_by_node st)[bucket := vals[smaller := out_amount]]\<rparr>)))))"

definition try_append_to_best_results ::
    "'x search_env \<Rightarrow> edge_with_nodes list \<Rightarrow> f64 \<Rightarrow> nat \<Rightarrow> edge_with_nodes \<Rightarrow> search_state \<Rightarrow>
     ((edge_info \<times> f64) option \<times> search_state, 'x) result" where
  "try_append_to_best_results env path in_amount current_account_count out_edge st =
     rbind (se_edge_price env (ewn_edge out_edge) (f64_as_u64 in_amount)) (\<lambda>info.
     case info of
       None \<Rightarrow> Ok (None, st)
     | Some edge_info \<Rightarrow>
         if current_account_count + ei_accounts edge_info > se_max_accounts env then Ok (None, st)
         else
           let out_amount = f64_mul in_amount (ei_price edge_info) in
           rbind (keep_if_better env path out_edge out_amount st) (\<lambda>st.
           rbind (remember_amount out_edge (current_account_count + ei_accounts edge_info)
                    out_amount st) (\<lambda>(kept, st).
           Ok (if kept then Some (edge_info, out_amount) else None, st))))"

subsection \<open>The walk\<close>

function walk ::
    "'x search_env \<Rightarrow> nat \<Rightarrow> f64 \<Rightarrow> mint_node \<Rightarrow> nat \<Rightarrow> edge_with_nodes list \<Rightarrow> search_state \<Rightarrow>
     (search_state, 'x) result"
  and walk_edges ::
    "'x search_env \<Rightarrow> nat \<Rightarrow> f64 \<Rightarrow> nat \<Rightarrow> edge_with_nodes list \<Rightarrow> edge_with_nodes list \<Rightarrow>
     search_state \<Rightarrow> (search_state, 'x) result" where
  "walk env max_path_length in_amount input_node count path st =
     (if max_path_length = 0 \<or> se_max_accounts env < count + 4 \<or> is_nan in_amount \<or>
         is_sign_negative in_amount
      then Ok st
      else rbind (mint_index (se_out_edges env) input_node) (\<lambda>edges.
        walk_edges env (max_path_length - 1) in_amount count path edges st))"
| "walk_edges env n in_amount count path [] st = Ok st"
| "walk_edges env n in_amount count path (out_edge # edges) st =
     (if list_ex (\<lambda>step. source_node step = target_node out_edge) path
      then walk_edges env n in_amount count path edges st
      else
        rbind (try_append_to_best_results env path in_amount count out_edge st) (\<lambda>(r, st).
        case r of
          None \<Rightarrow> walk_edges env n in_amount count path edges st
        | Some (edge_info, out_amount) \<Rightarrow>
            if se_avoid_cold_mints env \<and> se_hot_mints env \<noteq> [] \<and>
               source_node out_edge \<notin> set (se_hot_mints env)
            then walk_edges env n in_amount count path edges st
            else
              rbind (walk env n out_amount (target_node out_edge)
                       (count + ei_accounts edge_info) (path @ [out_edge]) st)
                (\<lambda>st. walk_edges env n in_amount count path edges st)))"
  by pat_completeness auto
termination
  by (relation "measures [\<lambda>x. case x of Inl (env, m, r) \<Rightarrow> 2 * m | Inr (env, n, r) \<Rightarrow> 2 * n + 1,
      \<lambda>x. case x of Inl _ \<Rightarrow> 0 | Inr (env, n, a, c, p, es, st) \<Rightarrow> length es]") auto

declare walk.simps [simp del]

text \<open>The direct paths first, then the walk, then the placeholders are dropped.\<close>

fun append_direct ::
    "'x search_env \<Rightarrow> f64 \<Rightarrow> edge_with_nodes list \<Rightarrow> search_state \<Rightarrow> (search_state, 'x) result" where
  "append_direct env in_amount [] st = Ok st"
| "append_direct env in_amount (out_edge # edges) st =
     rbind (try_append_to_best_results env [] in_amount 0 out_edge st) (\<lambda>(_, st).
     append_direct env in_amount edges st)"

definition good_path :: "swap_mode \<Rightarrow> path_entry \<Rightarrow> bool" where
  "good_path mode entry =
     (case mode of ExactIn \<Rightarrow> is_sign_positive (fst entry) | ExactOut \<Rightarrow> is_finite (fst entry))"

definition best_price_paths_depth_search ::
    "mint_node \<Rightarrow> u64 \<Rightarrow> nat \<Rightarrow> 'x search_env \<Rightarrow> path_entry list list \<Rightarrow> f64 list list \<Rightarrow>
     (path_entry list list \<times> search_state, 'x) result" where
  "best_price_paths_depth_search input_node amount max_path_length env
       best_paths_by_node_prealloc best_by_node_prealloc =
     (let env = env\<lparr>se_max_accounts := min (se_max_accounts env) 40\<rparr> in
      rbind (assert_that (length best_by_node_prealloc = 8 * length (se_out_edges env))) (\<lambda>_.
      rbind (assert_that (\<forall>v \<in> set best_by_node_prealloc. length v = 3)) (\<lambda>_.
      let st = \<lparr>best_paths_by_node = best_paths_by_node_prealloc,
                best_by_node = best_by_node_prealloc\<rparr>;
          in_amount = f64_of_u64 amount in
      rbind (mint_index (se_out_edges env) input_node) (\<lambda>direct.
      rbind (append_direct env in_amount direct st) (\<lambda>st.
      rbind (walk env max_path_length in_amount input_node 0 [] st) (\<lambda>st.
      Ok (map (filter (good_path (se_mode env))) (best_paths_by_node st), st)))))))"

definition count_edges :: "edge_with_nodes list list \<Rightarrow> nat" where
  "count_edges edges = card (ewn_edge ` set (concat edges))"

subsection \<open>What a stored path means\<close>

primrec is_path :: "'x search_env \<Rightarrow> mint_node \<Rightarrow> edge_with_nodes list \<Rightarrow> mint_node \<Rightarrow> bool" where
  "is_path env a [] b \<longleftrightarrow> a = b"
| "is_path env a (e # es) b \<longleftrightarrow> unat a < length (se_out_edges env) \<and>
     e \<in> set (se_out_edges env ! unat a) \<and> is_path env (target_node e) es b"

text \<open>The amount after a path, and the accounts it needs.\<close>

primrec path_run ::
    "'x search_env \<Rightarrow> f64 \<times> nat \<Rightarrow> edge_with_nodes list \<Rightarrow> (f64 \<times> nat) option" where
  "path_run env s [] = Some s"
| "path_run env s (e # es) =
     (case se_edge_price env (ewn_edge e) (f64_as_u64 (fst s)) of
        Ok (Some info) \<Rightarrow> path_run env (f64_mul (fst s) (ei_price info), snd s + ei_accounts info) es
      | _ \<Rightarrow> None)"

text \<open>No step leads back to a node the path has left.\<close>

definition no_return :: "edge_with_nodes list \<Rightarrow> bool" where
  "no_return path = sorted_wrt (\<lambda>a b. source_node a \<noteq> target_node b) path"

definition path_entry_ok ::
    "'x search_env \<Rightarrow> mint_node \<Rightarrow> f64 \<Rightarrow> nat \<Rightarrow> mint_node \<Rightarrow> path_entry \<Rightarrow> bool" where
  "path_entry_ok env start amount limit node entry \<longleftrightarrow>
     \<not> is_nan (fst entry) \<and> snd entry \<noteq> [] \<and> length (snd entry) \<le> limit \<and>
     is_path env start (snd entry) node \<and> no_return (snd entry) \<and>
     (\<exists>accounts \<le> se_max_accounts env.
        path_run env (amount, 0) (snd entry) = Some (fst entry, accounts))"

lemma is_path_snoc:
  "is_path env a p b \<Longrightarrow> unat b < length (se_out_edges env) \<Longrightarrow> e \<in> set (se_out_edges env ! unat b) \<Longrightarrow>
     is_path env a (p @ [e]) (target_node e)"
  by (induction p arbitrary: a) auto

lemma path_run_append:
  "path_run env s (p @ q) = Option.bind (path_run env s p) (\<lambda>s'. path_run env s' q)"
  by (induction p arbitrary: s) (auto split: result.splits option.splits)

lemma no_return_snoc:
  "no_return p \<Longrightarrow> \<not> list_ex (\<lambda>step. source_node step = target_node e) p \<Longrightarrow> no_return (p @ [e])"
  by (auto simp: no_return_def sorted_wrt_append list_ex_iff)

subsection \<open>The invariant of the search\<close>

text \<open>The environment: every edge leads to a node of the graph, slots fit in 32 bits,
  prices do not panic.\<close>

definition search_env_ok :: "'x search_env \<Rightarrow> bool" where
  "search_env_ok env \<longleftrightarrow>
     (\<forall>edges \<in> set (se_out_edges env). \<forall>e \<in> set edges. unat (target_node e) < length (se_out_edges env) \<and>
        (\<forall>a. \<exists>price. se_edge_price env (ewn_edge e) a = Ok price)) \<and>
     8 * length (se_out_edges env) \<le> 2 ^ 32 \<and> se_max_accounts env \<le> 40"

definition search_ok ::
    "'x search_env \<Rightarrow> mint_node \<Rightarrow> f64 \<Rightarrow> nat \<Rightarrow> nat \<Rightarrow> search_state \<Rightarrow> bool" where
  "search_ok env start amount limit n_paths st \<longleftrightarrow>
     best_paths_shape (length (se_out_edges env)) n_paths (best_paths_by_node st) \<and>
     best_by_node_shape (length (se_out_edges env)) (best_by_node st) \<and>
     (\<forall>i < length (se_out_edges env).
        sorted_wrt (entry_le (se_mode env)) (best_paths_by_node st ! i) \<and>
        (\<forall>entry \<in> set (best_paths_by_node st ! i). entry = (worst_value (se_mode env), []) \<or>
           path_entry_ok env start amount limit (of_nat i) entry))"

lemma position_min_from_bound:
  "best < i \<Longrightarrow> position_min_from best i key ks < i + length ks"
  by (induction best i key ks rule: position_min_from.induct) fastforce+

lemma worst_kept_in_range:
  assumes "length vals = 3"
  shows "\<exists>i < 3. get_already_seen_worst_kept_output vals = Ok i"
proof -
  obtain k ks where m: "map (\<lambda>v. f64_as_u64 (f64_floor v)) vals = k # ks"
    using assms by (cases vals) auto
  then have "length (k # ks) = 3" using assms by (metis length_map)
  then have "position_min_from 0 1 k ks < 3" using position_min_from_bound [of 0 1 k ks] by simp
  with m show ?thesis by (simp add: get_already_seen_worst_kept_output_def)
qed

lemma node_bucket_Ok:
  assumes "unat node < n" and "8 * n \<le> 2 ^ 32" and "accounts \<le> 40"
  shows "\<exists>b < 8 * n. node_bucket node accounts = (Ok b :: (nat, 'x) result)"
proof -
  have s: "8 * unat node + accounts div 8 < 8 * n"
  proof -
    have "accounts div 8 < 8" using assms(3) by linarith
    then show ?thesis using assms(1) by linarith
  qed
  have small: "unat (of_nat (accounts div 8) :: u32) = accounts div 8"
  proof -
    have "accounts div 8 < 8" using assms(3) by linarith
    then show ?thesis by (simp add: unat_of_nat)
  qed
  have m: "pmul node 8 = (Ok (node * 8) :: (u32, 'x) result)" "unat (node * 8) = 8 * unat node"
    using s assms(2) by (simp_all add: pmul_def checked_mul_def unat_mult_lt)
  have "padd (node * 8) (of_nat (accounts div 8)) =
      (Ok (node * 8 + of_nat (accounts div 8)) :: (u32, 'x) result)"
    "unat (node * 8 + of_nat (accounts div 8)) = 8 * unat node + accounts div 8"
    using s assms(2) m(2) small by (simp_all add: padd_def checked_add_def unat_add_lt)
  with s m(1) show ?thesis by (simp add: node_bucket_def)
qed

lemma replace_worst_path_ok:
  assumes "\<not> is_nan out" and "best \<noteq> []" and "sorted_wrt (entry_le mode) best"
    and "\<forall>x \<in> set best. \<not> is_nan (fst x)"
  shows "\<exists>best'. replace_worst_path path e out best mode = (Ok best' :: (_, 'x) result) \<and>
    length best' = length best \<and> sorted_wrt (entry_le mode) best' \<and>
    set best' \<subseteq> insert (out, path @ [e]) (set best)"
proof (cases "path_already_in path e out best")
  case True
  with assms show ?thesis by (auto simp: replace_worst_path_def)
next
  case False
  let ?new = "butlast best @ [(out, path @ [e])]"
  have "\<forall>x \<in> set ?new. \<not> is_nan (fst x)" using assms(1,4) by (auto dest: in_set_butlastD)
  then have "sorted_wrt (entry_le mode) (sort_by (entry_le mode) ?new)" by (rule entries.sorted_sort_by)
  moreover have "length ?new = length best" using assms(2) by (cases best) auto
  moreover have "set ?new \<subseteq> insert (out, path @ [e]) (set best)" by (auto dest: in_set_butlastD)
  ultimately show ?thesis using False assms(1) by (simp add: replace_worst_path_def)
qed

text \<open>The context of a call: the path so far, the amount and accounts it gives.\<close>

definition at_path ::
    "'x search_env \<Rightarrow> mint_node \<Rightarrow> f64 \<Rightarrow> edge_with_nodes list \<Rightarrow> mint_node \<Rightarrow> f64 \<Rightarrow> nat \<Rightarrow> bool" where
  "at_path env start amount path node in_amount count \<longleftrightarrow>
     is_path env start path node \<and> path_run env (amount, 0) path = Some (in_amount, count) \<and>
     no_return path"

lemma at_path_snoc:
  assumes "at_path env start amount path node in_amount count"
    and "unat node < length (se_out_edges env)" and "e \<in> set (se_out_edges env ! unat node)"
    and "\<not> list_ex (\<lambda>step. source_node step = target_node e) path"
    and "se_edge_price env (ewn_edge e) (f64_as_u64 in_amount) = Ok (Some info)"
  shows "at_path env start amount (path @ [e]) (target_node e) (f64_mul in_amount (ei_price info))
    (count + ei_accounts info)"
  using assms by (auto simp: at_path_def is_path_snoc no_return_snoc path_run_append)

lemma search_ok_update_best:
  assumes "search_ok env start amount limit n_paths st"
    and "i < length (se_out_edges env)" and "length best = n_paths"
    and "sorted_wrt (entry_le (se_mode env)) best"
    and "\<forall>entry \<in> set best. entry = (worst_value (se_mode env), []) \<or>
      path_entry_ok env start amount limit (of_nat i) entry"
  shows "search_ok env start amount limit n_paths
    (st\<lparr>best_paths_by_node := (best_paths_by_node st)[i := best]\<rparr>)"
  using assms
  by (auto simp: search_ok_def best_paths_shape_def nth_list_update dest!: set_update_subset_insert [THEN subsetD])

lemma search_ok_update_seen:
  assumes "search_ok env start amount limit n_paths st" and "length vals = 3"
  shows "search_ok env start amount limit n_paths (st\<lparr>best_by_node := (best_by_node st)[b := vals]\<rparr>)"
  using assms
  by (auto simp: search_ok_def best_by_node_shape_def dest!: set_update_subset_insert [THEN subsetD])

lemma keep_if_better_ok:
  assumes st: "search_ok env start amount limit n_paths st" and n: "0 < n_paths"
    and ctx: "at_path env start amount (path @ [e]) (target_node e) out acc"
    and acc: "acc \<le> se_max_accounts env" and lim: "length path < limit"
    and tgt: "unat (target_node e) < length (se_out_edges env)"
  shows "\<exists>st'. keep_if_better env path e out st = Ok st' \<and> search_ok env start amount limit n_paths st'"
proof -
  let ?i = "unat (target_node e)"
  let ?best = "best_paths_by_node st ! ?i"
  have len: "length (best_paths_by_node st) = length (se_out_edges env)" "length ?best = n_paths"
    using st tgt by (auto simp: search_ok_def best_paths_shape_def)
  have ne: "?best \<noteq> []" using len(2) n by auto
  have sorted: "sorted_wrt (entry_le (se_mode env)) ?best" using st tgt by (simp add: search_ok_def)
  have ok: "\<forall>x \<in> set ?best. x = (worst_value (se_mode env), []) \<or>
      path_entry_ok env start amount limit (of_nat ?i) x"
    using st tgt unfolding search_ok_def by blast
  then have nn: "\<forall>x \<in> set ?best. \<not> is_nan (fst x)"
    by (cases "se_mode env") (auto simp: path_entry_ok_def worst_value_def)
  show ?thesis
  proof (cases "(se_mode env = ExactOut \<and> f64_less out (fst (last ?best))) \<or>
      (se_mode env = ExactIn \<and> f64_less (fst (last ?best)) out)")
    case True
    then have "\<not> is_nan out" using f64_less_not_nan by blast
    from replace_worst_path_ok [OF this ne sorted nn, of path e]
    obtain best' where b: "replace_worst_path path e out ?best (se_mode env) = (Ok best' :: (_, 'a) result)"
      "length best' = n_paths" "sorted_wrt (entry_le (se_mode env)) best'"
      "set best' \<subseteq> insert (out, path @ [e]) (set ?best)" using len(2) by auto
    have new: "path_entry_ok env start amount limit (of_nat ?i) (out, path @ [e])"
      using ctx acc lim \<open>\<not> is_nan out\<close> by (auto simp: path_entry_ok_def at_path_def of_nat_unat_word)
    have "search_ok env start amount limit n_paths
        (st\<lparr>best_paths_by_node := (best_paths_by_node st)[?i := best']\<rparr>)"
      using b(4) ok new by (intro search_ok_update_best [OF st tgt b(2,3)]) blast
    then show ?thesis using True ne len tgt b(1)
      by (simp add: keep_if_better_def mint_index_def at_index_def Let_def)
  next
    case False
    then show ?thesis using ne len tgt st
      by (auto simp add: keep_if_better_def mint_index_def at_index_def Let_def)
  qed
qed

lemma remember_amount_ok:
  assumes env: "search_env_ok env" and st: "search_ok env start amount limit n_paths st"
    and acc: "acc \<le> se_max_accounts env" and tgt: "unat (target_node e) < length (se_out_edges env)"
  shows "\<exists>kept st'. remember_amount e acc out st = (Ok (kept, st') :: (_, 'x) result) \<and>
    search_ok env start amount limit n_paths st'"
proof -
  let ?n = "length (se_out_edges env)"
  from env acc have "8 * ?n \<le> 2 ^ 32" "acc \<le> 40" by (auto simp: search_env_ok_def)
  from node_bucket_Ok [OF tgt this] obtain b where b: "b < 8 * ?n"
    "node_bucket (target_node e) acc = (Ok b :: (nat, 'x) result)" by blast
  have len: "length (best_by_node st) = 8 * ?n" "length (best_by_node st ! b) = 3"
    using st b(1) by (auto simp: search_ok_def best_by_node_shape_def)
  from worst_kept_in_range [OF len(2)] obtain i where
    i: "i < 3" "get_already_seen_worst_kept_output (best_by_node st ! b) = (Ok i :: (nat, 'x) result)" by blast
  have "search_ok env start amount limit n_paths
      (st\<lparr>best_by_node := (best_by_node st)[b := (best_by_node st ! b)[i := out]]\<rparr>)"
    using len(2) by (intro search_ok_update_seen [OF st]) simp
  then show ?thesis using b i len st
    by (auto simp add: remember_amount_def at_index_def)
qed

lemma try_append_ok:
  assumes env: "search_env_ok env" and st: "search_ok env start amount limit n_paths st"
    and n: "0 < n_paths" and ctx: "at_path env start amount path node in_amount count"
    and node: "unat node < length (se_out_edges env)" and e: "e \<in> set (se_out_edges env ! unat node)"
    and nc: "\<not> list_ex (\<lambda>step. source_node step = target_node e) path"
    and lim: "length path < limit"
  shows "\<exists>r st'. try_append_to_best_results env path in_amount count e st = Ok (r, st') \<and>
    search_ok env start amount limit n_paths st' \<and>
    (\<forall>info out. r = Some (info, out) \<longrightarrow>
       at_path env start amount (path @ [e]) (target_node e) out (count + ei_accounts info))"
proof -
  have tgt: "unat (target_node e) < length (se_out_edges env)"
    using env e node unfolding search_env_ok_def by (meson nth_mem)
  obtain price where price: "se_edge_price env (ewn_edge e) (f64_as_u64 in_amount) = Ok price"
    using env e node unfolding search_env_ok_def by (meson nth_mem)
  show ?thesis
  proof (cases "price = None \<or> (\<exists>info. price = Some info \<and> count + ei_accounts info > se_max_accounts env)")
    case True
    then show ?thesis using price st by (auto simp: try_append_to_best_results_def)
  next
    case False
    then obtain info where info: "price = Some info" and acc: "count + ei_accounts info \<le> se_max_accounts env"
      by (cases price) auto
    let ?out = "f64_mul in_amount (ei_price info)" and ?acc = "count + ei_accounts info"
    have nx: "at_path env start amount (path @ [e]) (target_node e) ?out ?acc"
      using at_path_snoc [OF ctx node e nc] price info by simp
    obtain st1 where k: "keep_if_better env path e ?out st = Ok st1"
      and st1: "search_ok env start amount limit n_paths st1"
      using keep_if_better_ok [OF st n nx acc lim tgt] by blast
    obtain kept st2 where m: "remember_amount e ?acc ?out st1 = (Ok (kept, st2) :: (_, 'a) result)"
      and st2: "search_ok env start amount limit n_paths st2"
      using remember_amount_ok [OF env st1 acc tgt] by blast
    show ?thesis using price info acc k m st2 nx
      by (simp add: try_append_to_best_results_def Let_def)
  qed
qed

lemma walk_ok:
  assumes n: "0 < n_paths"
  shows "search_env_ok env \<Longrightarrow> search_ok env start amount limit n_paths st \<Longrightarrow>
      at_path env start amount path node in_amount count \<Longrightarrow> unat node < length (se_out_edges env) \<Longrightarrow>
      length path + m \<le> limit \<Longrightarrow>
      \<exists>st'. walk env m in_amount node count path st = Ok st' \<and> search_ok env start amount limit n_paths st'"
    and "search_env_ok env \<Longrightarrow> search_ok env start amount limit n_paths st \<Longrightarrow>
      at_path env start amount path node in_amount count \<Longrightarrow> unat node < length (se_out_edges env) \<Longrightarrow>
      set es \<subseteq> set (se_out_edges env ! unat node) \<Longrightarrow> length path + Suc k \<le> limit \<Longrightarrow>
      \<exists>st'. walk_edges env k in_amount count path es st = Ok st' \<and>
        search_ok env start amount limit n_paths st'"
proof (induction env m in_amount node count path st and env k in_amount count path es st
    arbitrary: and node rule: walk_walk_edges.induct)
  case (1 env m in_amount node count path st)
  show ?case
  proof (cases "m = 0 \<or> se_max_accounts env < count + 4 \<or> is_nan in_amount \<or> is_sign_negative in_amount")
    case True
    then show ?thesis using "1.prems" by (simp add: walk.simps)
  next
    case False
    have "mint_index (se_out_edges env) node = (Ok (se_out_edges env ! unat node) :: (_, 'a) result)"
      using "1.prems"(4) by (simp add: mint_index_def at_index_def)
    then show ?thesis using "1.IH" [OF False, of _ node] "1.prems" False by (simp add: walk.simps)
  qed
next
  case (2 env n in_amount count path st)
  then show ?case by simp
next
  case (3 env k in_amount count path e es st)
  note prems = "3.prems"
  have e: "e \<in> set (se_out_edges env ! unat node)" "set es \<subseteq> set (se_out_edges env ! unat node)"
    using prems(5) by simp_all
  show ?case
  proof (cases "list_ex (\<lambda>step. source_node step = target_node e) path")
    case True
    then show ?thesis using "3.IH"(1) [OF True prems(1,2,3,4) e(2) prems(6)] by simp
  next
    case nc: False
    obtain r st1 where t: "try_append_to_best_results env path in_amount count e st = Ok (r, st1)"
      and st1: "search_ok env start amount limit n_paths st1"
      and ctx: "\<And>info out. r = Some (info, out) \<Longrightarrow>
        at_path env start amount (path @ [e]) (target_node e) out (count + ei_accounts info)"
      using try_append_ok [OF prems(1,2) n prems(3,4) e(1) nc] prems(6) by auto
    have tgt: "unat (target_node e) < length (se_out_edges env)"
      using prems(1,4) e(1) unfolding search_env_ok_def by (meson nth_mem)
    show ?thesis
    proof (cases r)
      case None
      then show ?thesis
        using "3.IH"(2) [OF nc t refl None prems(1) st1 prems(3,4) e(2) prems(6)] nc t by simp
    next
      case (Some y)
      obtain info out where y: "y = (info, out)" by fastforce
      let ?cold = "se_avoid_cold_mints env \<and> se_hot_mints env \<noteq> [] \<and> source_node e \<notin> set (se_hot_mints env)"
      show ?thesis
      proof (cases ?cold)
        case True
        then show ?thesis
          using "3.IH"(3) [OF nc t refl Some y [symmetric] True prems(1) st1 prems(3,4) e(2) prems(6)] nc t Some y
          by simp
      next
        case False
        obtain st2 where w: "walk env k out (target_node e) (count + ei_accounts info) (path @ [e]) st1 = Ok st2"
          and st2: "search_ok env start amount limit n_paths st2"
          using "3.IH"(4) [OF nc t refl Some y [symmetric] False prems(1) st1 ctx tgt] Some y prems(6) by auto
        show ?thesis
          using "3.IH"(5) [OF nc t refl Some y [symmetric] False w prems(1) st2 prems(3,4) e(2) prems(6)] nc t Some y False w
          by (simp only: walk_edges.simps if_False rbind.simps prod.case option.case)
      qed
    qed
  qed
qed

lemma append_direct_ok:
  assumes "search_env_ok env" and "0 < n_paths" and "unat start < length (se_out_edges env)" and "0 < limit"
  shows "search_ok env start amount limit n_paths st \<Longrightarrow> set es \<subseteq> set (se_out_edges env ! unat start) \<Longrightarrow>
    \<exists>st'. append_direct env amount es st = Ok st' \<and> search_ok env start amount limit n_paths st'"
proof (induction es arbitrary: st)
  case (Cons e es)
  have ctx: "at_path env start amount [] start amount 0" by (simp add: at_path_def no_return_def)
  obtain r st1 where t: "try_append_to_best_results env [] amount 0 e st = Ok (r, st1)"
    and st1: "search_ok env start amount limit n_paths st1"
    using try_append_ok [OF assms(1) Cons.prems(1) assms(2) ctx assms(3), of e] Cons.prems(2) assms(4)
    by auto
  have "set es \<subseteq> set (se_out_edges env ! unat start)" using Cons.prems(2) by simp
  from Cons.IH [OF st1 this] t show ?case by simp
qed simp

lemma search_ok_fresh:
  "search_ok env start amount limit n_paths
     \<lparr>best_paths_by_node = best_paths_allocate (length (se_out_edges env)) n_paths (se_mode env),
      best_by_node = best_by_node_allocate (length (se_out_edges env))\<rparr>"
proof -
  have "entry_le mode (worst_value mode, [] :: edge_with_nodes list) (worst_value mode, [])" for mode
    by (cases mode) (simp_all add: entry_le_def worst_value_def)
  then have "sorted_wrt (entry_le mode) (replicate n (worst_value mode, [] :: edge_with_nodes list))" for n mode
    by (induction n) auto
  then show ?thesis
    using best_paths_pool.shape_allocate best_by_node_pool.shape_allocate
    by (simp add: search_ok_def) (simp add: best_paths_allocate_def new_from_prototype_def)
qed

lemma good_path_not_placeholder: "\<not> good_path mode (worst_value mode, [])"
  by (cases mode) (simp_all add: good_path_def worst_value_def is_sign_positive_def)

lemma search_returns:
  assumes "search_env_ok (env\<lparr>se_max_accounts := min (se_max_accounts env) 40\<rparr>)"
    and "unat input < length (se_out_edges env)" and "0 < n_paths"
  shows "\<exists>paths st. best_price_paths_depth_search input amount max_path_length env
      (best_paths_allocate (length (se_out_edges env)) n_paths (se_mode env))
      (best_by_node_allocate (length (se_out_edges env))) = Ok (paths, st) \<and>
    length paths = length (se_out_edges env) \<and>
    (\<forall>i < length paths. length (paths ! i) \<le> n_paths \<and>
       sorted_wrt (entry_le (se_mode env)) (paths ! i) \<and>
       (\<forall>entry \<in> set (paths ! i).
          path_entry_ok (env\<lparr>se_max_accounts := min (se_max_accounts env) 40\<rparr>) input
            (f64_of_u64 amount) (max 1 max_path_length) (of_nat i) entry)) \<and>
    best_paths_reset n_paths (se_mode env) (best_paths_by_node st) =
      (Ok (best_paths_allocate (length (se_out_edges env)) n_paths (se_mode env)) :: (_, unit) result) \<and>
    best_by_node_reset (best_by_node st) =
      (Ok (best_by_node_allocate (length (se_out_edges env))) :: (_, unit) result)"
proof -
  let ?env = "env\<lparr>se_max_accounts := min (se_max_accounts env) 40\<rparr>"
  let ?n = "length (se_out_edges env)" and ?amount = "f64_of_u64 amount"
  let ?ok = "search_ok ?env input ?amount (max 1 max_path_length) n_paths"
  let ?st0 = "\<lparr>best_paths_by_node = best_paths_allocate ?n n_paths (se_mode env),
    best_by_node = best_by_node_allocate ?n\<rparr>"
  have st0: "?ok ?st0" using search_ok_fresh [of ?env input ?amount "max 1 max_path_length" n_paths] by simp
  have lim: "0 < max 1 max_path_length" by (simp add: less_max_iff_disj)
  obtain st1 where a: "append_direct ?env ?amount (se_out_edges env ! unat input) ?st0 = Ok st1"
    and st1: "?ok st1"
    using append_direct_ok [OF assms(1,3) _ lim st0, of "se_out_edges env ! unat input"] assms(2) by auto
  have ctx: "at_path ?env input ?amount [] input ?amount 0" by (simp add: at_path_def no_return_def)
  obtain st2 where w: "walk ?env max_path_length ?amount input 0 [] st1 = Ok st2" and st2: "?ok st2"
    using walk_ok(1) [OF assms(3,1) st1 ctx, of max_path_length] assms(2) by auto
  have shapes: "best_paths_shape ?n n_paths (best_paths_by_node st2)" "best_by_node_shape ?n (best_by_node st2)"
    using st2 by (simp_all add: search_ok_def)
  let ?paths = "map (filter (good_path (se_mode env))) (best_paths_by_node st2)"
  have run: "best_price_paths_depth_search input amount max_path_length env
      (best_paths_allocate ?n n_paths (se_mode env)) (best_by_node_allocate ?n) = Ok (?paths, st2)"
    using a w assms(2) best_by_node_pool.shape_allocate [of ?n]
    by (simp add: best_price_paths_depth_search_def Let_def best_by_node_shape_def mint_index_def at_index_def)
  have len: "length ?paths = ?n" using shapes(1) by (simp add: best_paths_shape_def)
  have each: "length (?paths ! i) \<le> n_paths \<and> sorted_wrt (entry_le (se_mode env)) (?paths ! i) \<and>
      (\<forall>entry \<in> set (?paths ! i).
         path_entry_ok ?env input ?amount (max 1 max_path_length) (of_nat i) entry)" if "i < length ?paths" for i
  proof -
    have that: "i < ?n" using that len by simp
    let ?best = "best_paths_by_node st2 ! i"
    have i: "?paths ! i = filter (good_path (se_mode env)) ?best" "length ?best = n_paths"
      using shapes(1) that by (auto simp: best_paths_shape_def)
    have "sorted_wrt (entry_le (se_mode env)) ?best" and
      "\<forall>entry \<in> set ?best. entry = (worst_value (se_mode env), []) \<or>
         path_entry_ok ?env input ?amount (max 1 max_path_length) (of_nat i) entry"
      using st2 that by (simp_all add: search_ok_def)
    then show ?thesis using i good_path_not_placeholder length_filter_le [of "good_path (se_mode env)" ?best]
      by (auto simp: sorted_wrt_filter)
  qed
  show ?thesis
    by (intro exI [of _ ?paths] exI [of _ st2] conjI allI impI run len each
        best_paths_pool.reset_fresh [OF shapes(1)] best_by_node_pool.reset_fresh [OF shapes(2)])
qed

text \<open>
  C10 (search_sound). On a well-formed graph, with fresh work arrays, the path search
  always returns. Every path it files under a mint is a path of the graph from the input
  mint to that mint, of at most the allowed length and at most 40 accounts, never leads
  back to a mint it has left, and is filed with the amount that the edge prices along it
  give. At most \<open>n_paths\<close> paths are kept per mint, best first. The used arrays can be
  returned to the pool: resetting them neither panics nor leaves anything behind.
\<close>

theorem search_sound:
  assumes "search_env_ok (env\<lparr>se_max_accounts := min (se_max_accounts env) 40\<rparr>)"
    and "unat input < length (se_out_edges env)" and "0 < n_paths"
  shows "\<exists>paths st. best_price_paths_depth_search input amount max_path_length env
      (best_paths_allocate (length (se_out_edges env)) n_paths (se_mode env))
      (best_by_node_allocate (length (se_out_edges env))) = Ok (paths, st) \<and>
    length paths = length (se_out_edges env) \<and>
    (\<forall>i < length paths. length (paths ! i) \<le> n_paths \<and>
       sorted_wrt (entry_le (se_mode env)) (paths ! i) \<and>
       (\<forall>entry \<in> set (paths ! i).
          path_entry_ok (env\<lparr>se_max_accounts := min (se_max_accounts env) 40\<rparr>) input
            (f64_of_u64 amount) (max 1 max_path_length) (of_nat i) entry)) \<and>
    best_paths_reset n_paths (se_mode env) (best_paths_by_node st) =
      (Ok (best_paths_allocate (length (se_out_edges env)) n_paths (se_mode env)) :: (_, unit) result) \<and>
    best_by_node_reset (best_by_node st) =
      (Ok (best_by_node_allocate (length (se_out_edges env))) :: (_, unit) result)"
  by (rule search_returns [OF assms])

text \<open>Two mints and a pool that doubles the amount, four accounts.\<close>

definition ref_search_env :: "unit search_env" where
  "ref_search_env = \<lparr>se_mode = ExactIn, se_max_accounts = 57,
     se_out_edges = [[\<lparr>source_node = 0, target_node = 1, ewn_edge = 0\<rparr>], []],
     se_edge_price = (\<lambda>i a. Ok (Some \<lparr>ei_price = Finite False 2, ei_accounts = 4\<rparr>)),
     se_hot_mints = [], se_avoid_cold_mints = False\<rparr>"

theorem search_sound_witness:
  "\<exists>paths st. best_price_paths_depth_search 0 100 4 ref_search_env
      (best_paths_allocate 2 3 ExactIn) (best_by_node_allocate 2) = Ok (paths, st) \<and> length paths = 2"
proof -
  have "search_env_ok (ref_search_env\<lparr>se_max_accounts := min (se_max_accounts ref_search_env) 40\<rparr>)"
    by (simp add: search_env_ok_def ref_search_env_def)
  moreover have "length (se_out_edges ref_search_env) = 2" "se_mode ref_search_env = ExactIn"
    by (simp_all add: ref_search_env_def)
  ultimately show ?thesis
    using search_sound [of ref_search_env 0 3 100 4] by (simp only: unsigned_0) fastforce
qed

end
