(* ===== verification/Routing_Select.thy ===== *)
theory Routing_Select
  imports Routing_Search "HOL-Library.AList" "HOL-Library.Multiset"
begin

text \<open>
  Pruning the graph (\<open>select_best_pools\<close> and its helpers in
  \<^verbatim>\<open>bin/autobahn-router/src/routing.rs\<close>): per warming amount and mint pair the best-priced
  edges are kept; of those, edges with a high price impact are left out unless a mint
  would lose its last edge in a direction.

  Hash collections iterate in an unspecified order and \<open>sort_unstable_by\<close> may order equal
  prices either way: both are parameters of the model, a permutation and a sorting
  function (\<open>pool_order\<close>). Shared edges (\<open>Arc<Edge>\<close>) are indices into the edge list.
\<close>

subsection \<open>Price impact\<close>

definition compute_price_impact :: "edge_state \<Rightarrow> f64 option" where
  "compute_price_impact state =
     (if \<not> edge_is_valid state \<or> length (cached_prices state) < 2 then None
      else
        let first = fst (snd (cached_prices state ! 0));
            last = fst (snd (cached_prices state ! (length (cached_prices state) - 1))) in
        if f64_eq first zero_f64 \<or> f64_eq last zero_f64 then None
        else if f64_less first last then Some (f64_sub (f64_div last first) (Finite False 1))
        else Some (f64_sub (f64_div first last) (Finite False 1)))"

type_synonym impact_key = "mint_node \<times> bool"

definition update_lowest_price_impact ::
    "edge_index \<Rightarrow> impact_key \<Rightarrow> f64 \<Rightarrow> (impact_key \<times> f64 \<times> edge_index) list \<Rightarrow>
     (impact_key \<times> f64 \<times> edge_index) list" where
  "update_lowest_price_impact edge_index key price_impact lowest =
     (case map_of lowest key of
        Some (p, i) \<Rightarrow>
          (if f64_less price_impact p then AList.update key (price_impact, edge_index) lowest else lowest)
      | None \<Rightarrow> AList.update key (price_impact, edge_index) lowest)"

subsection \<open>The best pools of each pair\<close>

record pool_order =
  po_edges :: "edge_index list \<Rightarrow> edge_index list"
  po_impacts :: "(impact_key \<times> f64 \<times> edge_index) list \<Rightarrow> (impact_key \<times> f64 \<times> edge_index) list"
  po_sort :: "(edge_index \<times> f64) list \<Rightarrow> (edge_index \<times> f64) list"

definition pool_order_ok :: "pool_order \<Rightarrow> bool" where
  "pool_order_ok po \<longleftrightarrow> (\<forall>xs. mset (po_edges po xs) = mset xs) \<and> (\<forall>xs. mset (po_impacts po xs) = mset xs) \<and>
     (\<forall>xs. mset (po_sort po xs) = mset xs) \<and>
     (\<forall>xs. (\<forall>x \<in> set xs. \<not> is_nan (snd x)) \<longrightarrow>
        sorted_wrt (\<lambda>x y. f64_le (snd y) (snd x)) (po_sort po xs))"

text \<open>\<open>partial_cmp(..).unwrap()\<close> panics when it meets a NaN.\<close>

definition sort_pools :: "pool_order \<Rightarrow> (edge_index \<times> f64) list \<Rightarrow> ((edge_index \<times> f64) list, 'x) result" where
  "sort_pools po pools =
     rbind (assert_that (length pools \<le> 1 \<or> (\<forall>p \<in> set pools. \<not> is_nan (snd p)))) (\<lambda>_.
     Ok (po_sort po pools))"

text \<open>An edge joins the pools kept for its pair.\<close>

definition keep_pool ::
    "pool_order \<Rightarrow> nat \<Rightarrow> edge_index \<Rightarrow> f64 \<Rightarrow> (edge_index \<times> f64) list option \<Rightarrow>
     ((edge_index \<times> f64) list, 'x) result" where
  "keep_pool po max_count edge_index price entry =
     (case entry of
        None \<Rightarrow> Ok [(edge_index, price)]
      | Some pools \<Rightarrow>
          if length pools = max_count then
            if max_count = 0 then Panic
            else if f64_less (snd (pools ! (max_count - 1))) price
              then sort_pools po (pools[max_count - 1 := (edge_index, price)])
              else Ok pools
          else rbind (sort_pools po (pools @ [(edge_index, price)])) (\<lambda>pools. Ok (take max_count pools)))"

type_synonym pair_pools = "((pubkey \<times> pubkey) \<times> (edge_index \<times> f64) list) list"

definition consider_edge ::
    "pool_order \<Rightarrow> pubkey list \<Rightarrow> nat \<Rightarrow> nat \<Rightarrow> swap_mode \<Rightarrow> nat \<Rightarrow> nat \<times> ('i, 'd, 'e) edge \<Rightarrow>
     pair_pools \<Rightarrow> (pair_pools, 'x) result" where
  "consider_edge po hot_mints max_count_for_hot max_edge_per_cold_pair mode i numbered best =
     (case numbered of (index, edge) \<Rightarrow>
     if mode = ExactOut \<and> \<not> edge_supports_exact_out edge then Ok best
     else if \<not> edge_is_valid (e_state edge) \<or> length (cached_prices (e_state edge)) < i then Ok best
     else
       rbind (at_index (cached_prices (e_state edge)) i) (\<lambda>(_, price, _).
       if is_nan price \<or> is_sign_negative price \<or> f64_le price (f64_of_rat (1 / 1000000000)) then Ok best
       else
         let key = (e_input_mint edge, e_output_mint edge);
             is_hot = hot_mints = [] \<or>
               (e_input_mint edge \<in> set hot_mints \<and> e_output_mint edge \<in> set hot_mints);
             max_count = (if is_hot then max_count_for_hot else max_edge_per_cold_pair) in
         rbind (keep_pool po max_count (node_of_usize index) price (map_of best key)) (\<lambda>pools.
         Ok (AList.update key pools best))))"

text \<open>The pools kept for the warming amounts, without duplicates.\<close>

definition best_pools ::
    "pool_order \<Rightarrow> pubkey list \<Rightarrow> nat \<Rightarrow> nat \<Rightarrow> nat \<Rightarrow> ('i, 'd, 'e) edge list \<Rightarrow> swap_mode \<Rightarrow>
     (edge_index list, 'x) result" where
  "best_pools po hot_mints max_hot max_cold n_amounts all_edges mode =
     rfold (\<lambda>i kept.
       rbind (rfold (consider_edge po hot_mints max_hot max_cold mode i) (enumerate 0 all_edges) [])
         (\<lambda>best. Ok (remdups (kept @ concat (map (map fst \<circ> snd) best))))) [0..<n_amounts] []"

subsection \<open>The pruned graph\<close>

record pruned =
  pr_count :: nat
  pr_out_edges :: "edge_with_nodes list list"
  pr_lowest :: "(impact_key \<times> f64 \<times> edge_index) list"
  pr_has_edge :: "impact_key list"

text \<open>Adding an edge to the graph: from its input mint, or for exact out from its output mint.\<close>

definition push_edge ::
    "swap_mode \<Rightarrow> mint_node \<Rightarrow> mint_node \<Rightarrow> edge_index \<Rightarrow> pruned \<Rightarrow> (pruned, 'x) result" where
  "push_edge mode in_index out_index edge_index p =
     (let src = (case mode of ExactIn \<Rightarrow> in_index | ExactOut \<Rightarrow> out_index);
          tgt = (case mode of ExactIn \<Rightarrow> out_index | ExactOut \<Rightarrow> in_index) in
      rbind (mint_index (pr_out_edges p) src) (\<lambda>edges.
      Ok (p\<lparr>pr_out_edges := (pr_out_edges p)[unat src :=
               edges @ [\<lparr>source_node = src, target_node = tgt, ewn_edge = edge_index\<rparr>]],
             pr_has_edge := (out_index, False) # (in_index, True) # pr_has_edge p,
             pr_count := pr_count p + 1\<rparr>)))"

definition prune_step ::
    "('i, 'd, 'e) edge list \<Rightarrow> (pubkey \<rightharpoonup> mint_node) \<Rightarrow> swap_mode \<Rightarrow> edge_index \<Rightarrow> pruned \<Rightarrow>
     (pruned, 'x) result" where
  "prune_step all_edges mint_to_index mode edge_index p =
     rbind (at_index all_edges (unat edge_index)) (\<lambda>edge.
     rbind (unwrap (mint_to_index (e_input_mint edge))) (\<lambda>in_index.
     rbind (unwrap (mint_to_index (e_output_mint edge))) (\<lambda>out_index.
     let price_impact = (case compute_price_impact (e_state edge) of
           Some x \<Rightarrow> x | None \<Rightarrow> f64_of_rat (99999999 / 10000));
         lowest = update_lowest_price_impact edge_index (out_index, False) price_impact
           (update_lowest_price_impact edge_index (in_index, True) price_impact (pr_lowest p));
         p = p\<lparr>pr_lowest := lowest\<rparr> in
     if f64_less (Finite False (1 / 4)) price_impact then Ok p
     else push_edge mode in_index out_index edge_index p)))"

definition restore_step ::
    "('i, 'd, 'e) edge list \<Rightarrow> (pubkey \<rightharpoonup> mint_node) \<Rightarrow> swap_mode \<Rightarrow> impact_key \<times> f64 \<times> edge_index \<Rightarrow>
     pruned \<Rightarrow> (pruned, 'x) result" where
  "restore_step all_edges mint_to_index mode item p =
     (case item of (key, _, edge_index) \<Rightarrow>
     if key \<in> set (pr_has_edge p) then Ok p
     else
       rbind (at_index all_edges (unat edge_index)) (\<lambda>edge.
       rbind (unwrap (mint_to_index (e_input_mint edge))) (\<lambda>in_index.
       rbind (unwrap (mint_to_index (e_output_mint edge))) (\<lambda>out_index.
       push_edge mode in_index out_index edge_index p))))"

definition select_best_pools ::
    "pool_order \<Rightarrow> pubkey list \<Rightarrow> nat \<Rightarrow> nat \<Rightarrow> u64 list \<Rightarrow> ('i, 'd, 'e) edge list \<Rightarrow>
     (pubkey \<rightharpoonup> mint_node) \<Rightarrow> nat \<Rightarrow> swap_mode \<Rightarrow> (nat \<times> edge_with_nodes list list, 'x) result" where
  "select_best_pools po hot_mints max_hot max_cold path_warming_amounts all_edges mint_to_index
       n_mints mode =
     rbind (best_pools po hot_mints max_hot max_cold (length path_warming_amounts) all_edges mode)
       (\<lambda>kept.
     rbind (rfold (prune_step all_edges mint_to_index mode) (po_edges po kept)
              \<lparr>pr_count = 0, pr_out_edges = new_from_prototype n_mints [], pr_lowest = [],
               pr_has_edge = []\<rparr>) (\<lambda>p.
     rbind (rfold (restore_step all_edges mint_to_index mode) (po_impacts po (pr_lowest p)) p) (\<lambda>p.
     Ok (pr_count p, pr_out_edges p))))"

subsection \<open>Which pools are kept\<close>

text \<open>An edge competes for amount \<open>i\<close>, at its cached price for that amount, with the edges of
  the same pair of mints.\<close>

definition price_at :: "nat \<Rightarrow> ('i, 'd, 'e) edge \<Rightarrow> f64" where
  "price_at i edge = fst (snd (cached_prices (e_state edge) ! i))"

definition edge_pair :: "('i, 'd, 'e) edge \<Rightarrow> pubkey \<times> pubkey" where
  "edge_pair edge = (e_input_mint edge, e_output_mint edge)"

definition pool_candidate :: "swap_mode \<Rightarrow> nat \<Rightarrow> ('i, 'd, 'e) edge \<Rightarrow> bool" where
  "pool_candidate mode i edge \<longleftrightarrow> (mode = ExactOut \<longrightarrow> edge_supports_exact_out edge) \<and>
     edge_is_valid (e_state edge) \<and> \<not> is_nan (price_at i edge) \<and> \<not> is_sign_negative (price_at i edge) \<and>
     \<not> f64_le (price_at i edge) (f64_of_rat (1 / 1000000000))"

definition pair_limit :: "pubkey list \<Rightarrow> nat \<Rightarrow> nat \<Rightarrow> pubkey \<times> pubkey \<Rightarrow> nat" where
  "pair_limit hot_mints max_hot max_cold pair =
     (if hot_mints = [] \<or> (fst pair \<in> set hot_mints \<and> snd pair \<in> set hot_mints)
      then max_hot else max_cold)"

text \<open>The pools of a pair are the best of the candidates among the first \<open>m\<close> edges.\<close>

definition pools_top ::
    "swap_mode \<Rightarrow> nat \<Rightarrow> ('i, 'd, 'e) edge list \<Rightarrow> nat \<Rightarrow> nat \<Rightarrow> pubkey \<times> pubkey \<Rightarrow>
     (edge_index \<times> f64) list \<Rightarrow> bool" where
  "pools_top mode i edges m limit pair pools \<longleftrightarrow>
     sorted_wrt (\<lambda>x y. f64_le (snd y) (snd x)) pools \<and> length pools \<le> limit \<and> distinct (map fst pools) \<and>
     (\<forall>x \<in> set pools. unat (fst x) < m \<and> pool_candidate mode i (edges ! unat (fst x)) \<and>
        edge_pair (edges ! unat (fst x)) = pair \<and> snd x = price_at i (edges ! unat (fst x))) \<and>
     (\<forall>k < m. pool_candidate mode i (edges ! k) \<longrightarrow> edge_pair (edges ! k) = pair \<longrightarrow>
        of_nat k \<in> fst ` set pools \<or>
        length pools = limit \<and> (\<forall>x \<in> set pools. f64_le (price_at i (edges ! k)) (snd x)))"

lemma pools_top_not_nan: "pools_top mode i edges m limit pair pools \<Longrightarrow> \<forall>x \<in> set pools. \<not> is_nan (snd x)"
  by (auto simp: pools_top_def pool_candidate_def)

lemma pools_top_skip:
  assumes "pools_top mode i edges m limit pair pools"
    and "\<not> pool_candidate mode i (edges ! m) \<or> edge_pair (edges ! m) \<noteq> pair"
  shows "pools_top mode i edges (Suc m) limit pair pools"
  using assms by (fastforce simp: pools_top_def less_Suc_eq)

text \<open>Sorting keeps the elements, so the sorted list has the required properties when the
  unsorted one has all but the order.\<close>

lemma sort_pools_Ok:
  assumes "pool_order_ok po" and "\<forall>x \<in> set pools. \<not> is_nan (snd x)"
  obtains pools' where "sort_pools po pools = (Ok pools' :: (_, 'x) result)" "set pools' = set pools"
    "length pools' = length pools" "sorted_wrt (\<lambda>x y. f64_le (snd y) (snd x)) pools'"
    "distinct (map fst pools') = distinct (map fst pools)"
proof -
  have "mset (po_sort po pools) = mset pools" using assms(1) by (simp add: pool_order_ok_def)
  then have "set (po_sort po pools) = set pools" "length (po_sort po pools) = length pools"
    "distinct (map fst (po_sort po pools)) = distinct (map fst pools)"
    by (rule mset_eq_setD, rule mset_eq_length) (metis \<open>mset (po_sort po pools) = mset pools\<close> mset_map mset_eq_imp_distinct_iff)
  moreover have "sorted_wrt (\<lambda>x y. f64_le (snd y) (snd x)) (po_sort po pools)"
    using assms by (simp add: pool_order_ok_def)
  ultimately show ?thesis using that [of "po_sort po pools"] assms(2) by (simp add: sort_pools_def)
qed

lemma pools_top_add:
  assumes old: "pools_top mode i edges m limit pair pools"
    and cand: "pool_candidate mode i (edges ! m)" "edge_pair (edges ! m) = pair" and m: "m < 2 ^ 32"
    and new: "sorted_wrt (\<lambda>x y. f64_le (snd y) (snd x)) pools'" "length pools' \<le> limit \<and> distinct (map fst pools')"
      "set pools' = insert (of_nat m, price_at i (edges ! m)) (set kept)" "set kept \<subseteq> set pools"
    and dropped: "set pools \<noteq> set kept \<Longrightarrow> length pools' = limit \<and>
      (\<forall>x \<in> set pools - set kept. \<forall>y \<in> set pools'. f64_le (snd x) (snd y))"
    and full: "length pools = limit \<Longrightarrow> length pools' = limit \<and>
      (\<forall>y \<in> set pools'. \<exists>x \<in> set pools. f64_le (snd x) (snd y))"
  shows "pools_top mode i edges (Suc m) limit pair pools'"
proof -
  have "unat (of_nat m :: edge_index) = m" using m by (simp add: unat_of_nat)
  then have elems: "\<forall>x \<in> set pools'. unat (fst x) < Suc m \<and> pool_candidate mode i (edges ! unat (fst x)) \<and>
      edge_pair (edges ! unat (fst x)) = pair \<and> snd x = price_at i (edges ! unat (fst x))"
    using old cand new(3,4) by (auto simp: pools_top_def less_Suc_eq)
  have "of_nat k \<in> fst ` set pools' \<or>
      length pools' = limit \<and> (\<forall>x \<in> set pools'. f64_le (price_at i (edges ! k)) (snd x))"
    if k: "k < m" "pool_candidate mode i (edges ! k)" "edge_pair (edges ! k) = pair" for k
  proof (cases "of_nat k \<in> fst ` set pools")
    case True
    then obtain p where p: "(of_nat k, p) \<in> set pools" by auto
    have "unat (of_nat k :: edge_index) = k" using k(1) m by (simp add: unat_of_nat)
    then have "p = price_at i (edges ! k)" using old p by (auto simp: pools_top_def)
    show ?thesis
    proof (cases "(of_nat k, p) \<in> set kept")
      case True
      then show ?thesis using new(3) by force
    next
      case False
      with p have "set pools \<noteq> set kept" by blast
      from dropped [OF this] have "length pools' = limit" "\<forall>y \<in> set pools'. f64_le (snd (of_nat k :: edge_index, p)) (snd y)"
        using p False by blast+
      then show ?thesis using \<open>p = price_at i (edges ! k)\<close> by auto
    qed
  next
    case False
    then have "length pools = limit" "\<forall>x \<in> set pools. f64_le (price_at i (edges ! k)) (snd x)"
      using old k unfolding pools_top_def by blast+
    then show ?thesis using full f64_le_trans by fastforce
  qed
  moreover have "of_nat m \<in> fst ` set pools'" using new(3) by force
  ultimately show ?thesis
    unfolding pools_top_def using new(1,2) elems by (auto simp: less_Suc_eq)
qed

lemma keep_pool_top:
  assumes po: "pool_order_ok po" and limit: "0 < limit"
    and cand: "pool_candidate mode i (edges ! m)" "edge_pair (edges ! m) = pair" and m: "m < 2 ^ 32"
    and old: "pools_top mode i edges m limit pair (case entry of None \<Rightarrow> [] | Some pools \<Rightarrow> pools)"
  shows "\<exists>pools'. keep_pool po limit (of_nat m) (price_at i (edges ! m)) entry = (Ok pools' :: (_, 'x) result) \<and>
    pools_top mode i edges (Suc m) limit pair pools'"
proof (cases entry)
  case None
  then show ?thesis
    using old limit by (auto simp: keep_pool_def intro!: pools_top_add [OF _ cand m, of limit "[]" _ "[]"])
next
  case (Some pools)
  let ?new = "(of_nat m :: edge_index, price_at i (edges ! m))"
  have top: "pools_top mode i edges m limit pair pools" using old Some by simp
  have nn: "\<forall>x \<in> insert ?new (set pools). \<not> is_nan (snd x)"
    using pools_top_not_nan [OF top] cand(1) by (simp add: pool_candidate_def)
  have len: "length pools \<le> limit" and sorted: "sorted_wrt (\<lambda>x y. f64_le (snd y) (snd x)) pools"
    and dist: "distinct (map fst pools)" using top by (auto simp: pools_top_def)
  have "unat (of_nat m :: edge_index) = m" using m by (simp add: unat_of_nat)
  then have fresh: "of_nat m \<notin> fst ` set pools" using top unfolding pools_top_def by fastforce
  show ?thesis
  proof (cases "length pools = limit")
    case False
    obtain pools' where p: "sort_pools po (pools @ [?new]) = (Ok pools' :: (_, 'x) result)"
      "set pools' = insert ?new (set pools)" "length pools' = Suc (length pools)"
      "sorted_wrt (\<lambda>x y. f64_le (snd y) (snd x)) pools'" "distinct (map fst pools')"
      using sort_pools_Ok [OF po, of "pools @ [?new]"] nn dist fresh by auto
    have "pools_top mode i edges (Suc m) limit pair pools'"
      by (rule pools_top_add [OF top cand m p(4) _ p(2)]) (use p len False in auto)
    then show ?thesis using False Some p len by (simp add: keep_pool_def)
  next
    case True
    with limit obtain rest l where pools: "pools = rest @ [l]" by (cases pools rule: rev_cases) auto
    have last: "pools ! (limit - 1) = l" "pools[limit - 1 := ?new] = rest @ [?new]"
      using True pools by (auto simp: nth_append list_update_append)
    have le: "\<forall>x \<in> set pools. f64_le (snd l) (snd x)"
      using sorted nn unfolding pools by (auto simp: sorted_wrt_append)
    show ?thesis
    proof (cases "f64_less (snd l) (snd ?new)")
      case repl: True
      obtain pools' where p: "sort_pools po (rest @ [?new]) = (Ok pools' :: (_, 'x) result)"
        "set pools' = insert ?new (set rest)" "length pools' = limit"
        "sorted_wrt (\<lambda>x y. f64_le (snd y) (snd x)) pools'" "distinct (map fst pools')"
        using sort_pools_Ok [OF po, of "rest @ [?new]"] nn dist fresh True pools by auto
      have less: "\<forall>y \<in> set pools'. f64_le (snd l) (snd y)"
        using le repl p(2) pools by (auto simp: f64_le_def)
      have "pools_top mode i edges (Suc m) limit pair pools'"
        by (rule pools_top_add [OF top cand m p(4) _ p(2)]) (use p(3,5) pools less in auto)
      then show ?thesis using True limit Some last repl p by (simp add: keep_pool_def)
    next
      case keep: False
      then have "f64_le (price_at i (edges ! m)) (snd l)" using nn pools by (simp add: f64_not_less)
      then have "\<forall>x \<in> set pools. f64_le (price_at i (edges ! m)) (snd x)"
        using le f64_le_trans by blast
      then have "pools_top mode i edges (Suc m) limit pair pools"
        using top True by (fastforce simp: pools_top_def less_Suc_eq)
      then show ?thesis using True limit Some last keep by (simp add: keep_pool_def)
    qed
  qed
qed

text \<open>What pruning needs of the edges: one cached price per warming amount where valid, and
  both mints known.\<close>

definition select_env_ok ::
    "nat \<Rightarrow> ('i, 'd, 'e) edge list \<Rightarrow> (pubkey \<rightharpoonup> mint_node) \<Rightarrow> nat \<Rightarrow> bool" where
  "select_env_ok n_amounts edges mint_to_index n_mints \<longleftrightarrow> length edges \<le> 2 ^ 32 \<and>
     (\<forall>e \<in> set edges. edge_state_ok n_amounts (e_state e) \<and>
        (\<exists>i. mint_to_index (e_input_mint e) = Some i \<and> unat i < n_mints) \<and>
        (\<exists>i. mint_to_index (e_output_mint e) = Some i \<and> unat i < n_mints))"

definition best_top ::
    "pubkey list \<Rightarrow> nat \<Rightarrow> nat \<Rightarrow> swap_mode \<Rightarrow> nat \<Rightarrow> ('i, 'd, 'e) edge list \<Rightarrow> nat \<Rightarrow> pair_pools \<Rightarrow> bool" where
  "best_top hot max_hot max_cold mode i edges m best \<longleftrightarrow> distinct (map fst best) \<and>
     (\<forall>pair. pools_top mode i edges m (pair_limit hot max_hot max_cold pair) pair
        (case map_of best pair of None \<Rightarrow> [] | Some pools \<Rightarrow> pools))"

lemma edge_is_valid_flag: "edge_is_valid st \<Longrightarrow> es_is_valid st"
  by (simp add: edge_is_valid_def split: if_splits)

lemma consider_edge_top:
  assumes po: "pool_order_ok po" and limits: "0 < max_hot" "0 < max_cold"
    and edges: "length edges \<le> 2 ^ 32" "edge_state_ok n (e_state (edges ! m))" and i: "i < n"
    and m: "m < length edges" and best: "best_top hot max_hot max_cold mode i edges m best"
  shows "\<exists>best'. consider_edge po hot max_hot max_cold mode i (m, edges ! m) best = (Ok best' :: (_, 'x) result) \<and>
    best_top hot max_hot max_cold mode i edges (Suc m) best'"
proof (cases "pool_candidate mode i (edges ! m)")
  case False
  then have "consider_edge po hot max_hot max_cold mode i (m, edges ! m) best = (Ok best :: (_, 'x) result)"
    using edges(2) i edge_is_valid_flag [of "e_state (edges ! m)"]
    by (auto simp: consider_edge_def pool_candidate_def price_at_def edge_state_ok_def at_index_def
        split: prod.splits)
  moreover have "best_top hot max_hot max_cold mode i edges (Suc m) best"
    using best False by (simp add: best_top_def pools_top_skip)
  ultimately show ?thesis by blast
next
  case True
  let ?pair = "edge_pair (edges ! m)"
  let ?limit = "pair_limit hot max_hot max_cold ?pair"
  have cp: "length (cached_prices (e_state (edges ! m))) = n"
    using True edges(2) edge_is_valid_flag by (auto simp: pool_candidate_def edge_state_ok_def)
  have "0 < ?limit" using limits by (simp add: pair_limit_def)
  moreover have "m < 2 ^ 32" using m edges(1) by simp
  moreover have "pools_top mode i edges m ?limit ?pair (case map_of best ?pair of None \<Rightarrow> [] | Some p \<Rightarrow> p)"
    using best unfolding best_top_def by blast
  ultimately obtain pools where
    p: "keep_pool po ?limit (of_nat m) (price_at i (edges ! m)) (map_of best ?pair) = (Ok pools :: (_, 'x) result)"
    "pools_top mode i edges (Suc m) ?limit ?pair pools"
    using keep_pool_top [OF po _ True refl] by blast
  have "consider_edge po hot max_hot max_cold mode i (m, edges ! m) best =
      (Ok (AList.update ?pair pools best) :: (_, 'x) result)"
    using True p(1) cp i
    by (auto simp: consider_edge_def pool_candidate_def price_at_def at_index_def pair_limit_def edge_pair_def
        node_of_usize_def Let_def split: prod.splits)
  moreover have "best_top hot max_hot max_cold mode i edges (Suc m) (AList.update ?pair pools best)"
    using best p(2) by (auto simp: best_top_def distinct_update update_conv' pools_top_skip)
  ultimately show ?thesis by blast
qed

text \<open>What the kept edges are, after the amounts before \<open>i\<close>.\<close>

definition kept_top ::
    "pubkey list \<Rightarrow> nat \<Rightarrow> nat \<Rightarrow> swap_mode \<Rightarrow> ('i, 'd, 'e) edge list \<Rightarrow> nat \<Rightarrow> edge_index list \<Rightarrow> bool" where
  "kept_top hot max_hot max_cold mode edges i kept \<longleftrightarrow> distinct kept \<and>
     (\<forall>k \<in> set kept. unat k < length edges \<and> (\<exists>j < i. pool_candidate mode j (edges ! unat k))) \<and>
     (\<forall>j < i. \<forall>pair. \<exists>pools. fst ` set pools \<subseteq> set kept \<and>
        pools_top mode j edges (length edges) (pair_limit hot max_hot max_cold pair) pair pools)"

lemma best_pools_top:
  assumes po: "pool_order_ok po" and limits: "0 < max_hot" "0 < max_cold"
    and env: "select_env_ok n edges mint_to_index n_mints"
  shows "\<exists>kept. best_pools po hot max_hot max_cold n edges mode = (Ok kept :: (_, 'x) result) \<and>
    kept_top hot max_hot max_cold mode edges n kept"
proof -
  let ?body = "\<lambda>i kept.
    rbind (rfold (consider_edge po hot max_hot max_cold mode i) (enumerate 0 edges) [])
      (\<lambda>best. Ok (remdups (kept @ concat (map (map fst \<circ> snd) best))) :: (edge_index list, 'x) result)"
  have step: "\<exists>kept'. ?body i kept = Ok kept' \<and> kept_top hot max_hot max_cold mode edges (Suc i) kept'"
    if i: "i < n" and kept: "kept_top hot max_hot max_cold mode edges i kept" for i kept
  proof -
    have "\<exists>best. rfold (consider_edge po hot max_hot max_cold mode i) (enumerate 0 edges) [] =
        (Ok best :: (_, 'x) result) \<and> best_top hot max_hot max_cold mode i edges (length (enumerate 0 edges)) best"
    proof (rule rfold_prefix)
      fix m best
      assume m: "m < length (enumerate 0 edges)" and "best_top hot max_hot max_cold mode i edges m best"
      moreover have "edge_state_ok n (e_state (edges ! m))" "length edges \<le> 2 ^ 32"
        using env m by (auto simp: select_env_ok_def)
      ultimately show "\<exists>s'. consider_edge po hot max_hot max_cold mode i (enumerate 0 edges ! m) best =
          (Ok s' :: (_, 'x) result) \<and> best_top hot max_hot max_cold mode i edges (Suc m) s'"
        using consider_edge_top [OF po limits] i by (simp add: nth_enumerate_eq)
    qed (simp add: best_top_def pools_top_def)
    then obtain best where b: "rfold (consider_edge po hot max_hot max_cold mode i) (enumerate 0 edges) [] =
        (Ok best :: (_, 'x) result)" "best_top hot max_hot max_cold mode i edges (length edges) best" by auto
    let ?kept = "remdups (kept @ concat (map (map fst \<circ> snd) best))"
    have pools: "pools_top mode i edges (length edges) (pair_limit hot max_hot max_cold pair) pair
        (case map_of best pair of None \<Rightarrow> [] | Some pools \<Rightarrow> pools)" for pair
      using b(2) unfolding best_top_def by blast
    have "unat k < length edges \<and> pool_candidate mode i (edges ! unat k)"
      if "(pair, ps) \<in> set best" "k \<in> fst ` set ps" for pair ps k
      using pools [of pair] b(2) that map_of_is_SomeI [of best pair ps] by (auto simp: best_top_def pools_top_def)
    then have sound: "\<forall>k \<in> set ?kept. unat k < length edges \<and> (\<exists>j < Suc i. pool_candidate mode j (edges ! unat k))"
      using kept by (fastforce simp: kept_top_def less_Suc_eq)
    have "fst ` set (case map_of best pair of None \<Rightarrow> [] | Some pools \<Rightarrow> pools) \<subseteq> set ?kept" for pair
    proof (cases "map_of best pair")
      case (Some ps)
      then have "(pair, ps) \<in> set best" by (rule map_of_SomeD)
      then show ?thesis using Some by force
    qed simp
    then have "\<exists>pools. fst ` set pools \<subseteq> set ?kept \<and>
        pools_top mode i edges (length edges) (pair_limit hot max_hot max_cold pair) pair pools" for pair
      using pools by blast
    moreover have "\<exists>pools. fst ` set pools \<subseteq> set ?kept \<and>
        pools_top mode j edges (length edges) (pair_limit hot max_hot max_cold pair) pair pools" if "j < i" for j pair
    proof -
      from kept that obtain ps where "fst ` set ps \<subseteq> set kept"
        "pools_top mode j edges (length edges) (pair_limit hot max_hot max_cold pair) pair ps"
        unfolding kept_top_def by blast
      then show ?thesis by (intro exI [of _ ps]) auto
    qed
    ultimately have "kept_top hot max_hot max_cold mode edges (Suc i) ?kept"
      unfolding kept_top_def using sound by (simp add: less_Suc_eq all_conj_distrib imp_disjL)
    with b(1) show ?thesis by simp
  qed
  have "\<exists>kept. rfold ?body [0..<n] [] = Ok kept \<and>
      kept_top hot max_hot max_cold mode edges (length [0..<n]) kept"
  proof (rule rfold_prefix)
    fix i kept
    assume i: "i < length [0..<n]" and kept: "kept_top hot max_hot max_cold mode edges i kept"
    from i have "i < n" "[0..<n] ! i = i" by simp_all
    with step [OF _ kept] show "\<exists>kept'. ?body ([0..<n] ! i) kept = Ok kept' \<and>
        kept_top hot max_hot max_cold mode edges (Suc i) kept'" by metis
  qed (simp add: kept_top_def)
  then show ?thesis by (simp add: best_pools_def)
qed

subsection \<open>Soundness of the pruned graph\<close>

text \<open>An entry of the graph stands for an edge that can be traded in its direction.\<close>

definition node_ok ::
    "('i, 'd, 'e) edge list \<Rightarrow> (pubkey \<rightharpoonup> mint_node) \<Rightarrow> swap_mode \<Rightarrow> edge_with_nodes \<Rightarrow> bool" where
  "node_ok edges mint_to_index mode e \<longleftrightarrow> unat (ewn_edge e) < length edges \<and>
     (let edge = edges ! unat (ewn_edge e) in
      edge_is_valid (e_state edge) \<and> (mode = ExactOut \<longrightarrow> edge_supports_exact_out edge) \<and>
      mint_to_index (e_input_mint edge) =
        Some (case mode of ExactIn \<Rightarrow> source_node e | ExactOut \<Rightarrow> target_node e) \<and>
      mint_to_index (e_output_mint edge) =
        Some (case mode of ExactIn \<Rightarrow> target_node e | ExactOut \<Rightarrow> source_node e))"

definition graph_ok ::
    "('i, 'd, 'e) edge list \<Rightarrow> (pubkey \<rightharpoonup> mint_node) \<Rightarrow> nat \<Rightarrow> swap_mode \<Rightarrow> edge_with_nodes list list \<Rightarrow> bool" where
  "graph_ok edges mint_to_index n_mints mode out_edges \<longleftrightarrow> length out_edges = n_mints \<and>
     (\<forall>i < n_mints. \<forall>e \<in> set (out_edges ! i). unat (source_node e) = i \<and> unat (target_node e) < n_mints \<and>
        node_ok edges mint_to_index mode e)"

text \<open>A mint has an edge in a direction: as input (\<open>True\<close>) or as output (\<open>False\<close>).\<close>

definition has_direction :: "swap_mode \<Rightarrow> edge_with_nodes list list \<Rightarrow> impact_key \<Rightarrow> bool" where
  "has_direction mode out_edges key \<longleftrightarrow> (\<exists>edges \<in> set out_edges. \<exists>e \<in> set edges.
     fst key = (if snd key = (mode = ExactIn) then source_node e else target_node e))"

text \<open>The keys of an edge.\<close>

definition edge_keys :: "(pubkey \<rightharpoonup> mint_node) \<Rightarrow> ('i, 'd, 'e) edge \<Rightarrow> impact_key set" where
  "edge_keys mint_to_index edge =
     {key. mint_to_index (if snd key then e_input_mint edge else e_output_mint edge) = Some (fst key)}"

definition tradable :: "('i, 'd, 'e) edge list \<Rightarrow> swap_mode \<Rightarrow> edge_index \<Rightarrow> bool" where
  "tradable edges mode k \<longleftrightarrow> unat k < length edges \<and> edge_is_valid (e_state (edges ! unat k)) \<and>
     (mode = ExactOut \<longrightarrow> edge_supports_exact_out (edges ! unat k))"

definition pruned_ok ::
    "('i, 'd, 'e) edge list \<Rightarrow> (pubkey \<rightharpoonup> mint_node) \<Rightarrow> nat \<Rightarrow> swap_mode \<Rightarrow> pruned \<Rightarrow> bool" where
  "pruned_ok edges mint_to_index n_mints mode p \<longleftrightarrow>
     graph_ok edges mint_to_index n_mints mode (pr_out_edges p) \<and>
     pr_count p = sum_list (map length (pr_out_edges p)) \<and>
     (\<forall>key \<in> set (pr_has_edge p). has_direction mode (pr_out_edges p) key) \<and>
     (\<forall>(key, _, k) \<in> set (pr_lowest p). tradable edges mode k \<and> key \<in> edge_keys mint_to_index (edges ! unat k))"

lemma has_direction_grow:
  assumes "has_direction mode out_edges key" "i < length out_edges"
  shows "has_direction mode (out_edges[i := out_edges ! i @ [e]]) key"
proof -
  from assms(1) obtain j e' where j: "j < length out_edges" "e' \<in> set (out_edges ! j)"
    "fst key = (if snd key = (mode = ExactIn) then source_node e' else target_node e')"
    unfolding has_direction_def by (metis in_set_conv_nth)
  then have "e' \<in> set (out_edges[i := out_edges ! i @ [e]] ! j)" by (cases "j = i") auto
  moreover have "out_edges[i := out_edges ! i @ [e]] ! j \<in> set (out_edges[i := out_edges ! i @ [e]])"
    using j(1) by simp
  ultimately show ?thesis using j(3) unfolding has_direction_def by blast
qed

lemma has_direction_new:
  "i < length out_edges \<Longrightarrow> e \<in> set es \<Longrightarrow>
     fst key = (if snd key = (mode = ExactIn) then source_node e else target_node e) \<Longrightarrow>
     has_direction mode (out_edges[i := es]) key"
  unfolding has_direction_def by (meson set_update_memI)

lemma push_edge_ok:
  assumes env: "select_env_ok n edges mint_to_index n_mints"
    and p: "pruned_ok edges mint_to_index n_mints mode p" and k: "tradable edges mode k"
    and keys: "mint_to_index (e_input_mint (edges ! unat k)) = Some i" "mint_to_index (e_output_mint (edges ! unat k)) = Some j"
  shows "\<exists>p'. push_edge mode i j k p = (Ok p' :: (_, 'x) result) \<and> pruned_ok edges mint_to_index n_mints mode p' \<and>
    pr_lowest p' = pr_lowest p \<and> pr_has_edge p' = (j, False) # (i, True) # pr_has_edge p"
proof -
  have "unat k < length edges" using k by (simp add: tradable_def)
  then have n: "unat i < n_mints" "unat j < n_mints"
    using env keys nth_mem unfolding select_env_ok_def by fastforce+
  let ?src = "case mode of ExactIn \<Rightarrow> i | ExactOut \<Rightarrow> j" and ?tgt = "case mode of ExactIn \<Rightarrow> j | ExactOut \<Rightarrow> i"
  let ?e = "\<lparr>source_node = ?src, target_node = ?tgt, ewn_edge = k\<rparr>"
  have src: "unat ?src < length (pr_out_edges p)" "unat ?src < n_mints" "unat ?tgt < n_mints"
    using n p by (auto simp: pruned_ok_def graph_ok_def split: swap_mode.splits)
  let ?out = "(pr_out_edges p)[unat ?src := pr_out_edges p ! unat ?src @ [?e]]"
  have "node_ok edges mint_to_index mode ?e"
    using k keys by (cases mode) (auto simp: node_ok_def tradable_def Let_def)
  then have "graph_ok edges mint_to_index n_mints mode ?out"
    using p src unfolding pruned_ok_def graph_ok_def by (auto simp: nth_list_update)
  moreover have "sum_list (map length ?out) = Suc (sum_list (map length (pr_out_edges p)))"
    using src(1) by (simp add: map_update sum_list_update)
  moreover have "\<forall>key \<in> set ((j, False) # (i, True) # pr_has_edge p). has_direction mode ?out key"
  proof
    fix key assume "key \<in> set ((j, False) # (i, True) # pr_has_edge p)"
    then consider "key = (j, False)" | "key = (i, True)" | "key \<in> set (pr_has_edge p)" by auto
    then show "has_direction mode ?out key"
    proof cases
      case 1
      then show ?thesis by (intro has_direction_new [OF src(1), of ?e]) (auto split: swap_mode.splits)
    next
      case 2
      then show ?thesis by (intro has_direction_new [OF src(1), of ?e]) (auto split: swap_mode.splits)
    next
      case 3
      then show ?thesis using p by (intro has_direction_grow src(1)) (simp add: pruned_ok_def)
    qed
  qed
  ultimately show ?thesis
    using p src(1) by (simp add: push_edge_def Let_def mint_index_def at_index_def pruned_ok_def)
qed

lemma set_alist_update: "set (AList.update k v al) \<subseteq> insert (k, v) (set al)"
  by (induction al) auto

lemma update_lowest_set:
  "set (update_lowest_price_impact k key x lowest) \<subseteq> insert (key, x, k) (set lowest)"
  using set_alist_update [of key "(x, k)" lowest]
  by (auto simp: update_lowest_price_impact_def split: option.splits if_splits)

lemma update_lowest_dom:
  "fst ` set (update_lowest_price_impact k key x lowest) = insert key (fst ` set lowest)"
  by (auto simp: update_lowest_price_impact_def dom_update rev_image_eqI dest!: map_of_SomeD split: option.splits)

lemma prune_step_ok:
  assumes env: "select_env_ok n edges mint_to_index n_mints"
    and p: "pruned_ok edges mint_to_index n_mints mode p" and k: "tradable edges mode k"
  shows "\<exists>p'. prune_step edges mint_to_index mode k p = (Ok p' :: (_, 'x) result) \<and>
    pruned_ok edges mint_to_index n_mints mode p' \<and>
    fst ` set (pr_lowest p') = edge_keys mint_to_index (edges ! unat k) \<union> fst ` set (pr_lowest p)"
proof -
  have k': "unat k < length edges" using k by (simp add: tradable_def)
  with env obtain i j where ij: "mint_to_index (e_input_mint (edges ! unat k)) = Some i"
    "mint_to_index (e_output_mint (edges ! unat k)) = Some j"
    using nth_mem unfolding select_env_ok_def by blast
  define x where "x = (case compute_price_impact (e_state (edges ! unat k)) of
     Some x \<Rightarrow> x | None \<Rightarrow> f64_of_rat (99999999 / 10000))"
  let ?low = "update_lowest_price_impact k (j, False) x (update_lowest_price_impact k (i, True) x (pr_lowest p))"
  let ?p = "p\<lparr>pr_lowest := ?low\<rparr>"
  have keys: "edge_keys mint_to_index (edges ! unat k) = {(i, True), (j, False)}"
    using ij by (auto simp: edge_keys_def split: if_splits)
  have "set ?low \<subseteq> {((j, False), x, k), ((i, True), x, k)} \<union> set (pr_lowest p)"
    using update_lowest_set [of k "(j, False)" x] update_lowest_set [of k "(i, True)" x "pr_lowest p"] by blast
  moreover have "\<forall>(key, _, k) \<in> set (pr_lowest p). tradable edges mode k \<and> key \<in> edge_keys mint_to_index (edges ! unat k)"
    using p by (simp add: pruned_ok_def)
  ultimately have "\<forall>(key, _, k) \<in> set ?low. tradable edges mode k \<and> key \<in> edge_keys mint_to_index (edges ! unat k)"
    using k keys by blast
  then have ok: "pruned_ok edges mint_to_index n_mints mode ?p" using p by (simp add: pruned_ok_def)
  have dom: "fst ` set ?low = edge_keys mint_to_index (edges ! unat k) \<union> fst ` set (pr_lowest p)"
    by (auto simp: update_lowest_dom keys)
  from push_edge_ok [OF env ok k ij] obtain p' where "push_edge mode i j k ?p = (Ok p' :: (_, 'x) result)"
    "pruned_ok edges mint_to_index n_mints mode p'" "pr_lowest p' = ?low" by auto
  then show ?thesis
    using ok dom k' ij by (auto simp: prune_step_def at_index_def Let_def simp flip: x_def)
qed

lemma restore_step_ok:
  assumes env: "select_env_ok n edges mint_to_index n_mints"
    and p: "pruned_ok edges mint_to_index n_mints mode p" and item: "(key, x, k) \<in> set (pr_lowest p)"
  shows "\<exists>p'. restore_step edges mint_to_index mode (key, x, k) p = (Ok p' :: (_, 'x) result) \<and>
    pruned_ok edges mint_to_index n_mints mode p' \<and> pr_lowest p' = pr_lowest p \<and>
    insert key (set (pr_has_edge p)) \<subseteq> set (pr_has_edge p')"
proof (cases "key \<in> set (pr_has_edge p)")
  case True
  then show ?thesis using p by (auto simp: restore_step_def)
next
  case False
  have k: "tradable edges mode k" "key \<in> edge_keys mint_to_index (edges ! unat k)"
    using p item by (auto simp: pruned_ok_def)
  then have k': "unat k < length edges" by (simp add: tradable_def)
  with env obtain i j where ij: "mint_to_index (e_input_mint (edges ! unat k)) = Some i"
    "mint_to_index (e_output_mint (edges ! unat k)) = Some j"
    using nth_mem unfolding select_env_ok_def by blast
  have "key \<in> {(j, False), (i, True)}" using k(2) ij by (cases key) (auto simp: edge_keys_def split: if_splits)
  moreover obtain p' where "push_edge mode i j k p = (Ok p' :: (_, 'x) result)"
    "pruned_ok edges mint_to_index n_mints mode p'" "pr_lowest p' = pr_lowest p"
    "pr_has_edge p' = (j, False) # (i, True) # pr_has_edge p"
    using push_edge_ok [OF env p k(1) ij] by blast
  ultimately show ?thesis using False k' ij by (auto simp: restore_step_def at_index_def)
qed

lemma select_best_pools_total:
  assumes po: "pool_order_ok po" and limits: "0 < max_hot" "0 < max_cold"
    and env: "select_env_ok (length amounts) edges mint_to_index n_mints"
  obtains kept count out_edges where
    "best_pools po hot max_hot max_cold (length amounts) edges mode = (Ok kept :: (_, 'x) result)"
    "kept_top hot max_hot max_cold mode edges (length amounts) kept"
    "select_best_pools po hot max_hot max_cold amounts edges mint_to_index n_mints mode =
       (Ok (count, out_edges) :: (_, 'x) result)"
    "graph_ok edges mint_to_index n_mints mode out_edges" "count = sum_list (map length out_edges)"
    "\<forall>k \<in> set kept. \<forall>key \<in> edge_keys mint_to_index (edges ! unat k). has_direction mode out_edges key"
proof -
  obtain kept where kept: "best_pools po hot max_hot max_cold (length amounts) edges mode = (Ok kept :: (_, 'x) result)"
    "kept_top hot max_hot max_cold mode edges (length amounts) kept"
    using best_pools_top [OF po limits env] by blast
  have perm: "set (po_edges po kept) = set kept" "set (po_impacts po xs) = set xs" for xs
    using po by (auto simp: pool_order_ok_def dest: mset_eq_setD)
  have trad: "\<forall>k \<in> set kept. tradable edges mode k"
    using kept(2) by (auto simp: kept_top_def tradable_def pool_candidate_def)
  let ?p0 = "\<lparr>pr_count = 0, pr_out_edges = new_from_prototype n_mints [], pr_lowest = [], pr_has_edge = []\<rparr>"
  let ?ok = "pruned_ok edges mint_to_index n_mints mode"
  let ?ks = "po_edges po kept"
  have "\<exists>p. rfold (prune_step edges mint_to_index mode) ?ks ?p0 = (Ok p :: (_, 'x) result) \<and>
      ?ok p \<and> (\<Union>k \<in> set (take (length ?ks) ?ks). edge_keys mint_to_index (edges ! unat k)) \<subseteq> fst ` set (pr_lowest p)"
  proof (rule rfold_prefix)
    fix m p
    assume m: "m < length ?ks" and p: "?ok p \<and>
      (\<Union>k \<in> set (take m ?ks). edge_keys mint_to_index (edges ! unat k)) \<subseteq> fst ` set (pr_lowest p)"
    have "tradable edges mode (?ks ! m)" using trad perm(1) m by (metis nth_mem)
    from prune_step_ok [OF env conjunct1 [OF p] this] obtain p' where
      "prune_step edges mint_to_index mode (?ks ! m) p = (Ok p' :: (_, 'x) result)" "?ok p'"
      "fst ` set (pr_lowest p') = edge_keys mint_to_index (edges ! unat (?ks ! m)) \<union> fst ` set (pr_lowest p)"
      by (elim exE conjE)
    then show "\<exists>p'. prune_step edges mint_to_index mode (?ks ! m) p = (Ok p' :: (_, 'x) result) \<and> ?ok p' \<and>
        (\<Union>k \<in> set (take (Suc m) ?ks). edge_keys mint_to_index (edges ! unat k)) \<subseteq> fst ` set (pr_lowest p')"
      using p m by (intro exI [of _ p']) (simp add: take_Suc_conv_app_nth le_supI2)
  qed (simp add: pruned_ok_def graph_ok_def new_from_prototype_def sum_list_0)
  then obtain p where p: "rfold (prune_step edges mint_to_index mode) ?ks ?p0 = (Ok p :: (_, 'x) result)" "?ok p"
    "\<forall>k \<in> set kept. edge_keys mint_to_index (edges ! unat k) \<subseteq> fst ` set (pr_lowest p)"
    by (auto simp only: take_all order_refl UN_subset_iff perm(1))
  let ?is = "po_impacts po (pr_lowest p)"
  have "\<exists>q. rfold (restore_step edges mint_to_index mode) ?is p = (Ok q :: (_, 'x) result) \<and>
      ?ok q \<and> pr_lowest q = pr_lowest p \<and> fst ` set (take (length ?is) ?is) \<subseteq> set (pr_has_edge q)"
  proof (rule rfold_prefix)
    fix m q
    assume m: "m < length ?is" and q: "?ok q \<and> pr_lowest q = pr_lowest p \<and> fst ` set (take m ?is) \<subseteq> set (pr_has_edge q)"
    have "?is ! m \<in> set (pr_lowest q)" using m q perm(2) by (metis nth_mem)
    then obtain q' where "restore_step edges mint_to_index mode (?is ! m) q = (Ok q' :: (_, 'x) result)" "?ok q'"
      "pr_lowest q' = pr_lowest q" "insert (fst (?is ! m)) (set (pr_has_edge q)) \<subseteq> set (pr_has_edge q')"
      using restore_step_ok [OF env, of mode q "fst (?is ! m)" "fst (snd (?is ! m))" "snd (snd (?is ! m))"] q
      by auto
    then show "\<exists>q'. restore_step edges mint_to_index mode (?is ! m) q = (Ok q' :: (_, 'x) result) \<and> ?ok q' \<and>
        pr_lowest q' = pr_lowest p \<and> fst ` set (take (Suc m) ?is) \<subseteq> set (pr_has_edge q')"
      using q m by (intro exI [of _ q']) (auto simp add: take_Suc_conv_app_nth)
  qed (use p in simp)
  then obtain q where q: "rfold (restore_step edges mint_to_index mode) ?is p = (Ok q :: (_, 'x) result)" "?ok q"
    "fst ` set (pr_lowest p) \<subseteq> set (pr_has_edge q)" using perm(2) by auto
  have "\<forall>k \<in> set kept. \<forall>key \<in> edge_keys mint_to_index (edges ! unat k). has_direction mode (pr_out_edges q) key"
    using p(3) q(2,3) unfolding pruned_ok_def by blast
  with p(1) q(1,2) kept(1) show ?thesis
    by (intro that [OF kept, of "pr_count q" "pr_out_edges q"]) (simp_all add: select_best_pools_def pruned_ok_def)
qed

subsection \<open>A concrete instance\<close>

interpretation prices_desc: total_preorder_on "\<lambda>x y. f64_le (snd y) (snd x)" "\<lambda>x. \<not> is_nan (snd x)"
proof unfold_locales
  fix x y z :: "'a \<times> f64"
  show "\<not> is_nan (snd x) \<Longrightarrow> \<not> is_nan (snd y) \<Longrightarrow> f64_le (snd y) (snd x) \<or> f64_le (snd x) (snd y)"
    using f64_not_less [of "snd x" "snd y"] by (auto simp: f64_le_def)
  show "f64_le (snd y) (snd x) \<Longrightarrow> f64_le (snd z) (snd y) \<Longrightarrow> f64_le (snd z) (snd x)"
    using f64_le_trans by blast
qed

lemma mset_sort_by: "mset (sort_by le xs) = mset xs"
proof -
  have "mset (insert_by le x ys) = add_mset x (mset ys)" for x ys by (induction ys) auto
  then show ?thesis by (induction xs) (auto simp: sort_by_def)
qed

definition ref_order :: pool_order where
  "ref_order = \<lparr>po_edges = id, po_impacts = id, po_sort = sort_by (\<lambda>x y. f64_le (snd y) (snd x))\<rparr>"

lemma ref_order_ok: "pool_order_ok ref_order"
  using prices_desc.sorted_sort_by by (auto simp: pool_order_ok_def ref_order_def mset_sort_by)

text \<open>Two pools from mint 5 to mint 6; one may be kept.\<close>

definition ref_priced :: "f64 \<Rightarrow> (unit, unit, unit) edge" where
  "ref_priced price = ref_edge\<lparr>e_state := \<lparr>cached_prices = [(100, price, NaN)], es_is_valid = True,
     last_update = 50, last_update_slot = 77, cooldown_event = 0, cooldown_until = None\<rparr>\<rparr>"

definition ref_pools :: "(unit, unit, unit) edge list" where
  "ref_pools = [ref_priced (Finite False (1 / 2)), ref_priced (Finite False 1)]"

definition ref_mints :: "pubkey \<rightharpoonup> mint_node" where
  "ref_mints = [5 \<mapsto> 0, 6 \<mapsto> 1]"

lemma ref_priced_thresholds:
  "f64_less negligible_price (Finite False (1 / 2))" "f64_less negligible_price (Finite False 1)"
  "\<not> f64_le (Finite False (1 / 2)) (f64_of_rat (1 / 1000000000))"
  by code_simp+

lemma ref_pools_env: "select_env_ok (length [100 :: u64]) ref_pools ref_mints 2"
  using ref_priced_thresholds
  by (simp add: select_env_ok_def ref_pools_def ref_priced_def ref_edge_def edge_state_ok_def ref_mints_def)

lemma ref_pools_candidate: "pool_candidate ExactIn 0 (ref_pools ! 0)"
  using ref_priced_thresholds
  by (simp add: pool_candidate_def ref_pools_def ref_priced_def price_at_def edge_is_valid_def)

text \<open>
  C12 (best_pools_best). The edges kept for the graph are the best ones: an edge with a usable
  price for a warming amount is kept, or as many other edges of the same pair of mints as
  the pair may have are kept and quote at least as well for that amount.
\<close>

theorem best_pools_best:
  assumes "pool_order_ok po" "0 < max_hot" "0 < max_cold" "select_env_ok n edges mint_to_index n_mints"
    and "i < n" "k < length edges" "pool_candidate mode i (edges ! k)"
  shows "\<exists>kept. best_pools po hot max_hot max_cold n edges mode = (Ok kept :: (_, unit) result) \<and>
    (of_nat k \<in> set kept \<or>
     (\<exists>ks. distinct ks \<and> set ks \<subseteq> set kept \<and> length ks = pair_limit hot max_hot max_cold (edge_pair (edges ! k)) \<and>
        (\<forall>k' \<in> set ks. unat k' < length edges \<and> edge_pair (edges ! unat k') = edge_pair (edges ! k) \<and>
           pool_candidate mode i (edges ! unat k') \<and> f64_le (price_at i (edges ! k)) (price_at i (edges ! unat k')))))"
proof -
  obtain kept where kept: "best_pools po hot max_hot max_cold n edges mode = (Ok kept :: (_, unit) result)"
    "kept_top hot max_hot max_cold mode edges n kept"
    using best_pools_top [OF assms(1-4)] by blast
  then obtain pools where p: "fst ` set pools \<subseteq> set kept"
    "pools_top mode i edges (length edges) (pair_limit hot max_hot max_cold (edge_pair (edges ! k)))
       (edge_pair (edges ! k)) pools"
    using assms(5) unfolding kept_top_def by blast
  then have "of_nat k \<in> set kept \<or> length pools = pair_limit hot max_hot max_cold (edge_pair (edges ! k)) \<and>
      (\<forall>x \<in> set pools. f64_le (price_at i (edges ! k)) (snd x))"
    using assms(6,7) unfolding pools_top_def by blast
  moreover have "distinct (map fst pools)" "\<forall>x \<in> set pools. unat (fst x) < length edges \<and>
      pool_candidate mode i (edges ! unat (fst x)) \<and> edge_pair (edges ! unat (fst x)) = edge_pair (edges ! k) \<and>
      snd x = price_at i (edges ! unat (fst x))"
    using p(2) unfolding pools_top_def by auto
  ultimately show ?thesis using kept(1) p(1) by (auto intro!: exI [of _ "map fst pools"])
qed

theorem best_pools_best_witness:
  "\<exists>kept. best_pools ref_order [] 1 1 1 ref_pools ExactIn = (Ok kept :: (_, unit) result)"
  using best_pools_best [OF ref_order_ok _ _ ref_pools_env [unfolded list.size], of 1 1 0 0 ExactIn "[]"] ref_pools_candidate
  by (auto simp: ref_pools_def)

text \<open>
  C13 (select_best_pools_sound). Pruning never panics on edges whose cached prices match the
  warming amounts, and every entry of the resulting graph stands at the node of its source
  mint for a valid edge between its two mints, quotable exact-out where that is asked; the
  reported count is the number of entries.
\<close>

theorem select_best_pools_sound:
  assumes "pool_order_ok po" "0 < max_hot" "0 < max_cold"
    "select_env_ok (length amounts) edges mint_to_index n_mints"
  shows "\<exists>out_edges. select_best_pools po hot max_hot max_cold amounts edges mint_to_index n_mints mode =
      (Ok (sum_list (map length out_edges), out_edges) :: (_, unit) result) \<and>
    graph_ok edges mint_to_index n_mints mode out_edges"
  using select_best_pools_total [OF assms, of hot mode] by metis

theorem select_best_pools_sound_witness:
  "\<exists>out_edges. select_best_pools ref_order [] 1 1 [100] ref_pools ref_mints 2 ExactIn =
     (Ok (sum_list (map length out_edges), out_edges) :: (_, unit) result) \<and>
     graph_ok ref_pools ref_mints 2 ExactIn out_edges"
  by (rule select_best_pools_sound [OF ref_order_ok _ _ ref_pools_env]) simp_all

text \<open>
  C14 (select_best_pools_covers). Leaving out edges with a high price impact never cuts a mint
  off: a mint with a usable edge in a direction (as input or as output) has an edge in that
  direction in the pruned graph.
\<close>

theorem select_best_pools_covers:
  assumes "pool_order_ok po" "0 < max_hot" "0 < max_cold"
    "select_env_ok (length amounts) edges mint_to_index n_mints"
    and "i < length amounts" "k < length edges" "pool_candidate mode i (edges ! k)"
    and "key \<in> edge_keys mint_to_index (edges ! k)"
  shows "\<exists>count out_edges. select_best_pools po hot max_hot max_cold amounts edges mint_to_index n_mints mode =
      (Ok (count, out_edges) :: (_, unit) result) \<and> has_direction mode out_edges key"
proof -
  obtain kept count out_edges where k: "kept_top hot max_hot max_cold mode edges (length amounts) kept"
    and s: "select_best_pools po hot max_hot max_cold amounts edges mint_to_index n_mints mode =
       (Ok (count, out_edges) :: (_, unit) result)"
    and d: "\<forall>k \<in> set kept. \<forall>key \<in> edge_keys mint_to_index (edges ! unat k). has_direction mode out_edges key"
    using select_best_pools_total [OF assms(1-4), of hot mode] by metis
  let ?limit = "pair_limit hot max_hot max_cold (edge_pair (edges ! k))"
  from k obtain pools where p: "fst ` set pools \<subseteq> set kept"
    "pools_top mode i edges (length edges) ?limit (edge_pair (edges ! k)) pools"
    using assms(5) unfolding kept_top_def by blast
  have "0 < ?limit" using assms(2,3) by (simp add: pair_limit_def)
  then have "pools \<noteq> []" using p(2) assms(6,7) unfolding pools_top_def by fastforce
  then obtain x where x: "x \<in> set pools" by (cases pools) auto
  then have "edge_pair (edges ! unat (fst x)) = edge_pair (edges ! k)" using p(2) by (simp add: pools_top_def)
  then have "key \<in> edge_keys mint_to_index (edges ! unat (fst x))"
    using assms(8) by (auto simp: edge_keys_def edge_pair_def split: if_splits)
  moreover have "fst x \<in> set kept" using x p(1) by blast
  ultimately show ?thesis using s d by blast
qed
theorem select_best_pools_covers_witness:
  "\<exists>count out_edges. select_best_pools ref_order [] 1 1 [100] ref_pools ref_mints 2 ExactIn =
     (Ok (count, out_edges) :: (_, unit) result) \<and> has_direction ExactIn out_edges (1, False)"
proof (rule select_best_pools_covers [OF ref_order_ok _ _ ref_pools_env _ _ ref_pools_candidate])
  show "(1, False) \<in> edge_keys ref_mints (ref_pools ! 0)"
    by (simp add: edge_keys_def ref_pools_def ref_priced_def ref_edge_def ref_mints_def)
qed (simp_all add: ref_pools_def)


end
