(* ===== verification/Routing_Quotes.thy ===== *)
theory Routing_Quotes
  imports Routing_Types
begin

text \<open>
  Quoting a path and assembling a route along it (\<open>prepare\<close>, \<open>compute_out_amount_from_path\<close>,
  \<open>compute_in_amount_from_path\<close>, \<open>build_route_steps\<close> and its exact-out variant in
  \<^verbatim>\<open>bin/autobahn-router/src/routing.rs\<close>).

  An edge shared through \<open>Arc\<close> is its index in the store of edges; a cooldown set while a
  path is quoted changes the store. The snapshot maps an edge's unique id to its prepared
  state, or to nothing when preparing failed. A request reads the clock once.

  \<open>anyhow::Result\<close> is a sum: \<open>Inl\<close> the error. A panic of an adapter is a panic.
\<close>

datatype 'e routing_error =
    UnsupportedInputMint pubkey
  | UnsupportedOutputMint pubkey
  | NoPathBetweenMintPair pubkey pubkey
  | CouldNotComputeOut
  | DexError 'e

record route_step =
  rs_edge :: edge_index
  rs_in_amount :: u64
  rs_out_amount :: u64
  rs_fee_amount :: u64
  rs_fee_mint :: pubkey

record 'e quote_env =
  qe_view :: "'e account_view"
  qe_ln :: "f64 \<Rightarrow> f64"
  qe_powf :: "f64 \<Rightarrow> f64 \<Rightarrow> f64"
  qe_now :: u64

type_synonym 'd snapshot = "pubkey \<times> pubkey \<rightharpoonup> 'd option"

record ('i, 'd, 'e) quote_state =
  qs_edges :: "('i, 'd, 'e) edge list"
  qs_snapshot :: "'d snapshot"

definition prepare ::
    "'d snapshot \<Rightarrow> ('i, 'd, 'e) edge \<Rightarrow> 'e account_view \<Rightarrow> ('d option \<times> 'd snapshot, 'x) result" where
  "prepare s e c =
     (case s (edge_unique_id e) of
        Some r \<Rightarrow> Ok (r, s)
      | None \<Rightarrow>
          (case edge_prepare e c of
             Ok p \<Rightarrow> Ok (Some p, s(edge_unique_id e \<mapsto> Some p))
           | Err _ \<Rightarrow> Ok (None, s(edge_unique_id e \<mapsto> None))
           | Panic \<Rightarrow> Panic))"

text \<open>Giving up on a path, with a cooldown of 30 seconds for the edge if that is asked.\<close>

definition reject ::
    "'e quote_env \<Rightarrow> bool \<Rightarrow> edge_index \<Rightarrow> ('i, 'd, 'e) edge \<Rightarrow> ('i, 'd, 'e) quote_state \<Rightarrow>
     (('e routing_error + (u64 \<times> u64) option) \<times> ('i, 'd, 'e) quote_state, 'x) result" where
  "reject env cooldown i edge st =
     (if cooldown then
        rbind (add_cooldown (qe_powf env) (qe_now env) 30000 (e_state edge)) (\<lambda>es.
        Ok (Inr None, st\<lparr>qs_edges := (qs_edges st)[unat i := edge\<lparr>e_state := es\<rparr>]\<rparr>))
      else Ok (Inr None, st))"

text \<open>A quoted amount is trusted if the amount at the cached price is at most three times it.\<close>

definition diverges :: "u64 \<Rightarrow> u64 \<Rightarrow> bool" where
  "diverges dumb quoted \<longleftrightarrow> dumb > saturating_mul quoted 3"

fun compute_out_amount_from_path ::
    "'e quote_env \<Rightarrow> bool \<Rightarrow> edge_index list \<Rightarrow> u64 \<Rightarrow> u64 \<Rightarrow> ('i, 'd, 'e) quote_state \<Rightarrow>
     (('e routing_error + (u64 \<times> u64) option) \<times> ('i, 'd, 'e) quote_state, 'x) result" where
  "compute_out_amount_from_path env cooldown [] current dumb st = Ok (Inr (Some (current, dumb)), st)"
| "compute_out_amount_from_path env cooldown (i # path) current dumb st =
     rbind (at_index (qs_edges st) (unat i)) (\<lambda>edge.
     if \<not> edge_is_valid (e_state edge) then Ok (Inr None, st)
     else
       rbind (prepare (qs_snapshot st) edge (qe_view env)) (\<lambda>(prepared, snap).
       let st = st\<lparr>qs_snapshot := snap\<rparr> in
       case prepared of
         None \<Rightarrow> Ok (Inl CouldNotComputeOut, st)
       | Some p \<Rightarrow>
           (case edge_quote edge p (qe_view env) current of
              Panic \<Rightarrow> Panic
            | Err _ \<Rightarrow> reject env cooldown i edge st
            | Ok quote \<Rightarrow>
                if q_out_amount quote = 0 then reject env cooldown i edge st
                else
                  (case cached_price_for (e_state edge) current of
                     None \<Rightarrow> Ok (Inr None, st)
                   | Some (price, _) \<Rightarrow>
                       let dumb = f64_as_u64 (f64_round (f64_mul (f64_of_u64 (q_in_amount quote)) price)) in
                       if diverges dumb (q_out_amount quote) then reject env cooldown i edge st
                       else compute_out_amount_from_path env cooldown path (q_out_amount quote) dumb st))))"

text \<open>The exact-out variant looks every cached price up for the amount of the request, not
  for the amount at the edge.\<close>

fun compute_in_amount_from_path ::
    "'e quote_env \<Rightarrow> bool \<Rightarrow> u64 \<Rightarrow> edge_index list \<Rightarrow> u64 \<Rightarrow> u64 \<Rightarrow> ('i, 'd, 'e) quote_state \<Rightarrow>
     (('e routing_error + (u64 \<times> u64) option) \<times> ('i, 'd, 'e) quote_state, 'x) result" where
  "compute_in_amount_from_path env cooldown amount [] current dumb st = Ok (Inr (Some (current, dumb)), st)"
| "compute_in_amount_from_path env cooldown amount (i # path) current dumb st =
     rbind (at_index (qs_edges st) (unat i)) (\<lambda>edge.
     if \<not> edge_supports_exact_out edge then Ok (Inr None, st)
     else if \<not> edge_is_valid (e_state edge) then Ok (Inr None, st)
     else
       rbind (prepare (qs_snapshot st) edge (qe_view env)) (\<lambda>(prepared, snap).
       let st = st\<lparr>qs_snapshot := snap\<rparr> in
       case prepared of
         None \<Rightarrow> Ok (Inl CouldNotComputeOut, st)
       | Some p \<Rightarrow>
           (case edge_quote_exact_out edge p (qe_view env) current of
              Panic \<Rightarrow> Panic
            | Err _ \<Rightarrow> reject env cooldown i edge st
            | Ok quote \<Rightarrow>
                if q_out_amount quote = 0 then reject env cooldown i edge st
                else
                  rbind (cached_price_exact_out_for (qe_ln env) (e_state edge) amount) (\<lambda>cached.
                  case cached of
                    None \<Rightarrow> Ok (Inr None, st)
                  | Some (price, _) \<Rightarrow>
                      let dumb = f64_as_u64 (f64_round (f64_mul (f64_of_u64 (q_out_amount quote)) price)) in
                      if diverges dumb (q_in_amount quote) then reject env cooldown i edge st
                      else compute_in_amount_from_path env cooldown amount path (q_in_amount quote) dumb st))))"

subsection \<open>Route steps\<close>

definition step_of :: "edge_index \<Rightarrow> quote \<Rightarrow> route_step" where
  "step_of i quote = \<lparr>rs_edge = i, rs_in_amount = q_in_amount quote, rs_out_amount = q_out_amount quote,
     rs_fee_amount = q_fee_amount quote, rs_fee_mint = q_fee_mint quote\<rparr>"

text \<open>The loop over the path; the quote and the amount passed on are the two places where the
  exact-out variant differs. The context slot is the newest slot of the edges.\<close>

fun route_steps_loop ::
    "(('i, 'd, 'e) edge \<Rightarrow> 'd \<Rightarrow> u64 \<Rightarrow> (quote, 'e) result) \<Rightarrow> (quote \<Rightarrow> u64) \<Rightarrow> 'e account_view \<Rightarrow>
     edge_index list \<Rightarrow> u64 \<Rightarrow> u64 \<Rightarrow> route_step list \<Rightarrow> ('i, 'd, 'e) quote_state \<Rightarrow>
     (('e routing_error + route_step list \<times> u64) \<times> ('i, 'd, 'e) quote_state, 'x) result" where
  "route_steps_loop ask next view [] current slot steps st = Ok (Inr (steps, slot), st)"
| "route_steps_loop ask next view (i # path) current slot steps st =
     rbind (at_index (qs_edges st) (unat i)) (\<lambda>edge.
     rbind (prepare (qs_snapshot st) edge view) (\<lambda>(prepared, snap).
     let st = st\<lparr>qs_snapshot := snap\<rparr> in
     case prepared of
       None \<Rightarrow> Ok (Inl CouldNotComputeOut, st)
     | Some p \<Rightarrow>
         (case ask edge p current of
            Panic \<Rightarrow> Panic
          | Err e \<Rightarrow> Ok (Inl (DexError e), st)
          | Ok quote \<Rightarrow>
              route_steps_loop ask next view path (next quote)
                (max (last_update_slot (e_state edge)) slot) (steps @ [step_of i quote]) st)))"

definition build_route_steps ::
    "'e account_view \<Rightarrow> edge_index list \<Rightarrow> u64 \<Rightarrow> ('i, 'd, 'e) quote_state \<Rightarrow>
     (('e routing_error + route_step list \<times> u64) \<times> ('i, 'd, 'e) quote_state, 'x) result" where
  "build_route_steps view out_path in_amount st =
     route_steps_loop (\<lambda>edge p. edge_quote edge p view) q_out_amount view out_path in_amount 0 [] st"

definition build_route_steps_exact_out ::
    "'e account_view \<Rightarrow> edge_index list \<Rightarrow> u64 \<Rightarrow> ('i, 'd, 'e) quote_state \<Rightarrow>
     (('e routing_error + route_step list \<times> u64) \<times> ('i, 'd, 'e) quote_state, 'x) result" where
  "build_route_steps_exact_out view out_path out_amount st =
     rbind (route_steps_loop (\<lambda>edge p. edge_quote_exact_out edge p view) q_in_amount view out_path
              out_amount 0 [] st) (\<lambda>(r, st).
     Ok (map_sum id (\<lambda>(steps, slot). (rev steps, slot)) r, st))"

subsection \<open>Steps hang together\<close>

text \<open>What it means that a list of steps answers for an amount: each step is the quote of its
  edge, prepared as the snapshot says, for the amount the step before passes on.\<close>

definition edge_answers ::
    "(('i, 'd, 'e) edge \<Rightarrow> 'd \<Rightarrow> u64 \<Rightarrow> (quote, 'e) result) \<Rightarrow> ('i, 'd, 'e) edge list \<Rightarrow> 'd snapshot \<Rightarrow>
     edge_index \<Rightarrow> u64 \<Rightarrow> quote \<Rightarrow> bool" where
  "edge_answers ask edges snap i a q \<longleftrightarrow> unat i < length edges \<and>
     (\<exists>p. snap (edge_unique_id (edges ! unat i)) = Some (Some p) \<and> ask (edges ! unat i) p a = Ok q)"

primrec quoted_chain ::
    "(edge_index \<Rightarrow> u64 \<Rightarrow> quote \<Rightarrow> bool) \<Rightarrow> (route_step \<Rightarrow> u64) \<Rightarrow> u64 \<Rightarrow> route_step list \<Rightarrow> bool" where
  "quoted_chain answers pass a [] \<longleftrightarrow> True"
| "quoted_chain answers pass a (s # ss) \<longleftrightarrow>
     (\<exists>q. answers (rs_edge s) a q \<and> s = step_of (rs_edge s) q) \<and> quoted_chain answers pass (pass s) ss"

text \<open>The steps meet: an edge among \<open>echo\<close> trades exactly the amount it was passed.\<close>

primrec amounts_meet ::
    "(edge_index \<Rightarrow> bool) \<Rightarrow> (route_step \<Rightarrow> u64) \<Rightarrow> (route_step \<Rightarrow> u64) \<Rightarrow> u64 \<Rightarrow> route_step list \<Rightarrow> bool" where
  "amounts_meet echo asked pass a [] \<longleftrightarrow> True"
| "amounts_meet echo asked pass a (s # ss) \<longleftrightarrow>
     (echo (rs_edge s) \<longrightarrow> asked s = a) \<and> amounts_meet echo asked pass (pass s) ss"

text \<open>Exact in, amounts are passed forwards; exact out, backwards from the last step.\<close>

definition steps_answer ::
    "swap_mode \<Rightarrow> 'e account_view \<Rightarrow> ('i, 'd, 'e) edge list \<Rightarrow> 'd snapshot \<Rightarrow> u64 \<Rightarrow> route_step list \<Rightarrow> bool" where
  "steps_answer mode view edges snap amount steps = (case mode of
      ExactIn \<Rightarrow> quoted_chain (edge_answers (\<lambda>e p. edge_quote e p view) edges snap) rs_out_amount amount steps
    | ExactOut \<Rightarrow> quoted_chain (edge_answers (\<lambda>e p. edge_quote_exact_out e p view) edges snap) rs_in_amount
        amount (rev steps))"

definition steps_meet :: "swap_mode \<Rightarrow> ('i, 'd, 'e) edge list \<Rightarrow> u64 \<Rightarrow> route_step list \<Rightarrow> bool" where
  "steps_meet mode edges amount steps =
     (let echo = \<lambda>i. quoting_dex (e_dex (edges ! unat i)) in
      case mode of
        ExactIn \<Rightarrow> amounts_meet echo rs_in_amount rs_out_amount amount steps
      | ExactOut \<Rightarrow> amounts_meet echo rs_out_amount rs_in_amount amount (rev steps))"

lemma quoted_chain_meets:
  assumes "quoted_chain answers pass a ss"
    and "\<And>i a q. echo i \<Longrightarrow> answers i a q \<Longrightarrow> asked (step_of i q) = a"
  shows "amounts_meet echo asked pass a ss"
  using assms(1) by (induction ss arbitrary: a) (auto dest: assms(2))

lemma steps_answer_meet: "steps_answer mode view edges snap amount steps \<Longrightarrow> steps_meet mode edges amount steps"
  by (cases mode)
    (auto simp: steps_answer_def steps_meet_def edge_answers_def edge_quote_def edge_quote_exact_out_def step_of_def
      elim!: quoted_chain_meets dest: quoting_dex.quote_echo quoting_dex.exact_out_echo)

lemma prepare_Ok:
  "prepare s e c = (Ok (r, s') :: (_, 'x) result) \<Longrightarrow> s' (edge_unique_id e) = Some r \<and> s \<subseteq>\<^sub>m s'"
  by (auto simp: prepare_def map_le_def split: option.splits result.splits)

lemma prepare_known: "s (edge_unique_id e) = Some r \<Longrightarrow> prepare s e c = (Ok (r, s) :: (_, 'x) result)"
  by (simp add: prepare_def)

text \<open>One step of the loop that succeeds.\<close>

lemma route_steps_loop_Cons:
  assumes "route_steps_loop ask next view (i # path) current slot steps st = (Ok (Inr r, st') :: (_, 'x) result)"
  obtains snap p quote where "unat i < length (qs_edges st)" "qs_snapshot st \<subseteq>\<^sub>m snap"
    "snap (edge_unique_id (qs_edges st ! unat i)) = Some (Some p)"
    "ask (qs_edges st ! unat i) p current = Ok quote"
    "route_steps_loop ask next view path (next quote) (max (last_update_slot (e_state (qs_edges st ! unat i))) slot)
       (steps @ [step_of i quote]) (st\<lparr>qs_snapshot := snap\<rparr>) = (Ok (Inr r, st') :: (_, 'x) result)"
proof -
  let ?e = "qs_edges st ! unat i"
  from assms obtain prepared snap where
    i: "unat i < length (qs_edges st)" and p: "prepare (qs_snapshot st) ?e view = (Ok (prepared, snap) :: (_, 'x) result)"
    by (auto simp: at_index_Ok)
  with assms obtain p' where p': "prepared = Some p'" by (cases prepared) (auto simp: at_index_def)
  note snap = prepare_Ok [OF p [unfolded p']]
  from assms i p p' obtain quote where "ask ?e p' current = Ok quote"
    by (cases "ask ?e p' current") (auto simp: at_index_def Let_def)
  with assms i p p' snap that [of snap p' quote] show ?thesis by (simp add: at_index_def Let_def)
qed

lemma route_steps_loop_edges:
  "route_steps_loop ask next view path current slot steps st = (Ok (Inr (ss, slot'), st') :: (_, 'x) result) \<Longrightarrow>
     qs_edges st' = qs_edges st \<and> map rs_edge ss = map rs_edge steps @ path \<and> slot \<le> slot' \<and>
     (\<forall>i \<in> set path. last_update_slot (e_state (qs_edges st ! unat i)) \<le> slot')"
proof (induction path arbitrary: current slot steps st)
  case (Cons i path)
  from route_steps_loop_Cons [OF Cons.prems] obtain snap quote where
    "route_steps_loop ask next view path (next quote) (max (last_update_slot (e_state (qs_edges st ! unat i))) slot)
       (steps @ [step_of i quote]) (st\<lparr>qs_snapshot := snap\<rparr>) = (Ok (Inr (ss, slot'), st') :: (_, 'x) result)" by metis
  from Cons.IH [OF this] show ?case by (auto simp: step_of_def)
qed simp

text \<open>The steps a loop adds are answers, each for the amount passed on by the one before.\<close>

lemma route_steps_loop_answers:
  assumes "route_steps_loop ask next view path current slot steps st = (Ok (Inr (ss, slot'), st') :: (_, 'x) result)"
    and pass: "\<And>i q. pass (step_of i q) = next q"
  shows "qs_snapshot st \<subseteq>\<^sub>m qs_snapshot st' \<and>
    (\<exists>new. ss = steps @ new \<and> quoted_chain (edge_answers ask (qs_edges st) (qs_snapshot st')) pass current new)"
  using assms(1)
proof (induction path arbitrary: current slot steps st)
  case (Cons i path)
  let ?e = "qs_edges st ! unat i"
  from route_steps_loop_Cons [OF Cons.prems] obtain snap p quote where
    i: "unat i < length (qs_edges st)" and snap: "qs_snapshot st \<subseteq>\<^sub>m snap" "snap (edge_unique_id ?e) = Some (Some p)"
    and q: "ask ?e p current = Ok quote" and
    r: "route_steps_loop ask next view path (next quote) (max (last_update_slot (e_state ?e)) slot)
       (steps @ [step_of i quote]) (st\<lparr>qs_snapshot := snap\<rparr>) = (Ok (Inr (ss, slot'), st') :: (_, 'x) result)" .
  from Cons.IH [OF r] obtain new where le: "snap \<subseteq>\<^sub>m qs_snapshot st'" and new: "ss = steps @ step_of i quote # new"
    "quoted_chain (edge_answers ask (qs_edges st) (qs_snapshot st')) pass (next quote) new" by auto
  have "qs_snapshot st' (edge_unique_id ?e) = Some (Some p)" using le snap(2) by (metis domI map_le_def)
  then have "edge_answers ask (qs_edges st) (qs_snapshot st') i current quote"
    using i q by (auto simp: edge_answers_def)
  then have "quoted_chain (edge_answers ask (qs_edges st) (qs_snapshot st')) pass current (step_of i quote # new)"
    using new(2) by (auto simp: pass) (auto simp: step_of_def)
  then show ?case using new(1) map_le_trans [OF snap(1) le] by blast
qed simp

lemma build_answers:
  assumes "(case mode of ExactIn \<Rightarrow> build_route_steps | ExactOut \<Rightarrow> build_route_steps_exact_out) view path amount st =
      (Ok (Inr (steps, slot), st') :: (_, 'x) result)"
  shows "map rs_edge steps = (case mode of ExactIn \<Rightarrow> path | ExactOut \<Rightarrow> rev path) \<and>
    steps_answer mode view (qs_edges st) (qs_snapshot st') amount steps \<and>
    (\<forall>i \<in> set path. last_update_slot (e_state (qs_edges st ! unat i)) \<le> slot)"
proof (cases mode)
  case ExactIn
  with assms have r: "route_steps_loop (\<lambda>edge p. edge_quote edge p view) q_out_amount view path amount 0 [] st =
      (Ok (Inr (steps, slot), st') :: (_, 'x) result)" by (simp add: build_route_steps_def)
  from route_steps_loop_edges [OF r] route_steps_loop_answers [OF r, of rs_out_amount] ExactIn show ?thesis
    by (simp add: steps_answer_def step_of_def)
next
  case ExactOut
  with assms obtain r where r: "route_steps_loop (\<lambda>edge p. edge_quote_exact_out edge p view) q_in_amount view
      path amount 0 [] st = (Ok (r, st') :: (_, 'x) result)"
    and r': "map_sum id (\<lambda>(steps, slot). (rev steps, slot)) r = Inr (steps, slot)"
    by (auto simp: build_route_steps_exact_out_def)
  from r' obtain ss where ss: "r = Inr (ss, slot)" "steps = rev ss" by (cases r) auto
  from route_steps_loop_edges [OF r [unfolded ss(1)]] route_steps_loop_answers [OF r [unfolded ss(1)], of rs_in_amount]
  show ?thesis by (simp add: ExactOut ss(2) rev_map [symmetric] steps_answer_def step_of_def)
qed

text \<open>
  C15 (route_steps_chain). The steps built for a path are its edges in trading order. The
  first of them is the quote of its edge for the requested amount (exact out: the last one),
  and every other is the quote of its edge for exactly the amount its neighbour gives out
  (takes in), all on one snapshot of prepared pools. Where an edge's adapter quotes for the
  amount it is asked (\<open>quoting_dex\<close>; not every adapter does, \<open>cp_not_quoting\<close>), the step
  also trades that amount. The context slot is not older than any edge of the path.
\<close>

theorem route_steps_chain:
  assumes "(case mode of ExactIn \<Rightarrow> build_route_steps | ExactOut \<Rightarrow> build_route_steps_exact_out) view path amount st =
      (Ok (Inr (steps, slot), st') :: (_, unit) result)"
  shows "map rs_edge steps = (case mode of ExactIn \<Rightarrow> path | ExactOut \<Rightarrow> rev path) \<and>
    steps_answer mode view (qs_edges st) (qs_snapshot st') amount steps \<and>
    steps_meet mode (qs_edges st) amount steps \<and>
    (\<forall>i \<in> set path. last_update_slot (e_state (qs_edges st ! unat i)) \<le> slot)"
  using build_answers [OF assms] steps_answer_meet by blast

lemma ref_dex_quotes: "quoting_dex ref_dex"
  by unfold_locales (auto simp: ref_dex_def)

definition ref_quote_state :: "(unit, unit, unit) quote_state" where
  "ref_quote_state = \<lparr>qs_edges = [ref_edge\<lparr>e_state := \<lparr>cached_prices = [(100, Finite False 1, NaN)],
     es_is_valid = True, last_update = 50, last_update_slot = 77, cooldown_event = 0, cooldown_until = None\<rparr>\<rparr>],
     qs_snapshot = Map.empty\<rparr>"

theorem route_steps_chain_witness:
  "\<exists>steps slot st'. build_route_steps ref_view [0, 0] 100 ref_quote_state =
     (Ok (Inr (steps, slot), st') :: (_, unit) result) \<and> map rs_edge steps = [0, 0] \<and>
     map rs_in_amount steps = [100, 99] \<and> rs_out_amount (last steps) = 99"
proof -
  obtain steps slot st' where b: "build_route_steps ref_view [0, 0] 100 ref_quote_state =
      (Ok (Inr (steps, slot), st') :: (_, unit) result)" and out: "map rs_out_amount steps = [99, 99]"
    by (simp add: build_route_steps_def ref_quote_state_def prepare_def edge_prepare_def edge_quote_def ref_edge_def
        ref_dex_def step_of_def edge_unique_id_def at_index_def)
  from out obtain s1 s2 where ss: "steps = [s1, s2]" "rs_out_amount s1 = 99" "rs_out_amount s2 = 99" by auto
  from route_steps_chain [of ExactIn ref_view "[0, 0]" 100 ref_quote_state steps slot st'] b
  have edges: "map rs_edge steps = [0, 0]" and meet: "steps_meet ExactIn (qs_edges ref_quote_state) 100 steps" by auto
  have "rs_in_amount s1 = 100 \<and> rs_in_amount s2 = 99"
    using edges meet ref_dex_quotes by (simp add: ss steps_meet_def ref_quote_state_def ref_edge_def)
  with b edges ss show ?thesis by (intro exI [of _ steps] exI [of _ slot] exI [of _ st']) simp
qed

subsection \<open>Evaluation and route agree\<close>

text \<open>One step of the evaluation that succeeds.\<close>

lemma compute_out_Cons:
  assumes "compute_out_amount_from_path env cooldown (i # path) current dumb st =
      (Ok (Inr (Some r), st') :: (_, 'x) result)"
  obtains snap p quote dumb' where "unat i < length (qs_edges st)"
    "prepare (qs_snapshot st) (qs_edges st ! unat i) (qe_view env) = (Ok (Some p, snap) :: (_, 'x) result)"
    "edge_quote (qs_edges st ! unat i) p (qe_view env) current = Ok quote"
    "compute_out_amount_from_path env cooldown path (q_out_amount quote) dumb' (st\<lparr>qs_snapshot := snap\<rparr>) =
       (Ok (Inr (Some r), st') :: (_, 'x) result)"
proof -
  let ?e = "qs_edges st ! unat i"
  from assms obtain prepared snap where
    i: "unat i < length (qs_edges st)" and v: "edge_is_valid (e_state ?e)"
    and p: "prepare (qs_snapshot st) ?e (qe_view env) = (Ok (prepared, snap) :: (_, 'x) result)"
    by (auto simp: at_index_Ok split: if_splits)
  with assms obtain p where [simp]: "prepared = Some p" by (cases prepared) (auto simp: at_index_def)
  note [simp] = at_index_def reject_def Let_def
  from assms i v p obtain quote where q: "edge_quote ?e p (qe_view env) current = Ok quote"
    by (cases "edge_quote ?e p (qe_view env) current") (auto split: if_splits)
  with assms i v p obtain price where "cached_price_for (e_state ?e) current = Some price"
    by (cases "cached_price_for (e_state ?e) current") (auto split: if_splits)
  with assms i v p q that [of p snap quote] show ?thesis by (auto split: if_splits prod.splits)
qed

lemma compute_out_builds:
  assumes "compute_out_amount_from_path env cooldown path current dumb st =
      (Ok (Inr (Some (out, dumb')), st') :: (_, 'x) result)"
  shows "qs_edges st' = qs_edges st \<and> qs_snapshot st \<subseteq>\<^sub>m qs_snapshot st' \<and>
    (\<forall>slot steps. \<exists>ss slot'. route_steps_loop (\<lambda>edge p. edge_quote edge p (qe_view env)) q_out_amount (qe_view env)
       path current slot steps st' = (Ok (Inr (ss, slot'), st') :: (_, 'x) result) \<and>
       (path \<noteq> [] \<longrightarrow> ss \<noteq> [] \<and> rs_out_amount (last ss) = out) \<and> (path = [] \<longrightarrow> ss = steps \<and> current = out))"
  using assms
proof (induction path arbitrary: current dumb st)
  case (Cons i path)
  let ?e = "qs_edges st ! unat i"
  let ?build = "route_steps_loop (\<lambda>edge p. edge_quote edge p (qe_view env)) q_out_amount (qe_view env)"
  from compute_out_Cons [OF Cons.prems] obtain snap p quote dumb2 where
    i: "unat i < length (qs_edges st)"
    and p: "prepare (qs_snapshot st) ?e (qe_view env) = (Ok (Some p, snap) :: (_, 'x) result)"
    and q: "edge_quote ?e p (qe_view env) current = Ok quote"
    and r: "compute_out_amount_from_path env cooldown path (q_out_amount quote) dumb2 (st\<lparr>qs_snapshot := snap\<rparr>) =
       (Ok (Inr (Some (out, dumb')), st') :: (_, 'x) result)" by metis
  note IH = Cons.IH [OF r]
  have snap: "snap (edge_unique_id ?e) = Some (Some p)" "qs_snapshot st \<subseteq>\<^sub>m snap" using prepare_Ok [OF p] by auto
  have st': "qs_edges st' = qs_edges st" "snap \<subseteq>\<^sub>m qs_snapshot st'" using IH by auto
  then have "qs_snapshot st' (edge_unique_id ?e) = Some (Some p)"
    using snap(1) by (metis domI map_le_def)
  then have step: "?build (i # path) current slot steps st' = (?build path (q_out_amount quote)
      (max (last_update_slot (e_state ?e)) slot) (steps @ [step_of i quote]) st' :: (_, 'x) result)" for slot steps
    using i q st'(1) by (simp add: at_index_def prepare_known)
  have "\<exists>ss slot'. ?build (i # path) current slot steps st' = (Ok (Inr (ss, slot'), st') :: (_, 'x) result) \<and>
      ss \<noteq> [] \<and> rs_out_amount (last ss) = out" for slot steps
  proof -
    obtain ss slot' where b: "?build path (q_out_amount quote) (max (last_update_slot (e_state ?e)) slot)
        (steps @ [step_of i quote]) st' = (Ok (Inr (ss, slot'), st') :: (_, 'x) result)"
      "path \<noteq> [] \<longrightarrow> ss \<noteq> [] \<and> rs_out_amount (last ss) = out"
      "path = [] \<longrightarrow> ss = steps @ [step_of i quote] \<and> q_out_amount quote = out"
      using spec [OF spec [OF conjunct2 [OF conjunct2 [OF IH]], of "max (last_update_slot (e_state ?e)) slot"],
          of "steps @ [step_of i quote]"] by blast
    then show ?thesis unfolding step by (cases "path = []") (auto simp: step_of_def)
  qed
  moreover have "qs_snapshot st \<subseteq>\<^sub>m qs_snapshot st'" using snap(2) st'(2) map_le_trans by blast
  ultimately show ?case using st'(1) by simp
qed simp

text \<open>
  C16 (quoted_path_builds). Evaluating a path and building a route along it agree: if a path
  evaluates to an amount, building the route for the same input succeeds, changes nothing
  further, and its last step gives out the amount the evaluation found.
\<close>

theorem quoted_path_builds:
  assumes "compute_out_amount_from_path env cooldown path amount dumb st =
      (Ok (Inr (Some (out, dumb')), st') :: (_, unit) result)"
    and "path \<noteq> []"
  shows "\<exists>steps slot. build_route_steps (qe_view env) path amount st' =
      (Ok (Inr (steps, slot), st') :: (_, unit) result) \<and> steps \<noteq> [] \<and> rs_out_amount (last steps) = out"
  using compute_out_builds [OF assms(1)] assms(2) by (simp add: build_route_steps_def)

definition ref_quote_env :: "unit quote_env" where
  "ref_quote_env = \<lparr>qe_view = ref_view, qe_ln = (\<lambda>x. x), qe_powf = (\<lambda>x y. x), qe_now = 1000\<rparr>"

lemma ref_quote_price: "f64_as_u64 (f64_round (f64_mul (f64_of_u64 100) (Finite False 1))) = 100"
  by code_simp

theorem quoted_path_builds_witness:
  "\<exists>steps slot (st' :: (unit, unit, unit) quote_state).
     build_route_steps ref_view [0] 100 st' = (Ok (Inr (steps, slot), st') :: (_, unit) result) \<and>
     steps \<noteq> [] \<and> rs_out_amount (last steps) = 99"
proof -
  obtain st' where "compute_out_amount_from_path ref_quote_env True [0] 100 100 ref_quote_state =
      (Ok (Inr (Some (99, 100)), st') :: (_, unit) result)"
    using ref_quote_price
    by (simp add: ref_quote_env_def ref_quote_state_def prepare_def edge_prepare_def edge_quote_def ref_edge_def
        ref_dex_def edge_is_valid_def cached_price_for_def diverges_def saturating_mul_def at_index_def Let_def)
  from quoted_path_builds [OF this] show ?thesis
    by (simp add: ref_quote_env_def) blast
qed

end
