(* ===== verification/Path_Cache.thy ===== *)
theory Path_Cache
  imports Routing_Types
begin

text \<open>
  The path discovery cache (\<open>PathDiscoveryCache\<close> in \<^verbatim>\<open>bin/autobahn-router/src/routing.rs\<close>):
  per mint pair and swap mode a list of discovered paths, ordered by the amount they were
  discovered for and by account bucket. The clock is a parameter. \<open>binary_search_by_key\<close> is
  the loop of the standard library; its contract on sorted slices is the locale
  \<open>slice_search\<close>.

  The theorems hold for every \<open>u64\<close> amount, also those an \<open>f64\<close> rounds: the entries
  stay ordered by their stored amount and \<open>get\<close> returns the nearest ones below and above
  the requested amount, as \<open>f64\<close> compares them. For amounts up to \<open>2^53\<close>, which are
  exact, no key is stored twice and what was inserted is found until it expires.
\<close>

subsection \<open>Binary search\<close>

datatype ordering = Less | Equal | Greater

text \<open>\<open>Ok i\<close> found, \<open>Err i\<close> not found with the place to insert.\<close>

function bsearch_loop :: "('a \<Rightarrow> ordering) \<Rightarrow> 'a list \<Rightarrow> nat \<Rightarrow> nat \<Rightarrow> (nat, nat) result" where
  "bsearch_loop cmp xs left right =
     (if left < right then
        let mid = left + (right - left) div 2 in
        case cmp (xs ! mid) of
          Less \<Rightarrow> bsearch_loop cmp xs (mid + 1) right
        | Greater \<Rightarrow> bsearch_loop cmp xs left mid
        | Equal \<Rightarrow> Ok mid
      else Err left)"
  by pat_completeness auto
termination
  by (relation "measure (\<lambda>(c, xs, l, r). r - l)") auto

declare bsearch_loop.simps [simp del]

definition binary_search_by :: "('a \<Rightarrow> ordering) \<Rightarrow> 'a list \<Rightarrow> (nat, nat) result" where
  "binary_search_by cmp xs = bsearch_loop cmp xs 0 (length xs)"

text \<open>A comparison is monotone along a slice: less, then equal, then greater.\<close>

definition cmp_sorted :: "('a \<Rightarrow> ordering) \<Rightarrow> 'a list \<Rightarrow> bool" where
  "cmp_sorted cmp xs \<longleftrightarrow> sorted_wrt (\<lambda>x y.
     (cmp y = Less \<longrightarrow> cmp x = Less) \<and> (cmp x = Greater \<longrightarrow> cmp y = Greater)) xs"

lemma cmp_sorted_nth:
  assumes "cmp_sorted cmp xs" and "i \<le> j" and "j < length xs"
  shows "cmp (xs ! j) = Less \<Longrightarrow> cmp (xs ! i) = Less"
    and "cmp (xs ! i) = Greater \<Longrightarrow> cmp (xs ! j) = Greater"
proof -
  have "i = j \<or> (cmp (xs ! j) = Less \<longrightarrow> cmp (xs ! i) = Less) \<and>
      (cmp (xs ! i) = Greater \<longrightarrow> cmp (xs ! j) = Greater)"
    using assms sorted_wrt_nth_less [OF assms(1) [unfolded cmp_sorted_def], of i j] by fastforce
  then show "cmp (xs ! j) = Less \<Longrightarrow> cmp (xs ! i) = Less"
    "cmp (xs ! i) = Greater \<Longrightarrow> cmp (xs ! j) = Greater" by auto
qed

lemma bsearch_loop_spec:
  "cmp_sorted cmp xs \<Longrightarrow> right \<le> length xs \<Longrightarrow> left \<le> right \<Longrightarrow> (\<forall>i < left. cmp (xs ! i) = Less) \<Longrightarrow>
    (\<forall>i. right \<le> i \<longrightarrow> i < length xs \<longrightarrow> cmp (xs ! i) = Greater) \<Longrightarrow>
    (case bsearch_loop cmp xs left right of
       Ok i \<Rightarrow> i < length xs \<and> cmp (xs ! i) = Equal
     | Err i \<Rightarrow> i \<le> length xs \<and> (\<forall>j < i. cmp (xs ! j) = Less) \<and>
         (\<forall>j. i \<le> j \<longrightarrow> j < length xs \<longrightarrow> cmp (xs ! j) = Greater)
     | Panic \<Rightarrow> False)"
proof (induction cmp xs left right rule: bsearch_loop.induct)
  case (1 cmp xs left right)
  show ?case
  proof (cases "left < right")
    case False
    then have "bsearch_loop cmp xs left right = Err left" by (simp add: bsearch_loop.simps [of cmp xs left right])
    then show ?thesis using "1.prems" False by simp
  next
    case True
    define mid where "mid = left + (right - left) div 2"
    have mid: "left \<le> mid" "mid < right" "mid < length xs"
      using True "1.prems"(2) by (auto simp: mid_def)
    note step = bsearch_loop.simps [of cmp xs left right, folded mid_def]
    show ?thesis
    proof (cases "cmp (xs ! mid)")
      case Less
      have "\<forall>i < mid + 1. cmp (xs ! i) = Less"
        using cmp_sorted_nth(1) [OF "1.prems"(1) _ mid(3) Less] by simp
      then show ?thesis
        using "1.IH"(1) [OF True mid_def Less "1.prems"(1,2)] "1.prems"(5) mid True Less
        by (simp add: step Let_def mid_def [symmetric])
    next
      case Equal
      then show ?thesis using mid True by (simp add: step Let_def mid_def [symmetric])
    next
      case Greater
      have "\<forall>i. mid \<le> i \<longrightarrow> i < length xs \<longrightarrow> cmp (xs ! i) = Greater"
        using cmp_sorted_nth(2) [OF "1.prems"(1) _ _ Greater] by simp
      then show ?thesis
        using "1.IH"(2) [OF True mid_def Greater "1.prems"(1)] "1.prems"(4) mid True Greater
        by (simp add: step Let_def mid_def [symmetric])
    qed
  qed
qed

text \<open>Where the comparison only goes with an order of the slice, not strictly along it, the
  search still ends at a place with everything before it low and everything from it on
  high.\<close>

definition cmp_brackets :: "('a \<Rightarrow> ordering) \<Rightarrow> ('a \<Rightarrow> bool) \<Rightarrow> ('a \<Rightarrow> bool) \<Rightarrow> 'a list \<Rightarrow> bool" where
  "cmp_brackets cmp low high xs \<longleftrightarrow>
     sorted_wrt (\<lambda>x y. (low y \<longrightarrow> low x) \<and> (high x \<longrightarrow> high y)) xs \<and>
     (\<forall>x \<in> set xs. (cmp x \<noteq> Greater \<longrightarrow> low x) \<and> (cmp x \<noteq> Less \<longrightarrow> high x))"

lemma cmp_brackets_nth:
  assumes "cmp_brackets cmp low high xs" and "i \<le> j" and "j < length xs"
  shows "low (xs ! j) \<Longrightarrow> low (xs ! i)" and "high (xs ! i) \<Longrightarrow> high (xs ! j)"
proof -
  have "i = j \<or> (low (xs ! j) \<longrightarrow> low (xs ! i)) \<and> (high (xs ! i) \<longrightarrow> high (xs ! j))"
    using assms sorted_wrt_nth_less [of _ xs i j] unfolding cmp_brackets_def by fastforce
  then show "low (xs ! j) \<Longrightarrow> low (xs ! i)" "high (xs ! i) \<Longrightarrow> high (xs ! j)" by auto
qed

lemma bsearch_loop_brackets:
  "cmp_brackets cmp low high xs \<Longrightarrow> right \<le> length xs \<Longrightarrow> left \<le> right \<Longrightarrow>
    (\<forall>i < left. low (xs ! i)) \<Longrightarrow> (\<forall>i. right \<le> i \<longrightarrow> i < length xs \<longrightarrow> high (xs ! i)) \<Longrightarrow>
    \<exists>i. (bsearch_loop cmp xs left right = Ok i \<and> i < length xs \<and> low (xs ! i) \<or>
         bsearch_loop cmp xs left right = Err i) \<and> i \<le> length xs \<and>
      (\<forall>j < i. low (xs ! j)) \<and> (\<forall>j. i \<le> j \<longrightarrow> j < length xs \<longrightarrow> high (xs ! j))"
proof (induction cmp xs left right rule: bsearch_loop.induct)
  case (1 cmp xs left right)
  show ?case
  proof (cases "left < right")
    case False
    then have "bsearch_loop cmp xs left right = Err left" by (simp add: bsearch_loop.simps [of cmp xs left right])
    then show ?thesis using "1.prems" False by simp
  next
    case True
    define mid where "mid = left + (right - left) div 2"
    have mid: "left \<le> mid" "mid < right" "mid < length xs"
      using True "1.prems"(2) by (auto simp: mid_def)
    note step = bsearch_loop.simps [of cmp xs left right, folded mid_def]
    have at: "cmp (xs ! mid) \<noteq> Greater \<Longrightarrow> low (xs ! mid)" "cmp (xs ! mid) \<noteq> Less \<Longrightarrow> high (xs ! mid)"
      using "1.prems"(1) mid(3) by (auto simp: cmp_brackets_def)
    have low: "\<forall>i < mid + 1. low (xs ! i)" if "cmp (xs ! mid) \<noteq> Greater"
      using cmp_brackets_nth(1) [OF "1.prems"(1) _ mid(3) at(1) [OF that]] by simp
    have high: "\<forall>i. mid \<le> i \<longrightarrow> i < length xs \<longrightarrow> high (xs ! i)" if "cmp (xs ! mid) \<noteq> Less"
      using cmp_brackets_nth(2) [OF "1.prems"(1) _ _ at(2) [OF that]] by simp
    show ?thesis
    proof (cases "cmp (xs ! mid)")
      case Less
      then show ?thesis
        using "1.IH"(1) [OF True mid_def Less "1.prems"(1,2)] "1.prems"(5) low mid True
        by (simp add: step Let_def mid_def [symmetric])
    next
      case Equal
      then show ?thesis using mid True low high
        by (simp add: step Let_def mid_def [symmetric])
    next
      case Greater
      then show ?thesis
        using "1.IH"(2) [OF True mid_def Greater "1.prems"(1)] "1.prems"(4) high mid True
        by (simp add: step Let_def mid_def [symmetric])
    qed
  qed
qed

locale slice_search =
  fixes search :: "('a \<Rightarrow> ordering) \<Rightarrow> 'a list \<Rightarrow> (nat, nat) result"
  assumes found: "cmp_sorted cmp xs \<Longrightarrow> search cmp xs = Ok i \<Longrightarrow>
      i < length xs \<and> cmp (xs ! i) = Equal"
    and missing: "cmp_sorted cmp xs \<Longrightarrow> search cmp xs = Err i \<Longrightarrow>
      i \<le> length xs \<and> (\<forall>j < i. cmp (xs ! j) = Less) \<and>
      (\<forall>j. i \<le> j \<longrightarrow> j < length xs \<longrightarrow> cmp (xs ! j) = Greater)"
    and total: "cmp_sorted cmp xs \<Longrightarrow> search cmp xs \<noteq> Panic"
    and bracket: "cmp_brackets cmp low high xs \<Longrightarrow>
      \<exists>i. (search cmp xs = Ok i \<and> i < length xs \<and> low (xs ! i) \<or> search cmp xs = Err i) \<and>
        i \<le> length xs \<and> (\<forall>j < i. low (xs ! j)) \<and> (\<forall>j. i \<le> j \<longrightarrow> j < length xs \<longrightarrow> high (xs ! j))"

interpretation rust_search: slice_search binary_search_by
proof unfold_locales
  fix cmp :: "'b \<Rightarrow> ordering" and xs i
  assume "cmp_sorted cmp xs"
  note spec = bsearch_loop_spec [OF this, of "length xs" 0, folded binary_search_by_def, simplified]
  from spec show "binary_search_by cmp xs = Ok i \<Longrightarrow> i < length xs \<and> cmp (xs ! i) = Equal"
    "binary_search_by cmp xs = Err i \<Longrightarrow> i \<le> length xs \<and> (\<forall>j < i. cmp (xs ! j) = Less) \<and>
      (\<forall>j. i \<le> j \<longrightarrow> j < length xs \<longrightarrow> cmp (xs ! j) = Greater)"
    "binary_search_by cmp xs \<noteq> Panic"
    by (auto split: result.splits)
next
  fix cmp :: "'b \<Rightarrow> ordering" and low high xs
  assume "cmp_brackets cmp low high xs"
  from bsearch_loop_brackets [OF this, of "length xs" 0]
  show "\<exists>i. (binary_search_by cmp xs = Ok i \<and> i < length xs \<and> low (xs ! i) \<or>
        binary_search_by cmp xs = Err i) \<and>
      i \<le> length xs \<and> (\<forall>j < i. low (xs ! j)) \<and> (\<forall>j. i \<le> j \<longrightarrow> j < length xs \<longrightarrow> high (xs ! j))"
    by (simp add: binary_search_by_def)
qed

subsection \<open>The cache\<close>

record cache_entry =
  ce_timestamp :: u64
  ce_in_amount :: f64
  ce_max_account :: nat
  ce_edges :: "edge_index list list"

type_synonym cache_key = "mint_node \<times> mint_node \<times> swap_mode"

record path_discovery_cache =
  pdc_cache :: "cache_key \<rightharpoonup> cache_entry list"
  last_expire :: u64
  max_age :: u64

definition fresh_entry :: "u64 \<Rightarrow> u64 \<Rightarrow> cache_entry \<Rightarrow> bool" where
  "fresh_entry now age entry \<longleftrightarrow> ce_timestamp entry > now \<or> now - ce_timestamp entry < age"

definition expire_old :: "u64 \<Rightarrow> path_discovery_cache \<Rightarrow> (path_discovery_cache, 'x) result" where
  "expire_old now c =
     rbind (psub now (last_expire c)) (\<lambda>elapsed.
     if elapsed < 1000 then Ok c
     else Ok (c\<lparr>pdc_cache := (\<lambda>k. case pdc_cache c k of None \<Rightarrow> None
            | Some entries \<Rightarrow> (let kept = filter (fresh_entry now (max_age c)) entries in
                if kept = [] then None else Some kept)),
          last_expire := now\<rparr>))"

definition expire_old_by_key :: "u64 \<Rightarrow> u64 \<Rightarrow> cache_entry list \<Rightarrow> cache_entry list" where
  "expire_old_by_key now age entries = filter (fresh_entry now age) entries"

definition compute_account_bucket :: "nat \<Rightarrow> nat" where
  "compute_account_bucket max_accounts = max_accounts div 5"

definition entry_key :: "cache_entry \<Rightarrow> u64 \<times> nat" where
  "entry_key x = (f64_as_u64 (f64_round (ce_in_amount x)), ce_max_account x)"

fun cmp_key :: "u64 \<times> nat \<Rightarrow> u64 \<times> nat \<Rightarrow> ordering" where
  "cmp_key (a, b) (c, d) =
     (if a < c \<or> (a = c \<and> b < d) then Less else if a = c \<and> b = d then Equal else Greater)"

definition entries_insert :: "u64 \<Rightarrow> nat \<Rightarrow> cache_entry \<Rightarrow> cache_entry list \<Rightarrow> cache_entry list" where
  "entries_insert in_amount bucket new_elem entries =
     (let pos = (case binary_search_by (\<lambda>x. cmp_key (entry_key x) (in_amount, bucket)) entries of
                   Ok i \<Rightarrow> i | Err i \<Rightarrow> i | Panic \<Rightarrow> 0) in
      if pos < length entries \<and> ce_max_account (entries ! pos) = bucket \<and>
         f64_as_u64 (f64_round (ce_in_amount (entries ! pos))) = in_amount
      then entries[pos := new_elem]
      else take pos entries @ [new_elem] @ drop pos entries)"

definition cache_insert ::
    "mint_node \<Rightarrow> mint_node \<Rightarrow> swap_mode \<Rightarrow> u64 \<Rightarrow> nat \<Rightarrow> u64 \<Rightarrow> edge_index list list \<Rightarrow>
     path_discovery_cache \<Rightarrow> path_discovery_cache" where
  "cache_insert from_node to_node mode in_amount max_accounts timestamp edges c =
     (let bucket = compute_account_bucket max_accounts;
          key = (from_node, to_node, mode);
          entries = (case pdc_cache c key of None \<Rightarrow> [] | Some es \<Rightarrow> es);
          new_elem = \<lparr>ce_timestamp = timestamp, ce_in_amount = f64_of_u64 in_amount,
            ce_max_account = bucket, ce_edges = edges\<rparr> in
      c\<lparr>pdc_cache := (pdc_cache c)(key \<mapsto> entries_insert in_amount bucket new_elem entries)\<rparr>)"

text \<open>The loop of \<open>get\<close>: the last entry not above the amount, the first above it.\<close>

fun get_loop ::
    "nat \<Rightarrow> f64 \<Rightarrow> edge_index list list option \<Rightarrow> cache_entry list \<Rightarrow>
     edge_index list list option \<times> edge_index list list option" where
  "get_loop bucket amount lower [] = (lower, None)"
| "get_loop bucket amount lower (x # xs) =
     (if ce_max_account x \<noteq> bucket then get_loop bucket amount lower xs
      else
        let lower = (if f64_le (ce_in_amount x) amount then Some (ce_edges x) else lower) in
        if f64_less amount (ce_in_amount x) then (lower, Some (ce_edges x))
        else get_loop bucket amount lower xs)"

definition cache_get ::
    "u64 \<Rightarrow> mint_node \<Rightarrow> mint_node \<Rightarrow> swap_mode \<Rightarrow> u64 \<Rightarrow> nat \<Rightarrow> path_discovery_cache \<Rightarrow>
     (edge_index list list option \<times> edge_index list list option) \<times> path_discovery_cache" where
  "cache_get now from_node to_node mode in_amount max_accounts c =
     (let key = (from_node, to_node, mode) in
      case pdc_cache c key of
        None \<Rightarrow> ((None, None), c)
      | Some entries \<Rightarrow>
          (let entries = expire_old_by_key now (max_age c) entries in
           (get_loop (compute_account_bucket max_accounts) (f64_of_u64 in_amount) None entries,
            c\<lparr>pdc_cache := (pdc_cache c)(key \<mapsto> entries)\<rparr>)))"

definition cache_invalidate ::
    "mint_node \<Rightarrow> mint_node \<Rightarrow> nat \<Rightarrow> path_discovery_cache \<Rightarrow> path_discovery_cache" where
  "cache_invalidate from_node to_node max_accounts c =
     (let bucket = compute_account_bucket max_accounts;
          drop_bucket = filter (\<lambda>x. ce_max_account x \<noteq> bucket) in
      case pdc_cache c (from_node, to_node, ExactIn) of
        None \<Rightarrow> c
      | Some entries \<Rightarrow>
          (let c = c\<lparr>pdc_cache := (pdc_cache c)((from_node, to_node, ExactIn) \<mapsto> drop_bucket entries)\<rparr> in
           case pdc_cache c (from_node, to_node, ExactOut) of
             None \<Rightarrow> c
           | Some entries \<Rightarrow>
               c\<lparr>pdc_cache := (pdc_cache c)((from_node, to_node, ExactOut) \<mapsto> drop_bucket entries)\<rparr>))"

subsection \<open>The order of the entries\<close>

text \<open>Amounts are stored as \<open>f64\<close>; in every list they only go up, with duplicates where
  several \<open>u64\<close> amounts round to the same float.\<close>

definition entries_ok :: "cache_entry list \<Rightarrow> bool" where
  "entries_ok es \<longleftrightarrow> sorted_wrt (\<lambda>x y. f64_le (ce_in_amount x) (ce_in_amount y)) es \<and>
     (\<forall>x \<in> set es. \<exists>a. ce_in_amount x = f64_of_u64 a)"

definition cache_ok :: "path_discovery_cache \<Rightarrow> bool" where
  "cache_ok c \<longleftrightarrow> (\<forall>k es. pdc_cache c k = Some es \<longrightarrow> entries_ok es)"

lemma entries_ok_Nil [simp]: "entries_ok []"
  by (simp add: entries_ok_def)

lemma entries_ok_filter: "entries_ok es \<Longrightarrow> entries_ok (filter P es)"
  by (auto simp: entries_ok_def sorted_wrt_filter)

lemma entries_brackets:
  assumes "entries_ok es"
  shows "cmp_brackets (\<lambda>x. cmp_key (entry_key x) (a, b)) (\<lambda>x. f64_le (ce_in_amount x) (f64_of_u64 a))
    (\<lambda>x. f64_le (f64_of_u64 a) (ce_in_amount x)) es"
proof -
  have "sorted_wrt (\<lambda>x y. f64_le (ce_in_amount x) (ce_in_amount y)) es"
    using assms by (simp add: entries_ok_def)
  then have s: "sorted_wrt (\<lambda>x y.
      (f64_le (ce_in_amount y) (f64_of_u64 a) \<longrightarrow> f64_le (ce_in_amount x) (f64_of_u64 a)) \<and>
      (f64_le (f64_of_u64 a) (ce_in_amount x) \<longrightarrow> f64_le (f64_of_u64 a) (ce_in_amount y))) es"
    by (rule sorted_wrt_mono_rel [rotated]) (blast intro: f64_le_trans)
  have "(cmp_key (entry_key x) (a, b) \<noteq> Greater \<longrightarrow> f64_le (ce_in_amount x) (f64_of_u64 a)) \<and>
      (cmp_key (entry_key x) (a, b) \<noteq> Less \<longrightarrow> f64_le (f64_of_u64 a) (ce_in_amount x))"
    if "x \<in> set es" for x
  proof -
    from assms that have "\<exists>c. ce_in_amount x = f64_of_u64 c" by (simp add: entries_ok_def)
    then obtain c where c: "ce_in_amount x = f64_of_u64 c" by blast
    have "cmp_key (entry_key x) (a, b) \<noteq> Greater \<Longrightarrow> f64_as_u64 (f64_round (f64_of_u64 c)) \<le> a"
      "cmp_key (entry_key x) (a, b) \<noteq> Less \<Longrightarrow> a \<le> f64_as_u64 (f64_round (f64_of_u64 c))"
      by (auto simp: entry_key_def c split: if_splits)
    then show ?thesis using f64_cast_compare(1) [of c a] f64_cast_compare(2) [of a c] c by auto
  qed
  with s show ?thesis by (simp add: cmp_brackets_def)
qed

lemma entries_insert_ok:
  assumes ok: "entries_ok es" and new: "ce_in_amount new = f64_of_u64 a"
  shows "entries_ok (entries_insert a b new es)"
proof -
  let ?cmp = "\<lambda>x. cmp_key (entry_key x) (a, b)" and ?v = "f64_of_u64 a"
  obtain i where i: "binary_search_by ?cmp es = Ok i \<and> i < length es \<and> f64_le (ce_in_amount (es ! i)) ?v \<or>
      binary_search_by ?cmp es = Err i" "i \<le> length es"
    "\<forall>j < i. f64_le (ce_in_amount (es ! j)) ?v"
    "\<forall>j. i \<le> j \<longrightarrow> j < length es \<longrightarrow> f64_le ?v (ce_in_amount (es ! j))"
    using rust_search.bracket [OF entries_brackets [OF ok, of a b]] by blast
  have lo: "\<forall>x \<in> set (take i es). f64_le (ce_in_amount x) ?v"
    using i(2,3) by (auto simp: in_set_conv_nth)
  have hi: "\<forall>z \<in> set (drop k es). f64_le ?v (ce_in_amount z)" if "i \<le> k" for k
    using i(4) that by (auto simp: in_set_conv_nth)
  have dist: "\<forall>x \<in> set es. \<exists>c. ce_in_amount x = f64_of_u64 c"
    and sorted: "sorted_wrt (\<lambda>x y. f64_le (ce_in_amount x) (ce_in_amount y)) es"
    using ok by (simp_all add: entries_ok_def)
  have join: "entries_ok (take i es @ [new] @ drop k es)" if "i \<le> k" for k
  proof -
    have "sorted_wrt (\<lambda>x y. f64_le (ce_in_amount x) (ce_in_amount y)) (take i es)"
      "sorted_wrt (\<lambda>x y. f64_le (ce_in_amount x) (ce_in_amount y)) (drop k es)"
      using sorted by (simp_all add: sorted_wrt_take sorted_wrt_drop)
    moreover have "\<forall>x \<in> set (take i es @ drop k es). \<exists>c. ce_in_amount x = f64_of_u64 c"
      using dist by (auto dest: in_set_takeD in_set_dropD)
    ultimately show ?thesis
      using lo hi [OF that] new by (auto simp: entries_ok_def sorted_wrt_append intro: f64_le_trans)
  qed
  have "entries_insert a b new es = take i es @ [new] @ drop i es \<or>
      (i < length es \<and> entries_insert a b new es = es[i := new])"
    using i(1) by (elim disjE) (simp_all add: entries_insert_def)
  then show ?thesis using join [of i] join [of "Suc i"] by (auto simp: upd_conv_take_nth_drop)
qed

subsection \<open>Lookup\<close>

abbreviation below :: "nat \<Rightarrow> u64 \<Rightarrow> cache_entry \<Rightarrow> bool" where
  "below b a x \<equiv> ce_max_account x = b \<and> f64_le (ce_in_amount x) (f64_of_u64 a)"

abbreviation above :: "nat \<Rightarrow> u64 \<Rightarrow> cache_entry \<Rightarrow> bool" where
  "above b a x \<equiv> ce_max_account x = b \<and> f64_less (f64_of_u64 a) (ce_in_amount x)"

text \<open>The loop computes the last entry at or below the amount and the first above it.\<close>

lemma get_loop_spec:
  assumes "entries_ok es"
  shows "get_loop b (f64_of_u64 a) lower es =
    (case filter (below b a) es of [] \<Rightarrow> lower | y # ys \<Rightarrow> Some (ce_edges (last (y # ys))),
     case filter (above b a) es of [] \<Rightarrow> None | y # ys \<Rightarrow> Some (ce_edges y))"
  using assms
proof (induction es arbitrary: lower)
  case (Cons x es)
  have es: "entries_ok es" using Cons.prems by (auto simp: entries_ok_def)
  from Cons.prems have "\<exists>c. ce_in_amount x = f64_of_u64 c" by (simp add: entries_ok_def)
  then obtain c where c: "ce_in_amount x = f64_of_u64 c" by blast
  have cmp: "f64_le (ce_in_amount x) (f64_of_u64 a) \<longleftrightarrow> \<not> f64_less (f64_of_u64 a) (ce_in_amount x)"
    using f64_not_less [of "f64_of_u64 a" "ce_in_amount x"] c by simp
  have up: "filter (below b a) es = []" if "f64_less (f64_of_u64 a) (ce_in_amount x)"
  proof -
    have "f64_less (f64_of_u64 a) (ce_in_amount y)" if "y \<in> set es" for y
    proof -
      have "f64_le (ce_in_amount x) (ce_in_amount y)" using Cons.prems that by (auto simp: entries_ok_def)
      moreover from es that have "\<exists>d. ce_in_amount y = f64_of_u64 d" by (simp add: entries_ok_def)
      ultimately show ?thesis
        using \<open>f64_less (f64_of_u64 a) (ce_in_amount x)\<close> cmp f64_not_less [of "f64_of_u64 a" "ce_in_amount y"]
          f64_le_trans by auto
    qed
    then have "\<not> f64_le (ce_in_amount y) (f64_of_u64 a)" if "y \<in> set es" for y
      using f64_not_less f64_less_not_nan that by blast
    then show ?thesis by (simp add: filter_empty_conv)
  qed
  show ?case
  proof (cases "ce_max_account x = b")
    case False
    then show ?thesis using Cons.IH [OF es, of lower] by simp
  next
    case b: True
    show ?thesis
    proof (cases "f64_less (f64_of_u64 a) (ce_in_amount x)")
      case True
      then show ?thesis using b cmp up by simp
    next
      case False
      then show ?thesis using Cons.IH [OF es, of "Some (ce_edges x)"] b cmp
        by (auto split: list.splits)
    qed
  qed
qed simp

text \<open>The nearest entries, as sets see it.\<close>

definition nearest_below :: "cache_entry list \<Rightarrow> nat \<Rightarrow> u64 \<Rightarrow> cache_entry option \<Rightarrow> bool" where
  "nearest_below es b a r = (let S = {x \<in> set es. below b a x} in
     case r of None \<Rightarrow> S = {}
     | Some x \<Rightarrow> x \<in> S \<and> (\<forall>y \<in> S. f64_le (ce_in_amount y) (ce_in_amount x)))"

definition nearest_above :: "cache_entry list \<Rightarrow> nat \<Rightarrow> u64 \<Rightarrow> cache_entry option \<Rightarrow> bool" where
  "nearest_above es b a r = (let S = {x \<in> set es. above b a x} in
     case r of None \<Rightarrow> S = {}
     | Some x \<Rightarrow> x \<in> S \<and> (\<forall>y \<in> S. f64_le (ce_in_amount x) (ce_in_amount y)))"

lemma entries_ok_last_max:
  "entries_ok es \<Longrightarrow> z \<in> set es \<Longrightarrow> f64_le (ce_in_amount z) (ce_in_amount (last es))"
  by (induction es rule: rev_induct) (auto simp: entries_ok_def sorted_wrt_append)

lemma entries_ok_first_min:
  "entries_ok (y # ys) \<Longrightarrow> z \<in> set (y # ys) \<Longrightarrow> f64_le (ce_in_amount y) (ce_in_amount z)"
  by (auto simp: entries_ok_def)

lemma get_loop_nearest:
  assumes "entries_ok es"
  shows "\<exists>lo hi. get_loop b (f64_of_u64 a) None es = (map_option ce_edges lo, map_option ce_edges hi) \<and>
    nearest_below es b a lo \<and> nearest_above es b a hi"
proof -
  let ?lo = "filter (below b a) es" and ?hi = "filter (above b a) es"
  let ?l = "case ?lo of [] \<Rightarrow> None | y # ys \<Rightarrow> Some (last (y # ys))"
  let ?h = "case ?hi of [] \<Rightarrow> None | y # ys \<Rightarrow> Some y"
  note ok = entries_ok_filter [OF assms]
  have "nearest_below es b a ?l"
  proof (cases ?lo)
    case Nil
    then show ?thesis by (auto simp: nearest_below_def filter_empty_conv)
  next
    case (Cons y ys)
    have set: "set (y # ys) = {x \<in> set es. below b a x}" by (subst Cons [symmetric]) auto
    show ?thesis using entries_ok_last_max [OF ok [of "below b a", unfolded Cons]] last_in_set [of "y # ys"]
      unfolding nearest_below_def Let_def set [symmetric] Cons by simp
  qed
  moreover have "nearest_above es b a ?h"
  proof (cases ?hi)
    case Nil
    then show ?thesis by (auto simp: nearest_above_def filter_empty_conv)
  next
    case (Cons y ys)
    have set: "set (y # ys) = {x \<in> set es. above b a x}" by (subst Cons [symmetric]) auto
    show ?thesis using entries_ok_first_min [OF ok [of "above b a", unfolded Cons]]
      unfolding nearest_above_def Let_def set [symmetric] Cons by simp
  qed
  moreover have "get_loop b (f64_of_u64 a) None es = (map_option ce_edges ?l, map_option ce_edges ?h)"
    unfolding get_loop_spec [OF assms] by (simp split: list.splits)
  ultimately show ?thesis by blast
qed

subsection \<open>Properties\<close>

lemma cache_ok_insert:
  assumes "cache_ok c"
  shows "cache_ok (cache_insert f t m a accounts ts edges c)"
proof -
  have "entries_ok (case pdc_cache c (f, t, m) of None \<Rightarrow> [] | Some es \<Rightarrow> es)"
    using assms by (auto simp: cache_ok_def split: option.splits)
  from entries_insert_ok [OF this, of _ a] assms show ?thesis
    by (simp add: cache_ok_def cache_insert_def Let_def)
qed

lemma cache_ok_others:
  assumes "cache_ok c"
  shows "cache_ok (snd (cache_get now f t m a accounts c))"
    and "cache_ok (cache_invalidate f t accounts c)"
    and "expire_old now c = (Ok c' :: (_, 'x) result) \<Longrightarrow> cache_ok c'"
  using assms
  by (auto simp: cache_ok_def cache_get_def cache_invalidate_def expire_old_def expire_old_by_key_def
      Let_def entries_ok_filter split: option.splits if_splits)

text \<open>The operations the router calls, on any amounts.\<close>

inductive cache_reach :: "path_discovery_cache \<Rightarrow> bool" where
  empty: "cache_reach \<lparr>pdc_cache = Map.empty, last_expire = 0, max_age = age\<rparr>"
| inserted: "cache_reach c \<Longrightarrow> cache_reach (cache_insert f t m a accounts ts edges c)"
| read: "cache_reach c \<Longrightarrow> cache_reach (snd (cache_get now f t m a accounts c))"
| invalidated: "cache_reach c \<Longrightarrow> cache_reach (cache_invalidate f t accounts c)"
| expired: "cache_reach c \<Longrightarrow> expire_old now c = (Ok c' :: (_, unit) result) \<Longrightarrow> cache_reach c'"

lemma cache_reach_ok: "cache_reach c \<Longrightarrow> cache_ok c"
  by (induction rule: cache_reach.induct)
    (auto intro: cache_ok_insert cache_ok_others
      simp: cache_ok_def [of "\<lparr>pdc_cache = _, last_expire = _, max_age = _\<rparr>"])

text \<open>
  C11 (cache_get_nearest). In every cache the router can build, by inserts of any \<open>u64\<close>
  amounts, lookups, invalidations and expiry, a lookup for any amount returns the paths of
  an entry with the largest stored amount not above the requested one and of one with the
  smallest stored amount above it (stored and requested amounts compared as the \<open>f64\<close> the
  code converts them to), among the entries of the pair, mode and account bucket that have
  not expired; each is missing only if there is no such entry.
\<close>

theorem cache_get_nearest:
  assumes "cache_reach c"
  shows "\<exists>lo hi. fst (cache_get now f t m a accounts c) = (map_option ce_edges lo, map_option ce_edges hi) \<and>
    nearest_below (filter (fresh_entry now (max_age c)) (case pdc_cache c (f, t, m) of None \<Rightarrow> [] | Some es \<Rightarrow> es))
      (accounts div 5) a lo \<and>
    nearest_above (filter (fresh_entry now (max_age c)) (case pdc_cache c (f, t, m) of None \<Rightarrow> [] | Some es \<Rightarrow> es))
      (accounts div 5) a hi"
proof (cases "pdc_cache c (f, t, m)")
  case None
  then show ?thesis
    by (intro exI [of _ None]) (simp add: cache_get_def nearest_below_def nearest_above_def)
next
  case (Some es)
  then have "entries_ok (filter (fresh_entry now (max_age c)) es)"
    using cache_reach_ok [OF assms] entries_ok_filter by (auto simp: cache_ok_def)
  from get_loop_nearest [OF this, of "accounts div 5" a] Some show ?thesis
    by (simp add: cache_get_def expire_old_by_key_def compute_account_bucket_def Let_def)
qed

text \<open>Two entries, inserted out of order; the second amount is above \<open>2^53\<close> and is stored
  as the even number below it.\<close>

definition ref_entry :: "u64 \<Rightarrow> edge_index list list \<Rightarrow> cache_entry" where
  "ref_entry a edges = \<lparr>ce_timestamp = 1000, ce_in_amount = f64_of_u64 a, ce_max_account = 8,
     ce_edges = edges\<rparr>"

definition ref_cache :: path_discovery_cache where
  "ref_cache = cache_insert 0 1 ExactIn 100 40 1000 [[7]]
     (cache_insert 0 1 ExactIn (2 ^ 53 + 1) 40 1000 [[8], [9]]
       \<lparr>pdc_cache = Map.empty, last_expire = 0, max_age = 30000\<rparr>)"

lemma ref_cache_reach: "cache_reach ref_cache"
  unfolding ref_cache_def by (intro cache_reach.inserted cache_reach.empty)

lemma ref_cache_entries:
  "pdc_cache ref_cache (0, 1, ExactIn) = Some [ref_entry 100 [[7]], ref_entry (2 ^ 53 + 1) [[8], [9]]]"
  "max_age ref_cache = 30000"
proof -
  have "pdc_cache (cache_insert 0 1 ExactIn (2 ^ 53 + 1) 40 1000 [[8], [9]]
      \<lparr>pdc_cache = Map.empty, last_expire = 0, max_age = 30000\<rparr>) (0, 1, ExactIn) =
    Some [ref_entry (2 ^ 53 + 1) [[8], [9]]]"
    by (simp add: cache_insert_def entries_insert_def binary_search_by_def bsearch_loop.simps
        compute_account_bucket_def ref_entry_def Let_def)
  moreover have "100 < f64_as_u64 (f64_round (f64_of_u64 (2 ^ 53 + 1)))"
  proof (rule ccontr)
    assume "\<not> 100 < f64_as_u64 (f64_round (f64_of_u64 (2 ^ 53 + 1)))"
    then have "f64_as_u64 (f64_round (f64_of_u64 (2 ^ 53 + 1))) \<le> 100" by simp
    then have "f64_le (f64_of_u64 (2 ^ 53 + 1)) (f64_of_u64 100)" by (rule f64_cast_compare)
    moreover have "f64_le (f64_of_u64 (2 ^ 53)) (f64_of_u64 (2 ^ 53 + 1))"
      by (rule f64_of_u64_mono) simp
    ultimately have "f64_le (f64_of_u64 (2 ^ 53)) (f64_of_u64 100)" using f64_le_trans by blast
    then show False by (simp add: f64_of_u64_exact f64_le_def)
  qed
  ultimately show "pdc_cache ref_cache (0, 1, ExactIn) =
      Some [ref_entry 100 [[7]], ref_entry (2 ^ 53 + 1) [[8], [9]]]"
    by (simp add: ref_cache_def cache_insert_def [of 0 1 ExactIn 100] entries_insert_def
        binary_search_by_def bsearch_loop.simps compute_account_bucket_def ref_entry_def
        entry_key_def Let_def not_less_iff_gr_or_eq)
  show "max_age ref_cache = 30000" by (simp add: ref_cache_def cache_insert_def Let_def)
qed

theorem cache_get_nearest_witness:
  "fst (cache_get 2000 0 1 ExactIn 300 40 ref_cache) = (Some [[7]], Some [[8], [9]])"
proof -
  let ?lo = "ref_entry 100 [[7]]" and ?hi = "ref_entry (2 ^ 53 + 1) [[8], [9]]"
  obtain lo hi where r: "fst (cache_get 2000 0 1 ExactIn 300 40 ref_cache) =
      (map_option ce_edges lo, map_option ce_edges hi)"
    and n: "nearest_below [?lo, ?hi] 8 300 lo" "nearest_above [?lo, ?hi] 8 300 hi"
    using cache_get_nearest [OF ref_cache_reach, of 2000 0 1 ExactIn 300 40]
    by (auto simp: ref_cache_entries fresh_entry_def ref_entry_def)
  have lo: "f64_le (f64_of_u64 100) (f64_of_u64 300)" by (rule f64_of_u64_mono) simp
  have "f64_less (f64_of_u64 300) (f64_of_u64 (2 ^ 53))" by (simp add: f64_of_u64_exact)
  moreover have "f64_le (f64_of_u64 (2 ^ 53)) (f64_of_u64 (2 ^ 53 + 1))" by (rule f64_of_u64_mono) simp
  ultimately have hi: "f64_less (f64_of_u64 300) (f64_of_u64 (2 ^ 53 + 1))"
    using f64_not_less [of "f64_of_u64 300" "f64_of_u64 (2 ^ 53)"]
      f64_not_less [of "f64_of_u64 300" "f64_of_u64 (2 ^ 53 + 1)"] f64_le_trans by fastforce
  then have nhi: "\<not> f64_le (f64_of_u64 (2 ^ 53 + 1)) (f64_of_u64 300)"
    using f64_not_less [of "f64_of_u64 300" "f64_of_u64 (2 ^ 53 + 1)"] by simp
  have nlo: "\<not> f64_less (f64_of_u64 300) (f64_of_u64 100)"
    using f64_not_less [of "f64_of_u64 300" "f64_of_u64 100"] lo by simp
  have "{x \<in> set [?lo, ?hi]. below 8 300 x} = {?lo}" "{x \<in> set [?lo, ?hi]. above 8 300 x} = {?hi}"
    using lo hi nhi nlo by (auto simp: ref_entry_def)
  then have "lo = Some ?lo" "hi = Some ?hi"
    using n unfolding nearest_below_def nearest_above_def Let_def by (auto split: option.splits)
  then show ?thesis using r by (simp add: ref_entry_def)
qed

subsection \<open>Exact amounts: strictly ordered keys\<close>

definition key_less :: "u64 \<times> nat \<Rightarrow> u64 \<times> nat \<Rightarrow> bool" where
  "key_less p q \<longleftrightarrow> fst p < fst q \<or> (fst p = fst q \<and> snd p < snd q)"

text \<open>Amounts up to \<open>2^53\<close> native units are exact.\<close>

definition exact_amount :: "u64 \<Rightarrow> bool" where
  "exact_amount a \<longleftrightarrow> unat a \<le> 2 ^ 53"

definition entries_exact :: "cache_entry list \<Rightarrow> bool" where
  "entries_exact es \<longleftrightarrow> sorted_wrt (\<lambda>x y. key_less (entry_key x) (entry_key y)) es \<and>
     (\<forall>x \<in> set es. \<exists>a. exact_amount a \<and> ce_in_amount x = f64_of_u64 a)"

lemma key_less_trans: "key_less p q \<Longrightarrow> key_less q r \<Longrightarrow> key_less p r"
  by (auto simp: key_less_def)

lemma key_less_irrefl: "\<not> key_less p p"
  by (simp add: key_less_def)

lemma cmp_key_iff:
  "cmp_key p q = Less \<longleftrightarrow> key_less p q" "cmp_key p q = Equal \<longleftrightarrow> p = q"
  "cmp_key p q = Greater \<longleftrightarrow> key_less q p"
  by (cases p; cases q; auto simp: key_less_def)+

lemma entries_cmp_sorted:
  "sorted_wrt (\<lambda>x y. key_less (entry_key x) (entry_key y)) es \<Longrightarrow>
     cmp_sorted (\<lambda>x. cmp_key (entry_key x) k) es"
  unfolding cmp_sorted_def cmp_key_iff
  by (erule sorted_wrt_mono_rel [rotated]) (blast intro: key_less_trans)

lemma entry_key_exact:
  "exact_amount a \<Longrightarrow> ce_in_amount x = f64_of_u64 a \<Longrightarrow> entry_key x = (a, ce_max_account x)"
  by (simp add: entry_key_def exact_amount_def f64_round_trips)

text \<open>Insertion splits the list at the key.\<close>

lemma entries_insert_split:
  assumes "sorted_wrt (\<lambda>x y. key_less (entry_key x) (entry_key y)) es"
  shows "\<exists>xs old zs. es = xs @ old @ zs \<and> entries_insert a b new es = xs @ [new] @ zs \<and>
    (old = [] \<or> (\<exists>y. old = [y] \<and> entry_key y = (a, b))) \<and>
    (\<forall>x \<in> set xs. key_less (entry_key x) (a, b)) \<and> (\<forall>z \<in> set zs. key_less (a, b) (entry_key z))"
proof -
  let ?cmp = "\<lambda>x. cmp_key (entry_key x) (a, b)"
  note s = entries_cmp_sorted [OF assms, of "(a, b)"]
  have here: "ce_max_account (es ! i) = b \<and> f64_as_u64 (f64_round (ce_in_amount (es ! i))) = a \<longleftrightarrow>
      entry_key (es ! i) = (a, b)" for i by (auto simp: entry_key_def)
  show ?thesis
  proof (cases "binary_search_by ?cmp es")
    case (Ok i)
    from rust_search.found [OF s Ok] have i: "i < length es" "entry_key (es ! i) = (a, b)"
      by (simp_all add: cmp_key_iff)
    have ins: "entries_insert a b new es = es[i := new]"
      using Ok i here [of i] by (simp add: entries_insert_def)
    have split: "es = take i es @ [es ! i] @ drop (Suc i) es" using i(1) by (simp add: id_take_nth_drop)
    have "sorted_wrt (\<lambda>x y. key_less (entry_key x) (entry_key y)) (take i es @ [es ! i] @ drop (Suc i) es)"
      using assms split by simp
    then have "\<forall>x \<in> set (take i es). key_less (entry_key x) (a, b)"
      "\<forall>z \<in> set (drop (Suc i) es). key_less (a, b) (entry_key z)"
      using i(2) by (auto simp: sorted_wrt_append)
    then show ?thesis using ins split i
      by (intro exI [of _ "take i es"] exI [of _ "[es ! i]"] exI [of _ "drop (Suc i) es"])
        (simp add: upd_conv_take_nth_drop)
  next
    case (Err i)
    from rust_search.missing [OF s Err] have i: "i \<le> length es"
      "\<forall>j < i. key_less (entry_key (es ! j)) (a, b)"
      "\<forall>j. i \<le> j \<longrightarrow> j < length es \<longrightarrow> key_less (a, b) (entry_key (es ! j))"
      by (simp_all add: cmp_key_iff)
    have "entry_key (es ! i) \<noteq> (a, b)" if "i < length es" using i(3) that key_less_irrefl by auto
    then have "entries_insert a b new es = take i es @ [new] @ drop i es"
      using Err here [of i] by (auto simp: entries_insert_def)
    then show ?thesis using i
      by (intro exI [of _ "take i es"] exI [of _ "[]"] exI [of _ "drop i es"])
        (auto simp: in_set_conv_nth)
  next
    case Panic
    then show ?thesis using rust_search.total [OF s] by blast
  qed
qed

lemma entries_insert_exact:
  assumes "entries_exact es" and "exact_amount a" and "ce_in_amount new = f64_of_u64 a"
    and "ce_max_account new = b"
  shows "entries_exact (entries_insert a b new es)"
    and "set (entries_insert a b new es) = insert new {x \<in> set es. entry_key x \<noteq> (a, b)}"
proof -
  have k: "entry_key new = (a, b)" using entry_key_exact assms by simp
  from assms(1) have s: "sorted_wrt (\<lambda>x y. key_less (entry_key x) (entry_key y)) es"
    by (simp add: entries_exact_def)
  obtain xs old zs where e: "es = xs @ old @ zs" "entries_insert a b new es = xs @ [new] @ zs"
    "old = [] \<or> (\<exists>y. old = [y] \<and> entry_key y = (a, b))"
    "\<forall>x \<in> set xs. key_less (entry_key x) (a, b)" "\<forall>z \<in> set zs. key_less (a, b) (entry_key z)"
    using entries_insert_split [OF s, of a b new] by blast
  show "entries_exact (entries_insert a b new es)"
    using assms(1-3) e k by (auto simp: entries_exact_def sorted_wrt_append)
  have "\<forall>x \<in> set xs \<union> set zs. entry_key x \<noteq> (a, b)" using e(4,5) key_less_irrefl by auto
  then show "set (entries_insert a b new es) = insert new {x \<in> set es. entry_key x \<noteq> (a, b)}"
    using e(1-3) by auto
qed


lemma exact_compare:
  assumes "exact_amount a" and "exact_amount c"
  shows "f64_le (f64_of_u64 a) (f64_of_u64 c) \<longleftrightarrow> a \<le> c"
  using assms by (auto simp: exact_amount_def f64_of_u64_exact f64_le_def word_le_nat_alt
      simp del: of_nat_unat)

lemma entries_exact_ok: "entries_exact es \<Longrightarrow> entries_ok es"
proof -
  assume ok: "entries_exact es"
  have "f64_le (ce_in_amount x) (ce_in_amount y)"
    if "x \<in> set es" "y \<in> set es" "key_less (entry_key x) (entry_key y)" for x y
  proof -
    obtain a c where "exact_amount a" "ce_in_amount x = f64_of_u64 a"
      "exact_amount c" "ce_in_amount y = f64_of_u64 c"
      using ok \<open>x \<in> set es\<close> \<open>y \<in> set es\<close> by (meson entries_exact_def)
    with that(3) show ?thesis by (auto simp: key_less_def entry_key_exact intro: f64_of_u64_mono)
  qed
  moreover have "sorted_wrt (\<lambda>x y. key_less (entry_key x) (entry_key y)) es"
    using ok by (simp add: entries_exact_def)
  ultimately have "sorted_wrt (\<lambda>x y. f64_le (ce_in_amount x) (ce_in_amount y)) es"
    by (rule sorted_wrt_mono_rel)
  moreover have "\<forall>x \<in> set es. \<exists>a. ce_in_amount x = f64_of_u64 a"
    using ok by (meson entries_exact_def)
  ultimately show ?thesis by (simp add: entries_ok_def)
qed

text \<open>
  Where the entries of a pair and mode were all inserted for amounts up to \<open>2^53\<close>: what is
  inserted for such an amount is what a lookup for that amount returns first, until it
  expires; an entry already there for the same amount and account bucket is replaced, all
  others stay.
\<close>

lemma cache_insert_get:
  assumes old: "entries_exact (case pdc_cache c (f, t, m) of None \<Rightarrow> [] | Some es \<Rightarrow> es)"
    and a: "exact_amount a" and ts: "ts > now \<or> now - ts < max_age c"
  shows "fst (fst (cache_get now f t m a accounts (cache_insert f t m a accounts ts edges c))) = Some edges \<and>
    (\<exists>es. pdc_cache (cache_insert f t m a accounts ts edges c) (f, t, m) = Some es \<and> entries_exact es \<and>
       set es = insert \<lparr>ce_timestamp = ts, ce_in_amount = f64_of_u64 a, ce_max_account = accounts div 5,
           ce_edges = edges\<rparr>
         {x \<in> set (case pdc_cache c (f, t, m) of None \<Rightarrow> [] | Some es \<Rightarrow> es). entry_key x \<noteq> (a, accounts div 5)})"
proof -
  let ?c = "cache_insert f t m a accounts ts edges c" and ?b = "accounts div 5"
  let ?old = "case pdc_cache c (f, t, m) of None \<Rightarrow> [] | Some es \<Rightarrow> es"
  let ?new = "\<lparr>ce_timestamp = ts, ce_in_amount = f64_of_u64 a, ce_max_account = ?b, ce_edges = edges\<rparr>"
  let ?es = "entries_insert a ?b ?new ?old"
  note ins = entries_insert_exact [OF old a, of ?new ?b, simplified]
  have c: "pdc_cache ?c (f, t, m) = Some ?es" "max_age ?c = max_age c"
    by (simp_all add: cache_insert_def Let_def compute_account_bucket_def)
  let ?fresh = "filter (fresh_entry now (max_age c)) ?es"
  have mem: "?new \<in> {x \<in> set ?fresh. below ?b a x}" using ins(2) ts by (auto simp: fresh_entry_def)
  obtain lo hi :: "cache_entry option" where
    g: "get_loop ?b (f64_of_u64 a) None ?fresh = (map_option ce_edges lo, map_option ce_edges hi)"
    and nb: "nearest_below ?fresh ?b a lo"
    using get_loop_nearest [OF entries_ok_filter [OF entries_exact_ok [OF ins(1)],
        where P = "fresh_entry now (max_age c)"], of ?b a] by blast
  have "lo = Some ?new"
  proof (cases lo)
    case None
    show ?thesis using nb [unfolded None nearest_below_def Let_def option.case] mem by blast
  next
    case (Some x)
    then have x: "x \<in> set ?es" "ce_max_account x = ?b" "f64_le (ce_in_amount x) (f64_of_u64 a)"
      "f64_le (f64_of_u64 a) (ce_in_amount x)"
      using nb mem by (auto simp: nearest_below_def)
    obtain d where d: "exact_amount d" "ce_in_amount x = f64_of_u64 d"
      using ins(1) x(1) by (auto simp: entries_exact_def)
    have "d \<le> a" "a \<le> d"
      using x(3,4) d(2) exact_compare [OF d(1) a] exact_compare [OF a d(1)] by simp_all
    then have "d = a" by simp
    then have "entry_key x = (a, ?b)" using entry_key_exact [OF d] x(2) by simp
    then have "x = ?new" using x(1) ins(2) by auto
    then show ?thesis using Some by simp
  qed
  then show ?thesis using g c ins
    by (simp add: cache_get_def expire_old_by_key_def compute_account_bucket_def Let_def)
qed

text \<open>
  Invalidating a pair drops the account bucket of both
  swap modes if the pair has an exact-in entry; if it has none, the exact-out entries
  survive the invalidation.
\<close>

theorem cache_invalidate_one_sided:
  "(case pdc_cache c (f, t, ExactIn) of
      None \<Rightarrow> cache_invalidate f t accounts c = c
    | Some _ \<Rightarrow> (\<forall>m es x. pdc_cache (cache_invalidate f t accounts c) (f, t, m) = Some es \<and> x \<in> set es \<longrightarrow>
        ce_max_account x \<noteq> accounts div 5))"
proof (cases "pdc_cache c (f, t, ExactIn)")
  case (Some es)
  have "ce_max_account x \<noteq> accounts div 5"
    if "pdc_cache (cache_invalidate f t accounts c) (f, t, m) = Some es'" "x \<in> set es'" for m es' x
    using Some that
    by (cases m) (auto simp: cache_invalidate_def Let_def compute_account_bucket_def split: option.splits)
  then show ?thesis using Some by auto
qed (simp add: cache_invalidate_def)

theorem cache_invalidate_one_sided_witness:
  "cache_invalidate 0 1 40 (ref_cache\<lparr>pdc_cache := [(0, 1, ExactOut) \<mapsto> []]\<rparr>) =
     ref_cache\<lparr>pdc_cache := [(0, 1, ExactOut) \<mapsto> []]\<rparr>"
  using cache_invalidate_one_sided [where c = "ref_cache\<lparr>pdc_cache := [(0, 1, ExactOut) \<mapsto> []]\<rparr>"
    and f = 0 and t = 1 and accounts = 40]
  by simp

end
