(* ===== verification/Router.thy ===== *)
theory Router
  imports Routing_Select Routing_Quotes Path_Cache
begin

text \<open>
  The router (\<open>Routing\<close> in \<^verbatim>\<open>bin/autobahn-router/src/routing.rs\<close>): building the graph of
  mints, refreshing the pruned graphs, warming the path cache, and answering a request for
  a route, from the cache or by a search, with a retry under relaxed constraints.

  The immutable fields of the struct are the configuration \<open>routing_conf\<close>, the fields behind
  locks and the edge states are \<open>routing_state\<close>. Hash iteration order is a parameter (the
  \<open>pool_order\<close> of the configuration). Time is in milliseconds and read once per request. The
  optional capture of accounts (a debugging feature, off by default) is left out.
\<close>

subsection \<open>State\<close>

record routing_options =
  opt_path_cache_validity_ms :: u64
  opt_overquote :: "f64 option"
  opt_max_path_length :: "nat option"
  opt_retain_path_count :: "nat option"
  opt_max_edge_per_pair :: "nat option"
  opt_max_edge_per_cold_pair :: "nat option"

record routing_conf =
  rc_mints :: "pubkey list"
  rc_mint_to_index :: "pubkey \<rightharpoonup> mint_node"
  rc_path_warming_amounts :: "u64 list"
  rc_overquote :: f64
  rc_max_path_length :: nat
  rc_retain_path_count :: nat
  rc_max_edge_per_pair :: nat
  rc_max_edge_per_cold_pair :: nat
  rc_order :: pool_order

type_synonym graph = "edge_with_nodes list list"

record ('i, 'd, 'e) routing_state =
  r_edges :: "('i, 'd, 'e) edge list"
  r_cache :: path_discovery_cache
  r_pruned :: "swap_mode \<Rightarrow> u64 \<times> graph"

definition or_default :: "'a \<Rightarrow> 'a option \<Rightarrow> 'a" where
  "or_default d m = (case m of None \<Rightarrow> d | Some x \<Rightarrow> x)"

text \<open>\<open>unique\<close> keeps the first occurrence.\<close>

definition unique :: "'a list \<Rightarrow> 'a list" where
  "unique xs = rev (remdups (rev xs))"

definition routing_new ::
    "pool_order \<Rightarrow> u64 \<Rightarrow> routing_options \<Rightarrow> u64 list \<Rightarrow> ('i, 'd, 'e) edge list \<Rightarrow>
     (routing_conf \<times> ('i, 'd, 'e) routing_state, 'x) result" where
  "routing_new po now opts path_warming_amounts edges =
     (let mints = unique (concat (map (\<lambda>e. [e_input_mint e, e_output_mint e]) edges)) in
      rbind (psub now 86400000) (\<lambda>yesterday.
      Ok (\<lparr>rc_mints = mints, rc_mint_to_index = map_of (zip mints (map node_of_usize [0..<length mints])),
           rc_path_warming_amounts = path_warming_amounts,
           rc_overquote = or_default (f64_of_rat (1 / 5)) (opt_overquote opts),
           rc_max_path_length = or_default 4 (opt_max_path_length opts),
           rc_retain_path_count = or_default 10 (opt_retain_path_count opts),
           rc_max_edge_per_pair = or_default 8 (opt_max_edge_per_pair opts),
           rc_max_edge_per_cold_pair = or_default 3 (opt_max_edge_per_cold_pair opts),
           rc_order = po\<rparr>,
          \<lparr>r_edges = edges,
           r_cache = \<lparr>pdc_cache = Map.empty, last_expire = 0, max_age = opt_path_cache_validity_ms opts\<rparr>,
           r_pruned = (\<lambda>mode. (yesterday, new_from_prototype 0 []))\<rparr>)))"

subsection \<open>Pruned graphs\<close>

definition prepare_pruned_edges_and_cleanup_cache ::
    "routing_conf \<Rightarrow> u64 \<Rightarrow> pubkey list \<Rightarrow> swap_mode \<Rightarrow> ('i, 'd, 'e) routing_state \<Rightarrow>
     (('i, 'd, 'e) routing_state, 'x) result" where
  "prepare_pruned_edges_and_cleanup_cache conf now hot_mints mode st =
     rbind (expire_old now (r_cache st)) (\<lambda>cache.
     rbind (select_best_pools (rc_order conf) hot_mints (rc_max_edge_per_pair conf)
              (rc_max_edge_per_cold_pair conf) (rc_path_warming_amounts conf) (r_edges st)
              (rc_mint_to_index conf) (length (rc_mints conf)) mode) (\<lambda>(valid_edge_count, out_edges).
     let (time, old) = r_pruned st mode;
         time = (if valid_edge_count > 0 then now else time);
         (cloned, ok) = try_clone_from old out_edges in
     Ok (st\<lparr>r_cache := cache,
            r_pruned := (r_pruned st)(mode := (time, if ok then cloned else out_edges))\<rparr>)))"

definition prepare_pruned_edges_if_not_initialized ::
    "routing_conf \<Rightarrow> u64 \<Rightarrow> pubkey list \<Rightarrow> swap_mode \<Rightarrow> ('i, 'd, 'e) routing_state \<Rightarrow>
     (('i, 'd, 'e) routing_state, 'x) result" where
  "prepare_pruned_edges_if_not_initialized conf now hot_mints mode st =
     (if snd (r_pruned st mode) = [] \<or> saturating_sub now (fst (r_pruned st mode)) > 900000
      then prepare_pruned_edges_and_cleanup_cache conf now hot_mints mode st
      else Ok st)"

subsection \<open>Path discovery\<close>

definition lookup_edge_index_paths ::
    "('i, 'd, 'e) edge list \<Rightarrow> edge_index list list \<Rightarrow> (edge_index list list, 'x) result" where
  "lookup_edge_index_paths edges paths =
     rbind (assert_that (\<forall>path \<in> set paths. \<forall>i \<in> set path. unat i < length edges)) (\<lambda>_. Ok paths)"

definition edge_info_of :: "('i, 'd, 'e) edge \<Rightarrow> (f64 \<times> f64) option \<Rightarrow> edge_info option" where
  "edge_info_of edge price =
     map_option (\<lambda>(p, _). \<lparr>ei_price = p, ei_accounts = e_accounts_needed edge\<rparr>) price"

definition edge_info_exact_in ::
    "('i, 'd, 'e) edge list \<Rightarrow> edge_index \<Rightarrow> u64 \<Rightarrow> (edge_info option, 'x) result" where
  "edge_info_exact_in edges i in_amount =
     rbind (at_index edges (unat i)) (\<lambda>edge.
     Ok (edge_info_of edge (cached_price_for (e_state edge) in_amount)))"

definition edge_info_exact_out ::
    "(f64 \<Rightarrow> f64) \<Rightarrow> ('i, 'd, 'e) edge list \<Rightarrow> edge_index \<Rightarrow> u64 \<Rightarrow> (edge_info option, 'x) result" where
  "edge_info_exact_out ln_fn edges i amount =
     rbind (at_index edges (unat i)) (\<lambda>edge.
     rbind (cached_price_exact_out_for ln_fn (e_state edge) amount) (\<lambda>price.
     Ok (edge_info_of edge price)))"

text \<open>Both variants of \<open>generate_best_paths\<close>; the pool asserts that the shapes match and hands
  out a fresh object.\<close>

definition generate_best_paths ::
    "routing_conf \<Rightarrow> (f64 \<Rightarrow> f64) \<Rightarrow> swap_mode \<Rightarrow> u64 \<Rightarrow> nat \<Rightarrow> nat \<Rightarrow> mint_node \<Rightarrow> graph \<Rightarrow>
     mint_node list \<Rightarrow> bool \<Rightarrow> nat \<Rightarrow> ('i, 'd, 'e) edge list \<Rightarrow> (edge_index list list list, 'x) result" where
  "generate_best_paths conf ln_fn mode amount max_accounts min_accounts_needed start out_edges hot_mints
       avoid_cold_mints max_path_length edges =
     rbind (assert_that (length out_edges = length (rc_mints conf))) (\<lambda>_.
     rbind (best_price_paths_depth_search start amount max_path_length
        \<lparr>se_mode = mode, se_max_accounts = max_accounts - min_accounts_needed, se_out_edges = out_edges,
         se_edge_price = (case mode of ExactIn \<Rightarrow> edge_info_exact_in edges
                                     | ExactOut \<Rightarrow> edge_info_exact_out ln_fn edges),
         se_hot_mints = hot_mints, se_avoid_cold_mints = avoid_cold_mints\<rparr>
        (best_paths_allocate (length out_edges) (rc_retain_path_count conf) mode)
        (best_by_node_allocate (length out_edges))) (\<lambda>(paths, _).
     Ok (map (map (map ewn_edge \<circ> snd)) paths)))"

definition min_accounts :: nat where
  "min_accounts = 7"

text \<open>Discovered paths go to the cache, one entry per node the search reached; \<open>keep\<close> is the
  caller's filter.\<close>

fun insert_paths_from ::
    "nat \<Rightarrow> (mint_node \<Rightarrow> bool) \<Rightarrow> mint_node \<Rightarrow> swap_mode \<Rightarrow> u64 \<Rightarrow> nat \<Rightarrow> u64 \<Rightarrow> edge_index list list list \<Rightarrow>
     path_discovery_cache \<Rightarrow> path_discovery_cache" where
  "insert_paths_from k keep input_index mode amount max_accounts timestamp [] cache = cache"
| "insert_paths_from k keep input_index mode amount max_accounts timestamp (new_paths # rest) cache =
     insert_paths_from (Suc k) keep input_index mode amount max_accounts timestamp rest
       (if keep (node_of_usize k)
        then cache_insert input_index (node_of_usize k) mode amount max_accounts timestamp new_paths cache
        else cache)"

definition insert_paths ::
    "(mint_node \<Rightarrow> bool) \<Rightarrow> mint_node \<Rightarrow> swap_mode \<Rightarrow> u64 \<Rightarrow> nat \<Rightarrow> u64 \<Rightarrow> edge_index list list list \<Rightarrow>
     path_discovery_cache \<Rightarrow> path_discovery_cache" where
  "insert_paths = insert_paths_from 0"

definition prepare_cache_for_input_mint ::
    "routing_conf \<Rightarrow> 'e quote_env \<Rightarrow> pubkey \<Rightarrow> u64 \<Rightarrow> nat \<Rightarrow> (pubkey \<Rightarrow> pubkey \<Rightarrow> bool) \<Rightarrow>
     ('i, 'd, 'e) routing_state \<Rightarrow> (('e routing_error + unit) \<times> ('i, 'd, 'e) routing_state, 'x) result" where
  "prepare_cache_for_input_mint conf env input_mint in_amount max_accounts keep st =
     (case rc_mint_to_index conf input_mint of
        None \<Rightarrow> Ok (Inl (UnsupportedInputMint input_mint), st)
      | Some input_index \<Rightarrow>
          let generate = (\<lambda>mode. generate_best_paths conf (qe_ln env) mode in_amount max_accounts min_accounts
                 input_index (snd (r_pruned st mode)) [] False (rc_max_path_length conf) (r_edges st));
              wanted = (\<lambda>i. keep input_mint (rc_mints conf ! unat i)) in
          rbind (generate ExactIn) (\<lambda>paths_in.
          rbind (generate ExactOut) (\<lambda>paths_out.
          rbind (assert_that (length paths_in \<le> length (rc_mints conf) \<and>
                              length paths_out \<le> length (rc_mints conf))) (\<lambda>_.
          Ok (Inr (), st\<lparr>r_cache :=
            insert_paths wanted input_index ExactOut in_amount max_accounts (qe_now env) paths_out
              (insert_paths wanted input_index ExactIn in_amount max_accounts (qe_now env) paths_in
                (r_cache st))\<rparr>)))))"

text \<open>Edges that lead directly from the input to the output node of the graph.\<close>

definition push_direct ::
    "('i, 'd, 'e) edge list \<Rightarrow> mint_node \<Rightarrow> edge_with_nodes \<Rightarrow> edge_index list list \<Rightarrow>
     (edge_index list list, 'x) result" where
  "push_direct edges output_index target_and_edge paths =
     (if target_node target_and_edge \<noteq> output_index then Ok paths
      else
        rbind (at_index edges (unat (ewn_edge target_and_edge))) (\<lambda>edge.
        if \<not> edge_is_valid (e_state edge) then Ok paths
        else if list_ex (\<lambda>x. length x = 1 \<and> edge_unique_id (edges ! unat (x ! 0)) = edge_unique_id edge) paths
          then Ok paths
          else Ok (paths @ [[ewn_edge target_and_edge]])))"

definition add_direct_paths ::
    "('i, 'd, 'e) edge list \<Rightarrow> mint_node \<Rightarrow> mint_node \<Rightarrow> graph \<Rightarrow> edge_index list list \<Rightarrow>
     (edge_index list list, 'x) result" where
  "add_direct_paths edges input_index output_index out_edges paths =
     rbind (mint_index out_edges input_index) (\<lambda>candidates.
     rfold (push_direct edges output_index) candidates paths)"

definition find_edge ::
    "('i, 'd, 'e) edge list \<Rightarrow> pubkey \<Rightarrow> pubkey \<Rightarrow> pubkey \<Rightarrow> ('i, 'd, 'e) edge option" where
  "find_edge edges input_mint output_mint amm_key =
     find (\<lambda>x. e_input_mint x = input_mint \<and> e_output_mint x = output_mint \<and> id_key (e_ident x) = amm_key) edges"

subsection \<open>Answering a request\<close>

record route_request =
  rq_input_mint :: pubkey
  rq_output_mint :: pubkey
  rq_amount :: u64
  rq_max_accounts :: nat
  rq_ignore_cache :: bool
  rq_hot_mints :: "pubkey list"
  rq_max_path_length :: "nat option"
  rq_mode :: swap_mode

record route =
  ro_input_mint :: pubkey
  ro_output_mint :: pubkey
  ro_in_amount :: u64
  ro_out_amount :: u64
  ro_price_impact_bps :: u64
  ro_steps :: "route_step list"
  ro_slot :: u64

definition overquoted :: "routing_conf \<Rightarrow> u64 \<Rightarrow> u64" where
  "overquoted conf original_amount =
     f64_as_u64 (f64_round (f64_mul (f64_of_u64 original_amount) (f64_add (Finite False 1) (rc_overquote conf))))"

text \<open>The cached paths, if any and not ignored; reading the cache drops expired entries.\<close>

definition cached_paths ::
    "u64 \<Rightarrow> route_request \<Rightarrow> mint_node \<Rightarrow> mint_node \<Rightarrow> u64 \<Rightarrow> ('i, 'd, 'e) routing_state \<Rightarrow>
     (edge_index list list option \<times> ('i, 'd, 'e) routing_state, 'x) result" where
  "cached_paths now rq input_index output_index amount st =
     (let ((lower, upper), cache) =
        cache_get now input_index output_index (rq_mode rq) amount (rq_max_accounts rq) (r_cache st) in
      rbind (lookup_edge_index_paths (r_edges st) (or_default [] lower)) (\<lambda>p1.
      rbind (lookup_edge_index_paths (r_edges st) (or_default [] upper)) (\<lambda>p2.
      Ok (if (lower = None \<and> upper = None) \<or> rq_ignore_cache rq then None else Some (p1 @ p2),
          st\<lparr>r_cache := cache\<rparr>))))"

text \<open>A search; every node it reached is cached under the input mint of the request.\<close>

definition discovered_paths ::
    "routing_conf \<Rightarrow> 'e quote_env \<Rightarrow> route_request \<Rightarrow> nat \<Rightarrow> mint_node \<Rightarrow> mint_node \<Rightarrow> u64 \<Rightarrow>
     ('i, 'd, 'e) routing_state \<Rightarrow> (edge_index list list \<times> ('i, 'd, 'e) routing_state, 'x) result" where
  "discovered_paths conf env rq max_path_length input_index output_index amount st =
     (let hot = List.map_filter (rc_mint_to_index conf) (rq_hot_mints rq);
          (start, target) = (case rq_mode rq of ExactIn \<Rightarrow> (input_index, output_index)
                                             | ExactOut \<Rightarrow> (output_index, input_index)) in
      rbind (generate_best_paths conf (qe_ln env) (rq_mode rq) amount (rq_max_accounts rq) min_accounts start
               (snd (r_pruned st (rq_mode rq))) hot (\<not> rq_ignore_cache rq) max_path_length (r_edges st)) (\<lambda>paths.
      rbind (mint_index paths target) (\<lambda>wanted.
      rbind (lookup_edge_index_paths (r_edges st) wanted) (\<lambda>wanted.
      Ok (wanted, st\<lparr>r_cache := insert_paths (\<lambda>_. True) input_index (rq_mode rq) amount (rq_max_accounts rq)
                        (qe_now env) paths (r_cache st)\<rparr>)))))"

text \<open>Evaluating the candidate paths; errors and zero amounts drop a path.\<close>

definition evaluate_path ::
    "'e quote_env \<Rightarrow> swap_mode \<Rightarrow> u64 \<Rightarrow> edge_index list \<Rightarrow>
     (edge_index list \<times> u64) list \<times> ('i, 'd, 'e) quote_state \<Rightarrow>
     ((edge_index list \<times> u64) list \<times> ('i, 'd, 'e) quote_state, 'x) result" where
  "evaluate_path env mode amount path acc =
     (case acc of (kept, qs) \<Rightarrow>
     rbind (case mode of ExactIn \<Rightarrow> compute_out_amount_from_path env True path amount amount qs
                       | ExactOut \<Rightarrow> compute_in_amount_from_path env True amount path amount amount qs) (\<lambda>(r, qs).
     Ok (case r of Inr (Some (v, _)) \<Rightarrow> if v > 0 then kept @ [(path, v)] else kept | _ \<Rightarrow> kept, qs)))"

definition by_output :: "swap_mode \<Rightarrow> edge_index list \<times> u64 \<Rightarrow> edge_index list \<times> u64 \<Rightarrow> bool" where
  "by_output mode x y = (case mode of ExactIn \<Rightarrow> snd y \<le> snd x | ExactOut \<Rightarrow> snd x \<le> snd y)"

text \<open>The amounts of the answer: the overquoted result is scaled back to the request.\<close>

definition adjusted_out :: "swap_mode \<Rightarrow> u64 \<Rightarrow> u64 \<Rightarrow> u64 \<Rightarrow> u64 \<Rightarrow> u64" where
  "adjusted_out mode original_amount amount actual_in routing_result =
     (case mode of
        ExactIn \<Rightarrow> f64_as_u64 (f64_floor (f64_mul (f64_div (f64_of_u64 actual_in) (f64_of_u64 amount))
                     (f64_of_u64 routing_result)))
      | ExactOut \<Rightarrow> original_amount)"

definition adjusted_in :: "swap_mode \<Rightarrow> u64 \<Rightarrow> u64 \<Rightarrow> u64 \<Rightarrow> u64 \<Rightarrow> u64" where
  "adjusted_in mode amount actual_in actual_out routing_result =
     (case mode of
        ExactIn \<Rightarrow> actual_in
      | ExactOut \<Rightarrow> f64_as_u64 (f64_ceil (f64_mul (f64_div (f64_of_u64 actual_out) (f64_of_u64 amount))
                      (f64_of_u64 routing_result))))"

definition price_impact_bps :: "u64 \<Rightarrow> u64 \<Rightarrow> u64 \<Rightarrow> u64" where
  "price_impact_bps out_for_small actual_in actual_out =
     (let expected_ratio = f64_div (Finite False 1000) (f64_of_u64 out_for_small);
          actual_ratio = f64_div (f64_of_u64 actual_in) (f64_of_u64 actual_out);
          impact = f64_sub (f64_mul (f64_div expected_ratio actual_ratio) (Finite False 10000)) (Finite False 10000) in
      f64_as_u64 (f64_round impact))"

text \<open>The loop over the evaluated paths, best first: the first one with a usable amount is the
  route. \<open>Inr None\<close>: no path was acceptable.\<close>

fun first_route ::
    "'e quote_env \<Rightarrow> route_request \<Rightarrow> u64 \<Rightarrow> (edge_index list \<times> u64) list \<Rightarrow> ('i, 'd, 'e) quote_state \<Rightarrow>
     (('e routing_error + route option) \<times> ('i, 'd, 'e) quote_state, 'x) result" where
  "first_route env rq amount [] qs = Ok (Inr None, qs)"
| "first_route env rq amount ((out_path, routing_result) # rest) qs =
     rbind ((case rq_mode rq of ExactIn \<Rightarrow> build_route_steps | ExactOut \<Rightarrow> build_route_steps_exact_out)
              (qe_view env) out_path (rq_amount rq) qs) (\<lambda>(r, qs).
     case r of
       Inl e \<Rightarrow> Ok (Inl e, qs)
     | Inr (steps, slot) \<Rightarrow>
         if steps = [] then Panic
         else
           let actual_in = rs_in_amount (hd steps); actual_out = rs_out_amount (last steps) in
           rbind (compute_out_amount_from_path env False out_path 1000 1000 qs) (\<lambda>(small, qs).
           case small of
             Inl e \<Rightarrow> Ok (Inl e, qs)
           | Inr small \<Rightarrow>
               let out_amount = adjusted_out (rq_mode rq) (rq_amount rq) amount actual_in routing_result in
               if (rq_mode rq = ExactOut \<and> (actual_in = - 1 \<or> actual_out = 0)) \<or>
                  (rq_mode rq = ExactIn \<and> out_amount = 0)
               then first_route env rq amount rest qs
               else Ok (Inr (Some \<lparr>ro_input_mint = rq_input_mint rq, ro_output_mint = rq_output_mint rq,
                      ro_in_amount = adjusted_in (rq_mode rq) amount actual_in actual_out routing_result,
                      ro_out_amount = out_amount,
                      ro_price_impact_bps = price_impact_bps (fst (or_default (0, 0) small)) actual_in actual_out,
                      ro_steps = steps, ro_slot = slot\<rparr>), qs)))"

text \<open>One attempt ends with an answer or with a request to retry, ignoring the cache or not.\<close>

datatype 'e attempt = Answer "'e routing_error + route" | Retry bool

definition relax_or_fail ::
    "routing_conf \<Rightarrow> route_request \<Rightarrow> nat \<Rightarrow> mint_node \<Rightarrow> mint_node \<Rightarrow> bool \<Rightarrow> ('i, 'd, 'e) routing_state \<Rightarrow>
     'e attempt \<times> ('i, 'd, 'e) routing_state" where
  "relax_or_fail conf rq max_path_length input_index output_index used_cached_paths st =
     (if \<not> rq_ignore_cache rq \<and> (used_cached_paths \<or> max_path_length \<noteq> rc_max_path_length conf)
      then (Retry used_cached_paths,
            if used_cached_paths
            then st\<lparr>r_cache := cache_invalidate input_index output_index (rq_max_accounts rq) (r_cache st)\<rparr>
            else st)
      else (Answer (Inl (NoPathBetweenMintPair (rq_input_mint rq) (rq_output_mint rq))), st))"

text \<open>The paths to evaluate: the cached ones or, failing these, the result of a search, and in
  any case the direct ones. The flag tells that the cache was used.\<close>

definition candidate_paths ::
    "routing_conf \<Rightarrow> 'e quote_env \<Rightarrow> route_request \<Rightarrow> nat \<Rightarrow> mint_node \<Rightarrow> mint_node \<Rightarrow> u64 \<Rightarrow>
     ('i, 'd, 'e) routing_state \<Rightarrow> ((bool \<times> edge_index list list) \<times> ('i, 'd, 'e) routing_state, 'x) result" where
  "candidate_paths conf env rq max_path_length input_index output_index amount st =
     rbind (cached_paths (qe_now env) rq input_index output_index amount st) (\<lambda>(cached, st).
     rbind (case cached of
              Some paths \<Rightarrow> Ok (paths, st)
            | None \<Rightarrow> discovered_paths conf env rq max_path_length input_index output_index amount st) (\<lambda>(paths, st).
     rbind (add_direct_paths (r_edges st) input_index output_index (snd (r_pruned st (rq_mode rq))) paths) (\<lambda>paths.
     Ok ((cached \<noteq> None, paths), st))))"

definition choose_route ::
    "'e quote_env \<Rightarrow> route_request \<Rightarrow> u64 \<Rightarrow> edge_index list list \<Rightarrow> ('i, 'd, 'e) routing_state \<Rightarrow>
     (('e routing_error + route option) \<times> ('i, 'd, 'e) routing_state, 'x) result" where
  "choose_route env rq amount paths st =
     rbind (rfold (evaluate_path env (rq_mode rq) amount) paths
              ([], \<lparr>qs_edges = r_edges st, qs_snapshot = Map.empty\<rparr>)) (\<lambda>(evaluated, qs).
     rbind (first_route env rq amount (sort_by (by_output (rq_mode rq)) evaluated) qs) (\<lambda>(r, qs).
     Ok (r, st\<lparr>r_edges := qs_edges qs\<rparr>)))"

definition route_attempt ::
    "routing_conf \<Rightarrow> 'e quote_env \<Rightarrow> route_request \<Rightarrow> ('i, 'd, 'e) routing_state \<Rightarrow>
     ('e attempt \<times> ('i, 'd, 'e) routing_state, 'x) result" where
  "route_attempt conf env rq st =
     rbind (prepare_pruned_edges_if_not_initialized conf (qe_now env) (rq_hot_mints rq) (rq_mode rq) st) (\<lambda>st.
     rbind (assert_that (rc_max_path_length conf \<noteq> 0)) (\<lambda>_.
     let max_path_length = or_default (max (rc_max_path_length conf - 1) 1) (rq_max_path_length rq);
         amount = overquoted conf (rq_amount rq) in
     case rc_mint_to_index conf (rq_input_mint rq) of
       None \<Rightarrow> Ok (Answer (Inl (UnsupportedInputMint (rq_input_mint rq))), st)
     | Some input_index \<Rightarrow>
     case rc_mint_to_index conf (rq_output_mint rq) of
       None \<Rightarrow> Ok (Answer (Inl (UnsupportedOutputMint (rq_output_mint rq))), st)
     | Some output_index \<Rightarrow>
     rbind (candidate_paths conf env rq max_path_length input_index output_index amount st)
       (\<lambda>((used_cached_paths, paths), st).
     rbind (choose_route env rq amount paths st) (\<lambda>(r, st).
     Ok (case r of
           Inl e \<Rightarrow> (Answer (Inl e), st)
         | Inr (Some route) \<Rightarrow> (Answer (Inr route), st)
         | Inr None \<Rightarrow>
             relax_or_fail conf rq max_path_length input_index output_index used_cached_paths st)))))"

text \<open>The retry passes on the already overquoted amount.\<close>

definition relaxed_request :: "routing_conf \<Rightarrow> route_request \<Rightarrow> bool \<Rightarrow> route_request" where
  "relaxed_request conf rq ignore_cache =
     rq\<lparr>rq_amount := overquoted conf (rq_amount rq), rq_ignore_cache := ignore_cache,
        rq_max_path_length := Some (rc_max_path_length conf)\<rparr>"

text \<open>An attempt that neither panics nor fails on a mint.\<close>

lemma route_attempt_cases:
  assumes "route_attempt conf env rq st = (Ok (a, st') :: (_, 'x) result)"
  obtains (no_input) st1 where
    "prepare_pruned_edges_if_not_initialized conf (qe_now env) (rq_hot_mints rq) (rq_mode rq) st =
       (Ok st1 :: (_, 'x) result)"
    "a = Answer (Inl (UnsupportedInputMint (rq_input_mint rq)))" "st' = st1"
  | (no_output) st1 where
    "prepare_pruned_edges_if_not_initialized conf (qe_now env) (rq_hot_mints rq) (rq_mode rq) st =
       (Ok st1 :: (_, 'x) result)"
    "a = Answer (Inl (UnsupportedOutputMint (rq_output_mint rq)))" "st' = st1"
  | (chosen) st1 i j used paths st2 r st3 where
    "prepare_pruned_edges_if_not_initialized conf (qe_now env) (rq_hot_mints rq) (rq_mode rq) st =
       (Ok st1 :: (_, 'x) result)"
    "rc_mint_to_index conf (rq_input_mint rq) = Some i" "rc_mint_to_index conf (rq_output_mint rq) = Some j"
    "candidate_paths conf env rq (or_default (max (rc_max_path_length conf - 1) 1) (rq_max_path_length rq)) i j
       (overquoted conf (rq_amount rq)) st1 = (Ok ((used, paths), st2) :: (_, 'x) result)"
    "choose_route env rq (overquoted conf (rq_amount rq)) paths st2 = (Ok (r, st3) :: (_, 'x) result)"
    "(a, st') = (case r of Inl e \<Rightarrow> (Answer (Inl e), st3) | Inr (Some route) \<Rightarrow> (Answer (Inr route), st3)
       | Inr None \<Rightarrow> relax_or_fail conf rq
           (or_default (max (rc_max_path_length conf - 1) 1) (rq_max_path_length rq)) i j used st3)"
proof (cases "rc_mint_to_index conf (rq_input_mint rq)")
  case None
  with assms no_input show ?thesis by (auto simp: route_attempt_def)
next
  case i: (Some i)
  show ?thesis
  proof (cases "rc_mint_to_index conf (rq_output_mint rq)")
    case None
    with assms i no_output show ?thesis by (auto simp: route_attempt_def)
  next
    case (Some j)
    with assms i chosen show ?thesis unfolding route_attempt_def Let_def by (fastforce simp only: rbind_eq_Ok option.case split_paired_Ex prod.case result.inject)
  qed
qed

text \<open>A retry only happens when it relaxes something.\<close>

lemma route_attempt_Retry:
  assumes "route_attempt conf env rq st = (Ok (Retry ignore, st') :: (_, 'x) result)"
  shows "\<not> rq_ignore_cache rq \<and> (ignore \<or> rq_max_path_length rq \<noteq> Some (rc_max_path_length conf))"
  using assms
proof (cases rule: route_attempt_cases)
  case (chosen st1 i j used paths st2 r st3)
  from chosen(6) show ?thesis
    by (auto simp: relax_or_fail_def or_default_def split: sum.splits option.splits if_splits)
qed simp_all

function find_best_route ::
    "routing_conf \<Rightarrow> 'e quote_env \<Rightarrow> route_request \<Rightarrow> ('i, 'd, 'e) routing_state \<Rightarrow>
     (('e routing_error + route) \<times> ('i, 'd, 'e) routing_state, 'x) result" where
  "find_best_route conf env rq st =
     rbind (route_attempt conf env rq st) (\<lambda>(r, st).
     case r of
       Answer a \<Rightarrow> Ok (a, st)
     | Retry ignore \<Rightarrow> find_best_route conf env (relaxed_request conf rq ignore) st)"
  by pat_completeness auto
termination
  by (relation "measure (\<lambda>(conf, env, rq, st). if rq_ignore_cache rq then 0
        else if rq_max_path_length rq = Some (rc_max_path_length conf) then 1 else (2 :: nat))")
    (auto simp: relaxed_request_def dest: route_attempt_Retry)

declare find_best_route.simps [simp del]

end
