(* ===== verification/Router_Safety.thy ===== *)
theory Router_Safety
  imports Router
begin

text \<open>
  What a route of the router is: the invariant of the router's state (\<open>routing_ok\<close>: the pruned
  graphs and the cached paths describe the edges the router was built with) is established
  by \<open>routing_new\<close> and kept by every operation, and the route answered to an exact-in
  request leads from the input mint to the output mint. The same does not hold for exact
  out: the direct paths tried there lead the other way, which is proved too.
\<close>

subsection \<open>Paths over mints\<close>

primrec mint_path :: "('i, 'd, 'e) edge list \<Rightarrow> pubkey \<Rightarrow> edge_index list \<Rightarrow> pubkey \<Rightarrow> bool" where
  "mint_path edges a [] b \<longleftrightarrow> a = b"
| "mint_path edges a (i # p) b \<longleftrightarrow> unat i < length edges \<and> e_input_mint (edges ! unat i) = a \<and>
     mint_path edges (e_output_mint (edges ! unat i)) p b"

text \<open>The part of an edge that never changes.\<close>

definition frozen :: "('i, 'd, 'e) edge \<Rightarrow> ('i, 'd, 'e) edge" where
  "frozen e = e\<lparr>e_state := default_edge_state\<rparr>"

lemma frozen_simps [simp]:
  "e_input_mint (frozen e) = e_input_mint e" "e_output_mint (frozen e) = e_output_mint e"
  "e_dex (frozen e) = e_dex e" "frozen (e\<lparr>e_state := s\<rparr>) = frozen e"
  by (simp_all add: frozen_def)

lemma mint_path_frozen [simp]: "mint_path (map frozen edges) a p b = mint_path edges a p b"
  by (induction p arbitrary: a) (simp_all cong: conj_cong)

lemma edge_quote_frozen [simp]:
  "edge_quote (frozen e) = edge_quote e" "edge_quote_exact_out (frozen e) = edge_quote_exact_out e"
  "edge_unique_id (frozen e) = edge_unique_id e"
  by (simp_all add: frozen_def edge_unique_id_def edge_quote_def edge_quote_exact_out_def fun_eq_iff)

lemma steps_answer_frozen [simp]:
  "steps_answer mode view (map frozen edges) snap a ss = steps_answer mode view edges snap a ss"
proof -
  have "edge_answers (\<lambda>e p. edge_quote e p view) (map frozen edges) snap =
      edge_answers (\<lambda>e p. edge_quote e p view) edges snap"
    "edge_answers (\<lambda>e p. edge_quote_exact_out e p view) (map frozen edges) snap =
      edge_answers (\<lambda>e p. edge_quote_exact_out e p view) edges snap"
    by (auto simp: edge_answers_def fun_eq_iff)
  then show ?thesis unfolding steps_answer_def by (simp only:)
qed

lemma mint_path_in_range: "mint_path edges a p b \<Longrightarrow> i \<in> set p \<Longrightarrow> unat i < length edges"
  by (induction p arbitrary: a) auto

subsection \<open>The invariant\<close>

definition conf_ok :: "routing_conf \<Rightarrow> ('i, 'd, 'e) edge list \<Rightarrow> bool" where
  "conf_ok conf base \<longleftrightarrow> pool_order_ok (rc_order conf) \<and> 0 < rc_max_edge_per_pair conf \<and>
     0 < rc_max_edge_per_cold_pair conf \<and> 0 < rc_retain_path_count conf \<and>
     8 * length (rc_mints conf) \<le> 2 ^ 32 \<and> length base \<le> 2 ^ 32 \<and>
     (\<forall>m i. rc_mint_to_index conf m = Some i \<longrightarrow> unat i < length (rc_mints conf) \<and> rc_mints conf ! unat i = m) \<and>
     (\<forall>e \<in> set base. rc_mint_to_index conf (e_input_mint e) \<noteq> None \<and> rc_mint_to_index conf (e_output_mint e) \<noteq> None)"

definition graph_shape :: "routing_conf \<Rightarrow> ('i, 'd, 'e) edge list \<Rightarrow> swap_mode \<Rightarrow> graph \<Rightarrow> bool" where
  "graph_shape conf base mode out_edges \<longleftrightarrow> length out_edges = length (rc_mints conf) \<and>
     (\<forall>i < length out_edges. \<forall>e \<in> set (out_edges ! i).
        unat (source_node e) = i \<and> unat (target_node e) < length out_edges \<and> unat (ewn_edge e) < length base \<and>
        (let edge = base ! unat (ewn_edge e); src = rc_mints conf ! i;
             tgt = rc_mints conf ! unat (target_node e) in
         (e_input_mint edge, e_output_mint edge) = (case mode of ExactIn \<Rightarrow> (src, tgt) | ExactOut \<Rightarrow> (tgt, src))))"

definition paths_sound ::
    "routing_conf \<Rightarrow> ('i, 'd, 'e) edge list \<Rightarrow> mint_node \<Rightarrow> mint_node \<Rightarrow> edge_index list list \<Rightarrow> bool" where
  "paths_sound conf base i j paths \<longleftrightarrow>
     (\<forall>p \<in> set paths. p \<noteq> [] \<and> mint_path base (rc_mints conf ! unat i) p (rc_mints conf ! unat j))"

definition cache_sound :: "routing_conf \<Rightarrow> ('i, 'd, 'e) edge list \<Rightarrow> path_discovery_cache \<Rightarrow> bool" where
  "cache_sound conf base c \<longleftrightarrow> (\<forall>i j es. pdc_cache c (i, j, ExactIn) = Some es \<longrightarrow>
     (\<forall>x \<in> set es. paths_sound conf base i j (ce_edges x)))"

definition routing_ok :: "routing_conf \<Rightarrow> ('i, 'd, 'e) edge list \<Rightarrow> ('i, 'd, 'e) routing_state \<Rightarrow> bool" where
  "routing_ok conf base st \<longleftrightarrow> map frozen (r_edges st) = map frozen base \<and>
     (\<forall>e \<in> set (r_edges st). edge_state_ok (length (rc_path_warming_amounts conf)) (e_state e)) \<and>
     (\<forall>mode. snd (r_pruned st mode) = [] \<or> graph_shape conf base mode (snd (r_pruned st mode))) \<and>
     cache_sound conf base (r_cache st)"

lemma same_base:
  assumes "map frozen edges = map frozen base"
  shows "length edges = length base" "mint_path edges = mint_path base"
    "steps_answer mode view edges snap a ss = steps_answer mode view base snap a ss"
    "k < length base \<Longrightarrow> e_input_mint (edges ! k) = e_input_mint (base ! k) \<and>
       e_output_mint (edges ! k) = e_output_mint (base ! k)"
    "(e_input_mint ` set edges) = (e_input_mint ` set base)" "(e_output_mint ` set edges) = (e_output_mint ` set base)"
proof -
  show len: "length edges = length base" using assms by (metis length_map)
  show "mint_path edges = mint_path base" using assms by (intro ext) (metis mint_path_frozen)
  show "steps_answer mode view edges snap a ss = steps_answer mode view base snap a ss"
    using assms by (metis steps_answer_frozen)
  show "k < length base \<Longrightarrow> e_input_mint (edges ! k) = e_input_mint (base ! k) \<and>
      e_output_mint (edges ! k) = e_output_mint (base ! k)"
    using assms len by (metis frozen_simps(1,2) nth_map)
  have "e_input_mint ` set (map frozen edges) = e_input_mint ` set (map frozen base)"
    "e_output_mint ` set (map frozen edges) = e_output_mint ` set (map frozen base)" using assms by simp_all
  then show "e_input_mint ` set edges = e_input_mint ` set base" "e_output_mint ` set edges = e_output_mint ` set base"
    by (simp_all add: image_image)
qed

subsection \<open>The cache\<close>

lemma entries_insert_set: "set (entries_insert a b x es) \<subseteq> insert x (set es)"
  using set_update_subset_insert [of es _ x]
  by (auto simp: entries_insert_def Let_def dest: in_set_takeD in_set_dropD)

lemma get_loop_from:
  "get_loop b amount lower es = (lo, hi) \<Longrightarrow>
     (lo = lower \<or> (\<exists>x \<in> set es. lo = Some (ce_edges x))) \<and> (hi = None \<or> (\<exists>x \<in> set es. hi = Some (ce_edges x)))"
  by (induction b amount lower es rule: get_loop.induct) (fastforce simp: Let_def split: if_splits)+

lemma cache_sound_insert:
  assumes "cache_sound conf base c" and "mode = ExactIn \<Longrightarrow> paths_sound conf base i j paths"
  shows "cache_sound conf base (cache_insert i j mode a n ts paths c)"
proof (cases "mode = ExactIn")
  case False
  then show ?thesis using assms(1) by (simp add: cache_sound_def cache_insert_def Let_def)
next
  case True
  let ?old = "case pdc_cache c (i, j, ExactIn) of None \<Rightarrow> [] | Some es \<Rightarrow> es"
  have "\<forall>x \<in> set ?old. paths_sound conf base i j (ce_edges x)"
    using assms(1) by (cases "pdc_cache c (i, j, ExactIn)") (auto simp: cache_sound_def)
  then have "\<forall>x \<in> set (entries_insert a b \<lparr>ce_timestamp = ts, ce_in_amount = f64_of_u64 a, ce_max_account = b,
      ce_edges = paths\<rparr> ?old). paths_sound conf base i j (ce_edges x)" for b
    using assms(2) [OF True] entries_insert_set [of a b _ ?old] by fastforce
  then show ?thesis using assms(1) True by (simp add: cache_sound_def cache_insert_def Let_def)
qed

lemma cache_sound_get:
  assumes "cache_sound conf base c" and "cache_get now i j ExactIn a n c = ((lo, hi), c')"
  shows "paths_sound conf base i j (or_default [] lo) \<and> paths_sound conf base i j (or_default [] hi)"
proof (cases "pdc_cache c (i, j, ExactIn)")
  case None
  then show ?thesis using assms(2) by (auto simp: cache_get_def or_default_def paths_sound_def)
next
  case (Some es)
  with assms(2) have "get_loop (compute_account_bucket n) (f64_of_u64 a) None (expire_old_by_key now (max_age c) es) = (lo, hi)"
    by (simp add: cache_get_def Let_def)
  note from_entries = get_loop_from [OF this]
  have "paths_sound conf base i j (ce_edges x)" if "x \<in> set (expire_old_by_key now (max_age c) es)" for x
    using assms(1) Some that by (auto simp: cache_sound_def expire_old_by_key_def)
  moreover have "paths_sound conf base i j []" by (simp add: paths_sound_def)
  ultimately show ?thesis using from_entries by (auto simp: or_default_def)
qed

lemma cache_sound_kept:
  assumes "cache_sound conf base c"
  shows "cache_sound conf base (snd (cache_get now i j mode a n c))"
    and "cache_sound conf base (cache_invalidate i j n c)"
    and "expire_old now c = (Ok c' :: (_, 'x) result) \<Longrightarrow> cache_sound conf base c'"
  using assms
  by (auto simp: cache_sound_def cache_get_def cache_invalidate_def expire_old_def expire_old_by_key_def Let_def
      split: option.splits if_splits)

lemma cache_sound_insert_paths_from:
  assumes "cache_sound conf base c"
    and "mode = ExactIn \<Longrightarrow> (\<forall>m < length paths. paths_sound conf base i (node_of_usize (k + m)) (paths ! m))"
  shows "cache_sound conf base (insert_paths_from k keep i mode a n ts paths c)"
  using assms
proof (induction paths arbitrary: k c)
  case (Cons p ps)
  have "mode = ExactIn \<Longrightarrow> paths_sound conf base i (node_of_usize k) p" using Cons.prems(2) by fastforce
  moreover have "mode = ExactIn \<Longrightarrow> (\<forall>m < length ps. paths_sound conf base i (node_of_usize (Suc k + m)) (ps ! m))"
    using Cons.prems(2) by fastforce
  ultimately show ?case using Cons.IH [of _ "Suc k"] Cons.prems(1) by (simp add: cache_sound_insert)
qed simp

lemma cache_sound_insert_paths:
  assumes "cache_sound conf base c"
    and "mode = ExactIn \<Longrightarrow> (\<forall>k < length paths. paths_sound conf base i (node_of_usize k) (paths ! k))"
  shows "cache_sound conf base (insert_paths keep i mode a n ts paths c)"
  using assms by (simp add: insert_paths_def cache_sound_insert_paths_from)

subsection \<open>The pruned graphs\<close>

lemma graph_shape_of_ok:
  assumes conf: "conf_ok conf base" and base: "map frozen edges = map frozen base"
    and g: "graph_ok edges (rc_mint_to_index conf) (length (rc_mints conf)) mode out_edges"
  shows "graph_shape conf base mode out_edges"
proof -
  have len: "length out_edges = length (rc_mints conf)" using g by (simp add: graph_ok_def)
  have mints: "rc_mint_to_index conf m = Some i \<Longrightarrow> rc_mints conf ! unat i = m" for m i
    using conf by (simp add: conf_ok_def)
  show ?thesis unfolding graph_shape_def
  proof (intro conjI allI impI ballI len)
    fix i e assume i: "i < length out_edges" and e: "e \<in> set (out_edges ! i)"
    have n: "unat (source_node e) = i" "unat (target_node e) < length out_edges"
      and ok: "node_ok edges (rc_mint_to_index conf) mode e"
      using g i e len by (auto simp: graph_ok_def)
    then show "unat (source_node e) = i" "unat (target_node e) < length out_edges" by auto
    show k: "unat (ewn_edge e) < length base" using ok same_base(1) [OF base] by (simp add: node_ok_def)
    show "let edge = base ! unat (ewn_edge e); src = rc_mints conf ! i; tgt = rc_mints conf ! unat (target_node e)
      in (e_input_mint edge, e_output_mint edge) = (case mode of ExactIn \<Rightarrow> (src, tgt) | ExactOut \<Rightarrow> (tgt, src))"
      using ok mints n(1) same_base(4) [OF base k] by (cases mode) (auto simp: node_ok_def Let_def)
  qed
qed

lemma select_env_of_ok:
  assumes conf: "conf_ok conf base" and st: "routing_ok conf base st"
  shows "select_env_ok (length (rc_path_warming_amounts conf)) (r_edges st) (rc_mint_to_index conf) (length (rc_mints conf))"
proof -
  have base: "map frozen (r_edges st) = map frozen base" using st by (simp add: routing_ok_def)
  have "\<exists>i. rc_mint_to_index conf m = Some i \<and> unat i < length (rc_mints conf)"
    if "m \<in> e_input_mint ` set (r_edges st) \<union> e_output_mint ` set (r_edges st)" for m
    using that conf unfolding same_base(5,6) [OF base] conf_ok_def by auto
  then show ?thesis using st conf same_base(1) [OF base] by (simp add: select_env_ok_def routing_ok_def conf_ok_def)
qed

lemma cleanup_cache_ok:
  assumes conf: "conf_ok conf base" and st: "routing_ok conf base st"
    and p: "prepare_pruned_edges_and_cleanup_cache conf now hot mode st = (Ok st' :: (_, 'x) result)"
  shows "routing_ok conf base st' \<and> graph_shape conf base mode (snd (r_pruned st' mode))"
proof -
  obtain time0 old where "r_pruned st mode = (time0, old)" by (cases "r_pruned st mode")
  with p obtain cache count out time where
    c: "expire_old now (r_cache st) = (Ok cache :: (_, 'x) result)"
    and s: "select_best_pools (rc_order conf) hot (rc_max_edge_per_pair conf) (rc_max_edge_per_cold_pair conf)
      (rc_path_warming_amounts conf) (r_edges st) (rc_mint_to_index conf) (length (rc_mints conf)) mode =
      (Ok (count, out) :: (_, 'x) result)"
    and st': "st' = st\<lparr>r_cache := cache, r_pruned := (r_pruned st)(mode := (time, out))\<rparr>"
    by (auto simp: prepare_pruned_edges_and_cleanup_cache_def Let_def try_clone_from_def split: prod.splits if_splits)
  have "pool_order_ok (rc_order conf)" "0 < rc_max_edge_per_pair conf" "0 < rc_max_edge_per_cold_pair conf"
    using conf by (auto simp: conf_ok_def)
  from select_best_pools_total [OF this select_env_of_ok [OF conf st]] s
  have "graph_ok (r_edges st) (rc_mint_to_index conf) (length (rc_mints conf)) mode out"
    by (metis result.inject(1) prod.inject)
  then have "graph_shape conf base mode out"
    using graph_shape_of_ok [OF conf, of "r_edges st"] st by (simp add: routing_ok_def)
  then show ?thesis using st cache_sound_kept(3) [OF _ c, of conf base] by (simp add: routing_ok_def st')
qed

lemma prepare_pruned_ok:
  assumes conf: "conf_ok conf base" and st: "routing_ok conf base st"
    and p: "prepare_pruned_edges_if_not_initialized conf now hot mode st = (Ok st' :: (_, 'x) result)"
  shows "routing_ok conf base st' \<and> graph_shape conf base mode (snd (r_pruned st' mode))"
proof (cases "snd (r_pruned st mode) = [] \<or> saturating_sub now (fst (r_pruned st mode)) > 900000")
  case False
  then show ?thesis using p st by (auto simp: prepare_pruned_edges_if_not_initialized_def routing_ok_def)
next
  case True
  with p have "prepare_pruned_edges_and_cleanup_cache conf now hot mode st = (Ok st' :: (_, 'x) result)"
    by (simp add: prepare_pruned_edges_if_not_initialized_def)
  from cleanup_cache_ok [OF conf st this] show ?thesis .
qed

subsection \<open>Discovered paths\<close>

lemma is_path_mints:
  "graph_shape conf base ExactIn (se_out_edges env) \<Longrightarrow> is_path env a p b \<Longrightarrow>
     mint_path base (rc_mints conf ! unat a) (map ewn_edge p) (rc_mints conf ! unat b)"
  by (induction p arbitrary: a) (auto simp: graph_shape_def Let_def)

text \<open>The price of an edge of the graph never panics.\<close>

lemma edge_info_Ok:
  assumes "unat i < length edges" "\<forall>e \<in> set edges. edge_state_ok n (e_state e)"
  shows "\<exists>p. (case mode of ExactIn \<Rightarrow> edge_info_exact_in edges | ExactOut \<Rightarrow> edge_info_exact_out ln_fn edges) i a =
    (Ok p :: (_, 'x) result)"
proof (cases mode)
  case ExactIn
  then show ?thesis using assms(1) by (simp add: edge_info_exact_in_def at_index_def)
next
  case ExactOut
  have "edge_is_valid (e_state (edges ! unat i)) \<Longrightarrow> cached_prices (e_state (edges ! unat i)) \<noteq> []"
    using assms nth_mem [OF assms(1)] edge_is_valid_flag by (fastforce simp: edge_state_ok_def)
  then show ?thesis using assms(1) ExactOut
    by (auto simp: edge_info_exact_out_def at_index_def cached_price_exact_out_for_def Let_def)
qed

lemma generate_best_paths_sound:
  assumes conf: "conf_ok conf base" and st: "routing_ok conf base st" and start: "unat start < length (rc_mints conf)"
    and g: "graph_shape conf base mode out_edges"
  shows "\<exists>paths. generate_best_paths conf ln_fn mode amount n k start out_edges hot avoid len (r_edges st) =
      (Ok paths :: (_, 'x) result) \<and> length paths = length (rc_mints conf) \<and>
    (mode = ExactIn \<longrightarrow> (\<forall>i < length paths. paths_sound conf base start (node_of_usize i) (paths ! i)))"
proof -
  have base: "map frozen (r_edges st) = map frozen base" using st by (simp add: routing_ok_def)
  have lens: "length out_edges = length (rc_mints conf)" "8 * length (rc_mints conf) \<le> 2 ^ 32" "0 < rc_retain_path_count conf"
    using g conf by (auto simp: graph_shape_def conf_ok_def)
  let ?env = "\<lparr>se_mode = mode, se_max_accounts = n - k, se_out_edges = out_edges,
    se_edge_price = (case mode of ExactIn \<Rightarrow> edge_info_exact_in (r_edges st)
      | ExactOut \<Rightarrow> edge_info_exact_out ln_fn (r_edges st)), se_hot_mints = hot, se_avoid_cold_mints = avoid\<rparr> :: 'x search_env"
  let ?env' = "?env\<lparr>se_max_accounts := min (se_max_accounts ?env) 40\<rparr>"
  have nodes: "unat (target_node e) < length out_edges \<and> unat (ewn_edge e) < length (r_edges st)"
    if "edges \<in> set out_edges" "e \<in> set edges" for edges e
    using g that same_base(1) [OF base] by (auto simp: graph_shape_def in_set_conv_nth [of edges])
  have "\<forall>a. \<exists>p. se_edge_price ?env' (ewn_edge e) a = Ok p" if "edges \<in> set out_edges" "e \<in> set edges" for edges e
  proof -
    have "unat (ewn_edge e) < length (r_edges st)" using nodes [OF that] ..
    moreover have "\<forall>e \<in> set (r_edges st). edge_state_ok (length (rc_path_warming_amounts conf)) (e_state e)"
      using st by (simp add: routing_ok_def)
    ultimately show ?thesis
      unfolding search_env.simps search_env.update_convs by (intro allI) (rule edge_info_Ok)
  qed
  then have env: "search_env_ok ?env'" using nodes lens by (simp add: search_env_ok_def)
  obtain paths s where p: "best_price_paths_depth_search start amount len ?env
      (best_paths_allocate (length out_edges) (rc_retain_path_count conf) mode)
      (best_by_node_allocate (length out_edges)) = Ok (paths, s)" "length paths = length out_edges"
    "\<forall>i < length paths. \<forall>entry \<in> set (paths ! i).
       path_entry_ok ?env' start (f64_of_u64 amount) (max 1 len) (of_nat i) entry"
    using search_returns [OF env, of start "rc_retain_path_count conf" amount len] start lens by auto
  let ?paths = "map (map (map ewn_edge \<circ> snd)) paths"
  have "paths_sound conf base start (node_of_usize i) (?paths ! i)" if "mode = ExactIn" "i < length ?paths" for i
  proof -
    have "snd entry \<noteq> [] \<and> mint_path base (rc_mints conf ! unat start) (map ewn_edge (snd entry))
        (rc_mints conf ! unat (of_nat i :: mint_node))" if "entry \<in> set (paths ! i)" for entry
      using p(3) \<open>i < length ?paths\<close> that is_path_mints [of conf base ?env' start "snd entry"] g \<open>mode = ExactIn\<close>
      by (auto simp: path_entry_ok_def)
    then show ?thesis using that by (auto simp: paths_sound_def node_of_usize_def)
  qed
  then show ?thesis using p(1,2) lens by (auto simp: generate_best_paths_def)
qed

lemma cached_paths_sound:
  assumes st: "routing_ok conf base st" and mode: "rq_mode rq = ExactIn"
    and c: "cached_paths now rq i j amount st = (Ok (cached, st') :: (_, 'x) result)"
  shows "routing_ok conf base st' \<and> r_pruned st' = r_pruned st \<and>
    (\<forall>paths. cached = Some paths \<longrightarrow> paths_sound conf base i j paths)"
proof -
  obtain lo hi cache where g: "cache_get now i j ExactIn amount (rq_max_accounts rq) (r_cache st) = ((lo, hi), cache)"
    by (cases "cache_get now i j ExactIn amount (rq_max_accounts rq) (r_cache st)") auto
  have s: "cache_sound conf base (r_cache st)" using st by (simp add: routing_ok_def)
  from c g mode have "st' = st\<lparr>r_cache := cache\<rparr>" "\<forall>paths. cached = Some paths \<longrightarrow> paths = or_default [] lo @ or_default [] hi"
    by (auto simp: cached_paths_def lookup_edge_index_paths_def Let_def split: if_splits)
  moreover have "cache_sound conf base cache"
    using cache_sound_kept(1) [OF s, of now i j ExactIn amount "rq_max_accounts rq"] g by simp
  ultimately show ?thesis
    using st cache_sound_get [OF s g] by (auto simp: routing_ok_def paths_sound_def)
qed

lemma discovered_paths_sound:
  assumes conf: "conf_ok conf base" and st: "routing_ok conf base st" and mode: "rq_mode rq = ExactIn"
    and g: "graph_shape conf base ExactIn (snd (r_pruned st ExactIn))"
    and i: "unat i < length (rc_mints conf)"
    and d: "discovered_paths conf env rq len i j amount st = (Ok (paths, st') :: (_, 'x) result)"
  shows "routing_ok conf base st' \<and> r_pruned st' = r_pruned st \<and> paths_sound conf base i j paths"
proof -
  obtain all where a: "generate_best_paths conf (qe_ln env) ExactIn amount (rq_max_accounts rq) min_accounts i
      (snd (r_pruned st ExactIn)) (List.map_filter (rc_mint_to_index conf) (rq_hot_mints rq)) (\<not> rq_ignore_cache rq)
      len (r_edges st) = (Ok all :: (_, 'x) result)"
    and s: "\<forall>k < length all. paths_sound conf base i (node_of_usize k) (all ! k)"
    using generate_best_paths_sound [OF conf st i g] by blast
  from d a mode have j: "unat j < length all" "paths = all ! unat j"
    and st': "st' = st\<lparr>r_cache := insert_paths (\<lambda>_. True) i ExactIn amount (rq_max_accounts rq) (qe_now env) all (r_cache st)\<rparr>"
    by (auto simp: discovered_paths_def lookup_edge_index_paths_def mint_index_def at_index_Ok Let_def)
  have "cache_sound conf base (insert_paths (\<lambda>_. True) i ExactIn amount (rq_max_accounts rq) (qe_now env) all (r_cache st))"
    using s st by (intro cache_sound_insert_paths) (simp_all add: routing_ok_def)
  then show ?thesis using st s j by (fastforce simp: routing_ok_def st' node_of_usize_def)
qed

lemma push_direct_cases:
  assumes "push_direct edges j e ps = (Ok ps' :: (_, 'x) result)"
  obtains "ps' = ps" | "ps' = ps @ [[ewn_edge e]]" "target_node e = j"
  using assms by (auto simp: push_direct_def split: if_splits)

lemma add_direct_paths_sound:
  assumes g: "graph_shape conf base ExactIn out_edges"
    and paths: "paths_sound conf base i j paths"
    and d: "add_direct_paths edges i j out_edges paths = (Ok paths' :: (_, 'x) result)"
  shows "paths_sound conf base i j paths'"
proof -
  from d have i: "unat i < length out_edges"
    and r: "rfold (push_direct edges j) (out_edges ! unat i) paths = (Ok paths' :: (_, 'x) result)"
    by (auto simp: add_direct_paths_def mint_index_def at_index_Ok)
  show ?thesis
  proof (rule rfold_Ok_inv [OF r, where I = "paths_sound conf base i j"])
    fix e ps ps'
    assume e: "e \<in> set (out_edges ! unat i)" and ps: "paths_sound conf base i j ps"
      and step: "push_direct edges j e ps = (Ok ps' :: (_, 'x) result)"
    from step show "paths_sound conf base i j ps'"
      by (cases rule: push_direct_cases) (use ps g i e in \<open>auto simp: paths_sound_def graph_shape_def Let_def\<close>)
  qed (rule paths)
qed

lemma candidate_paths_sound:
  assumes conf: "conf_ok conf base" and st: "routing_ok conf base st" and mode: "rq_mode rq = ExactIn"
    and g: "graph_shape conf base ExactIn (snd (r_pruned st ExactIn))" and i: "unat i < length (rc_mints conf)"
    and c: "candidate_paths conf env rq len i j amount st = (Ok ((used, paths), st') :: (_, 'x) result)"
  shows "routing_ok conf base st' \<and> paths_sound conf base i j paths"
proof -
  from c obtain cached st1 ps st2 where
    1: "cached_paths (qe_now env) rq i j amount st = (Ok (cached, st1) :: (_, 'x) result)"
    and 2: "(case cached of Some paths \<Rightarrow> Ok (paths, st1) | None \<Rightarrow> discovered_paths conf env rq len i j amount st1) =
      (Ok (ps, st2) :: (_, 'x) result)"
    and 3: "add_direct_paths (r_edges st2) i j (snd (r_pruned st2 ExactIn)) ps = (Ok paths :: (_, 'x) result)" "st' = st2"
    using mode by (auto simp: candidate_paths_def)
  note c1 = cached_paths_sound [OF st mode 1]
  have "routing_ok conf base st2 \<and> r_pruned st2 = r_pruned st \<and> paths_sound conf base i j ps"
  proof (cases cached)
    case None
    with 2 have "discovered_paths conf env rq len i j amount st1 = (Ok (ps, st2) :: (_, 'x) result)" by simp
    from discovered_paths_sound [OF conf _ mode _ i this] c1 g show ?thesis by auto
  next
    case (Some p)
    then show ?thesis using 2 c1 by auto
  qed
  then show ?thesis using add_direct_paths_sound [OF _ _ 3(1)] g 3(2) by auto
qed

subsection \<open>Evaluating paths only cools edges down\<close>

definition edges_ok :: "nat \<Rightarrow> ('i, 'd, 'e) edge list \<Rightarrow> ('i, 'd, 'e) edge list \<Rightarrow> bool" where
  "edges_ok n base edges \<longleftrightarrow> map frozen edges = map frozen base \<and> (\<forall>e \<in> set edges. edge_state_ok n (e_state e))"

lemma edges_ok_cooled:
  assumes ok: "edges_ok n base edges" and i: "i < length edges"
    and c: "add_cooldown powf now d (e_state (edges ! i)) = (Ok es :: (_, 'x) result)"
  shows "edges_ok n base (edges[i := (edges ! i)\<lparr>e_state := es\<rparr>])"
proof -
  let ?e = "(edges ! i)\<lparr>e_state := es\<rparr>"
  have "edge_state_ok n (e_state (edges ! i))" using ok i by (simp add: edges_ok_def)
  then have "edge_state_ok n es" using add_cooldown_Ok [OF c] by (simp add: edge_state_ok_def)
  moreover have "set (edges[i := ?e]) \<subseteq> insert ?e (set edges)" by (rule set_update_subset_insert)
  moreover have "map frozen (edges[i := ?e]) = map frozen edges" using i by (simp add: map_update list_update_same_conv)
  ultimately show ?thesis using ok by (auto simp: edges_ok_def)
qed

lemma reject_edges_ok:
  assumes "edges_ok n base (qs_edges st)" and "unat i < length (qs_edges st)"
    and "reject env cooldown i (qs_edges st ! unat i) st = (Ok (r, st') :: (_, 'x) result)"
  shows "edges_ok n base (qs_edges st')"
  using assms edges_ok_cooled [OF assms(1,2)] by (auto simp: reject_def split: if_splits)

lemmas asm_splits = if_split_asm option.split_asm result.split_asm prod.split_asm

text \<open>One step of an evaluation stops, gives up on the edge, or goes on; only giving up changes
  the edges.\<close>

lemma compute_out_step:
  assumes "compute_out_amount_from_path env cooldown (i # path) current dumb st = (Ok (r, st') :: (_, 'x) result)"
  obtains (stop) "qs_edges st' = qs_edges st"
  | (reject) snap where "unat i < length (qs_edges st)"
      "reject env cooldown i (qs_edges st ! unat i) (st\<lparr>qs_snapshot := snap\<rparr>) = (Ok (r, st') :: (_, 'x) result)"
  | (continue) snap current' dumb' where "compute_out_amount_from_path env cooldown path current' dumb'
      (st\<lparr>qs_snapshot := snap\<rparr>) = (Ok (r, st') :: (_, 'x) result)"
proof (cases "edge_is_valid (e_state (qs_edges st ! unat i))")
  case False
  then show ?thesis using assms stop by (auto simp: at_index_Ok split: if_split_asm)
next
  case True
  let ?e = "qs_edges st ! unat i"
  obtain prepared snap where i: "unat i < length (qs_edges st)"
    and p: "prepare (qs_snapshot st) ?e (qe_view env) = (Ok (prepared, snap) :: (_, 'x) result)"
    using assms True by (auto simp: at_index_Ok)
  show ?thesis
  proof (cases prepared)
    case None
    then show ?thesis using assms True i p stop by (auto simp: at_index_def)
  next
    case (Some d)
    note [simp] = at_index_def Let_def
    show ?thesis
    proof (cases "edge_quote ?e d (qe_view env) current")
      case (Ok quote)
      then show ?thesis
        using assms True i p Some stop reject continue
        by (cases "q_out_amount quote = 0") (auto split: asm_splits)
    qed (use assms True i p Some reject in auto)
  qed
qed

lemma compute_in_step:
  assumes "compute_in_amount_from_path env cooldown amount (i # path) current dumb st = (Ok (r, st') :: (_, 'x) result)"
  obtains (stop) "qs_edges st' = qs_edges st"
  | (reject) snap where "unat i < length (qs_edges st)"
      "reject env cooldown i (qs_edges st ! unat i) (st\<lparr>qs_snapshot := snap\<rparr>) = (Ok (r, st') :: (_, 'x) result)"
  | (continue) snap current' dumb' where "compute_in_amount_from_path env cooldown amount path current' dumb'
      (st\<lparr>qs_snapshot := snap\<rparr>) = (Ok (r, st') :: (_, 'x) result)"
proof (cases "edge_supports_exact_out (qs_edges st ! unat i) \<and> edge_is_valid (e_state (qs_edges st ! unat i))")
  case False
  then show ?thesis using assms stop by (auto simp: at_index_Ok split: if_split_asm)
next
  case True
  let ?e = "qs_edges st ! unat i"
  obtain prepared snap where i: "unat i < length (qs_edges st)"
    and p: "prepare (qs_snapshot st) ?e (qe_view env) = (Ok (prepared, snap) :: (_, 'x) result)"
    using assms True by (auto simp: at_index_Ok)
  show ?thesis
  proof (cases prepared)
    case None
    then show ?thesis using assms True i p stop by (auto simp: at_index_def)
  next
    case (Some d)
    note [simp] = at_index_def Let_def
    show ?thesis
    proof (cases "edge_quote_exact_out ?e d (qe_view env) current")
      case (Ok quote)
      then show ?thesis
        using assms True i p Some stop reject continue
        by (cases "q_out_amount quote = 0") (auto split: asm_splits)
    qed (use assms True i p Some reject in auto)
  qed
qed

lemma compute_out_edges_ok:
  "compute_out_amount_from_path env cooldown path current dumb st = (Ok (r, st') :: (_, 'x) result) \<Longrightarrow>
     edges_ok n base (qs_edges st) \<Longrightarrow> edges_ok n base (qs_edges st')"
proof (induction path arbitrary: current dumb st)
  case (Cons i path)
  from Cons.prems(1) show ?case
  proof (cases rule: compute_out_step)
    case (reject snap)
    then show ?thesis using reject_edges_ok [of n base "st\<lparr>qs_snapshot := snap\<rparr>" i] Cons.prems(2) by simp
  next
    case (continue snap current' dumb')
    from Cons.IH [OF this] Cons.prems(2) show ?thesis by simp
  qed (simp add: Cons.prems(2))
qed simp

lemma compute_in_edges_ok:
  "compute_in_amount_from_path env cooldown amount path current dumb st = (Ok (r, st') :: (_, 'x) result) \<Longrightarrow>
     edges_ok n base (qs_edges st) \<Longrightarrow> edges_ok n base (qs_edges st')"
proof (induction path arbitrary: current dumb st)
  case (Cons i path)
  from Cons.prems(1) show ?case
  proof (cases rule: compute_in_step)
    case (reject snap)
    then show ?thesis using reject_edges_ok [of n base "st\<lparr>qs_snapshot := snap\<rparr>" i] Cons.prems(2) by simp
  next
    case (continue snap current' dumb')
    from Cons.IH [OF this] Cons.prems(2) show ?thesis by simp
  qed (simp add: Cons.prems(2))
qed simp

lemma route_steps_loop_keeps:
  "route_steps_loop ask next view path current slot steps st = (Ok (r, st') :: (_, 'x) result) \<Longrightarrow>
     qs_edges st' = qs_edges st"
proof (induction path arbitrary: current slot steps st)
  case (Cons i path)
  let ?e = "qs_edges st ! unat i"
  obtain prepared snap where i: "unat i < length (qs_edges st)"
    and p: "prepare (qs_snapshot st) ?e view = (Ok (prepared, snap) :: (_, 'x) result)"
    using Cons.prems by (auto simp: at_index_Ok)
  show ?case
  proof (cases prepared)
    case None
    then show ?thesis using Cons.prems i p by (auto simp: at_index_def)
  next
    case (Some d)
    then show ?thesis
      using Cons.prems i p Cons.IH [of _ _ _ "st\<lparr>qs_snapshot := snap\<rparr>"]
      by (cases "ask ?e d current") (auto simp: at_index_def)
  qed
qed simp

lemma build_keeps:
  "(case mode of ExactIn \<Rightarrow> build_route_steps | ExactOut \<Rightarrow> build_route_steps_exact_out) view path amount st =
     (Ok (r, st') :: (_, 'x) result) \<Longrightarrow> qs_edges st' = qs_edges st"
  by (cases mode) (auto simp: build_route_steps_def build_route_steps_exact_out_def dest: route_steps_loop_keeps)

subsection \<open>The answer\<close>

lemma evaluate_all:
  assumes "rfold (evaluate_path env mode amount) paths ([], qs) = (Ok (kept, qs') :: (_, 'x) result)"
    and "edges_ok n base (qs_edges qs)"
  shows "fst ` set kept \<subseteq> set paths \<and> edges_ok n base (qs_edges qs')"
proof -
  have "fst ` set (fst (kept, qs')) \<subseteq> set paths \<and> edges_ok n base (qs_edges (snd (kept, qs')))"
  proof (rule rfold_Ok_inv [OF assms(1), where I = "\<lambda>acc. fst ` set (fst acc) \<subseteq> set paths \<and> edges_ok n base (qs_edges (snd acc))"])
    fix path acc acc'
    assume path: "path \<in> set paths" and acc: "fst ` set (fst acc) \<subseteq> set paths \<and> edges_ok n base (qs_edges (snd acc))"
      and e: "evaluate_path env mode amount path acc = (Ok acc' :: (_, 'x) result)"
    obtain k q where a: "acc = (k, q)" by (cases acc)
    from e obtain r q' where
      r: "(case mode of ExactIn \<Rightarrow> compute_out_amount_from_path env True path amount amount q
         | ExactOut \<Rightarrow> compute_in_amount_from_path env True amount path amount amount q) = (Ok (r, q') :: (_, 'x) result)"
      and acc': "acc' = (case r of Inr (Some (v, _)) \<Rightarrow> if v > 0 then k @ [(path, v)] else k | _ \<Rightarrow> k, q')"
      by (auto simp: evaluate_path_def a)
    have "edges_ok n base (qs_edges q')"
      using r acc compute_out_edges_ok compute_in_edges_ok by (cases mode) (fastforce simp: a)+
    moreover have "fst ` set (fst acc') \<subseteq> insert path (fst ` set k)"
      by (auto simp: acc' split: sum.splits option.splits)
    ultimately show "fst ` set (fst acc') \<subseteq> set paths \<and> edges_ok n base (qs_edges (snd acc'))"
      using acc path by (auto simp: a acc')
  qed (use assms(2) in simp)
  then show ?thesis by simp
qed

lemma first_route_edges_ok:
  "first_route env rq amount ps qs = (Ok (r, qs') :: (_, 'x) result) \<Longrightarrow> edges_ok n base (qs_edges qs) \<Longrightarrow>
     edges_ok n base (qs_edges qs')"
proof (induction ps arbitrary: qs)
  case (Cons p ps)
  obtain path v where p: "p = (path, v)" by (cases p)
  obtain b q1 where b: "(case rq_mode rq of ExactIn \<Rightarrow> build_route_steps | ExactOut \<Rightarrow> build_route_steps_exact_out)
      (qe_view env) path (rq_amount rq) qs = (Ok (b, q1) :: (_, 'x) result)"
    using Cons.prems(1) by (auto simp: p)
  have q1: "edges_ok n base (qs_edges q1)" using build_keeps [OF b] Cons.prems(2) by simp
  show ?case
  proof (cases b)
    case (Inl e)
    then show ?thesis using Cons.prems(1) b q1 by (auto simp: p)
  next
    case (Inr ss)
    then obtain small q2 where c: "compute_out_amount_from_path env False path 1000 1000 q1 = (Ok (small, q2) :: (_, 'x) result)"
      using Cons.prems(1) b by (auto simp: p Let_def split: prod.split_asm if_split_asm)
    have q2: "edges_ok n base (qs_edges q2)" by (rule compute_out_edges_ok [OF c q1])
    show ?thesis
      using Cons.prems(1) b c q2 Inr Cons.IH [of q2]
      by (cases small) (auto simp: p Let_def split: prod.split_asm if_split_asm)
  qed
qed simp

lemma first_route_from:
  assumes "first_route env rq amount ps qs = (Ok (Inr (Some route), qs') :: (_, 'x) result)" and "rq_mode rq = ExactIn"
  shows "\<exists>path q1 q2 v slot. (path, v) \<in> set ps \<and> build_route_steps (qe_view env) path (rq_amount rq) q1 =
      (Ok (Inr (ro_steps route, slot), q2) :: (_, 'x) result) \<and>
    (\<forall>n base. edges_ok n base (qs_edges qs) \<longrightarrow> edges_ok n base (qs_edges q1)) \<and> ro_steps route \<noteq> [] \<and>
    ro_in_amount route = rs_in_amount (hd (ro_steps route)) \<and>
    ro_input_mint route = rq_input_mint rq \<and> ro_output_mint route = rq_output_mint rq"
  using assms(1)
proof (induction ps arbitrary: qs)
  case (Cons p ps)
  obtain path v where p: "p = (path, v)" by (cases p)
  obtain b q1 where b: "build_route_steps (qe_view env) path (rq_amount rq) qs = (Ok (b, q1) :: (_, 'x) result)"
    using Cons.prems(1) assms(2) by (auto simp: p)
  obtain steps slot where s: "b = Inr (steps, slot)"
    using Cons.prems(1) b assms(2) by (cases b) (auto simp: p)
  then obtain small' q2 where ne: "steps \<noteq> []"
    and c': "compute_out_amount_from_path env False path 1000 1000 q1 = (Ok (small', q2) :: (_, 'x) result)"
    using Cons.prems(1) b assms(2) by (auto simp: p Let_def split: prod.split_asm if_split_asm)
  then obtain small where c: "compute_out_amount_from_path env False path 1000 1000 q1 = (Ok (Inr small, q2) :: (_, 'x) result)"
    using Cons.prems(1) b s assms(2) by (cases small') (auto simp: p Let_def)
  have q2: "edges_ok n base (qs_edges qs) \<Longrightarrow> edges_ok n base (qs_edges q2)" for n base
    using compute_out_edges_ok [OF c] build_keeps [of ExactIn _ _ _ qs b q1, simplified, OF b] by simp
  let ?out = "adjusted_out ExactIn (rq_amount rq) amount (rs_in_amount (hd steps)) v"
  show ?case
  proof (cases "?out = 0")
    case True
    then have "first_route env rq amount ps q2 = (Ok (Inr (Some route), qs') :: (_, 'x) result)"
      using Cons.prems(1) b s c ne assms(2) by (simp add: p Let_def)
    from Cons.IH [OF this] q2 show ?thesis by (meson list.set_intros(2))
  next
    case False
    then have "ro_steps route = steps" "ro_in_amount route = rs_in_amount (hd steps)"
      "ro_input_mint route = rq_input_mint rq" "ro_output_mint route = rq_output_mint rq"
      using Cons.prems(1) b s c ne assms(2) by (auto simp add: p Let_def adjusted_in_def)
    then show ?thesis using b s ne p by (metis list.set_intros(1))
  qed
qed simp

lemma choose_route_ok:
  assumes "choose_route env rq amount paths st = (Ok (r, st') :: (_, 'x) result)" and "routing_ok conf base st"
  shows "routing_ok conf base st' \<and> r_pruned st' = r_pruned st"
proof -
  let ?n = "length (rc_path_warming_amounts conf)"
  from assms(1) obtain kept qs qs' where
    1: "rfold (evaluate_path env (rq_mode rq) amount) paths ([], \<lparr>qs_edges = r_edges st, qs_snapshot = Map.empty\<rparr>) =
      (Ok (kept, qs) :: (_, 'x) result)"
    and 2: "first_route env rq amount (sort_by (by_output (rq_mode rq)) kept) qs = (Ok (r, qs') :: (_, 'x) result)"
    and st': "st' = st\<lparr>r_edges := qs_edges qs'\<rparr>"
    by (auto simp: choose_route_def)
  have "edges_ok ?n base (qs_edges \<lparr>qs_edges = r_edges st, qs_snapshot = Map.empty\<rparr>)"
    using assms(2) by (simp add: edges_ok_def routing_ok_def)
  from evaluate_all [OF 1 this] first_route_edges_ok [OF 2] have "edges_ok ?n base (qs_edges qs')" by blast
  then show ?thesis using assms(2) by (simp add: st' routing_ok_def edges_ok_def)
qed

text \<open>A route of an attempt: the edges lead from the input mint to the output mint, the first is
  quoted for the amount of the attempt and each other one for what the step before gives out,
  all on the same prepared pools.\<close>

definition route_ok ::
    "('i, 'd, 'e) edge list \<Rightarrow> 'e account_view \<Rightarrow> route_request \<Rightarrow> u64 \<Rightarrow> route \<Rightarrow> bool" where
  "route_ok base view rq amount route \<longleftrightarrow> ro_steps route \<noteq> [] \<and>
     ro_input_mint route = rq_input_mint rq \<and> ro_output_mint route = rq_output_mint rq \<and>
     mint_path base (rq_input_mint rq) (map rs_edge (ro_steps route)) (rq_output_mint rq) \<and>
     ro_in_amount route = rs_in_amount (hd (ro_steps route)) \<and>
     (\<exists>snap. steps_answer ExactIn view base snap amount (ro_steps route))"

lemma choose_route_sound:
  assumes c: "choose_route env rq amount paths st = (Ok (Inr (Some route), st') :: (_, 'x) result)"
    and st: "routing_ok conf base st" and mode: "rq_mode rq = ExactIn"
    and paths: "\<forall>p \<in> set paths. mint_path base (rq_input_mint rq) p (rq_output_mint rq)"
  shows "route_ok base (qe_view env) rq (rq_amount rq) route"
proof -
  let ?n = "length (rc_path_warming_amounts conf)"
  from c obtain kept qs qs' where
    1: "rfold (evaluate_path env ExactIn amount) paths ([], \<lparr>qs_edges = r_edges st, qs_snapshot = Map.empty\<rparr>) =
      (Ok (kept, qs) :: (_, 'x) result)"
    and 2: "first_route env rq amount (sort_by (by_output ExactIn) kept) qs = (Ok (Inr (Some route), qs') :: (_, 'x) result)"
    using mode by (auto simp: choose_route_def)
  have "edges_ok ?n base (qs_edges \<lparr>qs_edges = r_edges st, qs_snapshot = Map.empty\<rparr>)"
    using st by (simp add: edges_ok_def routing_ok_def)
  note e = evaluate_all [OF 1 this]
  from first_route_from [OF 2 mode] obtain path q1 q2 v slot where
    p: "(path, v) \<in> set (sort_by (by_output ExactIn) kept)"
    and b: "build_route_steps (qe_view env) path (rq_amount rq) q1 = (Ok (Inr (ro_steps route, slot), q2) :: (_, 'x) result)"
    and q1: "\<forall>n base. edges_ok n base (qs_edges qs) \<longrightarrow> edges_ok n base (qs_edges q1)"
    and r: "ro_steps route \<noteq> []" "ro_in_amount route = rs_in_amount (hd (ro_steps route))"
      "ro_input_mint route = rq_input_mint rq" "ro_output_mint route = rq_output_mint rq" by blast
  have "path \<in> fst ` set kept" using p by force
  then have path: "mint_path base (rq_input_mint rq) path (rq_output_mint rq)" using e paths by blast
  have "map frozen (qs_edges q1) = map frozen base" using q1 e unfolding edges_ok_def by blast
  moreover have "steps_answer ExactIn (qe_view env) (qs_edges q1) (qs_snapshot q2) (rq_amount rq) (ro_steps route)"
    "map rs_edge (ro_steps route) = path"
    using build_answers [of ExactIn "qe_view env" path "rq_amount rq" q1 "ro_steps route" slot q2] b by auto
  ultimately have "steps_answer ExactIn (qe_view env) base (qs_snapshot q2) (rq_amount rq) (ro_steps route)"
    "map rs_edge (ro_steps route) = path"
    using same_base(3) [of "qs_edges q1" base ExactIn "qe_view env"] by simp_all
  then show ?thesis using r path by (auto simp: route_ok_def)
qed

subsection \<open>Requests keep the invariant\<close>

lemma candidate_paths_keeps:
  assumes conf: "conf_ok conf base" and st: "routing_ok conf base st"
    and g: "graph_shape conf base (rq_mode rq) (snd (r_pruned st (rq_mode rq)))" and i: "unat i < length (rc_mints conf)"
    and c: "candidate_paths conf env rq len i j amount st = (Ok ((used, paths), st') :: (_, 'x) result)"
  shows "routing_ok conf base st'"
proof (cases "rq_mode rq")
  case ExactIn
  then show ?thesis using candidate_paths_sound [OF conf st _ _ i c] g by simp
next
  case ExactOut
  from c obtain cached st1 ps st2 where
    1: "cached_paths (qe_now env) rq i j amount st = (Ok (cached, st1) :: (_, 'x) result)"
    and 2: "(case cached of Some paths \<Rightarrow> Ok (paths, st1) | None \<Rightarrow> discovered_paths conf env rq len i j amount st1) =
      (Ok (ps, st2) :: (_, 'x) result)" "st' = st2"
    by (auto simp: candidate_paths_def)
  have s: "cache_sound conf base (r_cache st)" using st by (simp add: routing_ok_def)
  from 1 have "st1 = st\<lparr>r_cache := snd (cache_get (qe_now env) i j (rq_mode rq) amount (rq_max_accounts rq) (r_cache st))\<rparr>"
    by (auto simp: cached_paths_def Let_def case_prod_beta)
  with st cache_sound_kept(1) [OF s] have st1: "routing_ok conf base st1" by (simp add: routing_ok_def)
  show ?thesis
  proof (cases cached)
    case None
    with 2 ExactOut obtain all where "st2 = st1\<lparr>r_cache := insert_paths (\<lambda>_. True) i ExactOut amount (rq_max_accounts rq)
        (qe_now env) all (r_cache st1)\<rparr>"
      by (auto simp: discovered_paths_def Let_def)
    moreover have "cache_sound conf base (insert_paths (\<lambda>_. True) i ExactOut amount (rq_max_accounts rq)
        (qe_now env) all (r_cache st1))"
      using st1 by (intro cache_sound_insert_paths) (simp_all add: routing_ok_def)
    ultimately show ?thesis using st1 2(2) by (simp add: routing_ok_def)
  qed (use 2 st1 in simp)
qed

lemma relax_or_fail_ok:
  "routing_ok conf base st \<Longrightarrow> routing_ok conf base (snd (relax_or_fail conf rq len i j used st))"
  by (auto simp: relax_or_fail_def routing_ok_def intro: cache_sound_kept(2))

lemma mint_index_ok: "conf_ok conf base \<Longrightarrow> rc_mint_to_index conf m = Some i \<Longrightarrow>
    unat i < length (rc_mints conf) \<and> rc_mints conf ! unat i = m"
  by (simp add: conf_ok_def)

lemma route_attempt_ok:
  assumes conf: "conf_ok conf base" and st: "routing_ok conf base st"
    and a: "route_attempt conf env rq st = (Ok (a, st') :: (_, 'x) result)"
  shows "routing_ok conf base st' \<and>
    (rq_mode rq = ExactIn \<longrightarrow>
       (\<forall>route. a = Answer (Inr route) \<longrightarrow> route_ok base (qe_view env) rq (rq_amount rq) route))"
  using a
proof (cases rule: route_attempt_cases)
  case (chosen st1 i j used paths st2 r st3)
  note p = prepare_pruned_ok [OF conf st chosen(1)]
  have i: "unat i < length (rc_mints conf)" "rc_mints conf ! unat i = rq_input_mint rq"
    and j: "rc_mints conf ! unat j = rq_output_mint rq"
    using mint_index_ok [OF conf chosen(2)] mint_index_ok [OF conf chosen(3)] by auto
  have st2: "routing_ok conf base st2" using candidate_paths_keeps [OF conf _ _ i(1) chosen(4)] p by blast
  have st3: "routing_ok conf base st3" using choose_route_ok [OF chosen(5) st2] by blast
  have "st' = st3 \<or> st' = snd (relax_or_fail conf rq
      (or_default (max (rc_max_path_length conf - 1) 1) (rq_max_path_length rq)) i j used st3)"
    using chosen(6) by (auto split: sum.split_asm option.split_asm simp: prod_eq_iff)
  then have "routing_ok conf base st'" using st3 relax_or_fail_ok by blast
  moreover have "route_ok base (qe_view env) rq (rq_amount rq) route"
    if "rq_mode rq = ExactIn" "a = Answer (Inr route)" for route
  proof -
    have "r = Inr (Some route)"
      using chosen(6) that(2) by (auto simp: relax_or_fail_def split: sum.split_asm option.split_asm if_split_asm)
    moreover have "\<forall>p \<in> set paths. mint_path base (rq_input_mint rq) p (rq_output_mint rq)"
      using candidate_paths_sound [OF conf conjunct1 [OF p] that(1) _ i(1) chosen(4)] p that(1) i(2) j
      by (simp add: paths_sound_def)
    ultimately show ?thesis using choose_route_sound [OF _ st2 that(1)] chosen(5) by blast
  qed
  ultimately show ?thesis by blast
qed (use prepare_pruned_ok [OF conf st] in auto)

text \<open>A request followed through \<open>n\<close> retries, each for the request relaxed once more.\<close>

inductive retries ::
    "routing_conf \<Rightarrow> 'e quote_env \<Rightarrow> nat \<Rightarrow> route_request \<Rightarrow> ('i, 'd, 'e) routing_state \<Rightarrow>
     route_request \<Rightarrow> ('i, 'd, 'e) routing_state \<Rightarrow> bool" for conf env where
  none: "retries conf env 0 rq st rq st"
| again: "route_attempt conf env rq st = (Ok (Retry ignore_cache, st1) :: (_, unit) result) \<Longrightarrow>
    retries conf env n (relaxed_request conf rq ignore_cache) st1 rq' st' \<Longrightarrow>
    retries conf env (Suc n) rq st rq' st'"

inductive_cases retries_SucE: "retries conf env (Suc n) rq st rq' st'"

text \<open>The maximal path length is tried once, without the cache once.\<close>

definition retries_left :: "routing_conf \<Rightarrow> route_request \<Rightarrow> nat" where
  "retries_left conf rq = (if rq_ignore_cache rq then 0
     else if rq_max_path_length rq = Some (rc_max_path_length conf) then 1 else 2)"

lemma retries_bounded: "retries conf env n rq st rq' st' \<Longrightarrow> n \<le> retries_left conf rq"
proof (induction rule: retries.induct)
  case (again rq st ig st1 n rq' st')
  then show ?case
    using route_attempt_Retry [OF again(1)]
    by (auto simp: retries_left_def relaxed_request_def split: if_splits)
qed simp

lemma retries_request:
  "retries conf env n rq st rq' st' \<Longrightarrow> rq_amount rq' = (overquoted conf ^^ n) (rq_amount rq) \<and>
     rq_mode rq' = rq_mode rq \<and> rq_input_mint rq' = rq_input_mint rq \<and> rq_output_mint rq' = rq_output_mint rq"
  by (induction rule: retries.induct) (simp_all add: relaxed_request_def funpow_swap1)

text \<open>The outcome of a request is that of the attempt its retries end with.\<close>

definition same_outcome ::
    "('e attempt \<times> 's, 'x) result \<Rightarrow> (('e routing_error + route) \<times> 's, 'x) result \<Rightarrow> bool" where
  "same_outcome a r \<longleftrightarrow> (case a of
      Ok (Answer x, st) \<Rightarrow> r = Ok (x, st)
    | Ok (Retry _, st) \<Rightarrow> False
    | Err e \<Rightarrow> r = Err e
    | Panic \<Rightarrow> r = Panic)"

lemma same_outcome_Ok: "same_outcome a (Ok (x, st)) \<Longrightarrow> a = Ok (Answer x, st)"
  unfolding same_outcome_def
  by (cases a; cases "fst (case a of Ok p \<Rightarrow> p)") (auto split: attempt.split_asm prod.split_asm)

lemma find_best_route_outcome:
  "\<exists>n rq' st'. retries conf env n rq st rq' st' \<and>
     same_outcome (route_attempt conf env rq' st' :: (_, unit) result) (find_best_route conf env rq st)"
proof (induction "retries_left conf rq" arbitrary: rq st rule: less_induct)
  case less
  show ?case
  proof (cases "\<exists>ig st1. route_attempt conf env rq st = (Ok (Retry ig, st1) :: (_, unit) result)")
    case True
    then obtain ig st1 where a: "route_attempt conf env rq st = (Ok (Retry ig, st1) :: (_, unit) result)" by blast
    then have "find_best_route conf env rq st =
        (find_best_route conf env (relaxed_request conf rq ig) st1 :: (_, unit) result)"
      by (subst find_best_route.simps) simp
    moreover have "retries_left conf (relaxed_request conf rq ig) < retries_left conf rq"
      using route_attempt_Retry [OF a] by (auto simp: retries_left_def relaxed_request_def)
    ultimately show ?thesis using less [of "relaxed_request conf rq ig" st1] retries.again [OF a] by metis
  next
    case False
    then have "same_outcome (route_attempt conf env rq st :: (_, unit) result) (find_best_route conf env rq st)"
      by (subst find_best_route.simps) (auto simp: same_outcome_def split: result.splits attempt.splits)
    then show ?thesis using retries.none by blast
  qed
qed

lemma retries_ok:
  "retries conf env n rq st rq' st' \<Longrightarrow> conf_ok conf base \<Longrightarrow> routing_ok conf base st \<Longrightarrow> routing_ok conf base st'"
  by (induction rule: retries.induct) (auto dest: route_attempt_ok)

text \<open>So an answer comes from one of three attempts, each at the amount the one before it was
  overquoted to.\<close>

lemma find_best_route_answer:
  assumes conf: "conf_ok conf base" and st: "routing_ok conf base st"
    and f: "find_best_route conf env rq st = (Ok (r, st') :: (_, unit) result)"
  obtains k rq' st1 where "k \<le> 2" "rq_amount rq' = (overquoted conf ^^ k) (rq_amount rq)"
    "rq_mode rq' = rq_mode rq" "rq_input_mint rq' = rq_input_mint rq" "rq_output_mint rq' = rq_output_mint rq"
    "routing_ok conf base st1" "route_attempt conf env rq' st1 = (Ok (Answer r, st') :: (_, unit) result)"
proof -
  obtain n rq' st1 where r: "retries conf env n rq st rq' st1"
    and o: "same_outcome (route_attempt conf env rq' st1 :: (_, unit) result) (find_best_route conf env rq st)"
    using find_best_route_outcome by blast
  have "n \<le> 2" using retries_bounded [OF r] by (auto simp: retries_left_def split: if_splits)
  moreover have "route_attempt conf env rq' st1 = (Ok (Answer r, st') :: (_, unit) result)"
    using o unfolding f by (rule same_outcome_Ok)
  ultimately show thesis using retries_request [OF r] retries_ok [OF r conf st] by (intro that) auto
qed

subsection \<open>Every state of a running router\<close>

lemma set_unique [simp]: "set (unique xs) = set xs"
  by (simp add: unique_def)

lemma length_unique: "length (unique xs) \<le> length xs"
  using length_remdups_leq [of "rev xs"] by (simp add: unique_def)

definition setup_ok :: "pool_order \<Rightarrow> routing_options \<Rightarrow> u64 list \<Rightarrow> ('i, 'd, 'e) edge list \<Rightarrow> bool" where
  "setup_ok po opts amounts base \<longleftrightarrow> pool_order_ok po \<and> opt_retain_path_count opts \<noteq> Some 0 \<and>
     opt_max_edge_per_pair opts \<noteq> Some 0 \<and> opt_max_edge_per_cold_pair opts \<noteq> Some 0 \<and>
     16 * length base \<le> 2 ^ 32 \<and> (\<forall>e \<in> set base. edge_state_ok (length amounts) (e_state e))"

lemma routing_new_ok:
  assumes su: "setup_ok po opts amounts base"
    and new: "routing_new po now opts amounts base = (Ok (conf, st) :: (_, 'x) result)"
  shows "conf_ok conf base \<and> routing_ok conf base st"
proof -
  define mints where "mints = unique (concat (map (\<lambda>e. [e_input_mint e, e_output_mint e]) base))"
  let ?to_index = "map_of (zip mints (map node_of_usize [0..<length mints]))"
  have conf: "rc_mints conf = mints" "rc_mint_to_index conf = ?to_index" "rc_path_warming_amounts conf = amounts"
    "rc_retain_path_count conf = or_default 10 (opt_retain_path_count opts)" "rc_order conf = po"
    "rc_max_edge_per_pair conf = or_default 8 (opt_max_edge_per_pair opts)"
    "rc_max_edge_per_cold_pair conf = or_default 3 (opt_max_edge_per_cold_pair opts)"
    and st: "r_edges st = base" "pdc_cache (r_cache st) = Map.empty" "\<And>mode. snd (r_pruned st mode) = []"
    using new by (auto simp: routing_new_def Let_def mints_def new_from_prototype_def)
  have "length (concat (map (\<lambda>e. [e_input_mint e, e_output_mint e]) base)) = 2 * length base"
    by (induction base) auto
  then have len: "length mints \<le> 2 * length base"
    using length_unique [of "concat (map (\<lambda>e. [e_input_mint e, e_output_mint e]) base)"] by (simp only: mints_def)
  then have small: "8 * length mints \<le> 2 ^ 32" "length base \<le> 2 ^ 32" using su by (auto simp: setup_ok_def)
  have "unat i < length mints \<and> mints ! unat i = m" if i: "?to_index m = Some i" for m i
  proof -
    from map_of_SomeD [OF i] obtain k where "k < length mints" "mints ! k = m" "i = of_nat k"
      by (auto simp: set_zip node_of_usize_def)
    moreover have "k < 2 ^ 32" using \<open>k < length mints\<close> small(1) by simp
    ultimately show ?thesis by (simp add: unat_of_nat)
  qed
  moreover have "?to_index (e_input_mint e) \<noteq> None \<and> ?to_index (e_output_mint e) \<noteq> None" if "e \<in> set base" for e
  proof -
    have "e_input_mint e \<in> set mints" "e_output_mint e \<in> set mints" using that by (auto simp: mints_def)
    then show ?thesis by (simp add: map_of_zip_is_None)
  qed
  ultimately have "conf_ok conf base"
    using su small by (auto simp: conf_ok_def conf setup_ok_def or_default_def split: option.split)
  moreover have "routing_ok conf base st"
    using su by (simp add: routing_ok_def st conf setup_ok_def cache_sound_def)
  ultimately show ?thesis ..
qed

text \<open>The states of a running router: it starts, the updater reprices an edge, the transaction
  watcher cools an edge down or resets it (\<^verbatim>\<open>tx_watcher.rs\<close>, for each edge a transaction
  touches), the warmer prunes and warms, and clients ask.\<close>

inductive router_reach ::
    "pool_order \<Rightarrow> routing_options \<Rightarrow> u64 list \<Rightarrow> ('i, 'd, 'e) edge list \<Rightarrow> routing_conf \<Rightarrow>
     ('i, 'd, 'e) routing_state \<Rightarrow> bool"
  for po opts amounts base conf where
  started: "routing_new po now opts amounts base = (Ok (conf, st) :: (_, unit) result) \<Longrightarrow>
    router_reach po opts amounts base conf st"
| priced: "router_reach po opts amounts base conf st \<Longrightarrow> k < length (r_edges st) \<Longrightarrow>
    edge_update ln_fn now view decs prices amounts (r_edges st ! k) = (Ok es :: (_, unit) result) \<Longrightarrow>
    router_reach po opts amounts base conf
      (st\<lparr>r_edges := (r_edges st)[k := (r_edges st ! k)\<lparr>e_state := es\<rparr>]\<rparr>)"
| cooled: "router_reach po opts amounts base conf st \<Longrightarrow> k < length (r_edges st) \<Longrightarrow>
    add_cooldown powf now d (e_state (r_edges st ! k)) = (Ok es :: (_, unit) result) \<Longrightarrow>
    router_reach po opts amounts base conf
      (st\<lparr>r_edges := (r_edges st)[k := (r_edges st ! k)\<lparr>e_state := es\<rparr>]\<rparr>)"
| reset: "router_reach po opts amounts base conf st \<Longrightarrow> k < length (r_edges st) \<Longrightarrow>
    router_reach po opts amounts base conf (st\<lparr>r_edges := (r_edges st)[k := (r_edges st ! k)
      \<lparr>e_state := reset_cooldown (e_state (r_edges st ! k))\<rparr>]\<rparr>)"
| pruned: "router_reach po opts amounts base conf st \<Longrightarrow>
    prepare_pruned_edges_and_cleanup_cache conf now hot mode st = (Ok st' :: (_, unit) result) \<Longrightarrow>
    router_reach po opts amounts base conf st'"
| warmed: "router_reach po opts amounts base conf st \<Longrightarrow>
    prepare_cache_for_input_mint conf env m amount n keep st = (Ok (r, st') :: (_, unit) result) \<Longrightarrow>
    router_reach po opts amounts base conf st'"
| asked: "router_reach po opts amounts base conf st \<Longrightarrow>
    find_best_route conf env rq st = (Ok (r, st') :: (_, unit) result) \<Longrightarrow>
    router_reach po opts amounts base conf st'"

lemma edge_update_ok:
  assumes "edge_update ln_fn now view decs prices amounts e = (Ok st :: (_, 'x) result)"
  shows "edge_state_ok (length amounts) st"
proof (cases "decs (e_input_mint e) = None \<or> prices (e_input_mint e) = None")
  case True
  then have "\<not> es_is_valid st" using assms by (auto simp: edge_update_def split: option.splits)
  then show ?thesis by (simp add: edge_state_ok_def)
next
  case False
  then show ?thesis using assms by (auto simp: edge_update_def intro: update_internal_ok)
qed

lemma prepare_cache_ok:
  assumes conf: "conf_ok conf base" and st: "routing_ok conf base st"
    and p: "prepare_cache_for_input_mint conf env m amount n keep st = (Ok (r, st') :: (_, 'x) result)"
  shows "routing_ok conf base st'"
proof (cases "rc_mint_to_index conf m")
  case None
  then show ?thesis using p st by (simp add: prepare_cache_for_input_mint_def)
next
  case (Some i)
  let ?gen = "\<lambda>mode. generate_best_paths conf (qe_ln env) mode amount n min_accounts i (snd (r_pruned st mode)) [] False
    (rc_max_path_length conf) (r_edges st)"
  let ?keep = "\<lambda>i. keep m (rc_mints conf ! unat i)"
  from p Some obtain pin pout where in1: "?gen ExactIn = (Ok pin :: (_, 'x) result)"
    and st': "st' = st\<lparr>r_cache := insert_paths ?keep i ExactOut amount n (qe_now env) pout
      (insert_paths ?keep i ExactIn amount n (qe_now env) pin (r_cache st))\<rparr>"
    by (auto simp: prepare_cache_for_input_mint_def Let_def)
  have i: "unat i < length (rc_mints conf)" using mint_index_ok [OF conf Some] ..
  have "length (snd (r_pruned st ExactIn)) = length (rc_mints conf)" using in1 by (auto simp: generate_best_paths_def)
  then have "graph_shape conf base ExactIn (snd (r_pruned st ExactIn))" 
    using st i unfolding routing_ok_def by (metis length_0_conv not_less_zero)
  from generate_best_paths_sound [OF conf st i this] in1
  have "\<forall>k < length pin. paths_sound conf base i (node_of_usize k) (pin ! k)" by (metis result.inject(1))
  then have "cache_sound conf base (r_cache st')"
    using st unfolding st' by (auto intro!: cache_sound_insert_paths simp: routing_ok_def)
  then show ?thesis using st by (simp add: routing_ok_def st')
qed

lemma routing_ok_edge:
  assumes st: "routing_ok conf base st" and k: "k < length (r_edges st)"
    and es: "edge_state_ok (length (rc_path_warming_amounts conf)) es"
  shows "routing_ok conf base (st\<lparr>r_edges := (r_edges st)[k := (r_edges st ! k)\<lparr>e_state := es\<rparr>]\<rparr>)"
proof -
  let ?e = "(r_edges st ! k)\<lparr>e_state := es\<rparr>"
  have "map frozen ((r_edges st)[k := ?e]) = map frozen (r_edges st)"
    using k by (simp add: map_update list_update_same_conv)
  moreover have "set ((r_edges st)[k := ?e]) \<subseteq> insert ?e (set (r_edges st))" by (rule set_update_subset_insert)
  ultimately show ?thesis using st es by (auto simp: routing_ok_def)
qed

lemma router_reach_ok:
  assumes "setup_ok po opts amounts base" and "router_reach po opts amounts base conf st"
  shows "conf_ok conf base \<and> rc_path_warming_amounts conf = amounts \<and> routing_ok conf base st"
  using assms(2)
proof (induction rule: router_reach.induct)
  case (started now st)
  then show ?case using routing_new_ok [OF assms(1)] by (auto simp: routing_new_def Let_def)
next
  case (priced st k ln_fn now view decs prices es)
  then show ?case using routing_ok_edge edge_update_ok [OF priced(3)] by blast
next
  case (cooled st k powf now d es)
  then have "edge_state_ok (length amounts) (e_state (r_edges st ! k))" by (auto simp: routing_ok_def)
  then have "edge_state_ok (length amounts) es"
    using add_cooldown_Ok [OF cooled(3)] by (simp add: edge_state_ok_def)
  then show ?case using cooled routing_ok_edge by blast
next
  case (reset st k)
  then have "edge_state_ok (length amounts) (e_state (r_edges st ! k))" by (auto simp: routing_ok_def)
  then have "edge_state_ok (length amounts) (reset_cooldown (e_state (r_edges st ! k)))"
    by (simp add: edge_state_ok_def reset_cooldown_def)
  then show ?case using reset routing_ok_edge by blast
next
  case (pruned st now hot mode st')
  then show ?case using cleanup_cache_ok by blast
next
  case (warmed st env m amount n keep r st')
  then show ?case using prepare_cache_ok by blast
next
  case (asked st env rq r st')
  then show ?case using find_best_route_answer route_attempt_ok by metis
qed

subsection \<open>A concrete router\<close>

definition ref_pool_edge :: "pubkey \<Rightarrow> pubkey \<Rightarrow> pubkey \<Rightarrow> (unit, unit, unit) edge" where
  "ref_pool_edge key a b = (ref_priced (Finite False 1))\<lparr>e_input_mint := a, e_output_mint := b,
     e_ident := \<lparr>id_key = key, id_desc = ''ref'', id_input_mint = a, id_output_mint = b, id_accounts_needed = 4\<rparr>\<rparr>"

definition ref_base :: "(unit, unit, unit) edge list" where
  "ref_base = [ref_pool_edge 1 5 6, ref_pool_edge 2 6 7]"

definition ref_options :: routing_options where
  "ref_options = \<lparr>opt_path_cache_validity_ms = 30000, opt_overquote = None, opt_max_path_length = Some 2,
     opt_retain_path_count = Some 2, opt_max_edge_per_pair = None, opt_max_edge_per_cold_pair = None\<rparr>"

definition ref_router :: "routing_conf \<times> (unit, unit, unit) routing_state" where
  "ref_router = (case routing_new ref_order 100000000 ref_options [100] ref_base of
     (Ok p :: (_, unit) result) \<Rightarrow> p | _ \<Rightarrow> undefined)"

definition ref_request :: route_request where
  "ref_request = \<lparr>rq_input_mint = 5, rq_output_mint = 7, rq_amount = 100, rq_max_accounts = 40,
     rq_ignore_cache = False, rq_hot_mints = [], rq_max_path_length = None, rq_mode = ExactIn\<rparr>"

definition ref_env :: "unit quote_env" where
  "ref_env = ref_quote_env\<lparr>qe_now := 100000000\<rparr>"

lemma ref_setup: "setup_ok ref_order ref_options [100] ref_base"
  using ref_priced_thresholds ref_order_ok
  by (simp add: setup_ok_def ref_options_def ref_base_def ref_pool_edge_def ref_priced_def edge_state_ok_def)

lemma ref_router_reach: "router_reach ref_order ref_options [100] ref_base (fst ref_router) (snd ref_router)"
proof -
  have "routing_new ref_order 100000000 ref_options [100] ref_base = (Ok ref_router :: (_, unit) result)"
    by (simp add: ref_router_def routing_new_def psub_def checked_sub_def Let_def)
  then show ?thesis by (intro router_reach.started [of _ 100000000]) simp
qed

lemma ref_route_found:
  "\<exists>route st. find_best_route (fst ref_router) ref_env ref_request (snd ref_router) =
     (Ok (Inr route, st) :: (_, unit) result) \<and> ro_in_amount route = 144 \<and> ro_out_amount route = 82"
proof -
  have "case (find_best_route (fst ref_router) ref_env ref_request (snd ref_router) :: (_, unit) result) of
      Ok (Inr route, _) \<Rightarrow> ro_in_amount route = 144 \<and> ro_out_amount route = 82 | _ \<Rightarrow> False"
    by code_simp
  then show ?thesis by (auto split: result.splits prod.splits sum.splits)
qed

lemma ref_base_quotes: "\<forall>e \<in> set ref_base. quoting_dex (e_dex e)"
  using ref_dex_quotes by (simp add: ref_base_def ref_pool_edge_def ref_priced_def ref_edge_def)

subsection \<open>Theorems\<close>

text \<open>
  C17 (route_connects). Whatever a running router did before (price updates, cooldowns and their
  resets, pruning, cache warming, other requests), a route it answers to an exact-in request
  consists of edges that lead from the requested input mint to the requested output mint. Its
  first step is the quote of its edge for the requested amount, overquoted once for every
  retry, of which there are at most two; every other step is the quote of its edge for what
  the step before gives out. A step whose adapter quotes for the amount it is asked
  (\<open>quoting_dex\<close>) trades exactly that amount; the input amount of the route is the one its
  first step trades.
\<close>

theorem route_connects:
  assumes "setup_ok po opts amounts base" and "router_reach po opts amounts base conf st"
    and "find_best_route conf env rq st = (Ok (Inr route, st') :: (_, unit) result)" and "rq_mode rq = ExactIn"
  shows "\<exists>k \<le> 2. \<exists>amount. amount = (overquoted conf ^^ k) (rq_amount rq) \<and>
    (\<exists>snap. steps_answer ExactIn (qe_view env) base snap amount (ro_steps route)) \<and>
    steps_meet ExactIn base amount (ro_steps route) \<and>
    ro_steps route \<noteq> [] \<and> ro_in_amount route = rs_in_amount (hd (ro_steps route)) \<and>
    mint_path base (rq_input_mint rq) (map rs_edge (ro_steps route)) (rq_output_mint rq) \<and>
    ro_input_mint route = rq_input_mint rq \<and> ro_output_mint route = rq_output_mint rq"
proof -
  have ok: "conf_ok conf base" "routing_ok conf base st" using router_reach_ok [OF assms(1,2)] by auto
  from find_best_route_answer [OF ok assms(3)] obtain k rq' st1 where
    k: "k \<le> 2" "rq_amount rq' = (overquoted conf ^^ k) (rq_amount rq)" and
    rq': "rq_mode rq' = rq_mode rq" "rq_input_mint rq' = rq_input_mint rq" "rq_output_mint rq' = rq_output_mint rq" and
    st1: "routing_ok conf base st1" "route_attempt conf env rq' st1 = (Ok (Answer (Inr route), st') :: (_, unit) result)" .
  from route_attempt_ok [OF ok(1) st1] assms(4) rq'(1)
  have "route_ok base (qe_view env) rq' (rq_amount rq') route" by auto
  then show ?thesis using k rq' steps_answer_meet
    by (intro exI [of _ k] conjI exI [of _ "rq_amount rq'"]) (auto simp: route_ok_def)
qed

text \<open>The reference router answers a request for 100 over its two pools; both trade what they
  are asked.\<close>

theorem route_connects_witness:
  "\<exists>route st. find_best_route (fst ref_router) ref_env ref_request (snd ref_router) =
     (Ok (Inr route, st) :: (_, unit) result) \<and> mint_path ref_base 5 (map rs_edge (ro_steps route)) 7 \<and>
   ro_in_amount route = 144 \<and>
   (\<exists>k \<le> 2. steps_meet ExactIn ref_base ((overquoted (fst ref_router) ^^ k) 100) (ro_steps route))"
proof -
  obtain route st where f: "find_best_route (fst ref_router) ref_env ref_request (snd ref_router) =
     (Ok (Inr route, st) :: (_, unit) result)" "ro_in_amount route = 144" using ref_route_found by blast
  have "rq_mode ref_request = ExactIn" by (simp add: ref_request_def)
  from route_connects [OF ref_setup ref_router_reach f(1) this] f show ?thesis
    by (auto simp: ref_request_def)
qed

text \<open>
  C18 (attempts_bounded). Answering a request takes at most three attempts, whatever they do: a
  chain of at most two retries, each for the request relaxed once more (the maximal path
  length, then no cache) and for the amount of the attempt before, overquoted, ends with an
  attempt that asks for no other one, and the outcome of the request is the outcome of that
  attempt: its answer, its error or its panic.
\<close>

theorem attempts_bounded:
  "\<exists>n \<le> 2. \<exists>rq' st'. retries conf env n rq st rq' st' \<and>
     rq_amount rq' = (overquoted conf ^^ n) (rq_amount rq) \<and>
     (\<forall>ig st''. route_attempt conf env rq' st' \<noteq> (Ok (Retry ig, st'') :: (_, unit) result)) \<and>
     same_outcome (route_attempt conf env rq' st' :: (_, unit) result) (find_best_route conf env rq st)"
proof -
  obtain n rq' st' where r: "retries conf env n rq st rq' st'"
    and o: "same_outcome (route_attempt conf env rq' st' :: (_, unit) result) (find_best_route conf env rq st)"
    using find_best_route_outcome by blast
  have "n \<le> 2" using retries_bounded [OF r] by (auto simp: retries_left_def split: if_splits)
  moreover have "route_attempt conf env rq' st' \<noteq> (Ok (Retry ig, st'') :: (_, unit) result)" for ig st''
    using o by (auto simp: same_outcome_def)
  ultimately show ?thesis using r o retries_request [OF r] by blast
qed

lemma case_Retry:
  "(case r of Ok (Retry ig, st) \<Rightarrow> P ig st | _ \<Rightarrow> False) \<Longrightarrow> \<exists>ig st. r = Ok (Retry ig, st) \<and> P ig st"
  by (cases r) (auto split: prod.split_asm attempt.split_asm)

text \<open>The reference router needs both retries for its request.\<close>

lemma ref_retries:
  "case (route_attempt (fst ref_router) ref_env ref_request (snd ref_router) :: (_, unit) result) of
     Ok (Retry ig1, st1) \<Rightarrow>
       (case (route_attempt (fst ref_router) ref_env (relaxed_request (fst ref_router) ref_request ig1) st1 :: (_, unit) result) of
          Ok (Retry ig2, st2) \<Rightarrow> ig2 | _ \<Rightarrow> False)
   | _ \<Rightarrow> False"
  by code_simp

theorem attempts_bounded_witness:
  "\<exists>rq' st' route st''. retries (fst ref_router) ref_env 2 ref_request (snd ref_router) rq' st' \<and>
     route_attempt (fst ref_router) ref_env rq' st' = (Ok (Answer (Inr route), st'') :: (_, unit) result) \<and>
     find_best_route (fst ref_router) ref_env ref_request (snd ref_router) = (Ok (Inr route, st'') :: (_, unit) result)"
proof -
  let ?conf = "fst ref_router" and ?st = "snd ref_router"
  obtain ig1 st1 ig2 st2 where
    1: "route_attempt ?conf ref_env ref_request ?st = (Ok (Retry ig1, st1) :: (_, unit) result)" and
    2: "route_attempt ?conf ref_env (relaxed_request ?conf ref_request ig1) st1 = (Ok (Retry ig2, st2) :: (_, unit) result)"
    using case_Retry [OF ref_retries] by (auto dest!: case_Retry)
  obtain route st where f: "find_best_route ?conf ref_env ref_request ?st = (Ok (Inr route, st) :: (_, unit) result)"
    using ref_route_found by blast
  obtain n rq' st' where n: "n \<le> 2" "retries ?conf ref_env n ref_request ?st rq' st'"
    and final: "\<forall>ig st''. route_attempt ?conf ref_env rq' st' \<noteq> (Ok (Retry ig, st'') :: (_, unit) result)"
    and o: "same_outcome (route_attempt ?conf ref_env rq' st' :: (_, unit) result)
      (find_best_route ?conf ref_env ref_request ?st)"
    using attempts_bounded [of ?conf ref_env ref_request ?st] by blast
  have "n \<noteq> 0"
    using n(2) final 1 by (auto elim: retries.cases)
  moreover have "n \<noteq> Suc 0"
  proof
    assume "n = Suc 0"
    with n(2) have "retries ?conf ref_env (Suc 0) ref_request ?st rq' st'" by simp
    then show False
      by (rule retries_SucE) (use 1 2 final in \<open>auto elim: retries.cases\<close>)
  qed
  ultimately have "n = 2" using n(1) by linarith
  moreover have "route_attempt ?conf ref_env rq' st' = (Ok (Answer (Inr route), st) :: (_, unit) result)"
    using o unfolding f by (rule same_outcome_Ok)
  ultimately show ?thesis using n(2) f by blast
qed

text \<open>
  The retries are visible to the client: a router with default overquote
  answers an exact-in request for 100 with a route for 144, when it finds the route only
  after the two retries.
\<close>

theorem retry_inflates:
  "rq_amount ref_request = 100 \<and> rq_mode ref_request = ExactIn \<and>
   (\<exists>route st. find_best_route (fst ref_router) ref_env ref_request (snd ref_router) =
     (Ok (Inr route, st) :: (_, unit) result) \<and> ro_in_amount route = 144)"
  using ref_route_found by (auto simp: ref_request_def)

text \<open>
  For exact out the pruned graph runs from the output mint of
  an edge to its input mint, but the direct paths are looked up from the input node of the
  request as for exact in: every direct path that is added is an edge that sells the requested
  output mint for the requested input mint.
\<close>

theorem exact_out_direct_reversed:
  assumes "graph_shape conf base ExactOut out_edges"
    and "add_direct_paths edges i j out_edges [] = (Ok paths :: (_, unit) result)" and "p \<in> set paths"
  shows "\<exists>k. p = [k] \<and> e_input_mint (base ! unat k) = rc_mints conf ! unat j \<and>
    e_output_mint (base ! unat k) = rc_mints conf ! unat i"
proof -
  let ?I = "\<lambda>paths. \<forall>p \<in> set paths. \<exists>k. p = [k] \<and> e_input_mint (base ! unat k) = rc_mints conf ! unat j \<and>
    e_output_mint (base ! unat k) = rc_mints conf ! unat i"
  from assms(2) have i: "unat i < length out_edges"
    and r: "rfold (push_direct edges j) (out_edges ! unat i) [] = (Ok paths :: (_, unit) result)"
    by (auto simp: add_direct_paths_def mint_index_def at_index_Ok)
  have "?I paths"
  proof (rule rfold_Ok_inv [OF r, where I = ?I])
    fix e ps ps'
    assume e: "e \<in> set (out_edges ! unat i)" and ps: "?I ps"
      and step: "push_direct edges j e ps = (Ok ps' :: (_, unit) result)"
    from e have mints: "e_input_mint (base ! unat (ewn_edge e)) = rc_mints conf ! unat (target_node e)"
      "e_output_mint (base ! unat (ewn_edge e)) = rc_mints conf ! unat i"
      using assms(1) i by (auto simp: graph_shape_def Let_def)
    from step show "?I ps'" by (cases rule: push_direct_cases) (use ps mints in auto)
  qed simp
  then show ?thesis using assms(3) by blast
qed

text \<open>A single pool from mint 6 to mint 5 that can be quoted exact out, and a request to buy
  mint 6 with mint 5.\<close>

definition ref_out_dex :: "(unit, unit, unit) dex_interface" where
  "ref_out_dex = ref_dex\<lparr>dex_quote_exact_out := (\<lambda>i d view a. Ok \<lparr>q_in_amount = a, q_out_amount = a,
     q_fee_amount = 1, q_fee_mint = 5\<rparr>), dex_supports_exact_out := (\<lambda>i. True)\<rparr>"

definition ref_out_base :: "(unit, unit, unit) edge list" where
  "ref_out_base = [(ref_pool_edge 1 6 5)\<lparr>e_dex := ref_out_dex\<rparr>]"

definition ref_out_router :: "routing_conf \<times> (unit, unit, unit) routing_state" where
  "ref_out_router = (case routing_new ref_order 100000000 ref_options [100] ref_out_base of
     (Ok p :: (_, unit) result) \<Rightarrow> p | _ \<Rightarrow> undefined)"

definition ref_out_request :: route_request where
  "ref_out_request = ref_request\<lparr>rq_output_mint := 6, rq_mode := ExactOut\<rparr>"

definition ref_out_graph :: graph where
  "ref_out_graph = [[], [\<lparr>source_node = 1, target_node = 0, ewn_edge = 0\<rparr>]]"

lemma ref_out_mints: "rc_mints (fst ref_out_router) = [6, 5]"
  by (simp add: ref_out_router_def routing_new_def psub_def checked_sub_def unique_def ref_out_base_def ref_pool_edge_def
      Let_def)

theorem exact_out_direct_reversed_witness:
  "\<exists>k. [k] = [0 :: edge_index] \<and> e_input_mint (ref_out_base ! unat k) = rc_mints (fst ref_out_router) ! 0"
proof -
  have g: "graph_shape (fst ref_out_router) ref_out_base ExactOut ref_out_graph"
    by (simp add: graph_shape_def ref_out_mints ref_out_graph_def ref_out_base_def ref_pool_edge_def less_Suc_eq)
  have d: "add_direct_paths ref_out_base 1 0 ref_out_graph [] = (Ok [[0]] :: (_, unit) result)"
    by (simp add: add_direct_paths_def ref_out_graph_def mint_index_def at_index_def push_direct_def ref_out_base_def
        ref_pool_edge_def ref_priced_def edge_is_valid_def)
  from exact_out_direct_reversed [OF g d, of "[0]"] show ?thesis by auto
qed

text \<open>
  The reversed direct paths reach the client: a router whose only
  edge sells mint 6 for mint 5 answers the request to buy mint 6 with mint 5 with a route
  over that edge.
\<close>

theorem exact_out_wrong_route:
  "\<exists>route st. find_best_route (fst ref_out_router) ref_env ref_out_request (snd ref_out_router) =
     (Ok (Inr route, st) :: (_, unit) result) \<and> ro_input_mint route = 5 \<and> ro_output_mint route = 6 \<and>
     map rs_edge (ro_steps route) = [0] \<and> e_input_mint (ref_out_base ! 0) = 6 \<and> e_output_mint (ref_out_base ! 0) = 5"
proof -
  have "case (find_best_route (fst ref_out_router) ref_env ref_out_request (snd ref_out_router) :: (_, unit) result) of
      Ok (Inr route, _) \<Rightarrow> ro_input_mint route = 5 \<and> ro_output_mint route = 6 \<and> map rs_edge (ro_steps route) = [0]
    | _ \<Rightarrow> False" by code_simp
  then show ?thesis
    by (auto simp: ref_out_base_def ref_pool_edge_def split: result.splits prod.splits sum.splits)
qed

end
