(* ===== verification/Ix_Builder.thy ===== *)
theory Ix_Builder
  imports Router Exec_Program
begin

text \<open>
  From a route to the instructions of a transaction
  (\<^verbatim>\<open>bin/autobahn-router/src/ix_builder.rs\<close>, \<^verbatim>\<open>swap.rs\<close>): wrapping and unwrapping of SOL,
  creation of the token accounts of the steps, the compute unit estimate, and the executor
  instruction that runs the steps.

  The constructors of token and system program instructions and the derivation of
  associated token addresses are third-party code: the parameters \<open>spl_instructions\<close>. So is
  the step builder of the adapters. Signed 32-bit values are integers with the overflow check
  written out.

  The theorems: the account of wrapped SOL is closed only if it was created before, and the
  built instruction makes the on-chain program run the steps of the route with the requested
  minimum.
\<close>

record 'e spl_instructions =
  sp_token_id :: pubkey
  sp_sol_mint :: pubkey
  sp_ata :: "pubkey \<Rightarrow> pubkey \<Rightarrow> pubkey"
  sp_create_ata :: "pubkey \<Rightarrow> pubkey \<Rightarrow> pubkey \<Rightarrow> pubkey \<Rightarrow> instruction"
  sp_transfer :: "pubkey \<Rightarrow> pubkey \<Rightarrow> u64 \<Rightarrow> instruction"
  sp_sync_native :: "pubkey \<Rightarrow> pubkey \<Rightarrow> (instruction, 'e) result"
  sp_close_account :: "pubkey \<Rightarrow> pubkey \<Rightarrow> pubkey \<Rightarrow> pubkey \<Rightarrow> pubkey list \<Rightarrow> (instruction, 'e) result"

record swap =
  sw_setup :: "instruction list"
  sw_swap :: instruction
  sw_cleanup :: "instruction list"
  sw_cu_estimate :: u32

definition swap_accounts :: "swap \<Rightarrow> pubkey set" where
  "swap_accounts sw = am_pubkey ` (\<Union>ix \<in> set (sw_setup sw @ sw_cleanup sw @ [sw_swap sw]). set (ix_accounts ix))"

definition CU_PER_HOP_DEFAULT :: u32 where
  "CU_PER_HOP_DEFAULT = 80000"

definition CU_BASE :: u32 where
  "CU_BASE = 150000"

datatype 'e build_error = EmptyRoute | BuildError 'e

definition build_err :: "('a, 'e) result \<Rightarrow> ('a, 'e build_error) result" where
  "build_err r = (case r of Ok x \<Rightarrow> Ok x | Err e \<Rightarrow> Err (BuildError e) | Panic \<Rightarrow> Panic)"

subsection \<open>Steps\<close>

text \<open>\<open>build_ix\<close>: the step builder of the adapter of an edge, called with the amounts of the
  step; for exact out every step is built for the maximal input of the whole route.\<close>

type_synonym 'e step_builder = "edge_index \<Rightarrow> pubkey \<Rightarrow> u64 \<Rightarrow> u64 \<Rightarrow> int \<Rightarrow> (swap_instruction, 'e) result"

definition build_ix ::
    "'e step_builder \<Rightarrow> pubkey \<Rightarrow> route_step \<Rightarrow> int \<Rightarrow> swap_mode \<Rightarrow> u64 \<Rightarrow> (swap_instruction, 'e) result" where
  "build_ix builder wallet step max_slippage_bps mode other_amount =
     (let in_amount = (case mode of ExactIn \<Rightarrow> rs_in_amount step | ExactOut \<Rightarrow> other_amount) in
      builder (rs_edge step) wallet in_amount (rs_out_amount step) max_slippage_bps)"

fun build_step_ixs ::
    "'e step_builder \<Rightarrow> pubkey \<Rightarrow> int \<Rightarrow> swap_mode \<Rightarrow> u64 \<Rightarrow> route_step list \<Rightarrow>
     (swap_instruction list, 'e) result" where
  "build_step_ixs builder wallet slippage mode other [] = Ok []"
| "build_step_ixs builder wallet slippage mode other (step # steps) =
     rbind (build_ix builder wallet step slippage mode other) (\<lambda>ix.
     rbind (build_step_ixs builder wallet slippage mode other steps) (\<lambda>ixs. Ok (ix # ixs)))"

definition create_ata :: "'e spl_instructions \<Rightarrow> pubkey \<Rightarrow> pubkey \<Rightarrow> instruction" where
  "create_ata spl wallet mint = sp_create_ata spl wallet wallet mint (sp_token_id spl)"

definition close_wsol_ata :: "'e spl_instructions \<Rightarrow> pubkey \<Rightarrow> pubkey \<Rightarrow> (instruction, 'e) result" where
  "close_wsol_ata spl wallet wsol_account =
     sp_close_account spl (sp_token_id spl) wsol_account wallet wallet [wallet]"

text \<open>The accounts of the steps and the compute units they need.\<close>

type_synonym prepared = "instruction list \<times> instruction list \<times> u32"

definition prepare_step ::
    "'e spl_instructions \<Rightarrow> pubkey \<Rightarrow> bool \<Rightarrow> bool \<Rightarrow> swap_instruction \<Rightarrow> prepared \<Rightarrow> (prepared, 'e) result" where
  "prepare_step spl wallet auto_wrap_sol auto_create_out step acc =
     (case acc of (pre, cleanup, cu) \<Rightarrow>
     let sol = (si_out_mint step = sp_sol_mint spl \<and> auto_wrap_sol) in
     rbind (if auto_create_out \<or> sol
            then rbind (padd cu 12000) (\<lambda>cu. Ok (pre @ [create_ata spl wallet (si_out_mint step)], cu))
            else Ok (pre, cu)) (\<lambda>(pre, cu).
     rbind (if sol
            then rbind (close_wsol_ata spl wallet (sp_ata spl wallet (sp_sol_mint spl))) (\<lambda>ix.
                 rbind (padd cu 12000) (\<lambda>cu. Ok (cleanup @ [ix], cu)))
            else Ok (cleanup, cu)) (\<lambda>(cleanup, cu).
     rbind (padd cu (or_default CU_PER_HOP_DEFAULT (si_cu_estimate step))) (\<lambda>cu.
     Ok (pre, cleanup, cu)))))"

text \<open>Wrapping the input.\<close>

definition wrap_input ::
    "'e spl_instructions \<Rightarrow> pubkey \<Rightarrow> route \<Rightarrow> bool \<Rightarrow> u64 \<Rightarrow> swap_mode \<Rightarrow>
     (instruction list \<times> instruction list, 'e) result" where
  "wrap_input spl wallet route auto_wrap_sol other_amount_threshold mode =
     (if auto_wrap_sol \<and> ro_input_mint route = sp_sol_mint spl then
        let wsol = sp_ata spl wallet (sp_sol_mint spl);
            in_amount = (case mode of ExactIn \<Rightarrow> ro_in_amount route | ExactOut \<Rightarrow> other_amount_threshold) in
        rbind (sp_sync_native spl (sp_token_id spl) wsol) (\<lambda>sync.
        rbind (close_wsol_ata spl wallet wsol) (\<lambda>close.
        Ok ([create_ata spl wallet (sp_sol_mint spl), sp_transfer spl wallet wsol in_amount, sync], [close])))
      else Ok ([], []))"

text \<open>\<open>generate_swap_ix_data\<close> has no error outcome.\<close>

definition infallible :: "'a presult \<Rightarrow> ('a, 'e) result" where
  "infallible r = (case r of Ok x \<Rightarrow> Ok x | _ \<Rightarrow> Panic)"

definition build_ixs ::
    "'e spl_instructions \<Rightarrow> 'e step_builder \<Rightarrow> u8 \<Rightarrow> pubkey \<Rightarrow> route \<Rightarrow> bool \<Rightarrow> bool \<Rightarrow> int \<Rightarrow> u64 \<Rightarrow>
     swap_mode \<Rightarrow> (swap, 'e build_error) result" where
  "build_ixs spl builder router_version wallet route auto_wrap_sol auto_create_out max_slippage_bps
       other_amount_threshold mode =
     (if ro_steps route = [] then Err EmptyRoute
      else
        rbind (build_err (wrap_input spl wallet route auto_wrap_sol other_amount_threshold mode))
          (\<lambda>(pre, cleanup).
        rbind (assert_that (- (2 ^ 31) \<le> max_slippage_bps * 2 \<and> max_slippage_bps * 2 < 2 ^ 31)) (\<lambda>_.
        rbind (build_err (build_step_ixs builder wallet (max_slippage_bps * 2) mode other_amount_threshold
                 (ro_steps route))) (\<lambda>steps.
        rbind (build_err (rfold (prepare_step spl wallet auto_wrap_sol auto_create_out) steps
                 (pre, cleanup, CU_BASE))) (\<lambda>(pre, cleanup, cu).
        let min_out_amount = (case mode of ExactIn \<Rightarrow> other_amount_threshold | ExactOut \<Rightarrow> ro_out_amount route) in
        rbind (infallible (generate_swap_ix_data min_out_amount (map si_instruction steps)
                 (map si_in_amount_offset steps) (sp_ata spl wallet (ro_input_mint route))
                 (map si_out_pubkey steps) crate_id router_version)) (\<lambda>ix.
        Ok \<lparr>sw_setup = pre, sw_swap = ix, sw_cleanup = cleanup, sw_cu_estimate = cu\<rparr>))))))"

subsection \<open>What the loop over the steps adds\<close>

definition step_sol :: "'e spl_instructions \<Rightarrow> bool \<Rightarrow> swap_instruction \<Rightarrow> bool" where
  "step_sol spl wrap step \<longleftrightarrow> si_out_mint step = sp_sol_mint spl \<and> wrap"

definition step_units :: "'e spl_instructions \<Rightarrow> bool \<Rightarrow> bool \<Rightarrow> swap_instruction \<Rightarrow> nat" where
  "step_units spl wrap create step = unat (or_default CU_PER_HOP_DEFAULT (si_cu_estimate step)) +
     (if create \<or> step_sol spl wrap step then 12000 else 0) + (if step_sol spl wrap step then 12000 else 0)"

lemma prepare_step_Ok:
  assumes "prepare_step spl wallet wrap create step (pre, cleanup, cu) = Ok (pre', cleanup', cu')"
  shows "pre' = pre @ (if create \<or> step_sol spl wrap step then [create_ata spl wallet (si_out_mint step)] else []) \<and>
    (\<exists>new. cleanup' = cleanup @ new \<and> length new = (if step_sol spl wrap step then 1 else 0) \<and>
       (\<forall>ix \<in> set new. close_wsol_ata spl wallet (sp_ata spl wallet (sp_sol_mint spl)) = Ok ix)) \<and>
    unat cu' = unat cu + step_units spl wrap create step"
  using assms
  by (cases "step_sol spl wrap step"; cases create)
    (auto simp: prepare_step_def step_sol_def step_units_def padd_Ok Let_def)

lemma prepare_steps_Ok:
  "rfold (prepare_step spl wallet wrap create) steps (pre, cleanup, cu) = Ok (pre', cleanup', cu') \<Longrightarrow>
     pre' = pre @ map (create_ata spl wallet \<circ> si_out_mint) (filter (\<lambda>x. create \<or> step_sol spl wrap x) steps) \<and>
     (\<exists>new. cleanup' = cleanup @ new \<and> length new = length (filter (step_sol spl wrap) steps) \<and>
       (\<forall>ix \<in> set new. close_wsol_ata spl wallet (sp_ata spl wallet (sp_sol_mint spl)) = Ok ix)) \<and>
     unat cu' = unat cu + sum_list (map (step_units spl wrap create) steps)"
proof (induction steps arbitrary: pre cleanup cu)
  case (Cons step steps)
  then obtain s1 c1 cu1 where 1: "prepare_step spl wallet wrap create step (pre, cleanup, cu) = Ok (s1, c1, cu1)"
    and 2: "rfold (prepare_step spl wallet wrap create) steps (s1, c1, cu1) = Ok (pre', cleanup', cu')"
    by auto
  note a = prepare_step_Ok [OF 1] and b = Cons.IH [OF 2]
  from a obtain n1 where n1: "c1 = cleanup @ n1" "length n1 = (if step_sol spl wrap step then 1 else 0)"
    "\<forall>ix \<in> set n1. close_wsol_ata spl wallet (sp_ata spl wallet (sp_sol_mint spl)) = Ok ix" by blast
  from b obtain n2 where n2: "cleanup' = c1 @ n2" "length n2 = length (filter (step_sol spl wrap) steps)"
    "\<forall>ix \<in> set n2. close_wsol_ata spl wallet (sp_ata spl wallet (sp_sol_mint spl)) = Ok ix" by blast
  show ?case
    using a b n1 n2 by (intro conjI exI [of _ "n1 @ n2"]) auto
qed simp

lemma build_err_Ok [simp]: "build_err r = Ok x \<longleftrightarrow> r = Ok x"
  by (simp add: build_err_def split: result.split)

lemma infallible_Ok [simp]: "infallible r = Ok x \<longleftrightarrow> r = Ok x"
  by (simp add: infallible_def split: result.split)

text \<open>The parts of a build that succeeds.\<close>

lemma build_ixs_Ok:
  assumes "build_ixs spl builder version wallet route wrap create slippage other mode = Ok sw"
  obtains pre0 cleanup0 steps where
    "wrap_input spl wallet route wrap other mode = Ok (pre0, cleanup0)"
    "build_step_ixs builder wallet (slippage * 2) mode other (ro_steps route) = Ok steps"
    "rfold (prepare_step spl wallet wrap create) steps (pre0, cleanup0, CU_BASE) =
       Ok (sw_setup sw, sw_cleanup sw, sw_cu_estimate sw)"
    "generate_swap_ix_data (case mode of ExactIn \<Rightarrow> other | ExactOut \<Rightarrow> ro_out_amount route) (map si_instruction steps)
       (map si_in_amount_offset steps) (sp_ata spl wallet (ro_input_mint route)) (map si_out_pubkey steps) crate_id version =
       Ok (sw_swap sw)"
  using assms by (auto simp: build_ixs_def Let_def split: if_split_asm)

subsection \<open>A concrete route\<close>

text \<open>One step over the pool of the reference runtime, from wrapped SOL (mint 5) to mint 6. The
  reference token accounts 20 and 21 stand for the associated accounts.\<close>

definition ref_spl :: "unit spl_instructions" where
  "ref_spl = \<lparr>sp_token_id = 1, sp_sol_mint = 5,
     sp_ata = (\<lambda>w m. if m = 5 then 20 else 21),
     sp_create_ata = (\<lambda>p w m t. \<lparr>ix_program_id = 2, ix_accounts = [], ix_data = [1]\<rparr>),
     sp_transfer = (\<lambda>a b n. \<lparr>ix_program_id = 0, ix_accounts = [], ix_data = u64_le n\<rparr>),
     sp_sync_native = (\<lambda>t a. Ok \<lparr>ix_program_id = t, ix_accounts = [], ix_data = [17]\<rparr>),
     sp_close_account = (\<lambda>t a d w s. Ok \<lparr>ix_program_id = t, ix_accounts = [], ix_data = [9]\<rparr>)\<rparr>"

definition ref_builder :: "unit step_builder" where
  "ref_builder edge wallet amount out slippage =
     Ok \<lparr>si_instruction = ref_client_ix, si_out_pubkey = 21, si_out_mint = 6,
       si_in_amount_offset = 0, si_cu_estimate = None\<rparr>"

definition ref_built_route :: route where
  "ref_built_route = \<lparr>ro_input_mint = 5, ro_output_mint = 6, ro_in_amount = 100, ro_out_amount = 90,
     ro_price_impact_bps = 0, ro_steps = [\<lparr>rs_edge = 0, rs_in_amount = 100, rs_out_amount = 90,
       rs_fee_amount = 1, rs_fee_mint = 5\<rparr>], ro_slot = 7\<rparr>"

definition ref_step_ix :: swap_instruction where
  "ref_step_ix = \<lparr>si_instruction = ref_client_ix, si_out_pubkey = 21, si_out_mint = 6,
       si_in_amount_offset = 0, si_cu_estimate = None\<rparr>"

lemma ref_step_ixs:
  "build_step_ixs ref_builder 7 100 mode 80 (ro_steps ref_built_route) = Ok [ref_step_ix]"
  by (simp add: ref_built_route_def build_ix_def ref_builder_def ref_step_ix_def)

lemma ref_hop_matches: "hop_matches (ref_client_ix, 0, 21) ref_hop"
  by (simp add: hop_matches_def ref_client_ix_def meta_of_def) (simp add: ref_hop_def)

lemma ref_hop_fits: "length (rh_enc ref_hop) \<le> 1222"
  by (simp add: rh_enc_def ref_hop_def length_ux16_enc)

lemma ref_build_ixs:
  "\<exists>sw. build_ixs ref_spl ref_builder 3 7 ref_built_route True True 50 80 ExactIn = Ok sw \<and>
     sw_cleanup sw = [\<lparr>ix_program_id = 1, ix_accounts = [], ix_data = [9]\<rparr>]"
proof -
  have "\<exists>ix. generate_swap_ix_data 80 [ref_client_ix] [0] 20 [21] crate_id 3 = Ok ix"
    using generated_swap_runs [of "[ref_client_ix]" "[0]" "[21]" "[ref_hop]" 80 "ref_info 20 False" crate_id 3
        ref_runtime ref_chain] ref_hop_matches ref_hop_fits ref_hop_sized by fastforce
  then obtain ix where "generate_swap_ix_data 80 [ref_client_ix] [0] 20 [21] crate_id 3 = Ok ix" ..
  then show ?thesis
    using ref_step_ixs [of ExactIn]
    by (simp add: build_ixs_def build_err_def infallible_def wrap_input_def close_wsol_ata_def
        prepare_step_def padd_def checked_add_def CU_BASE_def CU_PER_HOP_DEFAULT_def or_default_def)
       (simp add: ref_built_route_def ref_spl_def ref_step_ix_def)
qed

text \<open>
  C19 (built_swap_runs). The executor instruction built for a route makes the on-chain program
  run the steps of the route in order, and the swap fails unless the last step gives out at
  least the threshold of an exact-in request (the requested output of an exact-out one).
\<close>

theorem built_swap_runs:
  assumes "build_ixs spl builder version wallet route wrap create slippage other mode = Ok sw"
    and "build_step_ixs builder wallet (slippage * 2) mode other (ro_steps route) = Ok steps"
    and "list_all2 hop_matches (map (\<lambda>s. (si_instruction s, si_in_amount_offset s, si_out_pubkey s)) steps) hs"
    and "ai_key input = sp_ata spl wallet (ro_input_mint route)"
    and "length steps < 256" and "\<forall>h \<in> set hs. rh_sized h" and "10 + length (concat (map rh_enc hs)) \<le> 1232"
  shows "map am_pubkey (ix_accounts (sw_swap sw)) = map ai_key (input # concat (map rh_infos hs)) \<and>
    process_instruction rt crate_id (input # concat (map rh_infos hs)) (ix_data (sw_swap sw)) ch =
      swap_spec rt (case mode of ExactIn \<Rightarrow> other | ExactOut \<Rightarrow> ro_out_amount route) input hs ch"
proof -
  have z: "map (\<lambda>s. (si_instruction s, si_in_amount_offset s, si_out_pubkey s)) steps =
      zip (map si_instruction steps) (zip (map si_in_amount_offset steps) (map si_out_pubkey steps))"
    by (induction steps) auto
  have len: "length hs = length (map si_instruction steps)" "length (map si_instruction steps) < 256"
    using list_all2_lengthD [OF assms(3)] assms(5) by simp_all
  from assms(1) show ?thesis
  proof (rule build_ixs_Ok)
    fix pre0 cleanup0 steps'
    assume s: "build_step_ixs builder wallet (slippage * 2) mode other (ro_steps route) = Ok steps'"
      and g: "generate_swap_ix_data (case mode of ExactIn \<Rightarrow> other | ExactOut \<Rightarrow> ro_out_amount route)
        (map si_instruction steps') (map si_in_amount_offset steps') (sp_ata spl wallet (ro_input_mint route))
        (map si_out_pubkey steps') crate_id version = Ok (sw_swap sw)"
    have "steps' = steps" using s assms(2) by simp
    with g generated_swap_runs [OF assms(3) [unfolded z] len assms(6,7),
        of "case mode of ExactIn \<Rightarrow> other | ExactOut \<Rightarrow> ro_out_amount route" input crate_id version rt ch]
    show ?thesis by (auto simp: assms(4))
  qed
qed

theorem built_swap_runs_witness:
  "\<exists>sw. build_ixs ref_spl ref_builder 3 7 ref_built_route True True 50 80 ExactIn = Ok sw \<and>
    process_instruction ref_runtime crate_id (ref_info 20 False # rh_infos ref_hop) (ix_data (sw_swap sw))
      ref_chain = swap_spec ref_runtime 80 (ref_info 20 False) [ref_hop] ref_chain"
proof -
  obtain sw where sw: "build_ixs ref_spl ref_builder 3 7 ref_built_route True True 50 80 ExactIn = Ok sw"
    using ref_build_ixs by blast
  show ?thesis
    using built_swap_runs [OF sw, of "[ref_step_ix]" "[ref_hop]" "ref_info 20 False" ref_runtime ref_chain]
      sw ref_step_ixs [of ExactIn] ref_hop_matches ref_hop_fits ref_hop_sized
    by (simp add: ref_step_ix_def) (simp add: ref_spl_def ref_built_route_def)
qed

text \<open>
  C20 (wsol_closed_created). The transaction closes the wallet's wrapped-SOL account only if it
  creates that account first, and closes no other account.
\<close>

theorem wsol_closed_created:
  assumes "build_ixs spl builder version wallet route wrap create slippage other mode = Ok sw"
    and "ix \<in> set (sw_cleanup sw)"
  shows "close_wsol_ata spl wallet (sp_ata spl wallet (sp_sol_mint spl)) = Ok ix \<and> wrap \<and>
    create_ata spl wallet (sp_sol_mint spl) \<in> set (sw_setup sw)"
  using assms(1)
proof (rule build_ixs_Ok)
  fix pre0 cleanup0 steps
  assume w: "wrap_input spl wallet route wrap other mode = Ok (pre0, cleanup0)"
    and r: "rfold (prepare_step spl wallet wrap create) steps (pre0, cleanup0, CU_BASE) =
      Ok (sw_setup sw, sw_cleanup sw, sw_cu_estimate sw)"
  from prepare_steps_Ok [OF r] obtain new where p:
    "sw_setup sw = pre0 @ map (create_ata spl wallet \<circ> si_out_mint) (filter (\<lambda>x. create \<or> step_sol spl wrap x) steps)"
    "sw_cleanup sw = cleanup0 @ new" "length new = length (filter (step_sol spl wrap) steps)"
    "\<forall>ix \<in> set new. close_wsol_ata spl wallet (sp_ata spl wallet (sp_sol_mint spl)) = Ok ix" by blast
  show ?thesis
  proof (cases "ix \<in> set cleanup0")
    case True
    then show ?thesis using w p(1) by (auto simp: wrap_input_def Let_def split: if_split_asm)
  next
    case False
    then have new: "ix \<in> set new" using assms(2) p(2) by simp
    then have "filter (step_sol spl wrap) steps \<noteq> []" using p(3) by auto
    then obtain step where "step \<in> set steps" "step_sol spl wrap step" by (auto simp: filter_empty_conv)
    then show ?thesis using p(1,4) new by (force simp: step_sol_def)
  qed
qed

theorem wsol_closed_created_witness:
  "\<exists>sw ix. build_ixs ref_spl ref_builder 3 7 ref_built_route True True 50 80 ExactIn = Ok sw \<and>
    ix \<in> set (sw_cleanup sw) \<and> create_ata ref_spl 7 (sp_sol_mint ref_spl) \<in> set (sw_setup sw)"
proof -
  obtain sw where sw: "build_ixs ref_spl ref_builder 3 7 ref_built_route True True 50 80 ExactIn = Ok sw"
    and cl: "sw_cleanup sw = [\<lparr>ix_program_id = 1, ix_accounts = [], ix_data = [9]\<rparr>]"
    using ref_build_ixs by blast
  then show ?thesis using wsol_closed_created [OF sw] by auto
qed

text \<open>
  The compute unit estimate is exactly the base, plus the units of every
  step, plus 12000 for every account created or closed; where that sum would not fit 32 bits
  the build does not succeed.
\<close>

theorem cu_estimate_exact:
  assumes "build_ixs spl builder version wallet route wrap create slippage other mode = Ok sw"
    and "build_step_ixs builder wallet (slippage * 2) mode other (ro_steps route) = Ok steps"
  shows "unat (sw_cu_estimate sw) = 150000 + sum_list (map (step_units spl wrap create) steps) \<and>
    150000 + sum_list (map (step_units spl wrap create) steps) < 2 ^ 32"
  using assms(1)
proof (rule build_ixs_Ok)
  fix pre0 cleanup0 steps'
  assume s: "build_step_ixs builder wallet (slippage * 2) mode other (ro_steps route) = Ok steps'"
    and r: "rfold (prepare_step spl wallet wrap create) steps' (pre0, cleanup0, CU_BASE) =
      Ok (sw_setup sw, sw_cleanup sw, sw_cu_estimate sw)"
  have "steps' = steps" using s assms(2) by simp
  with prepare_steps_Ok [OF r] have "unat (sw_cu_estimate sw) = 150000 + sum_list (map (step_units spl wrap create) steps)"
    by (simp add: CU_BASE_def)
  then show ?thesis using unsigned_less [of "sw_cu_estimate sw", where ?'a = nat] by simp
qed

theorem cu_estimate_exact_witness:
  "\<exists>sw. build_ixs ref_spl ref_builder 3 7 ref_built_route True True 50 80 ExactIn = Ok sw \<and>
    unat (sw_cu_estimate sw) = 242000"
proof -
  obtain sw where sw: "build_ixs ref_spl ref_builder 3 7 ref_built_route True True 50 80 ExactIn = Ok sw"
    using ref_build_ixs by blast
  then show ?thesis
    using cu_estimate_exact [OF sw, of "[ref_step_ix]"] ref_step_ixs [of ExactIn]
    by (simp add: step_units_def step_sol_def CU_PER_HOP_DEFAULT_def or_default_def) (simp add: ref_spl_def ref_step_ix_def)
qed

end
