(* ===== verification/Invariant_Tickmap.thy ===== *)
theory Invariant_Tickmap
  imports Autobahn_Prelude "HOL-Library.Signed_Division"
begin

text \<open>
  The tick bitmap of Invariant pools
  (\<^verbatim>\<open>lib/dex-invariant/src/internal/invariant-types/src/structs/tickmap.rs\<close>): one bit per
  tick, a window of the bitmap that is kept for a swap, and the search for the next
  initialized tick in either direction.

  Signed 32-bit values are integers with the overflow check \<open>i32\<close> written out; division and
  remainder truncate (\<open>sdiv\<close>, \<open>smod\<close>), as in Rust. A bit index is a natural number.

  The theorems: flipping a tick changes that tick and no other (for the whole bitmap and for
  the window, by one argument over the interface \<open>byte_store\<close>); the search over the window
  returns the nearest initialized tick of the whole bitmap within the search range, as long
  as the swap has not moved further than the window was cut for.
\<close>

unbundle bit_operations_syntax

definition i32 :: "int \<Rightarrow> (int, 'e) result" where
  "i32 x = (if - 2147483648 \<le> x \<and> x \<le> 2147483647 then Ok x else Panic)"

definition TICK_LIMIT :: int where
  "TICK_LIMIT = 44364"

definition TICK_SEARCH_RANGE :: int where
  "TICK_SEARCH_RANGE = 256"

definition MAX_TICK :: int where
  "MAX_TICK = 221818"

definition TICK_CROSSES_PER_IX :: nat where
  "TICK_CROSSES_PER_IX = 4"

definition TICKS_BACK_COUNT :: nat where
  "TICKS_BACK_COUNT = 1"

definition MAX_VIRTUAL_CROSS :: u16 where
  "MAX_VIRTUAL_CROSS = 10"

definition TICKMAP_SIZE :: int where
  "TICKMAP_SIZE = 2 * TICK_LIMIT - 1"

definition TICKMAP_RANGE :: nat where
  "TICKMAP_RANGE = (TICK_CROSSES_PER_IX + TICKS_BACK_COUNT + unat MAX_VIRTUAL_CROSS) * nat TICK_SEARCH_RANGE"

definition TICKMAP_SLICE_SIZE :: nat where
  "TICKMAP_SLICE_SIZE = TICKMAP_RANGE div 8 + 2"

definition tick_to_position :: "int \<Rightarrow> u16 \<Rightarrow> (nat \<times> nat, 'e) result" where
  "tick_to_position tick tick_spacing =
     (let s = uint tick_spacing in
      rbind (assert_that (s \<noteq> 0)) (\<lambda>_.
      rbind (assert_that (tick smod s = 0)) (\<lambda>_.
      rbind (i32 (tick sdiv s + TICK_LIMIT)) (\<lambda>bitmap_index.
      let byte = bitmap_index sdiv 8 in
      rbind (assert_that (0 \<le> byte)) (\<lambda>_.
      Ok (nat byte, nat \<bar>bitmap_index smod 8\<bar>))))))"

definition get_search_limit :: "int \<Rightarrow> u16 \<Rightarrow> bool \<Rightarrow> (int, 'e) result" where
  "get_search_limit tick tick_spacing up =
     (let s = uint tick_spacing in
      rbind (assert_that (s \<noteq> 0)) (\<lambda>_.
      let index = tick sdiv s in
      rbind (if up
             then rbind (i32 (index + TICK_SEARCH_RANGE)) (\<lambda>range_limit.
                  Ok (min (min (TICK_LIMIT - 1) range_limit) (MAX_TICK sdiv s)))
             else rbind (i32 (index - TICK_SEARCH_RANGE)) (\<lambda>range_limit.
                  Ok (max (max (- TICK_LIMIT + 1) range_limit) (- (MAX_TICK sdiv s))))) (\<lambda>limit.
      i32 (limit * s))))"

subsection \<open>The bitmap and the window\<close>

record tickmap =
  tm_bitmap :: bytes

definition default_tickmap :: tickmap where
  "default_tickmap = \<lparr>tm_bitmap = replicate 11091 0\<rparr>"

record tickmap_slice =
  ts_data :: bytes
  ts_offset :: int

definition default_tickmap_slice :: tickmap_slice where
  "default_tickmap_slice = \<lparr>ts_data = replicate TICKMAP_SLICE_SIZE 0, ts_offset = 0\<rparr>"

text \<open>\<open>get\<close> and \<open>flip\<close> are the same code for the bitmap and the window, which differ in how a
  byte is reached.\<close>

definition tick_get ::
    "('s \<Rightarrow> nat \<Rightarrow> (u8, 'e) result) \<Rightarrow> 's \<Rightarrow> int \<Rightarrow> u16 \<Rightarrow> (bool, 'e) result" where
  "tick_get rd s tick tick_spacing =
     rbind (tick_to_position tick tick_spacing) (\<lambda>(byte, bt).
     rbind (rd s byte) (\<lambda>v.
     Ok (drop_bit bt v mod 2 = 1)))"

definition tick_flip ::
    "('s \<Rightarrow> nat \<Rightarrow> (u8, 'e) result) \<Rightarrow> ('s \<Rightarrow> nat \<Rightarrow> u8 \<Rightarrow> ('s, 'e) result) \<Rightarrow>
     's \<Rightarrow> bool \<Rightarrow> int \<Rightarrow> u16 \<Rightarrow> ('s, 'e) result" where
  "tick_flip rd wr s value tick tick_spacing =
     rbind (tick_get rd s tick tick_spacing) (\<lambda>current.
     rbind (assert_that (current \<noteq> value)) (\<lambda>_.
     rbind (tick_to_position tick tick_spacing) (\<lambda>(byte, bt).
     rbind (rd s byte) (\<lambda>v.
     wr s byte (v XOR push_bit bt 1)))))"

definition tickmap_byte :: "tickmap \<Rightarrow> nat \<Rightarrow> (u8, 'e) result" where
  "tickmap_byte tm i = at_index (tm_bitmap tm) i"

definition tickmap_set_byte :: "tickmap \<Rightarrow> nat \<Rightarrow> u8 \<Rightarrow> (tickmap, 'e) result" where
  "tickmap_set_byte tm i v = rbind (set_index (tm_bitmap tm) i v) (\<lambda>b. Ok (tm\<lparr>tm_bitmap := b\<rparr>))"

definition tickmap_get :: "tickmap \<Rightarrow> int \<Rightarrow> u16 \<Rightarrow> (bool, 'e) result" where
  "tickmap_get = tick_get tickmap_byte"

definition tickmap_flip :: "tickmap \<Rightarrow> bool \<Rightarrow> int \<Rightarrow> u16 \<Rightarrow> (tickmap, 'e) result" where
  "tickmap_flip = tick_flip tickmap_byte tickmap_set_byte"

text \<open>The offset is cast to an unsigned word: a negative one becomes a huge index.\<close>

definition offset_usize :: "tickmap_slice \<Rightarrow> nat" where
  "offset_usize sl = nat (ts_offset sl mod 2 ^ 64)"

definition slice_position :: "tickmap_slice \<Rightarrow> nat \<Rightarrow> nat option" where
  "slice_position sl index =
     (let offset = offset_usize sl in
      if offset \<le> index \<and> index - offset < length (ts_data sl) then Some (index - offset) else None)"

definition slice_index :: "tickmap_slice \<Rightarrow> nat \<Rightarrow> (u8, 'e) result" where
  "slice_index sl index = rbind (unwrap (slice_position sl index)) (\<lambda>i. Ok (ts_data sl ! i))"

definition slice_set_index :: "tickmap_slice \<Rightarrow> nat \<Rightarrow> u8 \<Rightarrow> (tickmap_slice, 'e) result" where
  "slice_set_index sl index v =
     rbind (unwrap (slice_position sl index)) (\<lambda>i. Ok (sl\<lparr>ts_data := (ts_data sl)[i := v]\<rparr>))"

definition view_get :: "tickmap_slice \<Rightarrow> int \<Rightarrow> u16 \<Rightarrow> (bool, 'e) result" where
  "view_get = tick_get slice_index"

definition view_flip :: "tickmap_slice \<Rightarrow> bool \<Rightarrow> int \<Rightarrow> u16 \<Rightarrow> (tickmap_slice, 'e) result" where
  "view_flip = tick_flip slice_index slice_set_index"

definition calculate_search_range_offset :: "int \<Rightarrow> u16 \<Rightarrow> bool \<Rightarrow> (int, 'e) result" where
  "calculate_search_range_offset init_tick spacing up =
     rbind (get_search_limit init_tick spacing up) (\<lambda>search_limit.
     rbind (tick_to_position search_limit spacing) (\<lambda>(byte, _).
     Ok (if up then int byte - int TICKMAP_SLICE_SIZE + 1 else int byte)))"

text \<open>Cutting the window out of the account data. Its start is clamped so that the window
  does not run past the bitmap; shorter data leaves zeros at the end.\<close>

definition slice_from_slice :: "bytes \<Rightarrow> int \<Rightarrow> u16 \<Rightarrow> bool \<Rightarrow> (tickmap_slice, string) result" where
  "slice_from_slice tickmap_data current_tick_index tick_spacing x_to_y =
     (let offset = (if x_to_y then TICK_SEARCH_RANGE - int TICKMAP_SLICE_SIZE * 8 - 8
                    else - TICK_SEARCH_RANGE + 8);
          s = uint tick_spacing in
      rbind (assert_that (s \<noteq> 0)) (\<lambda>_.
      rbind (i32 (current_tick_index sdiv s + TICK_LIMIT)) (\<lambda>position.
      rbind (i32 (position + offset)) (\<lambda>position.
      let start_index = min (max (position sdiv 8) 0) ((TICKMAP_SIZE + 1) sdiv 8 - int TICKMAP_SLICE_SIZE) in
      rbind (require (0 \<le> start_index) ''Failed to set start_index'') (\<lambda>_.
      let end_index = min (start_index + int TICKMAP_SLICE_SIZE) (int (length tickmap_data)) in
      rbind (require (0 \<le> end_index) ''Failed to set end_index'') (\<lambda>_.
      rbind (slice tickmap_data (nat start_index) (nat end_index)) (\<lambda>part.
      rbind (copy_at (replicate TICKMAP_SLICE_SIZE 0) 0 part) (\<lambda>data.
      Ok \<lparr>ts_data = data, ts_offset = start_index\<rparr>))))))))"

subsection \<open>Searching\<close>

definition position_to_tick :: "nat \<Rightarrow> nat \<Rightarrow> u16 \<Rightarrow> (int, 'e) result" where
  "position_to_tick byte bt tick_spacing =
     rbind (i32 (int (byte * 8 + bt))) (\<lambda>index.
     rbind (i32 (index - TICK_LIMIT)) (\<lambda>i.
     i32 (i * uint tick_spacing)))"

function skip_up :: "u8 \<Rightarrow> nat \<Rightarrow> (nat, 'e) result" where
  "skip_up shifted bt =
     (if shifted mod 2 = 0
      then (if bt + 1 < 256 then skip_up (drop_bit 1 shifted) (bt + 1) else Panic)
      else Ok bt)"
  by pat_completeness auto
termination
  by (relation "measure (\<lambda>(_, bt). 256 - bt)") auto

declare skip_up.simps [simp del]

function next_loop :: "tickmap_slice \<Rightarrow> u16 \<Rightarrow> nat \<Rightarrow> nat \<Rightarrow> nat \<Rightarrow> nat \<Rightarrow> (int option, 'e) result" where
  "next_loop sl tick_spacing limiting_byte limiting_bit byte bt =
     (if byte < limiting_byte \<or> byte = limiting_byte \<and> bt \<le> limiting_bit then
        rbind (slice_index sl byte) (\<lambda>v.
        let shifted = drop_bit bt v in
        if shifted \<noteq> 0 then
          rbind (skip_up shifted bt) (\<lambda>bt.
          if byte < limiting_byte \<or> byte = limiting_byte \<and> bt \<le> limiting_bit
          then rbind (position_to_tick byte bt tick_spacing) (\<lambda>t. Ok (Some t))
          else Ok None)
        else next_loop sl tick_spacing limiting_byte limiting_bit (byte + 1) 0)
      else Ok None)"
  by pat_completeness auto
termination
  by (relation "measure (\<lambda>(_, _, limiting_byte, _, byte, _). Suc limiting_byte - byte)") auto

declare next_loop.simps [simp del]

definition next_initialized :: "tickmap_slice \<Rightarrow> int \<Rightarrow> u16 \<Rightarrow> (int option, 'e) result" where
  "next_initialized sl tick tick_spacing =
     rbind (get_search_limit tick tick_spacing True) (\<lambda>limit.
     rbind (i32 (tick + uint tick_spacing)) (\<lambda>from.
     rbind (tick_to_position from tick_spacing) (\<lambda>(byte, bt).
     rbind (tick_to_position limit tick_spacing) (\<lambda>(limiting_byte, limiting_bit).
     next_loop sl tick_spacing limiting_byte limiting_bit byte bt))))"

fun skip_down :: "u16 \<Rightarrow> u16 \<Rightarrow> nat \<Rightarrow> (nat, 'e) result" where
  "skip_down v msk 0 = (if v AND msk = 0 then Panic else Ok 0)"
| "skip_down v msk (Suc bt) = (if v AND msk = 0 then skip_down v (drop_bit 1 msk) bt else Ok (Suc bt))"

function prev_loop :: "tickmap_slice \<Rightarrow> u16 \<Rightarrow> nat \<Rightarrow> nat \<Rightarrow> nat \<Rightarrow> nat \<Rightarrow> (int option, 'e) result" where
  "prev_loop sl tick_spacing limiting_byte limiting_bit byte bt =
     (if limiting_byte < byte \<or> byte = limiting_byte \<and> limiting_bit \<le> bt then
        let msk = push_bit bt (1 :: u16) in
        rbind (slice_index sl byte) (\<lambda>v.
        let v = ucast v in
        if 0 < v mod push_bit 1 msk then
          rbind (skip_down v msk bt) (\<lambda>bt.
          if limiting_byte < byte \<or> byte = limiting_byte \<and> limiting_bit \<le> bt
          then rbind (position_to_tick byte bt tick_spacing) (\<lambda>t. Ok (Some t))
          else Ok None)
        else if byte = 0 then Ok None
        else prev_loop sl tick_spacing limiting_byte limiting_bit (byte - 1) 7)
      else Ok None)"
  by pat_completeness auto
termination
  by (relation "measure (\<lambda>(_, _, _, _, byte, _). byte)") auto

declare prev_loop.simps [simp del]

definition prev_initialized :: "tickmap_slice \<Rightarrow> int \<Rightarrow> u16 \<Rightarrow> (int option, 'e) result" where
  "prev_initialized sl tick tick_spacing =
     rbind (get_search_limit tick tick_spacing False) (\<lambda>limit.
     rbind (tick_to_position tick tick_spacing) (\<lambda>(byte, bt).
     rbind (tick_to_position limit tick_spacing) (\<lambda>(limiting_byte, limiting_bit).
     prev_loop sl tick_spacing limiting_byte limiting_bit byte bt)))"

subsection \<open>Bits of a byte\<close>

lemma drop_bit_0_iff: "drop_bit b v = 0 \<longleftrightarrow> (\<forall>k \<ge> b. \<not> bit v k)" for v :: u8
proof
  assume z: "drop_bit b v = 0"
  show "\<forall>k \<ge> b. \<not> bit v k"
  proof (intro allI impI)
    fix k assume "b \<le> k"
    then show "\<not> bit v k"
      using z bit_drop_bit_eq [of b v] by (metis bit_0_eq bot_apply bot_bool_def comp_apply le_add_diff_inverse)
  qed
next
  assume "\<forall>k \<ge> b. \<not> bit v k"
  then show "drop_bit b v = 0" by (intro bit_eqI) (simp add: bit_drop_bit_eq)
qed

lemma skip_up_first:
  assumes "drop_bit b v \<noteq> 0"
  obtains q where "skip_up (drop_bit b v) b = (Ok q :: (nat, 'e) result)" "b \<le> q" "bit v q" "\<forall>k. b \<le> k \<and> k < q \<longrightarrow> \<not> bit v k"
proof -
  have "\<exists>q. skip_up (drop_bit b v) b = (Ok q :: (nat, 'e) result) \<and> b \<le> q \<and> bit v q \<and> (\<forall>k. b \<le> k \<and> k < q \<longrightarrow> \<not> bit v k)"
    using assms
  proof (induction "8 - b" arbitrary: b rule: less_induct)
    case less
    have b: "b < 8"
      using less.prems by (auto simp: drop_bit_0_iff dest: bit_imp_le_length)
    show ?case
    proof (cases "bit v b")
      case True
      then show ?thesis
        by (intro exI [of _ b]) (simp add: skip_up.simps bit_iff_odd_drop_bit even_iff_mod_2_eq_zero)
    next
      case False
      then have "drop_bit (b + 1) v \<noteq> 0"
        using less.prems by (auto simp: drop_bit_0_iff) (metis Suc_leI le_neq_implies_less)
      moreover have "8 - (b + 1) < 8 - b" using b by simp
      ultimately obtain q where q: "skip_up (drop_bit (b + 1) v) (b + 1) = (Ok q :: (nat, 'e) result)"
        "b + 1 \<le> q" "bit v q" "\<forall>k. b + 1 \<le> k \<and> k < q \<longrightarrow> \<not> bit v k" using less.hyps [of "b + 1"] by blast
      have "skip_up (drop_bit b v) b = (Ok q :: (nat, 'e) result)"
        using False b q(1) by (subst skip_up.simps) (simp add: bit_iff_odd_drop_bit even_iff_mod_2_eq_zero)
      then show ?thesis
        using q False by (intro exI [of _ q]) (auto, metis Suc_leI le_neq_implies_less)
    qed
  qed
  then show ?thesis using that by blast
qed

lemma take_bit_pos_iff: "0 < v mod push_bit 1 (push_bit b 1) \<longleftrightarrow> (\<exists>k \<le> b. bit v k)" if "b < 15" for v :: u16
proof -
  have "push_bit 1 (push_bit b 1) = (2 ^ Suc b :: u16)" by (simp add: push_bit_eq_mult mult.commute)
  then have "v mod push_bit 1 (push_bit b 1) = take_bit (Suc b) v" by (simp only: take_bit_eq_mod)
  moreover have "take_bit (Suc b) v = 0 \<longleftrightarrow> (\<forall>k \<le> b. \<not> bit v k)"
    by (auto simp: bit_eq_iff bit_take_bit_iff less_Suc_eq_le dest: bit_imp_le_length [of v, simplified])
  ultimately show ?thesis by (auto simp: word_neq_0_conv [symmetric])
qed

lemma skip_down_first:
  assumes "\<exists>k \<le> b. bit v k" and "b < 15"
  obtains q where "skip_down v (push_bit b 1) b = (Ok q :: (nat, 'e) result)" "q \<le> b" "bit v q" "\<forall>k. q < k \<and> k \<le> b \<longrightarrow> \<not> bit v k"
proof -
  have "\<exists>q. skip_down v (push_bit b 1) b = (Ok q :: (nat, 'e) result) \<and> q \<le> b \<and> bit v q \<and> (\<forall>k. q < k \<and> k \<le> b \<longrightarrow> \<not> bit v k)"
    using assms
  proof (induction b)
    case 0
    then show ?case by (simp add: and_one_eq bit_0 mod_2_eq_odd)
  next
    case (Suc b)
    have p: "v AND push_bit (Suc b) 1 = 0 \<longleftrightarrow> \<not> bit v (Suc b)"
      by (simp only: push_bit_of_1 and_exp_eq_0_iff_not_bit)
    show ?case
    proof (cases "bit v (Suc b)")
      case True
      then show ?thesis using p by (intro exI [of _ "Suc b"]) auto
    next
      case False
      then have ex: "\<exists>k \<le> b. bit v k" using Suc.prems by (auto simp: le_Suc_eq)
      have "drop_bit 1 (push_bit (Suc b) (1 :: u16)) = push_bit b 1"
        using Suc.prems(2) by (intro bit_eqI) (auto simp: bit_simps)
      then show ?thesis
        using Suc.IH [OF ex] Suc.prems(2) p False by (auto simp: le_Suc_eq)
    qed
  qed
  then show ?thesis using that by blast
qed

subsection \<open>The nearest set bit\<close>

lemma find_upt_skip:
  assumes "\<forall>k. a \<le> k \<and> k < c \<longrightarrow> \<not> P k" and "a \<le> c"
  shows "find P [a..<b] = find P [c..<b]"
  using assms
proof (induction "c - a" arbitrary: a)
  case (Suc n)
  then have "find P [a..<b] = find P [Suc a..<b]"
    by (cases "a < b") (simp_all add: upt_rec)
  then show ?case using Suc.hyps(1) [of "Suc a"] Suc by simp
qed simp

lemma find_upt_first:
  assumes "\<forall>k. a \<le> k \<and> k < q \<longrightarrow> \<not> P k" and "a \<le> q" and "P q"
  shows "find P [a..<b] = (if q < b then Some q else None)"
  using find_upt_skip [OF assms(1,2)] assms(3) by (simp add: upt_rec)

lemma find_down_skip:
  assumes "\<forall>k. c \<le> k \<and> k < a \<longrightarrow> \<not> P k" and "c \<le> a"
  shows "find P (rev [b..<a]) = find P (rev [b..<c])"
  using assms
proof (induction "a - c" arbitrary: a)
  case (Suc n)
  then obtain a' where a: "a = Suc a'" "c \<le> a'" by (cases a) auto
  then have "find P (rev [b..<a]) = find P (rev [b..<a'])"
    using Suc.prems(1) by simp
  then show ?case using Suc.hyps(1) [of a'] Suc a by simp
qed simp

lemma find_down_first:
  assumes "\<forall>k. q < k \<and> k < a \<longrightarrow> \<not> P k" and "q < a" and "P q"
  shows "find P (rev [b..<a]) = (if b \<le> q then Some q else None)"
  using find_down_skip [of "Suc q" a P b] assms by (simp add: Suc_le_eq)

definition slice_bit :: "tickmap_slice \<Rightarrow> nat \<Rightarrow> bool" where
  "slice_bit sl q = (case slice_position sl (q div 8) of Some i \<Rightarrow> bit (ts_data sl ! i) (q mod 8) | None \<Rightarrow> False)"

definition covered :: "tickmap_slice \<Rightarrow> nat \<Rightarrow> nat \<Rightarrow> bool" where
  "covered sl a b \<longleftrightarrow> (\<forall>k. a \<le> k \<and> k \<le> b \<longrightarrow> slice_position sl k \<noteq> None)"

abbreviation tick_at :: "nat \<Rightarrow> u16 \<Rightarrow> (int option, 'e) result" where
  "tick_at q tick_spacing \<equiv> rbind (position_to_tick (q div 8) (q mod 8) tick_spacing) (\<lambda>t. Ok (Some t))"

lemma covered_byte:
  assumes "covered sl a b" and "a \<le> k" and "k \<le> b"
  obtains v where "slice_index sl k = (Ok v :: (u8, 'e) result)" "\<And>q. q < 8 \<Longrightarrow> slice_bit sl (8 * k + q) = bit v q"
proof -
  obtain i where "slice_position sl k = Some i" using assms by (auto simp: covered_def)
  then show ?thesis using that [of "ts_data sl ! i"] by (simp add: slice_index_def slice_bit_def)
qed

lemma next_loop_find:
  assumes "covered sl byte lb" and "bt < 8" and "lbit < 8"
  shows "next_loop sl sp lb lbit byte bt =
    (case find (slice_bit sl) [8 * byte + bt..<Suc (8 * lb + lbit)] of
       None \<Rightarrow> Ok None | Some q \<Rightarrow> (tick_at q sp :: (int option, 'e) result))"
  using assms
proof (induction sl sp lb lbit byte bt rule: next_loop.induct [where ?'a = 'e])
  case (1 sl sp lb lbit byte bt)
  show ?case
  proof (cases "byte < lb \<or> byte = lb \<and> bt \<le> lbit")
    case guard: True
    then have "byte \<le> lb" by auto
    with covered_byte [OF 1(2) order.refl] obtain v where
      v: "slice_index sl byte = (Ok v :: (u8, 'e) result)" "\<And>q. q < 8 \<Longrightarrow> slice_bit sl (8 * byte + q) = bit v q" by metis
    show ?thesis
    proof (cases "drop_bit bt v = 0")
      case True
      have none: "\<forall>k. 8 * byte + bt \<le> k \<and> k < 8 * (byte + 1) \<longrightarrow> \<not> slice_bit sl k"
      proof (intro allI impI)
        fix k assume k: "8 * byte + bt \<le> k \<and> k < 8 * (byte + 1)"
        then have "k - 8 * byte < 8" by auto
        then show "\<not> slice_bit sl k"
          using v(2) [of "k - 8 * byte"] True k by (auto simp: drop_bit_0_iff)
      qed
      have "next_loop sl sp lb lbit (byte + 1) 0 =
          (case find (slice_bit sl) [8 * (byte + 1) + 0..<Suc (8 * lb + lbit)] of
             None \<Rightarrow> Ok None | Some q \<Rightarrow> (tick_at q sp :: (int option, 'e) result))"
        using 1(1) [OF guard v(1) refl] 1(2,4) True by (simp add: covered_def)
      then show ?thesis
        using guard True find_upt_skip [OF none] 1(3) by (subst next_loop.simps) (simp add: v(1) del: upt_Suc)
    next
      case False
      then obtain q where q: "skip_up (drop_bit bt v) bt = (Ok q :: (nat, 'e) result)" "bt \<le> q" "bit v q"
        "\<forall>k. bt \<le> k \<and> k < q \<longrightarrow> \<not> bit v k" by (rule skip_up_first)
      have q8: "q < 8" using bit_imp_le_length [OF q(3)] by simp
      have f: "find (slice_bit sl) [8 * byte + bt..<Suc (8 * lb + lbit)] =
          (if 8 * byte + q < Suc (8 * lb + lbit) then Some (8 * byte + q) else None)"
      proof (rule find_upt_first)
        show "\<forall>k. 8 * byte + bt \<le> k \<and> k < 8 * byte + q \<longrightarrow> \<not> slice_bit sl k"
        proof (intro allI impI)
          fix k assume k: "8 * byte + bt \<le> k \<and> k < 8 * byte + q"
          then have "k - 8 * byte < 8" "bt \<le> k - 8 * byte" "k - 8 * byte < q" using q8 by auto
          with k show "\<not> slice_bit sl k"
            using v(2) [of "k - 8 * byte"] q(4) q8 by auto
        qed
      qed (use q v(2) q8 in auto)
      have "8 * byte + q < Suc (8 * lb + lbit) \<longleftrightarrow> byte < lb \<or> byte = lb \<and> q \<le> lbit"
        using q8 1(4) by auto
      then show ?thesis
        using guard False q8 by (subst next_loop.simps) (simp add: v(1) q(1) f del: upt_Suc)
    qed
  next
    case False
    then show ?thesis using 1(4) by (subst next_loop.simps) auto
  qed
qed

lemma prev_loop_find:
  assumes "covered sl lb byte" and "bt < 8" and "lbit < 8"
  shows "prev_loop sl sp lb lbit byte bt =
    (case find (slice_bit sl) (rev [8 * lb + lbit..<Suc (8 * byte + bt)]) of
       None \<Rightarrow> Ok None | Some q \<Rightarrow> (tick_at q sp :: (int option, 'e) result))"
  using assms
proof (induction sl sp lb lbit byte bt rule: prev_loop.induct [where ?'a = 'e])
  case (1 sl sp lb lbit byte bt)
  show ?case
  proof (cases "lb < byte \<or> byte = lb \<and> lbit \<le> bt")
    case guard: True
    then have "lb \<le> byte" by auto
    with covered_byte [OF 1(2) _ order.refl] obtain v where
      v: "slice_index sl byte = (Ok v :: (u8, 'e) result)" "\<And>q. q < 8 \<Longrightarrow> slice_bit sl (8 * byte + q) = bit v q" by metis
    have w: "bit (ucast v :: u16) k \<longleftrightarrow> bit v k" for k
      using bit_imp_le_length [of v k] by (auto simp: bit_ucast_iff)
    show ?thesis
    proof (cases "\<exists>k \<le> bt. bit v k")
      case False
      have none: "\<forall>k. 8 * byte \<le> k \<and> k < Suc (8 * byte + bt) \<longrightarrow> \<not> slice_bit sl k"
      proof (intro allI impI)
        fix k assume k: "8 * byte \<le> k \<and> k < Suc (8 * byte + bt)"
        then have "k - 8 * byte < 8" using 1(3) by auto
        then show "\<not> slice_bit sl k"
          using v(2) [of "k - 8 * byte"] k False by auto
      qed
      have z: "\<not> 0 < (ucast v :: u16) mod push_bit 1 (push_bit bt 1)"
        using False 1(3) by (subst take_bit_pos_iff) (simp_all add: w)
      show ?thesis
      proof (cases "byte = 0")
        case True
        have "find (slice_bit sl) (rev [8 * lb + lbit..<Suc (8 * byte + bt)]) = None"
          using find_down_skip [OF none, of "8 * lb + lbit"] True by simp
        then show ?thesis
          using True guard z by (subst prev_loop.simps) (simp add: v(1) [unfolded True] Let_def del: upt_Suc)
      next
        case nz: False
        have "prev_loop sl sp lb lbit (byte - 1) 7 =
            (case find (slice_bit sl) (rev [8 * lb + lbit..<Suc (8 * (byte - 1) + 7)]) of
               None \<Rightarrow> Ok None | Some q \<Rightarrow> (tick_at q sp :: (int option, 'e) result))"
        proof (rule 1(1) [OF guard refl v(1) refl z nz])
          show "covered sl lb (byte - 1)" using 1(2) by (auto simp: covered_def)
        qed (use 1(4) in auto)
        moreover have "Suc (8 * (byte - 1) + 7) = 8 * byte" using nz by simp
        ultimately show ?thesis
          using guard z nz find_down_skip [OF none] by (subst prev_loop.simps) (simp add: v(1) Let_def)
      qed
    next
      case True
      then have ex: "\<exists>k \<le> bt. bit (ucast v :: u16) k" by (simp add: w)
      moreover have "bt < 15" using 1(3) by simp
      ultimately obtain q where q: "skip_down (ucast v) (push_bit bt 1) bt = (Ok q :: (nat, 'e) result)" "q \<le> bt" "bit v q"
        "\<forall>k. q < k \<and> k \<le> bt \<longrightarrow> \<not> bit v k" by (rule skip_down_first) (simp add: w)
      have z: "0 < (ucast v :: u16) mod push_bit 1 (push_bit bt 1)"
        using ex 1(3) by (subst take_bit_pos_iff) simp_all
      have f: "find (slice_bit sl) (rev [8 * lb + lbit..<Suc (8 * byte + bt)]) =
          (if 8 * lb + lbit \<le> 8 * byte + q then Some (8 * byte + q) else None)"
      proof (rule find_down_first)
        show "\<forall>k. 8 * byte + q < k \<and> k < Suc (8 * byte + bt) \<longrightarrow> \<not> slice_bit sl k"
        proof (intro allI impI)
          fix k assume k: "8 * byte + q < k \<and> k < Suc (8 * byte + bt)"
          then have "k - 8 * byte < 8" "q < k - 8 * byte" "k - 8 * byte \<le> bt" using 1(3) by auto
          with k show "\<not> slice_bit sl k"
            using v(2) [of "k - 8 * byte"] q(4) 1(3) by auto
        qed
      qed (use q v(2) 1(3) in auto)
      have "8 * lb + lbit \<le> 8 * byte + q \<longleftrightarrow> lb < byte \<or> byte = lb \<and> lbit \<le> q"
        using q(2) 1(3,4) by auto
      then show ?thesis
        using guard z q(2) 1(3) by (subst prev_loop.simps) (simp add: v(1) q(1) [simplified] f Let_def del: upt_Suc)
    qed
  next
    case False
    then show ?thesis using 1(3) by (subst prev_loop.simps) auto
  qed
qed

subsection \<open>Ticks and positions\<close>

text \<open>Tick number \<open>i\<close> of a pool is the tick \<open>i\<close> times the spacing; it lies in the bitmap and in
  the price range.\<close>

definition tick_ok :: "u16 \<Rightarrow> int \<Rightarrow> bool" where
  "tick_ok sp i \<longleftrightarrow> 0 < sp \<and> \<bar>i\<bar> < TICK_LIMIT \<and> \<bar>i * uint sp\<bar> \<le> MAX_TICK"

definition search_bound :: "u16 \<Rightarrow> int \<Rightarrow> bool \<Rightarrow> int" where
  "search_bound sp i up =
     (if up then min (min (TICK_LIMIT - 1) (i + 256)) (MAX_TICK div uint sp)
      else max (max (1 - TICK_LIMIT) (i - 256)) (- (MAX_TICK div uint sp)))"

text \<open>The ticks of one search, in the order of the search.\<close>

definition search_ticks :: "u16 \<Rightarrow> int \<Rightarrow> bool \<Rightarrow> int list" where
  "search_ticks sp i up = map (\<lambda>k. k * uint sp)
     (if up then [i + 1..search_bound sp i True] else rev [search_bound sp i False..i])"

abbreviation bitpos :: "int \<Rightarrow> nat" where
  "bitpos i \<equiv> nat (i + 44364)"

lemma sdiv_smod_mult: "(i * s) sdiv s = i \<and> (i * s) smod s = 0" if "0 < s" for i s :: int
proof -
  have "(i * s) sdiv s = i"
    using that by (simp add: signed_divide_int_def sgn_mult abs_mult abs_of_pos mult.assoc [symmetric] sgn_mult_abs)
  then show ?thesis by (simp add: signed_modulo_int_def)
qed

lemma sdiv_smod_nonneg: "a sdiv b = a div b \<and> a smod b = a mod b" if "0 \<le> a" "0 < b" for a b :: int
  using that by (cases "a = 0") (simp_all add: signed_divide_int_def signed_modulo_int_def minus_div_mult_eq_mod)

lemma uint_pos: "0 < uint sp" if "0 < sp" for sp :: "'a::len word"
  using that by (simp add: word_less_def)

lemma tick_to_position_mult:
  assumes "0 < sp" and "- 44364 \<le> i" and "i \<le> 44364"
  shows "tick_to_position (i * uint sp) sp = Ok (bitpos i div 8, bitpos i mod 8)"
proof -
  note s = uint_pos [OF assms(1)]
  have p: "(i + 44364) sdiv 8 = (i + 44364) div 8" "(i + 44364) smod 8 = (i + 44364) mod 8"
    using assms(2) by (simp_all add: sdiv_smod_nonneg)
  show ?thesis
    using s assms(2,3) by (simp add: tick_to_position_def sdiv_smod_mult i32_def TICK_LIMIT_def p nat_div_distrib nat_mod_distrib)
qed

lemma position_to_tick_bitpos:
  assumes "tick_ok sp i"
  shows "position_to_tick (bitpos i div 8) (bitpos i mod 8) sp = Ok (i * uint sp)"
proof -
  have i: "- 44364 < i" "i < 44364" "- 221818 \<le> i * uint sp" "i * uint sp \<le> 221818"
    using assms by (auto simp: tick_ok_def TICK_LIMIT_def MAX_TICK_def)
  have "int (bitpos i div 8 * 8 + bitpos i mod 8) = i + 44364" using i(1) by simp
  then show ?thesis
    using i unfolding position_to_tick_def by (simp only:) (simp add: i32_def TICK_LIMIT_def)
qed

lemma search_bound_ok:
  assumes "tick_ok sp i"
  shows "tick_ok sp (search_bound sp i up)"
    "up \<Longrightarrow> search_bound sp i up \<le> i + 256" "\<not> up \<Longrightarrow> i - 256 \<le> search_bound sp i up"
proof -
  let ?s = "uint sp" and ?l = "search_bound sp i up"
  have s: "0 < ?s" and i: "\<bar>i\<bar> < 44364" "\<bar>i * ?s\<bar> \<le> 221818"
    using assms uint_pos by (auto simp: tick_ok_def TICK_LIMIT_def MAX_TICK_def)
  have d: "0 \<le> 221818 div ?s" "221818 div ?s * ?s \<le> 221818"
    using s div_mult_mod_eq [of 221818 "uint sp"] pos_mod_sign [OF s, of 221818] by (simp add: pos_imp_zdiv_nonneg_iff, linarith)
  have l: "\<bar>?l\<bar> < 44364" "- (221818 div ?s) \<le> ?l \<or> i \<le> ?l" "?l \<le> 221818 div ?s \<or> ?l \<le> i"
    using i(1) d(1) by (auto simp: search_bound_def TICK_LIMIT_def MAX_TICK_def)
  have "- 221818 \<le> ?l * ?s"
  proof (cases "i \<le> ?l")
    case True
    then have "i * ?s \<le> ?l * ?s" using s by simp
    then show ?thesis using i(2) by linarith
  next
    case False
    then have "- (221818 div ?s) * ?s \<le> ?l * ?s" using l(2) s by (intro mult_right_mono) auto
    then show ?thesis using d(2) by linarith
  qed
  moreover have "?l * ?s \<le> 221818"
  proof (cases "?l \<le> i")
    case True
    then have "?l * ?s \<le> i * ?s" using s by simp
    then show ?thesis using i(2) by linarith
  next
    case False
    then have "?l * ?s \<le> 221818 div ?s * ?s" using l(3) s by (intro mult_right_mono) auto
    then show ?thesis using d(2) by linarith
  qed
  ultimately show "tick_ok sp ?l"
    using l(1) assms by (auto simp: tick_ok_def TICK_LIMIT_def MAX_TICK_def)
  show "up \<Longrightarrow> ?l \<le> i + 256" "\<not> up \<Longrightarrow> i - 256 \<le> ?l" by (auto simp: search_bound_def)
qed

lemma search_bound_side:
  assumes "tick_ok sp i"
  shows "i \<le> search_bound sp i True" "search_bound sp i False \<le> i"
proof -
  have s: "0 < uint sp" and i: "\<bar>i\<bar> < 44364" "i * uint sp \<le> 221818" "- i * uint sp \<le> 221818"
    using assms uint_pos by (auto simp: tick_ok_def TICK_LIMIT_def MAX_TICK_def)
  then have "i \<le> 221818 div uint sp" "- i \<le> 221818 div uint sp"
    using zdiv_mono1 [OF i(2) s] zdiv_mono1 [OF i(3) s] nonzero_mult_div_cancel_right [of "uint sp" "- i"] by simp_all
  then show "i \<le> search_bound sp i True" "search_bound sp i False \<le> i"
    using i(1) by (auto simp: search_bound_def TICK_LIMIT_def MAX_TICK_def)
qed

lemma get_search_limit_mult:
  assumes "tick_ok sp i"
  shows "get_search_limit (i * uint sp) sp up = Ok (search_bound sp i up * uint sp)"
proof -
  have s: "0 < uint sp" and i: "\<bar>i\<bar> < 44364"
    using assms uint_pos by (auto simp: tick_ok_def TICK_LIMIT_def)
  have b: "\<bar>search_bound sp i up * uint sp\<bar> \<le> 221818"
    using search_bound_ok(1) [OF assms, of up] by (simp add: tick_ok_def MAX_TICK_def)
  have m: "221818 sdiv uint sp = 221818 div uint sp" using s by (simp add: sdiv_smod_nonneg)
  show ?thesis
    using s i b by (cases up)
      (auto simp: get_search_limit_def Let_def abs_le_iff sdiv_smod_mult i32_def search_bound_def TICK_LIMIT_def TICK_SEARCH_RANGE_def MAX_TICK_def m)
qed

lemma tick_ok_between:
  assumes "tick_ok sp a" and "tick_ok sp b" and "a \<le> k" and "k \<le> b"
  shows "tick_ok sp k"
proof -
  have s: "0 < uint sp" using assms(1) uint_pos by (auto simp: tick_ok_def)
  have "a * uint sp \<le> k * uint sp" "k * uint sp \<le> b * uint sp" using s assms(3,4) by simp_all
  then show ?thesis using assms by (auto simp: tick_ok_def)
qed

lemma find_map: "find P (map f xs) = map_option f (find (P \<circ> f) xs)"
  by (induction xs) auto

lemma find_cong': "(\<And>x. x \<in> set xs \<Longrightarrow> P x = Q x) \<Longrightarrow> find P xs = find Q xs"
  by (induction xs) auto

lemma upto_bitpos: "[a..b] = map (\<lambda>q. int q - 44364) [bitpos a..<Suc (bitpos b)]" if "- 44364 \<le> a" "- 44364 \<le> b"
  using that by (intro nth_equalityI) (auto simp: nth_append)

subsection \<open>The window\<close>

lemma max_sdiv: "max (x sdiv 8) 0 = max x 0 div 8" for x :: int
proof (cases "0 \<le> x")
  case False
  then have "x sdiv 8 \<le> 0" by (auto simp: signed_divide_int_def sgn_if pos_imp_zdiv_nonneg_iff)
  then show ?thesis using False by simp
qed (simp add: sdiv_smod_nonneg pos_imp_zdiv_nonneg_iff)

definition window_start :: "int \<Rightarrow> bool \<Rightarrow> nat" where
  "window_start c x_to_y = nat (min (max (c + 44364 + (if x_to_y then - 3608 else - 248)) 0 div 8) 10609)"

lemma slice_from_slice_full:
  assumes "length bm = 11091" and "tick_ok sp c"
  shows "slice_from_slice bm (c * uint sp) sp x_to_y =
    Ok \<lparr>ts_data = take 482 (drop (window_start c x_to_y) bm), ts_offset = int (window_start c x_to_y)\<rparr>"
proof -
  have s: "0 < uint sp" and c: "\<bar>c\<bar> < 44364"
    using assms uint_pos by (auto simp: tick_ok_def TICK_LIMIT_def)
  have sz: "TICKMAP_SLICE_SIZE = 482"
    by (simp add: TICKMAP_SLICE_SIZE_def TICKMAP_RANGE_def TICK_CROSSES_PER_IX_def TICKS_BACK_COUNT_def
        MAX_VIRTUAL_CROSS_def TICK_SEARCH_RANGE_def)
  let ?off = "if x_to_y then TICK_SEARCH_RANGE - int TICKMAP_SLICE_SIZE * 8 - 8 else - TICK_SEARCH_RANGE + 8"
  let ?w = "window_start c x_to_y"
  have off: "?off = (if x_to_y then - 3608 else - 248)" by (simp add: TICK_SEARCH_RANGE_def sz)
  have w: "min (max ((c + 44364 + ?off) sdiv 8) 0) ((TICKMAP_SIZE + 1) sdiv 8 - int TICKMAP_SLICE_SIZE) = int ?w"
    by (simp add: off max_sdiv window_start_def TICKMAP_SIZE_def TICK_LIMIT_def sz pos_imp_zdiv_nonneg_iff)
  have le: "?w \<le> 10609" by (simp add: window_start_def)
  have i: "i32 ((c * uint sp) sdiv uint sp + TICK_LIMIT) = Ok (c + 44364)" "i32 (c + 44364 + ?off) = Ok (c + 44364 + ?off)"
    using s c by (auto simp: sdiv_smod_mult i32_def TICK_LIMIT_def off)
  have e: "nat (min (int ?w + int TICKMAP_SLICE_SIZE) (int (length bm))) = ?w + 482"
    "0 \<le> min (int ?w + int TICKMAP_SLICE_SIZE) (int (length bm))" using le assms(1) by (simp_all add: sz)
  have sl: "slice bm ?w (?w + 482) = (Ok (take 482 (drop ?w bm)) :: (_, string) result)"
    using le assms(1) by (simp add: slice_def take_drop)
  have cp: "copy_at (replicate 482 0) 0 (take 482 (drop ?w bm)) = (Ok (take 482 (drop ?w bm)) :: (_, string) result)"
    using le assms(1) by (simp add: copy_at_def)
  show ?thesis
    unfolding slice_from_slice_def Let_def
    using s by (simp only: i rbind.simps assert_that_simps w e nat_int) (simp add: sz e(1) sl cp)
qed

lemma window_covers:
  assumes "0 \<le> p" and "p \<le> 88727" and "c + 44364 + (if x_to_y then - 3608 else - 248) \<le> p"
    and "p \<le> c + 44364 + (if x_to_y then - 3608 else - 248) + 3848"
  shows "window_start c x_to_y \<le> nat p div 8 \<and> nat p div 8 < window_start c x_to_y + 482"
proof -
  define y where "y = max (c + 44364 + (if x_to_y then - 3608 else - 248)) 0"
  have y: "0 \<le> y" "y \<le> p" "p \<le> y + 3848" using assms(1,3,4) by (auto simp: y_def)
  have "y div 8 \<le> p div 8" "p div 8 \<le> (y + 3848) div 8" using y by (simp_all add: zdiv_mono1)
  moreover have "(y + 3848) div 8 = y div 8 + 481" by simp
  moreover have "p div 8 \<le> 11090" using zdiv_mono1 [of p 88727 8] assms(2) by simp
  moreover have w: "int (window_start c x_to_y) = min (y div 8) 10609"
    using y(1) by (simp add: window_start_def y_def [symmetric] pos_imp_zdiv_nonneg_iff)
  ultimately have "int (window_start c x_to_y) \<le> p div 8 \<and> p div 8 < int (window_start c x_to_y) + 482"
    by (cases "y div 8 \<le> 10609") simp_all
  moreover have "int (nat p div 8) = p div 8" using assms(1) by (simp add: zdiv_int)
  ultimately show ?thesis by linarith
qed

lemma drop_bit_mod_2: "drop_bit b v mod 2 = 1 \<longleftrightarrow> bit v b" for v :: "'a::len word"
  by (simp add: bit_iff_odd_drop_bit odd_iff_mod_2_eq_one)

lemma tickmap_get_mult:
  assumes "length (tm_bitmap tm) = 11091" and "tick_ok sp k"
  shows "tickmap_get tm (k * uint sp) sp = Ok (bit (tm_bitmap tm ! (bitpos k div 8)) (bitpos k mod 8))"
proof -
  have k: "0 < sp" "- 44364 < k" "k < 44364" using assms(2) by (auto simp: tick_ok_def TICK_LIMIT_def)
  have "bitpos k div 8 < 11091" using k by (simp add: less_mult_imp_div_less)
  then show ?thesis
    using k assms(1) by (simp add: tickmap_get_def tick_get_def tick_to_position_mult tickmap_byte_def at_index_def drop_bit_mod_2)
qed

lemma window_bit:
  assumes "length bm = 11091" and "w \<le> q div 8" and "q div 8 < w + 482" and "w \<le> 10609"
  shows "slice_position \<lparr>ts_data = take 482 (drop w bm), ts_offset = int w\<rparr> (q div 8) = Some (q div 8 - w)"
    "slice_bit \<lparr>ts_data = take 482 (drop w bm), ts_offset = int w\<rparr> q = bit (bm ! (q div 8)) (q mod 8)"
proof -
  have "int w mod 18446744073709551616 = int w" using assms(4) by simp
  then have o: "offset_usize \<lparr>ts_data = take 482 (drop w bm), ts_offset = int w\<rparr> = w" by (simp add: offset_usize_def)
  then show *: "slice_position \<lparr>ts_data = take 482 (drop w bm), ts_offset = int w\<rparr> (q div 8) = Some (q div 8 - w)"
    using assms by (simp add: slice_position_def o)
  show "slice_bit \<lparr>ts_data = take 482 (drop w bm), ts_offset = int w\<rparr> q = bit (bm ! (q div 8)) (q mod 8)"
    using * assms by (simp add: slice_bit_def)
qed

lemma search_result:
  assumes "\<forall>q \<in> set qs. tick_ok sp (int q - 44364) \<and> slice_bit sl q = P ((int q - 44364) * uint sp)"
  shows "(case find (slice_bit sl) qs of None \<Rightarrow> Ok None | Some q \<Rightarrow> (tick_at q sp :: (int option, 'e) result)) =
    Ok (find P (map (\<lambda>k. k * uint sp) (map (\<lambda>q. int q - 44364) qs)))"
  using assms
proof (induction qs)
  case (Cons q qs)
  then show ?case by (simp add: position_to_tick_bitpos [of sp "int q - 44364", simplified])
qed simp

text \<open>Both directions, over any window that holds the bits of the search.\<close>

lemma next_initialized_find:
  assumes i: "tick_ok sp i" and cov: "covered sl (bitpos (i + 1) div 8) (bitpos (search_bound sp i True) div 8)"
    and bits: "\<And>k. i < k \<Longrightarrow> k \<le> search_bound sp i True \<Longrightarrow> slice_bit sl (bitpos k) = P (k * uint sp)"
  shows "next_initialized sl (i * uint sp) sp = Ok (find P (search_ticks sp i True))"
proof -
  let ?l = "search_bound sp i True"
  have i': "0 < sp" "- 44364 < i" "i < 44364" "- 221818 \<le> i * uint sp" "i * uint sp \<le> 221818"
    using i by (auto simp: tick_ok_def TICK_LIMIT_def MAX_TICK_def)
  have l: "tick_ok sp ?l" using search_bound_ok(1) [OF i] .
  then have l': "- 44364 < ?l" "?l < 44364" by (auto simp: tick_ok_def TICK_LIMIT_def)
  have u: "uint sp < 65536" "0 \<le> uint sp" using unsigned_less [of sp, where ?'a = int] by simp_all
  have add: "i32 (i * uint sp + uint sp) = Ok ((i + 1) * uint sp)"
  proof -
    have "- 2147483648 \<le> i * uint sp + uint sp" "i * uint sp + uint sp \<le> 2147483647"
      using i'(4,5) u by linarith+
    then show ?thesis by (simp add: i32_def distrib_right)
  qed
  have q: "tick_ok sp (int q - 44364) \<and> slice_bit sl q = P ((int q - 44364) * uint sp)"
    if "q \<in> set [bitpos (i + 1)..<Suc (bitpos ?l)]" for q
  proof -
    have k: "i < int q - 44364" "int q - 44364 \<le> ?l" using that i' l' by auto
    with bits [OF k] tick_ok_between [OF i l] show ?thesis by simp
  qed
  have "next_initialized sl (i * uint sp) sp =
      next_loop sl sp (bitpos ?l div 8) (bitpos ?l mod 8) (bitpos (i + 1) div 8) (bitpos (i + 1) mod 8)"
    using i' l' by (simp add: next_initialized_def get_search_limit_mult [OF i] add tick_to_position_mult)
  also have "\<dots> = (case find (slice_bit sl) [bitpos (i + 1)..<Suc (bitpos ?l)] of
      None \<Rightarrow> Ok None | Some q \<Rightarrow> tick_at q sp)"
    by (subst next_loop_find [OF cov]) (simp_all only: mult_div_mod_eq mod_less_divisor zero_less_numeral)
  also have "\<dots> = Ok (find P (map (\<lambda>k. k * uint sp) (map (\<lambda>q. int q - 44364) [bitpos (i + 1)..<Suc (bitpos ?l)])))"
    using q by (intro search_result) blast
  finally show ?thesis
    using i' l' by (simp add: search_ticks_def upto_bitpos del: upt_Suc)
qed

lemma prev_initialized_find:
  assumes i: "tick_ok sp i" and cov: "covered sl (bitpos (search_bound sp i False) div 8) (bitpos i div 8)"
    and bits: "\<And>k. search_bound sp i False \<le> k \<Longrightarrow> k \<le> i \<Longrightarrow> slice_bit sl (bitpos k) = P (k * uint sp)"
  shows "prev_initialized sl (i * uint sp) sp = Ok (find P (search_ticks sp i False))"
proof -
  let ?l = "search_bound sp i False"
  have i': "0 < sp" "- 44364 < i" "i < 44364" using i by (auto simp: tick_ok_def TICK_LIMIT_def)
  have l: "tick_ok sp ?l" using search_bound_ok(1) [OF i] .
  then have l': "- 44364 < ?l" "?l < 44364" by (auto simp: tick_ok_def TICK_LIMIT_def)
  have q: "tick_ok sp (int q - 44364) \<and> slice_bit sl q = P ((int q - 44364) * uint sp)"
    if "q \<in> set (rev [bitpos ?l..<Suc (bitpos i)])" for q
  proof -
    have k: "?l \<le> int q - 44364" "int q - 44364 \<le> i" using that i' l' by auto
    with bits [OF k] tick_ok_between [OF l i] show ?thesis by simp
  qed
  have "prev_initialized sl (i * uint sp) sp =
      prev_loop sl sp (bitpos ?l div 8) (bitpos ?l mod 8) (bitpos i div 8) (bitpos i mod 8)"
    using i' l' by (simp add: prev_initialized_def get_search_limit_mult [OF i] tick_to_position_mult)
  also have "\<dots> = Ok (find P (map (\<lambda>k. k * uint sp) (map (\<lambda>q. int q - 44364) (rev [bitpos ?l..<Suc (bitpos i)]))))"
    using search_result [of "rev [bitpos ?l..<Suc (bitpos i)]" sp sl P] q
    by (simp add: prev_loop_find [OF cov] del: upt_Suc)
  finally show ?thesis
    using i' l' by (simp add: search_ticks_def upto_bitpos rev_map del: upt_Suc)
qed

lemma window_search:
  assumes tm: "length (tm_bitmap tm) = 11091" and c: "tick_ok sp c" and i: "tick_ok sp i"
    and near: "if x_to_y then c - 3352 \<le> i \<and> i \<le> c + 240 else c - 248 \<le> i \<and> i \<le> c + 3344"
  shows "\<exists>sl. slice_from_slice (tm_bitmap tm) (c * uint sp) sp x_to_y = Ok sl \<and>
    (if x_to_y then prev_initialized sl (i * uint sp) sp else next_initialized sl (i * uint sp) sp) =
      (Ok (find (\<lambda>t. tickmap_get tm t sp = (Ok True :: (bool, unit) result)) (search_ticks sp i (\<not> x_to_y)))
        :: (int option, 'e) result)"
proof -
  let ?w = "window_start c x_to_y" and ?b = "search_bound sp i (\<not> x_to_y)"
  let ?sl = "\<lparr>ts_data = take 482 (drop ?w (tm_bitmap tm)), ts_offset = int ?w\<rparr>"
  have le: "?w \<le> 10609" by (simp add: window_start_def)
  have b: "tick_ok sp ?b" using search_bound_ok(1) [OF i] .
  have r: "- 44364 < i" "i < 44364" "- 44364 < ?b" "?b < 44364" using i b by (auto simp: tick_ok_def TICK_LIMIT_def)
  have dist: "if x_to_y then i - 256 \<le> ?b else ?b \<le> i + 256" using search_bound_ok(2,3) [OF i] by auto
  have side: "if x_to_y then ?b \<le> i else i \<le> ?b" using search_bound_side [OF i] by auto
  have inside: "?w \<le> bitpos k div 8 \<and> bitpos k div 8 < ?w + 482"
    if "if x_to_y then ?b \<le> k \<and> k \<le> i else i \<le> k \<and> k \<le> ?b" for k
    using that r dist near by (intro window_covers) (auto split: if_split_asm)
  have "int ?w mod 18446744073709551616 = int ?w" using le by simp
  then have o: "offset_usize ?sl = ?w" by (simp add: offset_usize_def)
  have cov: "covered ?sl lo hi" if "?w \<le> lo" "hi < ?w + 482" for lo hi
    using that le tm by (auto simp: covered_def slice_position_def Let_def o)
  have bits: "slice_bit ?sl (bitpos k) = (tickmap_get tm (k * uint sp) sp = (Ok True :: (bool, unit) result))"
    if "if x_to_y then ?b \<le> k \<and> k \<le> i else i \<le> k \<and> k \<le> ?b" for k
  proof -
    have "tick_ok sp k" using that tick_ok_between [OF b i] tick_ok_between [OF i b] by (auto split: if_split_asm)
    then show ?thesis
      using inside [OF that] by (simp add: window_bit(2) [OF tm _ _ le] tickmap_get_mult [OF tm])
  qed
  have "(if x_to_y then prev_initialized ?sl (i * uint sp) sp else next_initialized ?sl (i * uint sp) sp) =
      (Ok (find (\<lambda>t. tickmap_get tm t sp = (Ok True :: (bool, unit) result)) (search_ticks sp i (\<not> x_to_y)))
        :: (int option, 'e) result)"
  proof (cases x_to_y)
    case True
    have "covered ?sl (bitpos ?b div 8) (bitpos i div 8)"
      using inside [of ?b] inside [of i] side True by (intro cov) auto
    then show ?thesis
      using prev_initialized_find [OF i, of ?sl "\<lambda>t. tickmap_get tm t sp = (Ok True :: (bool, unit) result)"] bits True
      by simp
  next
    case False
    have "bitpos i div 8 \<le> bitpos (i + 1) div 8" by (intro div_le_mono) simp
    then have "covered ?sl (bitpos (i + 1) div 8) (bitpos ?b div 8)"
      using inside [of ?b] inside [of i] side False by (intro cov) auto
    then show ?thesis
      using next_initialized_find [OF i, of ?sl "\<lambda>t. tickmap_get tm t sp = (Ok True :: (bool, unit) result)"] bits False
      by simp
  qed
  then show ?thesis using slice_from_slice_full [OF tm c, of x_to_y] by blast
qed

subsection \<open>Progress of the searches\<close>

text \<open>Whatever the window holds, a search only ever moves in its direction.\<close>

lemma tick_to_position_Ok:
  assumes "tick_to_position t sp = (Ok (byte, bt) :: (_, 'e) result)"
  shows "0 < uint sp \<and> bt < 8 \<and> int (8 * byte + bt) = \<bar>t sdiv uint sp + TICK_LIMIT\<bar> \<and> t = (t sdiv uint sp) * uint sp"
proof -
  let ?s = "uint sp" and ?b = "t sdiv uint sp + TICK_LIMIT"
  from assms have s: "?s \<noteq> 0" and m: "t smod ?s = 0" and b: "0 \<le> ?b sdiv 8" "byte = nat (?b sdiv 8)" "bt = nat \<bar>?b smod 8\<bar>"
    by (auto simp: tick_to_position_def Let_def i32_def split: if_split_asm)
  have pos: "0 < ?s" using s by (simp add: order_less_le)
  have "\<bar>?b smod 8\<bar> = \<bar>?b\<bar> mod 8 \<and> \<bar>?b sdiv 8\<bar> = \<bar>?b\<bar> div 8"
    by (cases "0 \<le> ?b") (auto simp: signed_divide_int_def signed_modulo_int_def abs_mult sgn_if minus_div_mult_eq_mod pos_imp_zdiv_nonneg_iff)
  then have "int bt = \<bar>?b\<bar> mod 8" "int byte = \<bar>?b\<bar> div 8" using b by simp_all
  moreover have "t = (t sdiv ?s) * ?s"
  proof (cases "0 \<le> t")
    case True
    then show ?thesis using m pos by (simp add: sdiv_smod_nonneg) (metis dvd_div_mult_self mod_0_imp_dvd)
  next
    case False
    then have "(- t) mod ?s = 0" using m pos by (auto simp: signed_modulo_int_def sgn_if)
    then have "- t = (- t div ?s) * ?s" by (metis dvd_div_mult_self mod_0_imp_dvd)
    then have "t = - (- t div ?s) * ?s" by (simp only: mult_minus_left)
    moreover have "t sdiv ?s = - (- t div ?s)" using False pos by (simp add: signed_divide_int_def sgn_if)
    ultimately show ?thesis by simp
  qed
  ultimately show ?thesis using pos by auto
qed

lemma next_loop_ge:
  "next_loop sl sp lb lbit byte bt = (Ok (Some t) :: (_, 'e) result) \<Longrightarrow> bt < 8 \<Longrightarrow>
    \<exists>q \<ge> 8 * byte + bt. t = (int q - TICK_LIMIT) * uint sp"
proof (induction sl sp lb lbit byte bt rule: next_loop.induct [where ?'a = 'e])
  case (1 sl sp lb lbit byte bt)
  from 1(2) have guard: "byte < lb \<or> byte = lb \<and> bt \<le> lbit" by (subst (asm) next_loop.simps) (auto split: if_split_asm)
  from 1(2) guard obtain v where v: "slice_index sl byte = (Ok v :: (u8, 'e) result)"
    by (subst (asm) next_loop.simps) auto
  show ?case
  proof (cases "drop_bit bt v = 0")
    case True
    then have "next_loop sl sp lb lbit (byte + 1) 0 = (Ok (Some t) :: (_, 'e) result)"
      using 1(2) guard v by (subst (asm) next_loop.simps) auto
    with 1(1) [OF guard v refl] True obtain q where "8 * (byte + 1) \<le> q" "t = (int q - TICK_LIMIT) * uint sp" by auto
    then show ?thesis using 1(3) by (intro exI [of _ q]) simp
  next
    case False
    then obtain q where q: "skip_up (drop_bit bt v) bt = (Ok q :: (nat, 'e) result)" "bt \<le> q"
      by (rule skip_up_first)
    then show ?thesis
      using 1(2) guard v False
      by (subst (asm) next_loop.simps)
        (auto simp: position_to_tick_def i32_def intro!: exI [of _ "byte * 8 + q"] split: if_split_asm)
  qed
qed

lemma skip_down_le: "skip_down v m b = (Ok q :: (nat, 'e) result) \<Longrightarrow> q \<le> b"
  by (induction v m b rule: skip_down.induct) (auto split: if_split_asm)

lemma prev_loop_le:
  "prev_loop sl sp lb lbit byte bt = (Ok (Some t) :: (_, 'e) result) \<Longrightarrow> bt < 8 \<Longrightarrow>
    \<exists>q \<le> 8 * byte + bt. t = (int q - TICK_LIMIT) * uint sp"
proof (induction sl sp lb lbit byte bt rule: prev_loop.induct [where ?'a = 'e])
  case (1 sl sp lb lbit byte bt)
  from 1(2) have guard: "lb < byte \<or> byte = lb \<and> lbit \<le> bt" by (subst (asm) prev_loop.simps) (auto split: if_split_asm)
  from 1(2) guard obtain v where v: "slice_index sl byte = (Ok v :: (u8, 'e) result)"
    by (subst (asm) prev_loop.simps) (auto simp: Let_def)
  show ?case
  proof (cases "0 < (ucast v :: u16) mod push_bit 1 (push_bit bt 1)")
    case True
    then have t: "rbind (skip_down (ucast v) (push_bit bt 1) bt) (\<lambda>bt.
        if lb < byte \<or> byte = lb \<and> lbit \<le> bt then rbind (position_to_tick byte bt sp) (\<lambda>t. Ok (Some t)) else Ok None) =
        (Ok (Some t) :: (_, 'e) result)"
      using 1(2) guard v by (subst (asm) prev_loop.simps) (simp only: Let_def rbind.simps if_True)
    then obtain q where q: "skip_down (ucast v) (push_bit bt 1) bt = (Ok q :: (nat, 'e) result)"
      "position_to_tick byte q sp = (Ok t :: (int, 'e) result)" by (auto split: if_split_asm)
    then have "t = (int (byte * 8 + q) - TICK_LIMIT) * uint sp"
      by (auto simp: position_to_tick_def i32_def split: if_split_asm)
    then show ?thesis using skip_down_le [OF q(1)] by (intro exI [of _ "byte * 8 + q"]) simp
  next
    case False
    then have "(if byte = 0 then Ok None else prev_loop sl sp lb lbit (byte - 1) 7) = (Ok (Some t) :: (_, 'e) result)"
      using 1(2) guard v by (subst (asm) prev_loop.simps) (simp only: Let_def rbind.simps if_True if_False)
    then have "byte \<noteq> 0" "prev_loop sl sp lb lbit (byte - 1) 7 = (Ok (Some t) :: (_, 'e) result)" by (auto split: if_split_asm)
    with 1(1) [OF guard refl v refl False] obtain q where "q \<le> 8 * (byte - 1) + 7" "t = (int q - TICK_LIMIT) * uint sp" by auto
    then show ?thesis using \<open>byte \<noteq> 0\<close> by (intro exI [of _ q]) simp
  qed
qed

lemma next_initialized_gt:
  assumes "next_initialized sl t sp = (Ok (Some x) :: (_, 'e) result)"
  shows "t < x"
proof -
  let ?f = "t + uint sp"
  from assms obtain byte bt lb lbit where p: "tick_to_position ?f sp = (Ok (byte, bt) :: (_, 'e) result)"
    and n: "next_loop sl sp lb lbit byte bt = (Ok (Some x) :: (_, 'e) result)"
    by (auto simp: next_initialized_def i32_def split: if_split_asm)
  note p = tick_to_position_Ok [OF p]
  from next_loop_ge [OF n] p obtain q where q: "8 * byte + bt \<le> q" "x = (int q - TICK_LIMIT) * uint sp" by auto
  have "?f sdiv uint sp \<le> int q - TICK_LIMIT" using q(1) p by linarith
  then have "?f \<le> x" using p q(2) by (metis mult_right_mono order_less_imp_le)
  then show ?thesis using p by linarith
qed

lemma prev_initialized_le:
  assumes "prev_initialized sl t sp = (Ok (Some x) :: (_, 'e) result)" and "- TICK_LIMIT \<le> t sdiv uint sp"
  shows "x \<le> t"
proof -
  from assms obtain byte bt lb lbit where p: "tick_to_position t sp = (Ok (byte, bt) :: (_, 'e) result)"
    and n: "prev_loop sl sp lb lbit byte bt = (Ok (Some x) :: (_, 'e) result)"
    by (auto simp: prev_initialized_def)
  note p = tick_to_position_Ok [OF p]
  from prev_loop_le [OF n] p obtain q where q: "q \<le> 8 * byte + bt" "x = (int q - TICK_LIMIT) * uint sp" by auto
  have "int q - TICK_LIMIT \<le> t sdiv uint sp" using q(1) p assms(2) by linarith
  then show ?thesis using p q(2) by (metis mult_right_mono order_less_imp_le)
qed

subsection \<open>Flipping a tick\<close>

locale byte_store =
  fixes rd :: "'s \<Rightarrow> nat \<Rightarrow> (u8, 'e) result"
    and wr :: "'s \<Rightarrow> nat \<Rightarrow> u8 \<Rightarrow> ('s, 'e) result"
  assumes rd_wr: "wr s i v = Ok s' \<Longrightarrow> rd s' j = (if j = i then Ok v else rd s j)"
begin

lemma flip_bit:
  assumes "tick_flip rd wr s value t sp = Ok s'" and "tick_to_position t sp = (Ok (byte, bt) :: (_, 'e) result)"
    and "tick_to_position t' sp' = (Ok (byte', bt') :: (_, 'e) result)" and "bt < 8" and "bt' < 8"
  shows "tick_get rd s' t' sp' = (if (byte', bt') = (byte, bt) then Ok value else tick_get rd s t' sp')"
proof -
  from assms(1,2) obtain v where v: "rd s byte = Ok v" "bit v bt \<noteq> value" "wr s byte (v XOR push_bit bt 1) = Ok s'"
    by (auto simp: tick_flip_def tick_get_def drop_bit_mod_2 split: prod.split_asm)
  have "bit (v XOR push_bit bt 1) bt' = (if bt' = bt then \<not> bit v bt else bit v bt')"
    using assms(4,5) by (auto simp: bit_xor_iff bit_exp_iff)
  then show ?thesis
    using v assms(2,3) rd_wr [OF v(3)] by (auto simp: tick_get_def drop_bit_mod_2)
qed

lemma flip_get:
  assumes "tick_flip rd wr s value (i * uint sp) sp = Ok s'" and "tick_ok sp i" and "tick_ok sp k"
  shows "tick_get rd s' (k * uint sp) sp = (if k = i then Ok value else tick_get rd s (k * uint sp) sp)"
proof -
  have r: "0 < sp" "- 44364 < i" "i < 44364" "- 44364 < k" "k < 44364"
    using assms(2,3) by (auto simp: tick_ok_def TICK_LIMIT_def)
  have same: "(bitpos k div 8, bitpos k mod 8) = (bitpos i div 8, bitpos i mod 8) \<longleftrightarrow> k = i"
  proof
    assume "(bitpos k div 8, bitpos k mod 8) = (bitpos i div 8, bitpos i mod 8)"
    then have d: "bitpos k div 8 = bitpos i div 8" "bitpos k mod 8 = bitpos i mod 8" by (simp_all only: prod.inject)
    have "bitpos k = 8 * (bitpos k div 8) + bitpos k mod 8" by (rule mult_div_mod_eq [symmetric])
    also have "\<dots> = bitpos i" unfolding d by (rule mult_div_mod_eq)
    finally show "k = i" using r by linarith
  next
    assume "k = i"
    then show "(bitpos k div 8, bitpos k mod 8) = (bitpos i div 8, bitpos i mod 8)" by (rule arg_cong)
  qed
  have pos: "tick_to_position (i * uint sp) sp = (Ok (bitpos i div 8, bitpos i mod 8) :: (_, 'e) result)"
    "tick_to_position (k * uint sp) sp = (Ok (bitpos k div 8, bitpos k mod 8) :: (_, 'e) result)"
    using r by (simp_all add: tick_to_position_mult)
  show ?thesis
    using flip_bit [OF assms(1) pos] by (simp only: same mod_less_divisor zero_less_numeral)
qed

end

interpretation tickmap_store: byte_store tickmap_byte tickmap_set_byte
  by unfold_locales (auto simp: tickmap_byte_def tickmap_set_byte_def set_index_Ok at_index_def nth_list_update)

interpretation view_store: byte_store slice_index slice_set_index
proof unfold_locales
  fix sl :: tickmap_slice and i j v sl'
  assume w: "slice_set_index sl i v = (Ok sl' :: (tickmap_slice, 'a) result)"
  then obtain p where p: "slice_position sl i = Some p" "sl' = sl\<lparr>ts_data := (ts_data sl)[p := v]\<rparr>"
    by (auto simp: slice_set_index_def)
  have same: "slice_position sl' j = slice_position sl j" by (simp add: p(2) slice_position_def offset_usize_def)
  show "slice_index sl' j = (if j = i then Ok v else (slice_index sl j :: (u8, 'a) result))"
  proof (cases "slice_position sl j")
    case None
    then show ?thesis using p(1) same by (auto simp: slice_index_def)
  next
    case (Some q)
    let ?o = "offset_usize sl"
    have "?o \<le> i" "i - ?o < length (ts_data sl)" "p = i - ?o" "?o \<le> j" "q = j - ?o"
      using p(1) Some by (simp_all add: slice_position_def Let_def split: if_split_asm)
    then have "p < length (ts_data sl)" "q = p \<longleftrightarrow> j = i" by auto
    then show ?thesis using Some same by (auto simp: slice_index_def p(2) nth_list_update)
  qed
qed

text \<open>
  C21 (tick_flip_exact). Flipping a tick of the bitmap or of the window sets exactly that tick
  to the given value and leaves every other tick of the pool as it was.
\<close>

theorem tick_flip_exact:
  assumes "tick_ok sp i" and "tick_ok sp k"
  shows "(tickmap_flip tm value (i * uint sp) sp = (Ok tm' :: (tickmap, 'e) result) \<longrightarrow>
      tickmap_get tm' (k * uint sp) sp =
        (if k = i then Ok value else (tickmap_get tm (k * uint sp) sp :: (bool, 'e) result))) \<and>
    (view_flip sl value (i * uint sp) sp = (Ok sl' :: (tickmap_slice, 'e) result) \<longrightarrow>
      view_get sl' (k * uint sp) sp =
        (if k = i then Ok value else (view_get sl (k * uint sp) sp :: (bool, 'e) result)))"
  unfolding tickmap_flip_def tickmap_get_def view_flip_def view_get_def
  using tickmap_store.flip_get [OF _ assms] view_store.flip_get [OF _ assms] by blast

theorem tick_flip_exact_witness:
  "\<exists>tm'. tickmap_flip default_tickmap True 20 10 = (Ok tm' :: (tickmap, unit) result) \<and>
     tickmap_get tm' 20 10 = (Ok True :: (bool, unit) result) \<and>
     tickmap_get tm' 30 10 = (Ok False :: (bool, unit) result)"
proof -
  have ok: "tick_ok 10 2" "tick_ok 10 3" by (simp_all add: tick_ok_def TICK_LIMIT_def MAX_TICK_def)
  have len: "length (tm_bitmap default_tickmap) = 11091" by (simp add: default_tickmap_def)
  have off: "tickmap_get default_tickmap 20 10 = (Ok False :: (bool, unit) result)"
    "tickmap_get default_tickmap 30 10 = (Ok False :: (bool, unit) result)"
    using tickmap_get_mult [OF len ok(1)] tickmap_get_mult [OF len ok(2)] by (simp_all add: default_tickmap_def)
  have "tick_to_position (2 * uint (10 :: u16)) 10 = (Ok (5545, 6) :: (_, unit) result)"
    by (subst tick_to_position_mult) simp_all
  then obtain tm' where f: "tickmap_flip default_tickmap True 20 10 = (Ok tm' :: (tickmap, unit) result)"
    using off(1) len
    by (auto simp: tickmap_flip_def tickmap_get_def tick_flip_def tickmap_byte_def tickmap_set_byte_def at_index_def set_index_def)
  have f': "tickmap_flip default_tickmap True (2 * uint (10 :: u16)) 10 = (Ok tm' :: (tickmap, unit) result)"
    using f by simp
  have "tickmap_get tm' 20 10 = (Ok True :: (bool, unit) result)" "tickmap_get tm' 30 10 = (Ok False :: (bool, unit) result)"
    using tick_flip_exact [OF ok(1) ok(1), THEN conjunct1, rule_format, OF f']
      tick_flip_exact [OF ok(1) ok(2), THEN conjunct1, rule_format, OF f'] off by simp_all
  then show ?thesis using f by blast
qed

subsection \<open>The search of a swap\<close>

text \<open>
  C22 (tickmap_search_exact). The window cut out of a pool's tick bitmap at the current tick
  serves the searches of a swap: from every tick up to 3352 (3344) steps further in the
  direction of the swap, the search over the window returns what a search over the whole
  bitmap returns, the first initialized tick in the search range.
\<close>

theorem tickmap_search_exact:
  assumes "length (tm_bitmap tm) = 11091" and "tick_ok sp c" and "tick_ok sp i"
    and "if x_to_y then c - 3352 \<le> i \<and> i \<le> c + 240 else c - 248 \<le> i \<and> i \<le> c + 3344"
  shows "\<exists>sl. slice_from_slice (tm_bitmap tm) (c * uint sp) sp x_to_y = Ok sl \<and>
    (if x_to_y then prev_initialized sl (i * uint sp) sp else next_initialized sl (i * uint sp) sp) =
      (Ok (find (\<lambda>t. tickmap_get tm t sp = (Ok True :: (bool, unit) result)) (search_ticks sp i (\<not> x_to_y)))
        :: (int option, 'e) result)"
  by (rule window_search [OF assms])

text \<open>A map with tick 0 alone, searched downwards from tick 0.\<close>

theorem tickmap_search_exact_witness:
  "\<exists>sl. slice_from_slice ((replicate 11091 0)[5545 := 16]) 0 10 True = Ok sl \<and>
     prev_initialized sl 0 10 = (Ok (Some 0) :: (int option, unit) result)"
proof -
  let ?tm = "\<lparr>tm_bitmap = (replicate 11091 0)[5545 := 16]\<rparr>"
  have ok: "tick_ok 10 0" by (simp add: tick_ok_def TICK_LIMIT_def MAX_TICK_def)
  have "tickmap_get ?tm (0 * uint (10 :: u16)) 10 = (Ok True :: (bool, unit) result)"
    by (subst tickmap_get_mult [OF _ ok]) (simp_all add: bit_iff_odd_drop_bit)
  moreover have "search_ticks 10 0 False = 0 # map (\<lambda>k. k * 10) (rev [- 256..- 1])"
    by (simp add: search_ticks_def search_bound_def TICK_LIMIT_def MAX_TICK_def upto_rec2 [of "- 256" 0])
  ultimately show ?thesis
    using tickmap_search_exact [of ?tm 10 0 0 True] ok by simp
qed

end
