(* ===== verification/Invariant_Math.thy ===== *)
theory Invariant_Math
  imports Invariant_Tickmap
begin

text \<open>
  The arithmetic of Invariant pools
  (\<^verbatim>\<open>lib/dex-invariant/src/internal/invariant-types/src/math.rs\<close>, \<^verbatim>\<open>decimals.rs\<close>,
  \<^verbatim>\<open>errors.rs\<close>, \<^verbatim>\<open>structs/pool.rs\<close>, \<^verbatim>\<open>structs/tick.rs\<close>): prices of ticks, amounts between two
  prices, the price after an amount, one step of a swap, and the crossing of a tick.

  Decimals are their underlying integers: a \<open>Price\<close> or \<open>FeeGrowth\<close> has 24 digits, a
  \<open>FixedPoint\<close> 12, a \<open>Liquidity\<close> 6, as the attributes of \<^verbatim>\<open>decimals.rs\<close> say; a token amount is a
  64-bit word. The operations between decimals of different scale are those of a third-party
  crate: the record \<open>decimal_lib\<close>. Its documented behaviour, exact results rounded towards
  zero (or up, in the variants that say so) with a failure where the result does not fit, is
  the hypothesis \<open>decimal_laws\<close>. Nothing is said of a product or quotient whose
  intermediate value overflows the integers the crate computes it with (128 bits for \<open>*\<close>
  of two \<open>FixedPoint\<close>, 256 bits for the \<open>big_\<close> operations): that none occurs is proved
  where a result is claimed. Errors carry their cause; the trace of source locations is
  left out.

  The theorems: the amounts of a swap step stay within the amount it is given; crossing a tick
  in both directions restores the liquidity of the pool.
\<close>

type_synonym price = u128
type_synonym liquidity = u128
type_synonym fixed_point = u128
type_synonym fee_growth = u128
type_synonym token_amount = u64
type_synonym u256 = "256 word"
type_synonym 'a tracked = "('a, string) result"

record decimal_lib =
  dl_fixed_mul :: "fixed_point \<Rightarrow> fixed_point \<Rightarrow> fixed_point tracked"
  dl_fixed_div :: "fixed_point \<Rightarrow> fixed_point \<Rightarrow> fixed_point tracked"
  dl_price_of_fixed :: "fixed_point \<Rightarrow> price tracked"
  dl_token_mul_fixed :: "token_amount \<Rightarrow> fixed_point \<Rightarrow> token_amount tracked"
  dl_token_mul_fixed_up :: "token_amount \<Rightarrow> fixed_point \<Rightarrow> token_amount tracked"
  dl_price_mul_liquidity :: "price \<Rightarrow> liquidity \<Rightarrow> u256 tracked"
  dl_price_mul_liquidity_up :: "price \<Rightarrow> liquidity \<Rightarrow> u256 tracked"
  dl_price_mul_price :: "price \<Rightarrow> price \<Rightarrow> u256 tracked"
  dl_price_mul_price_up :: "price \<Rightarrow> price \<Rightarrow> u256 tracked"
  dl_price_mul_token :: "price \<Rightarrow> token_amount \<Rightarrow> u256 tracked"
  dl_price_of_token :: "token_amount \<Rightarrow> price tracked"
  dl_price_div_number :: "price \<Rightarrow> u256 \<Rightarrow> price tracked"
  dl_price_div_number_up :: "price \<Rightarrow> u256 \<Rightarrow> price tracked"

definition PRICE_ONE :: nat where
  "PRICE_ONE = 10 ^ 24"

definition FIXED_ONE :: nat where
  "FIXED_ONE = 10 ^ 12"

definition LIQUIDITY_ONE :: nat where
  "LIQUIDITY_ONE = 10 ^ 6"

definition PRICE_LIQUIDITY_DENOMINATOR :: u128 where
  "PRICE_LIQUIDITY_DENOMINATOR = 1000000000000000000"

text \<open>Causes of errors.\<close>

definition ADD_CAUSE :: string where "ADD_CAUSE = ''addition overflow''"
definition SUB_CAUSE :: string where "SUB_CAUSE = ''subtraction underflow''"
definition MUL_CAUSE :: string where "MUL_CAUSE = ''multiplication overflow''"
definition DIV_CAUSE :: string where "DIV_CAUSE = ''division overflow or division by zero''"
definition CAST_CAUSE :: string where "CAST_CAUSE = ''conversion to type failed''"

definition fits :: "'a::len word \<Rightarrow> 'b::len word option" where
  "fits x = (if unat x < 2 ^ LENGTH('b) then Some (ucast x) else None)"

text \<open>Checked subtraction and addition of decimals fail with a message of the crate.\<close>

definition decimal_sub :: "'a::len word \<Rightarrow> 'a word \<Rightarrow> 'a word tracked" where
  "decimal_sub a b = ok_or ''checked_sub failed'' (checked_sub a b)"

definition decimal_add :: "'a::len word \<Rightarrow> 'a word \<Rightarrow> 'a word tracked" where
  "decimal_add a b = ok_or ''checked_add failed'' (checked_add a b)"

subsection \<open>Decimals\<close>

definition fee_growth_unchecked_add :: "fee_growth \<Rightarrow> fee_growth \<Rightarrow> fee_growth" where
  "fee_growth_unchecked_add a b = a + b"

definition fee_growth_unchecked_sub :: "fee_growth \<Rightarrow> fee_growth \<Rightarrow> fee_growth" where
  "fee_growth_unchecked_sub a b = a - b"

definition fee_growth_from_fee :: "liquidity \<Rightarrow> token_amount \<Rightarrow> fee_growth tracked" where
  "fee_growth_from_fee liq fee =
     rbind (unwrap (checked_mul (ucast fee) (of_nat PRICE_ONE :: u256))) (\<lambda>n.
     rbind (unwrap (checked_mul n (of_nat LIQUIDITY_ONE))) (\<lambda>n.
     rbind (unwrap (checked_div n (ucast liq))) (\<lambda>q.
     unwrap (fits q))))"

definition fee_growth_to_fee :: "fee_growth \<Rightarrow> liquidity \<Rightarrow> fixed_point tracked" where
  "fee_growth_to_fee growth liq =
     rbind (unwrap (checked_mul (ucast growth) (ucast liq :: u256))) (\<lambda>n.
     rbind (unwrap (checked_div n (10 ^ (24 + 6 - 12)))) (\<lambda>q.
     unwrap (fits q)))"

definition fixed_point_unchecked_add :: "fixed_point \<Rightarrow> fixed_point \<Rightarrow> fixed_point" where
  "fixed_point_unchecked_add a b = a - b"

definition fixed_point_unchecked_sub :: "fixed_point \<Rightarrow> fixed_point \<Rightarrow> fixed_point" where
  "fixed_point_unchecked_sub a b = a - b"

definition big_div_values_to_token :: "u256 \<Rightarrow> u256 \<Rightarrow> token_amount option" where
  "big_div_values_to_token nominator denominator =
     (case checked_mul nominator (of_nat PRICE_ONE) of None \<Rightarrow> None | Some n \<Rightarrow>
     (case checked_div n denominator of None \<Rightarrow> None | Some q \<Rightarrow>
     (case checked_div q (of_nat PRICE_ONE) of None \<Rightarrow> None | Some t \<Rightarrow> fits t)))"

definition big_div_values_to_token_up :: "u256 \<Rightarrow> u256 \<Rightarrow> token_amount option tracked" where
  "big_div_values_to_token_up nominator denominator =
     (case checked_mul nominator (of_nat PRICE_ONE) of None \<Rightarrow> Ok None | Some n \<Rightarrow>
      rbind (psub denominator 1) (\<lambda>d.
     (case checked_add n d of None \<Rightarrow> Ok None | Some n \<Rightarrow>
     (case checked_div n denominator of None \<Rightarrow> Ok None | Some q \<Rightarrow>
     (case checked_add q (of_nat (PRICE_ONE - 1)) of None \<Rightarrow> Ok None | Some q \<Rightarrow>
     (case checked_div q (of_nat PRICE_ONE) of None \<Rightarrow> Ok None | Some t \<Rightarrow> Ok (fits t)))))))"

definition big_div_values_up :: "u256 \<Rightarrow> u256 \<Rightarrow> price tracked" where
  "big_div_values_up nominator denominator =
     rbind (unwrap (checked_mul nominator (of_nat PRICE_ONE))) (\<lambda>n.
     rbind (unwrap (checked_sub denominator 1)) (\<lambda>d.
     rbind (unwrap (checked_add n d)) (\<lambda>n.
     rbind (unwrap (checked_div n denominator)) (\<lambda>q.
     unwrap (fits q)))))"

definition checked_big_div_values_up :: "u256 \<Rightarrow> u256 \<Rightarrow> price tracked" where
  "checked_big_div_values_up nominator denominator =
     rbind (ok_or MUL_CAUSE (checked_mul nominator (of_nat PRICE_ONE))) (\<lambda>n.
     rbind (ok_or SUB_CAUSE (checked_sub denominator 1)) (\<lambda>d.
     rbind (ok_or ADD_CAUSE (checked_add n d)) (\<lambda>n.
     rbind (ok_or DIV_CAUSE (checked_div n denominator)) (\<lambda>q.
     ok_or CAST_CAUSE (fits q)))))"

subsection \<open>Prices of ticks\<close>

text \<open>The factors of the price, one per bit of the tick.\<close>

definition tick_factors :: "(nat \<times> fixed_point) list" where
  "tick_factors =
     [(0, 1000049998750), (1, 1000100000000), (2, 1000200010000), (3, 1000400060004),
      (4, 1000800280056), (5, 1001601200560), (6, 1003204964963), (7, 1006420201726),
      (8, 1012881622442), (9, 1025929181080), (10, 1052530684591), (11, 1107820842005),
      (12, 1227267017980), (13, 1506184333421), (14, 2268591246242), (15, 5146506242525),
      (16, 26486526504348), (17, 701536086265529)]"

definition price_factor ::
    "decimal_lib \<Rightarrow> nat \<Rightarrow> nat \<times> fixed_point \<Rightarrow> fixed_point \<Rightarrow> fixed_point tracked" where
  "price_factor dl tick factor price =
     (case factor of (i, f) \<Rightarrow> if odd (tick div 2 ^ i) then dl_fixed_mul dl price f else Ok price)"

definition calculate_price_sqrt :: "decimal_lib \<Rightarrow> int \<Rightarrow> price tracked" where
  "calculate_price_sqrt dl tick_index =
     rbind (i32 \<bar>tick_index\<bar>) (\<lambda>tick.
     rbind (assert_that (tick \<le> MAX_TICK)) (\<lambda>_.
     rbind (rfold (price_factor dl (nat tick)) tick_factors (of_nat FIXED_ONE)) (\<lambda>price.
     if 0 \<le> tick_index then dl_price_of_fixed dl price
     else rbind (dl_fixed_div dl (of_nat FIXED_ONE) price) (dl_price_of_fixed dl))))"

definition i32_or :: "string \<Rightarrow> int \<Rightarrow> int tracked" where
  "i32_or e x = (if - 2147483648 \<le> x \<and> x \<le> 2147483647 then Ok x else Err e)"

definition get_max_tick :: "u16 \<Rightarrow> int tracked" where
  "get_max_tick tick_spacing =
     rbind (i32_or ''sub underflow'' (TICK_LIMIT - 1)) (\<lambda>n.
     rbind (i32_or ''mul overflow'' (n * uint tick_spacing)) (\<lambda>limit_by_space.
     Ok (min limit_by_space MAX_TICK)))"

definition get_min_tick :: "u16 \<Rightarrow> int tracked" where
  "get_min_tick tick_spacing =
     rbind (i32_or ''add overflow'' (- TICK_LIMIT + 1)) (\<lambda>n.
     rbind (i32_or ''mul overflow'' (n * uint tick_spacing)) (\<lambda>limit_by_space.
     Ok (max limit_by_space (- MAX_TICK))))"

definition get_max_sqrt_price :: "decimal_lib \<Rightarrow> u16 \<Rightarrow> price tracked" where
  "get_max_sqrt_price dl tick_spacing = rbind (get_max_tick tick_spacing) (calculate_price_sqrt dl)"

definition get_min_sqrt_price :: "decimal_lib \<Rightarrow> u16 \<Rightarrow> price tracked" where
  "get_min_sqrt_price dl tick_spacing = rbind (get_min_tick tick_spacing) (calculate_price_sqrt dl)"

subsection \<open>Pools and ticks\<close>

datatype invariant_error = ZeroAmount | ZeroOutput | WrongTick | WrongLimit | InvalidTickIndex
  | InvalidTickInterval | NoMoreTicks | TickNotFound | PriceLimitReached | InvalidTickLiquidity
  | EmptyPositionPokes | InvalidPositionLiquidity | InvalidPoolLiquidity | InvalidPositionIndex
  | PositionWithoutLiquidity | Unauthorized | InvalidPoolTokenAddresses | NegativeTime
  | OracleAlreadyInitialized | LimitReached | InvalidProtocolFee | NoGainSwap | InvalidTokenAccount
  | InvalidAdmin | InvalidAuthority | InvalidOwner | InvalidMint | InvalidTickmap | InvalidTickmapOwner
  | InvalidListOwner | InvalidTickSpacing

record pool =
  pl_token_x :: "256 word"
  pl_token_y :: "256 word"
  pl_token_x_reserve :: "256 word"
  pl_token_y_reserve :: "256 word"
  pl_position_iterator :: u128
  pl_tick_spacing :: u16
  pl_fee :: fixed_point
  pl_protocol_fee :: fixed_point
  pl_liquidity :: liquidity
  pl_sqrt_price :: price
  pl_current_tick_index :: int
  pl_tickmap :: "256 word"
  pl_fee_growth_global_x :: fee_growth
  pl_fee_growth_global_y :: fee_growth
  pl_fee_protocol_token_x :: u64
  pl_fee_protocol_token_y :: u64
  pl_seconds_per_liquidity_global :: fixed_point
  pl_start_timestamp :: u64
  pl_last_timestamp :: u64
  pl_fee_receiver :: "256 word"
  pl_oracle_address :: "256 word"
  pl_oracle_initialized :: bool
  pl_bump :: u8

record tick =
  tk_pool :: "256 word"
  tk_index :: int
  tk_sign :: bool
  tk_liquidity_change :: liquidity
  tk_liquidity_gross :: liquidity
  tk_sqrt_price :: price
  tk_fee_growth_outside_x :: fee_growth
  tk_fee_growth_outside_y :: fee_growth
  tk_seconds_per_liquidity_outside :: fixed_point
  tk_seconds_outside :: u64
  tk_bump :: u8

definition default_tick :: tick where
  "default_tick = \<lparr>tk_pool = 0, tk_index = 0, tk_sign = False, tk_liquidity_change = 0,
     tk_liquidity_gross = 0, tk_sqrt_price = 0, tk_fee_growth_outside_x = 0,
     tk_fee_growth_outside_y = 0, tk_seconds_per_liquidity_outside = 0, tk_seconds_outside = 0,
     tk_bump = 0\<rparr>"

record swap_result =
  sr_next_price_sqrt :: price
  sr_amount_in :: token_amount
  sr_amount_out :: token_amount
  sr_fee_amount :: token_amount

subsection \<open>Where a step stops\<close>

definition closer_limit ::
    "decimal_lib \<Rightarrow> price \<Rightarrow> bool \<Rightarrow> int \<Rightarrow> bool \<Rightarrow> (price \<times> (int \<times> bool) option, invariant_error) result" where
  "closer_limit dl sqrt_price_limit x_to_y index initialized =
     (case calculate_price_sqrt dl index of
        Ok price \<Rightarrow>
          Ok (if x_to_y \<and> sqrt_price_limit < price \<or> \<not> x_to_y \<and> price < sqrt_price_limit
              then (price, Some (index, initialized)) else (sqrt_price_limit, None))
      | _ \<Rightarrow> Panic)"

definition get_closer_limit ::
    "decimal_lib \<Rightarrow> price \<Rightarrow> bool \<Rightarrow> int \<Rightarrow> u16 \<Rightarrow> tickmap_slice \<Rightarrow>
     (price \<times> (int \<times> bool) option, invariant_error) result" where
  "get_closer_limit dl sqrt_price_limit x_to_y current_tick tick_spacing tickmap =
     rbind (if x_to_y then prev_initialized tickmap current_tick tick_spacing
            else next_initialized tickmap current_tick tick_spacing) (\<lambda>closes_tick_index.
     case closes_tick_index of
       Some index \<Rightarrow> closer_limit dl sqrt_price_limit x_to_y index True
     | None \<Rightarrow>
         rbind (get_search_limit current_tick tick_spacing (\<not> x_to_y)) (\<lambda>index.
         rbind (closer_limit dl sqrt_price_limit x_to_y index False) (\<lambda>limit.
         rbind (require (current_tick \<noteq> index) LimitReached) (\<lambda>_.
         Ok limit))))"

subsection \<open>Amounts between prices\<close>

definition price_distance :: "price \<Rightarrow> price \<Rightarrow> price" where
  "price_distance a b = (if b < a then a - b else b - a)"

definition get_delta_x ::
    "decimal_lib \<Rightarrow> price \<Rightarrow> price \<Rightarrow> liquidity \<Rightarrow> bool \<Rightarrow> token_amount option tracked" where
  "get_delta_x dl sqrt_price_a sqrt_price_b liq up =
     rbind (dl_price_mul_liquidity dl (price_distance sqrt_price_a sqrt_price_b) liq) (\<lambda>nominator.
     if up then rbind (dl_price_mul_price dl sqrt_price_a sqrt_price_b) (big_div_values_to_token_up nominator)
     else rbind (dl_price_mul_price_up dl sqrt_price_a sqrt_price_b) (\<lambda>d.
       Ok (big_div_values_to_token nominator d)))"

definition get_delta_y ::
    "decimal_lib \<Rightarrow> price \<Rightarrow> price \<Rightarrow> liquidity \<Rightarrow> bool \<Rightarrow> token_amount option tracked" where
  "get_delta_y dl sqrt_price_a sqrt_price_b liq up =
     (let delta_price = price_distance sqrt_price_a sqrt_price_b in
      if up then
        rbind (dl_price_mul_liquidity_up dl delta_price liq) (\<lambda>v.
        rbind (unwrap (checked_add v (of_nat (PRICE_ONE - 1)))) (\<lambda>v.
        rbind (unwrap (checked_div v (of_nat PRICE_ONE))) (\<lambda>v.
        Ok (fits v))))
      else
        rbind (dl_price_mul_liquidity dl delta_price liq) (\<lambda>v.
        rbind (unwrap (checked_div v (of_nat PRICE_ONE))) (\<lambda>v.
        Ok (fits v))))"

subsection \<open>The price after an amount\<close>

definition get_next_sqrt_price_x_up ::
    "decimal_lib \<Rightarrow> price \<Rightarrow> liquidity \<Rightarrow> token_amount \<Rightarrow> bool \<Rightarrow> price tracked" where
  "get_next_sqrt_price_x_up dl price_sqrt liq amount add =
     (if amount = 0 then Ok price_sqrt
      else
        rbind (ok_or ''mul overflow'' (checked_mul (ucast liq) (ucast PRICE_LIQUIDITY_DENOMINATOR :: u256)))
          (\<lambda>big_liquidity.
        rbind (dl_price_mul_token dl price_sqrt amount) (\<lambda>v.
        rbind (ok_or ''big_liquidity -/+ price_sqrt * amount''
                (if add then checked_add big_liquidity v else checked_sub big_liquidity v)) (\<lambda>denominator.
        rbind (dl_price_mul_liquidity_up dl price_sqrt liq) (\<lambda>nominator.
        checked_big_div_values_up nominator denominator)))))"

definition get_next_sqrt_price_y_down ::
    "decimal_lib \<Rightarrow> price \<Rightarrow> liquidity \<Rightarrow> token_amount \<Rightarrow> bool \<Rightarrow> price tracked" where
  "get_next_sqrt_price_y_down dl price_sqrt liq amount add =
     rbind (dl_price_of_token dl amount) (\<lambda>price_amount.
     rbind (ok_or ''mul overflow'' (checked_mul (ucast liq) (ucast PRICE_LIQUIDITY_DENOMINATOR :: u256)))
       (\<lambda>big_liquidity.
     if add then
       rbind (dl_price_div_number dl price_amount big_liquidity) (\<lambda>quotient.
       decimal_add price_sqrt quotient)
     else
       rbind (dl_price_div_number_up dl price_amount big_liquidity) (\<lambda>quotient.
       decimal_sub price_sqrt quotient)))"

definition get_next_sqrt_price_from_input ::
    "decimal_lib \<Rightarrow> price \<Rightarrow> liquidity \<Rightarrow> token_amount \<Rightarrow> bool \<Rightarrow> price tracked" where
  "get_next_sqrt_price_from_input dl price_sqrt liq amount x_to_y =
     rbind (require (liq \<noteq> 0) ''getting next price from input with zero liquidity'') (\<lambda>_.
     rbind (require (price_sqrt \<noteq> 0) ''getting next price from input with zero price'') (\<lambda>_.
     if x_to_y then get_next_sqrt_price_x_up dl price_sqrt liq amount True
     else get_next_sqrt_price_y_down dl price_sqrt liq amount True))"

definition get_next_sqrt_price_from_output ::
    "decimal_lib \<Rightarrow> price \<Rightarrow> liquidity \<Rightarrow> token_amount \<Rightarrow> bool \<Rightarrow> price tracked" where
  "get_next_sqrt_price_from_output dl price_sqrt liq amount x_to_y =
     rbind (require (liq \<noteq> 0) ''getting next price from output with zero liquidity'') (\<lambda>_.
     rbind (require (price_sqrt \<noteq> 0) ''getting next price from output with zero price'') (\<lambda>_.
     if x_to_y then get_next_sqrt_price_y_down dl price_sqrt liq amount False
     else get_next_sqrt_price_x_up dl price_sqrt liq amount False))"

definition amount_after_fee :: "decimal_lib \<Rightarrow> token_amount \<Rightarrow> fixed_point \<Rightarrow> token_amount tracked" where
  "amount_after_fee dl amount fee =
     rbind (ok_or ''sub underflow'' (checked_sub (of_nat FIXED_ONE) fee)) (dl_token_mul_fixed dl amount)"

definition is_enough_amount_to_push_price ::
    "decimal_lib \<Rightarrow> token_amount \<Rightarrow> price \<Rightarrow> liquidity \<Rightarrow> fixed_point \<Rightarrow> bool \<Rightarrow> bool \<Rightarrow> bool tracked" where
  "is_enough_amount_to_push_price dl amount current_price_sqrt liq fee by_amount_in x_to_y =
     (if liq = 0 then Ok True
      else
        rbind (if by_amount_in
               then rbind (amount_after_fee dl amount fee) (\<lambda>a.
                    get_next_sqrt_price_from_input dl current_price_sqrt liq a x_to_y)
               else get_next_sqrt_price_from_output dl current_price_sqrt liq amount x_to_y)
          (\<lambda>next_price_sqrt. Ok (current_price_sqrt \<noteq> next_price_sqrt)))"

subsection \<open>One step of a swap\<close>

definition delta_in :: "decimal_lib \<Rightarrow> bool \<Rightarrow> price \<Rightarrow> price \<Rightarrow> liquidity \<Rightarrow> token_amount option tracked" where
  "delta_in dl x_to_y current next liq =
     (if x_to_y then get_delta_x dl next current liq True else get_delta_y dl current next liq True)"

definition delta_out :: "decimal_lib \<Rightarrow> bool \<Rightarrow> price \<Rightarrow> price \<Rightarrow> liquidity \<Rightarrow> token_amount option tracked" where
  "delta_out dl x_to_y current next liq =
     (if x_to_y then get_delta_y dl next current liq False else get_delta_x dl current next liq False)"

definition or_max :: "token_amount option \<Rightarrow> token_amount" where
  "or_max v = (case v of None \<Rightarrow> - 1 | Some a \<Rightarrow> a)"

text \<open>The next price with the amount in or out that reaching the target takes.\<close>

definition step_target ::
    "decimal_lib \<Rightarrow> price \<Rightarrow> price \<Rightarrow> liquidity \<Rightarrow> token_amount \<Rightarrow> bool \<Rightarrow> fixed_point \<Rightarrow>
     (price \<times> token_amount \<times> token_amount) tracked" where
  "step_target dl current target liq amount by_amount_in fee =
     (let x_to_y = target \<le> current in
      if by_amount_in then
        rbind (amount_after_fee dl amount fee) (\<lambda>a.
        rbind (delta_in dl x_to_y current target liq) (\<lambda>v.
        rbind (if or_max v \<le> a then Ok target
               else get_next_sqrt_price_from_input dl current liq a x_to_y) (\<lambda>next.
        Ok (next, or_max v, 0))))
      else
        rbind (delta_out dl x_to_y current target liq) (\<lambda>v.
        rbind (if or_max v \<le> amount then Ok target
               else get_next_sqrt_price_from_output dl current liq amount x_to_y) (\<lambda>next.
        Ok (next, 0, or_max v))))"

definition compute_swap_step ::
    "decimal_lib \<Rightarrow> price \<Rightarrow> price \<Rightarrow> liquidity \<Rightarrow> token_amount \<Rightarrow> bool \<Rightarrow> fixed_point \<Rightarrow> swap_result tracked" where
  "compute_swap_step dl current target liq amount by_amount_in fee =
     (if liq = 0 then
        Ok \<lparr>sr_next_price_sqrt = target, sr_amount_in = 0, sr_amount_out = 0, sr_fee_amount = 0\<rparr>
      else
        let x_to_y = target \<le> current in
        rbind (step_target dl current target liq amount by_amount_in fee) (\<lambda>(next, amount_in, amount_out).
        let not_max = target \<noteq> next in
        rbind (if not_max \<or> \<not> by_amount_in
               then rbind (delta_in dl x_to_y current next liq)
                 (ok_or (if x_to_y then ''get_delta_x overflow'' else ''get_delta_y overflow''))
               else Ok amount_in) (\<lambda>amount_in.
        rbind (if not_max \<or> by_amount_in
               then rbind (delta_out dl x_to_y current next liq)
                 (ok_or (if x_to_y then ''get_delta_y overflow'' else ''get_delta_x overflow''))
               else Ok amount_out) (\<lambda>amount_out.
        let amount_out = (if \<not> by_amount_in \<and> amount < amount_out then amount else amount_out) in
        rbind (if by_amount_in \<and> next \<noteq> target
               then ok_or ''sub underflow'' (checked_sub amount amount_in)
               else dl_token_mul_fixed_up dl amount_in fee) (\<lambda>fee_amount.
        Ok \<lparr>sr_next_price_sqrt = next, sr_amount_in = amount_in, sr_amount_out = amount_out,
            sr_fee_amount = fee_amount\<rparr>)))))"

subsection \<open>Crossing a tick\<close>

definition crossed_liquidity :: "tick \<Rightarrow> pool \<Rightarrow> liquidity option" where
  "crossed_liquidity tick pool =
     (if (tk_index tick \<le> pl_current_tick_index pool) \<noteq> tk_sign tick
      then checked_add (pl_liquidity pool) (tk_liquidity_change tick)
      else checked_sub (pl_liquidity pool) (tk_liquidity_change tick))"

definition cross_tick_no_fee_growth_update :: "tick \<Rightarrow> pool \<Rightarrow> (pool, invariant_error) result" where
  "cross_tick_no_fee_growth_update tick pool =
     rbind (ok_or InvalidPoolLiquidity (crossed_liquidity tick pool)) (\<lambda>liq.
     Ok (pool\<lparr>pl_liquidity := liq\<rparr>))"

definition cross_tick :: "tick \<Rightarrow> pool \<Rightarrow> tick \<times> (pool, invariant_error) result" where
  "cross_tick tick pool =
     (tick\<lparr>tk_fee_growth_outside_x :=
             fee_growth_unchecked_sub (pl_fee_growth_global_x pool) (tk_fee_growth_outside_x tick),
           tk_fee_growth_outside_y :=
             fee_growth_unchecked_sub (pl_fee_growth_global_y pool) (tk_fee_growth_outside_y tick)\<rparr>,
      cross_tick_no_fee_growth_update tick pool)"

subsection \<open>What is relied on about the decimals\<close>

definition div_up :: "nat \<Rightarrow> nat \<Rightarrow> nat" where
  "div_up a b = (a + (b - 1)) div b"

definition failing :: "'a tracked \<Rightarrow> bool" where
  "failing r \<longleftrightarrow> (\<forall>x. r \<noteq> Ok x)"

definition rounded :: "nat \<Rightarrow> 'a::len word tracked \<Rightarrow> bool" where
  "rounded v r \<longleftrightarrow> (if v < 2 ^ LENGTH('a) then r = Ok (of_nat v) else failing r)"

text \<open>The intermediate values that always fit (two 128-bit factors and a correction below one
  unit, in 256 bits) carry no condition.\<close>

definition decimal_laws :: "decimal_lib \<Rightarrow> bool" where
  "decimal_laws dl \<longleftrightarrow>
     (\<forall>a b. unat a * unat b < 2 ^ 128 \<longrightarrow> rounded (unat a * unat b div FIXED_ONE) (dl_fixed_mul dl a b)) \<and>
     (\<forall>a b. b \<noteq> 0 \<longrightarrow> rounded (unat a * FIXED_ONE div unat b) (dl_fixed_div dl a b)) \<and>
     (\<forall>a. rounded (unat a * 10 ^ 12) (dl_price_of_fixed dl a)) \<and>
     (\<forall>a f. rounded (unat a * unat f div FIXED_ONE) (dl_token_mul_fixed dl a f)) \<and>
     (\<forall>a f. rounded (div_up (unat a * unat f) FIXED_ONE) (dl_token_mul_fixed_up dl a f)) \<and>
     (\<forall>p l. rounded (unat p * unat l div LIQUIDITY_ONE) (dl_price_mul_liquidity dl p l)) \<and>
     (\<forall>p l. rounded (div_up (unat p * unat l) LIQUIDITY_ONE) (dl_price_mul_liquidity_up dl p l)) \<and>
     (\<forall>p q. rounded (unat p * unat q div PRICE_ONE) (dl_price_mul_price dl p q)) \<and>
     (\<forall>p q. rounded (div_up (unat p * unat q) PRICE_ONE) (dl_price_mul_price_up dl p q)) \<and>
     (\<forall>p a. rounded (unat p * unat a) (dl_price_mul_token dl p a)) \<and>
     (\<forall>a. rounded (unat a * PRICE_ONE) (dl_price_of_token dl a)) \<and>
     (\<forall>p n. n \<noteq> 0 \<longrightarrow> rounded (unat p * PRICE_ONE div unat n) (dl_price_div_number dl p n)) \<and>
     (\<forall>p n. n \<noteq> 0 \<longrightarrow> unat p * PRICE_ONE + (unat n - 1) < 2 ^ 256 \<longrightarrow>
       rounded (div_up (unat p * PRICE_ONE) (unat n)) (dl_price_div_number_up dl p n))"

lemma rounded_Ok: "rounded v r \<Longrightarrow> r = Ok x \<Longrightarrow> unat x = v"
  by (auto simp: rounded_def failing_def unat_of_nat split: if_split_asm)

lemma decimal_lawsD:
  assumes "decimal_laws dl"
  shows "rounded (unat a * unat f div FIXED_ONE) (dl_token_mul_fixed dl a f)"
    "rounded (div_up (unat a * unat f) FIXED_ONE) (dl_token_mul_fixed_up dl a f)"
    "rounded (div_up (unat p * unat l) LIQUIDITY_ONE) (dl_price_mul_liquidity_up dl p l)"
    "rounded (unat a * PRICE_ONE) (dl_price_of_token dl a)"
    "n \<noteq> 0 \<Longrightarrow> rounded (unat p * PRICE_ONE div unat n) (dl_price_div_number dl p n)"
    "unat x * unat y < 2 ^ 128 \<Longrightarrow> rounded (unat x * unat y div FIXED_ONE) (dl_fixed_mul dl x y)"
    "y \<noteq> 0 \<Longrightarrow> rounded (unat x * FIXED_ONE div unat y) (dl_fixed_div dl x y)"
    "rounded (unat x * 10 ^ 12) (dl_price_of_fixed dl x)"
  using assms by (simp_all add: decimal_laws_def)

lemma div_up_le: "div_up x n \<le> k \<longleftrightarrow> x \<le> k * n" if "0 < n"
proof -
  have "div_up x n \<le> k \<longleftrightarrow> (x + (n - 1)) div n < Suc k" by (simp add: div_up_def less_Suc_eq_le)
  also have "\<dots> \<longleftrightarrow> x + (n - 1) < Suc k * n" using that by (rule div_less_iff_less_mult)
  also have "\<dots> \<longleftrightarrow> x \<le> k * n" using that by auto
  finally show ?thesis .
qed

lemma unat_ucast_256: "unat (ucast x :: u256) = unat x" if "LENGTH('a) \<le> 256" for x :: "'a::len word"
proof -
  have "unat x < 2 ^ LENGTH('a)" by (rule unsigned_less)
  also have "\<dots> \<le> 2 ^ 256" using that by (intro power_increasing) auto
  finally show ?thesis by (intro unat_ucast_small) simp
qed

lemma fits_or_max: "a < or_max (fits x) \<Longrightarrow> unat a < unat x" for x :: u256
proof -
  assume a: "a < or_max (fits x)"
  have "unat a < 2 ^ 64" using unsigned_less [of a, where ?'a = nat] by simp
  then show ?thesis
    using a by (auto simp: or_max_def fits_def word_less_nat_alt unat_ucast_small split: if_split_asm)
qed

lemma fee_covered:
  assumes "v * n \<le> m * (n - f)" and "f \<le> n" and "0 < n"
  shows "v + div_up (v * f) n \<le> m"
proof -
  have "v * n \<le> m * n" using assms(1) by (meson diff_le_self le_trans mult_le_mono2)
  then have vm: "v \<le> m" using assms(3) by simp
  have "v * n + v * f \<le> m * (n - f) + m * f" using assms(1) vm by (intro add_mono) auto
  also have "\<dots> = m * n" using assms(2) by (simp add: distrib_left [symmetric])
  finally have "v * f \<le> (m - v) * n" by (simp add: diff_mult_distrib)
  then have "div_up (v * f) n \<le> m - v" using assms(3) by (simp add: div_up_le)
  then show ?thesis using vm by simp
qed

lemma amount_after_fee_Ok:
  assumes "decimal_laws dl" and "amount_after_fee dl amount fee = Ok a"
  shows "unat fee \<le> FIXED_ONE \<and> unat a * FIXED_ONE \<le> unat amount * (FIXED_ONE - unat fee)"
proof -
  have one: "unat (of_nat FIXED_ONE :: u128) = FIXED_ONE" by (simp add: FIXED_ONE_def)
  obtain d where d: "checked_sub (of_nat FIXED_ONE) fee = Some d" "dl_token_mul_fixed dl amount d = Ok a"
    using assms(2) by (auto simp: amount_after_fee_def)
  then have f: "FIXED_ONE = unat fee + unat d" by (simp add: checked_sub_Some one)
  have "unat a = unat amount * unat d div FIXED_ONE"
    using rounded_Ok [OF decimal_lawsD(1) [OF assms(1)] d(2)] .
  then have "unat a * FIXED_ONE \<le> unat amount * unat d" by (simp only: div_times_less_eq_dividend)
  moreover have "unat d = FIXED_ONE - unat fee" using f by simp
  ultimately show ?thesis using f by simp
qed

text \<open>Upwards a step that does not reach the target stops strictly before it.\<close>

lemma next_price_y_strict:
  assumes laws: "decimal_laws dl" and lt: "current < target" and l: "liq \<noteq> 0"
    and v: "get_delta_y dl current target liq True = Ok v" and a: "a < or_max v"
    and n: "get_next_sqrt_price_from_input dl current liq a False = Ok next"
  shows "current \<le> next \<and> next < target"
proof -
  let ?d = "unat target - unat current"
  have d: "unat (price_distance current target) = ?d"
    using lt by (simp add: price_distance_def unat_sub_if' word_less_nat_alt)
  obtain v1 v2 v3 where v1: "dl_price_mul_liquidity_up dl (price_distance current target) liq = Ok v1"
    and v2: "checked_add v1 (of_nat (PRICE_ONE - 1)) = Some v2" and v3: "checked_div v2 (of_nat PRICE_ONE) = Some v3"
    and vf: "v = fits v3"
    using v by (auto simp: get_delta_y_def Let_def)
  have u1: "unat v1 = div_up (?d * unat liq) LIQUIDITY_ONE"
    using rounded_Ok [OF decimal_lawsD(3) [OF laws] v1] d by simp
  have one: "unat (of_nat PRICE_ONE :: u256) = PRICE_ONE" "unat (of_nat (PRICE_ONE - 1) :: u256) = PRICE_ONE - 1"
    "0 < PRICE_ONE" by (simp_all add: PRICE_ONE_def)
  have "unat v3 = div_up (unat v1) PRICE_ONE"
    using v2 v3 one by (simp add: checked_add_Some checked_div_Some div_up_def)
  moreover have "unat a < unat v3" using a fits_or_max vf by simp
  ultimately have "\<not> div_up (unat v1) PRICE_ONE \<le> unat a" by simp
  then have "\<not> ?d * unat liq \<le> unat a * PRICE_ONE * LIQUIDITY_ONE"
    using one(3) u1 by (simp add: div_up_le LIQUIDITY_ONE_def)
  then have lt': "unat a * PRICE_ONE * LIQUIDITY_ONE < ?d * unat liq" by simp
  have c: "current \<noteq> 0" using n by (auto simp: get_next_sqrt_price_from_input_def)
  obtain w big q where w: "dl_price_of_token dl a = Ok w"
    and big: "checked_mul (ucast liq) (ucast PRICE_LIQUIDITY_DENOMINATOR :: u256) = Some big"
    and q: "dl_price_div_number dl w big = Ok q" and add: "decimal_add current q = Ok next"
    using n by (auto simp: get_next_sqrt_price_from_input_def get_next_sqrt_price_y_down_def)
  have den: "unat (ucast PRICE_LIQUIDITY_DENOMINATOR :: u256) = 10 ^ 18"
    by (simp add: PRICE_LIQUIDITY_DENOMINATOR_def)
  have ub: "unat big = unat liq * 10 ^ 18" using big by (simp add: checked_mul_Some den unat_ucast_256)
  have lpos: "0 < unat liq" by (metis gr0I l unat_0 word_unat_eq_iff)
  have "big \<noteq> 0" using ub lpos by auto
  then have uq: "unat q = unat a * PRICE_ONE * PRICE_ONE div (unat liq * 10 ^ 18)"
    using rounded_Ok [OF decimal_lawsD(5) [OF laws] q] rounded_Ok [OF decimal_lawsD(4) [OF laws] w] ub by simp
  have "unat a * PRICE_ONE * PRICE_ONE < ?d * (unat liq * 10 ^ 18)"
    using lt' by (simp add: PRICE_ONE_def LIQUIDITY_ONE_def mult.commute)
  then have "unat q < ?d" using lpos uq by (simp add: div_less_iff_less_mult)
  moreover have "unat next = unat current + unat q" using add by (simp add: decimal_add_def checked_add_Some)
  ultimately show ?thesis by (simp add: word_less_nat_alt word_le_nat_alt)
qed

text \<open>The parts of a successful step on a pool with liquidity.\<close>

lemma compute_swap_step_in:
  assumes "compute_swap_step dl current target liq amount True fee = Ok r" and "liq \<noteq> 0"
  obtains a v where "amount_after_fee dl amount fee = Ok a" "delta_in dl (target \<le> current) current target liq = Ok v"
    "(if or_max v \<le> a then sr_next_price_sqrt r = target
      else get_next_sqrt_price_from_input dl current liq a (target \<le> current) = Ok (sr_next_price_sqrt r))"
    "sr_next_price_sqrt r = target \<Longrightarrow> sr_amount_in r = or_max v \<and> dl_token_mul_fixed_up dl (sr_amount_in r) fee = Ok (sr_fee_amount r)"
    "sr_next_price_sqrt r \<noteq> target \<Longrightarrow> checked_sub amount (sr_amount_in r) = Some (sr_fee_amount r)"
proof -
  from assms obtain nx amount_in amount_out where t: "step_target dl current target liq amount True fee = Ok (nx, amount_in, amount_out)"
    and n: "sr_next_price_sqrt r = nx"
    and f: "nx = target \<Longrightarrow> sr_amount_in r = amount_in \<and> dl_token_mul_fixed_up dl (sr_amount_in r) fee = Ok (sr_fee_amount r)"
      "nx \<noteq> target \<Longrightarrow> checked_sub amount (sr_amount_in r) = Some (sr_fee_amount r)"
    by (auto simp: compute_swap_step_def Let_def split: if_split_asm)
  from t obtain a v where p: "amount_after_fee dl amount fee = Ok a" "delta_in dl (target \<le> current) current target liq = Ok v"
    "(if or_max v \<le> a then Ok target else get_next_sqrt_price_from_input dl current liq a (target \<le> current)) = Ok nx"
    and v: "amount_in = or_max v"
    by (auto simp: step_target_def Let_def)
  have "if or_max v \<le> a then sr_next_price_sqrt r = target
      else get_next_sqrt_price_from_input dl current liq a (target \<le> current) = Ok (sr_next_price_sqrt r)"
    using p(3) n by (cases "or_max v \<le> a") simp_all
  then show ?thesis using that [OF p(1,2)] f [folded n] v by blast
qed


subsection \<open>A concrete decimal library\<close>

definition ref_exact :: "nat \<Rightarrow> 'a::len word tracked" where
  "ref_exact v = (if v < 2 ^ LENGTH('a) then Ok (of_nat v) else Err CAST_CAUSE)"

definition ref_decimal :: decimal_lib where
  "ref_decimal = \<lparr>
     dl_fixed_mul = (\<lambda>a b. if unat a * unat b < 2 ^ 128 then ref_exact (unat a * unat b div FIXED_ONE) else Panic),
     dl_fixed_div = (\<lambda>a b. ref_exact (unat a * FIXED_ONE div unat b)),
     dl_price_of_fixed = (\<lambda>a. ref_exact (unat a * 10 ^ 12)),
     dl_token_mul_fixed = (\<lambda>a f. ref_exact (unat a * unat f div FIXED_ONE)),
     dl_token_mul_fixed_up = (\<lambda>a f. ref_exact (div_up (unat a * unat f) FIXED_ONE)),
     dl_price_mul_liquidity = (\<lambda>p l. ref_exact (unat p * unat l div LIQUIDITY_ONE)),
     dl_price_mul_liquidity_up = (\<lambda>p l. ref_exact (div_up (unat p * unat l) LIQUIDITY_ONE)),
     dl_price_mul_price = (\<lambda>p q. ref_exact (unat p * unat q div PRICE_ONE)),
     dl_price_mul_price_up = (\<lambda>p q. ref_exact (div_up (unat p * unat q) PRICE_ONE)),
     dl_price_mul_token = (\<lambda>p a. ref_exact (unat p * unat a)),
     dl_price_of_token = (\<lambda>a. ref_exact (unat a * PRICE_ONE)),
     dl_price_div_number = (\<lambda>p n. ref_exact (unat p * PRICE_ONE div unat n)),
     dl_price_div_number_up = (\<lambda>p n. ref_exact (div_up (unat p * PRICE_ONE) (unat n)))\<rparr>"

lemma rounded_ref_exact: "rounded v (ref_exact v :: 'a::len word tracked)"
  by (simp add: rounded_def ref_exact_def failing_def)

lemma ref_decimal_laws: "decimal_laws ref_decimal"
  unfolding decimal_laws_def ref_decimal_def decimal_lib.simps by (simp only: rounded_ref_exact simp_thms if_True cong: imp_cong)

lemmas decimal_eval = ref_decimal_def ref_exact_def FIXED_ONE_def PRICE_ONE_def LIQUIDITY_ONE_def
  PRICE_LIQUIDITY_DENOMINATOR_def div_up_def checked_mul_def checked_add_def checked_sub_def checked_div_def
  fits_def price_distance_def or_max_def

text \<open>The step of the source's tests: 20 tokens against a target that takes 10.\<close>

lemma ref_step:
  "compute_swap_step ref_decimal 1000000000000000000000000 1004987562112089027021926 2000000000 20 True 600000000 =
     Ok \<lparr>sr_next_price_sqrt = 1004987562112089027021926, sr_amount_in = 10, sr_amount_out = 9, sr_fee_amount = 1\<rparr>"
  by (simp add: compute_swap_step_def step_target_def amount_after_fee_def delta_in_def delta_out_def
      get_delta_y_def get_delta_x_def big_div_values_to_token_def decimal_eval)

text \<open>The same amount downwards, against a target out of its reach.\<close>

lemma ref_step_down:
  "\<exists>r. compute_swap_step ref_decimal 1000000000000000000000000 900000000000000000000000 2000000000 20 True 600000000 =
     Ok r \<and> 900000000000000000000000 < sr_next_price_sqrt r"
  by (simp add: compute_swap_step_def step_target_def amount_after_fee_def delta_in_def delta_out_def
      get_delta_y_def get_delta_x_def big_div_values_to_token_def big_div_values_to_token_up_def psub_def
      get_next_sqrt_price_from_input_def get_next_sqrt_price_x_up_def checked_big_div_values_up_def decimal_eval)


subsection \<open>Every tick in range has a price\<close>

fun factor_bound :: "(nat \<times> fixed_point) list \<Rightarrow> nat \<Rightarrow> nat" where
  "factor_bound [] b = b"
| "factor_bound ((i, f) # fs) b = factor_bound fs (b * unat f div FIXED_ONE)"

lemma factor_step: "b \<le> b * f div FIXED_ONE" if "FIXED_ONE \<le> f"
proof -
  have "b * FIXED_ONE div FIXED_ONE \<le> b * f div FIXED_ONE" using that by (intro div_le_mono) simp
  then show ?thesis by (simp add: FIXED_ONE_def)
qed

lemma factor_bound_ge: "\<forall>x \<in> set fs. FIXED_ONE \<le> unat (snd x) \<Longrightarrow> b \<le> factor_bound fs b"
proof (induction fs b rule: factor_bound.induct)
  case (2 i f fs b)
  then show ?case using factor_step [of "unat f" b] by (auto intro: le_trans)
qed simp

text \<open>The products stay below \<open>10^33\<close>, inside 128 bits.\<close>

lemma rfold_price:
  assumes "decimal_laws dl"
  shows "\<forall>x \<in> set fs. FIXED_ONE \<le> unat (snd x) \<and> unat (snd x) < 10 ^ 15 \<Longrightarrow> factor_bound fs b < 10 ^ 18 \<Longrightarrow>
    FIXED_ONE \<le> unat p \<Longrightarrow> unat p \<le> b \<Longrightarrow>
    \<exists>p'. rfold (price_factor dl n) fs p = Ok p' \<and> FIXED_ONE \<le> unat p' \<and> unat p' \<le> factor_bound fs b"
proof (induction fs b arbitrary: p rule: factor_bound.induct)
  case (2 i f fs b)
  let ?b = "b * unat f div FIXED_ONE"
  have f: "FIXED_ONE \<le> unat f" "unat f < 10 ^ 15" using 2(2) by auto
  have fs: "\<forall>x \<in> set fs. FIXED_ONE \<le> unat (snd x) \<and> unat (snd x) < 10 ^ 15" using 2(2) by simp
  have lim: "?b < 10 ^ 18" using factor_bound_ge [of fs ?b] fs 2(3) by simp
  have le: "unat p * unat f div FIXED_ONE \<le> ?b" using 2(5) by (intro div_le_mono mult_le_mono1)
  obtain p1 where p1: "price_factor dl n (i, f) p = Ok p1" "FIXED_ONE \<le> unat p1" "unat p1 \<le> ?b"
  proof (cases "odd (n div 2 ^ i)")
    case True
    have "b \<le> ?b" by (rule factor_step [OF f(1)])
    then have "unat p < 10 ^ 18" using 2(5) lim by linarith
    then have "unat p * unat f < 10 ^ 18 * 10 ^ 15" using f(2) by (intro mult_strict_mono) simp_all
    also have "\<dots> < (2 ^ 128 :: nat)" by simp
    finally have fit: "unat p * unat f < 2 ^ 128" .
    have "unat p * unat f div FIXED_ONE < 10 ^ 18" using le lim by (rule le_less_trans)
    also have "\<dots> < (2 ^ 128 :: nat)" by simp
    finally have lt: "unat p * unat f div FIXED_ONE < 2 ^ 128" .
    then have "dl_fixed_mul dl p f = Ok (of_nat (unat p * unat f div FIXED_ONE))"
      using decimal_lawsD(6) [OF assms fit] by (simp add: rounded_def)
    moreover have "unat (of_nat (unat p * unat f div FIXED_ONE) :: u128) = unat p * unat f div FIXED_ONE"
      using lt by (simp add: unat_of_nat)
    ultimately show ?thesis
      using that factor_step [OF f(1), of "unat p"] le 2(4) True by (simp add: price_factor_def)
  next
    case False
    then show ?thesis using that 2(4,5) factor_step [OF f(1), of b] by (simp add: price_factor_def)
  qed
  from 2(1) [OF fs _ p1(2,3)] 2(3) show ?case by (simp add: p1(1))
qed simp

text \<open>
  C24 (tick_price_total). Every tick in the price range has a price: no product on the way
  overflows the 128 bits it is computed in, the computation does not fail, the price is
  positive, at least one for ticks from zero up and at most one for ticks from zero down.
\<close>

theorem tick_price_total:
  assumes "decimal_laws dl" and "\<bar>i\<bar> \<le> MAX_TICK"
  shows "\<exists>p. calculate_price_sqrt dl i = Ok p \<and> 0 < p \<and>
    (0 \<le> i \<longrightarrow> PRICE_ONE \<le> unat p) \<and> (i \<le> 0 \<longrightarrow> unat p \<le> PRICE_ONE)"
proof -
  have one: "unat (of_nat FIXED_ONE :: u128) = FIXED_ONE" by (simp add: FIXED_ONE_def)
  have fs: "\<forall>x \<in> set tick_factors. FIXED_ONE \<le> unat (snd x) \<and> unat (snd x) < 10 ^ 15"
    by (simp add: tick_factors_def FIXED_ONE_def)
  have lim: "factor_bound tick_factors FIXED_ONE < 10 ^ 18" by (simp add: tick_factors_def FIXED_ONE_def)
  obtain f where f: "rfold (price_factor dl (nat \<bar>i\<bar>)) tick_factors (of_nat FIXED_ONE) = Ok f"
    "FIXED_ONE \<le> unat f" "unat f \<le> factor_bound tick_factors FIXED_ONE"
    using rfold_price [OF assms(1) fs lim, of "of_nat FIXED_ONE"] one by auto
  have zero: "f = of_nat FIXED_ONE" if "i = 0"
    using f(1) that by (simp add: tick_factors_def price_factor_def)
  have fb: "unat f < 10 ^ 18" using f(3) lim by simp
  have scale: "\<exists>p. dl_price_of_fixed dl g = Ok p \<and> unat p = unat g * 10 ^ 12" if "unat g < 10 ^ 18" for g
  proof -
    have lt: "unat g * 10 ^ 12 < 2 ^ 128" using that by simp
    have "unat (of_nat (unat g * 10 ^ 12) :: u128) = unat g * 10 ^ 12"
      using lt by (simp only: unat_of_nat) simp
    moreover have "dl_price_of_fixed dl g = Ok (of_nat (unat g * 10 ^ 12))"
      using lt decimal_lawsD(8) [OF assms(1), of g] by (simp only: rounded_def) simp
    ultimately show ?thesis by blast
  qed
  have ok: "i32 \<bar>i\<bar> = Ok \<bar>i\<bar>" using assms(2) by (simp add: i32_def MAX_TICK_def)
  have eval: "calculate_price_sqrt dl i = (if 0 \<le> i then dl_price_of_fixed dl f
      else rbind (dl_fixed_div dl (of_nat FIXED_ONE) f) (dl_price_of_fixed dl))"
    using assms(2) by (simp add: calculate_price_sqrt_def ok f(1))
  have pos: "0 < p" if "0 < unat p" for p :: u128 using that by (simp add: word_less_nat_alt)
  show ?thesis
  proof (cases "0 \<le> i")
    case True
    obtain p where p: "dl_price_of_fixed dl f = Ok p" "unat p = unat f * 10 ^ 12" using scale [OF fb] by blast
    have ge: "PRICE_ONE \<le> unat p" using p(2) f(2) by (simp add: PRICE_ONE_def FIXED_ONE_def)
    moreover have "i \<le> 0 \<Longrightarrow> unat p \<le> PRICE_ONE" using True p(2) zero one by (simp add: PRICE_ONE_def FIXED_ONE_def)
    moreover have "0 < p" using ge by (intro pos) (simp add: PRICE_ONE_def)
    ultimately show ?thesis using True p(1) by (auto simp: eval)
  next
    case False
    have f0: "0 < unat f" using f(2) by (simp add: FIXED_ONE_def)
    then have fz: "f \<noteq> 0" by auto
    have q: "FIXED_ONE * FIXED_ONE div unat f \<le> FIXED_ONE"
      using f(2) div_le_mono2 [of FIXED_ONE "unat f" "FIXED_ONE * FIXED_ONE"] by (simp add: FIXED_ONE_def)
    have q0: "0 < FIXED_ONE * FIXED_ONE div unat f" using fb f0 by (simp add: FIXED_ONE_def div_greater_zero_iff)
    obtain g where g: "dl_fixed_div dl (of_nat FIXED_ONE) f = Ok g" "unat g = FIXED_ONE * FIXED_ONE div unat f"
    proof -
      have "FIXED_ONE * FIXED_ONE div unat f < 2 ^ 128" using q by (simp add: FIXED_ONE_def)
      then show ?thesis
        using that decimal_lawsD(7) [OF assms(1) fz, of "of_nat FIXED_ONE"] one by (auto simp: rounded_def unat_of_nat)
    qed
    have "unat g < 10 ^ 18" using g(2) q by (simp add: FIXED_ONE_def)
    then obtain p where p: "dl_price_of_fixed dl g = Ok p" "unat p = unat g * 10 ^ 12" using scale by blast
    have "unat p \<le> PRICE_ONE" using p(2) g(2) q by (simp add: PRICE_ONE_def FIXED_ONE_def)
    moreover have "0 < p" using p(2) g(2) q0 by (intro pos) simp
    ultimately show ?thesis using False p(1) g(1) by (auto simp: eval)
  qed
qed

text \<open>The prices of the extreme ticks are the constants of \<^verbatim>\<open>lib.rs\<close>.\<close>

definition MAX_SQRT_PRICE :: u128 where
  "MAX_SQRT_PRICE = 65535383934512647000000000000"

definition MIN_SQRT_PRICE :: u128 where
  "MIN_SQRT_PRICE = 15258932000000000000"

lemma ref_max_price: "calculate_price_sqrt ref_decimal 221818 = Ok MAX_SQRT_PRICE"
  by (simp add: calculate_price_sqrt_def i32_def MAX_TICK_def tick_factors_def price_factor_def decimal_eval MAX_SQRT_PRICE_def)

lemma ref_min_price: "calculate_price_sqrt ref_decimal (- 221818) = Ok MIN_SQRT_PRICE"
  by (simp add: calculate_price_sqrt_def i32_def MAX_TICK_def tick_factors_def price_factor_def decimal_eval MIN_SQRT_PRICE_def)

theorem tick_price_total_witness:
  "\<exists>p q. calculate_price_sqrt ref_decimal (- 221818) = Ok p \<and> 0 < p \<and> unat p \<le> PRICE_ONE \<and>
     calculate_price_sqrt ref_decimal 221818 = Ok q \<and> PRICE_ONE \<le> unat q \<and>
     p = MIN_SQRT_PRICE \<and> q = MAX_SQRT_PRICE"
  using tick_price_total [OF ref_decimal_laws, of "- 221818"] tick_price_total [OF ref_decimal_laws, of 221818]
  by (simp add: ref_min_price ref_max_price MAX_TICK_def)

subsection \<open>Crossing back\<close>

text \<open>
  C25 (cross_back). Crossing a tick upwards and then downwards (the pool's current tick moving
  from below the tick to it and back) restores the pool's liquidity and the fee growth
  outside the tick.
\<close>

theorem cross_back:
  assumes "cross_tick tick pool = (tick1, Ok pool1)"
    and "(tk_index tick \<le> pl_current_tick_index pool) \<noteq> (tk_index tick \<le> now)"
    and "cross_tick tick1 (pool1\<lparr>pl_current_tick_index := now\<rparr>) = (tick2, Ok pool2)"
  shows "pl_liquidity pool2 = pl_liquidity pool \<and> tick2 = tick"
proof -
  have t: "tick1 = tick\<lparr>tk_fee_growth_outside_x := pl_fee_growth_global_x pool - tk_fee_growth_outside_x tick,
      tk_fee_growth_outside_y := pl_fee_growth_global_y pool - tk_fee_growth_outside_y tick\<rparr>"
    and p: "pool1 = pool\<lparr>pl_liquidity := pl_liquidity pool1\<rparr>"
    and l1: "crossed_liquidity tick pool = Some (pl_liquidity pool1)"
    using assms(1) by (auto simp: cross_tick_def cross_tick_no_fee_growth_update_def fee_growth_unchecked_sub_def)
  have g: "pl_fee_growth_global_x pool1 = pl_fee_growth_global_x pool" "pl_fee_growth_global_y pool1 = pl_fee_growth_global_y pool"
    by (subst p, simp)+
  have l2: "crossed_liquidity tick1 (pool1\<lparr>pl_current_tick_index := now\<rparr>) = Some (pl_liquidity pool2)"
    and t2: "tick2 = tick1\<lparr>tk_fee_growth_outside_x := pl_fee_growth_global_x pool1 - tk_fee_growth_outside_x tick1,
      tk_fee_growth_outside_y := pl_fee_growth_global_y pool1 - tk_fee_growth_outside_y tick1\<rparr>"
    using assms(3) by (auto simp: cross_tick_def cross_tick_no_fee_growth_update_def fee_growth_unchecked_sub_def)
  have "tick2 = tick" by (simp add: t2 t g)
  moreover have "unat (pl_liquidity pool2) = unat (pl_liquidity pool)"
    using l1 l2 assms(2) by (auto simp: crossed_liquidity_def t checked_add_Some checked_sub_Some split: if_split_asm)
  ultimately show ?thesis by (simp add: word_unat_eq_iff)
qed

definition ref_pool :: pool where
  "ref_pool = \<lparr>pl_token_x = 5, pl_token_y = 6, pl_token_x_reserve = 15, pl_token_y_reserve = 16,
     pl_position_iterator = 0, pl_tick_spacing = 10, pl_fee = 600000000, pl_protocol_fee = 0,
     pl_liquidity = 2000000000, pl_sqrt_price = 1000000000000000000000000, pl_current_tick_index = 0,
     pl_tickmap = 17, pl_fee_growth_global_x = 100, pl_fee_growth_global_y = 200,
     pl_fee_protocol_token_x = 0, pl_fee_protocol_token_y = 0, pl_seconds_per_liquidity_global = 0,
     pl_start_timestamp = 0, pl_last_timestamp = 0, pl_fee_receiver = 0, pl_oracle_address = 0,
     pl_oracle_initialized = False, pl_bump = 0\<rparr>"

definition ref_tick :: tick where
  "ref_tick = default_tick\<lparr>tk_index := 20, tk_sign := True, tk_liquidity_change := 5000000\<rparr>"

theorem cross_back_witness:
  "\<exists>tick1 pool1 pool2. cross_tick ref_tick ref_pool = (tick1, Ok pool1) \<and>
     cross_tick tick1 (pool1\<lparr>pl_current_tick_index := 20\<rparr>) = (ref_tick, Ok pool2) \<and>
     pl_liquidity pool2 = pl_liquidity ref_pool"
proof -
  obtain tick1 pool1 where 1: "cross_tick ref_tick ref_pool = (tick1, Ok pool1)"
    by (simp add: cross_tick_def cross_tick_no_fee_growth_update_def crossed_liquidity_def ref_tick_def
        ref_pool_def default_tick_def checked_sub_def checked_add_def)
  then obtain tick2 pool2 where 2: "cross_tick tick1 (pool1\<lparr>pl_current_tick_index := 20\<rparr>) = (tick2, Ok pool2)"
    by (auto simp: cross_tick_def cross_tick_no_fee_growth_update_def crossed_liquidity_def ref_tick_def
        ref_pool_def default_tick_def checked_sub_def checked_add_def)
  show ?thesis
    using cross_back [OF 1 _ 2] 1 2 by (auto simp: ref_tick_def ref_pool_def)
qed

end
