(* ===== verification/Invariant_Log.thy ===== *)
theory Invariant_Log
  imports Invariant_Math
begin

text \<open>
  The tick of a price (\<^verbatim>\<open>lib/dex-invariant/src/internal/invariant-types/src/log.rs\<close>): a binary
  logarithm in fixed point, found by the position of the leading bit and repeated squaring,
  scaled to ticks and corrected by a comparison of prices.
  The computation is one of the steps of the swap simulation in \<open>Invariant_Swap\<close>.
\<close>

definition LOG2_ONE :: u128 where "LOG2_ONE = 2 ^ 32"
definition LOG2_HALF :: u64 where "LOG2_HALF = 2 ^ 31"
definition LOG2_TWO :: u128 where "LOG2_TWO = 2 ^ 33"
definition LOG2_DOUBLE_ONE :: u128 where "LOG2_DOUBLE_ONE = 2 ^ 64"
definition LOG2_SQRT_10001 :: u64 where "LOG2_SQRT_10001 = 309801"
definition LOG2_NEGATIVE_MAX_LOSE :: u64 where "LOG2_NEGATIVE_MAX_LOSE = 300000"
definition LOG2_ACCURACY :: u64 where "LOG2_ACCURACY = 2 ^ (31 - 15)"
definition PRICE_DENOMINATOR :: u128 where "PRICE_DENOMINATOR = 1000000000000000000000000"

definition price_to_x32 :: "price \<Rightarrow> u64 tracked" where
  "price_to_x32 decimal =
     rbind (unwrap (checked_mul decimal LOG2_ONE)) (\<lambda>v.
     rbind (unwrap (checked_div v PRICE_DENOMINATOR)) (\<lambda>v. Ok (ucast v)))"

definition align_tick_to_spacing :: "int \<Rightarrow> int \<Rightarrow> int tracked" where
  "align_tick_to_spacing accurate_tick tick_spacing =
     rbind (assert_that (tick_spacing \<noteq> 0)) (\<lambda>_.
     if 0 < accurate_tick then i32 (accurate_tick - accurate_tick smod tick_spacing)
     else i32 (accurate_tick - accurate_tick mod \<bar>tick_spacing\<bar>))"

text \<open>One halving: the upper half of the bits, if it holds any.\<close>

definition halve :: "nat \<Rightarrow> u64 \<times> u64 \<Rightarrow> u64 \<times> u64" where
  "halve k s = (case s of (x, msb) \<Rightarrow>
     if 2 ^ k \<le> x then (drop_bit k x, msb OR of_nat k) else (x, msb))"

definition log2_floor_x32 :: "u64 \<Rightarrow> u64" where
  "log2_floor_x32 sqrt_price_x32 =
     (case halve 2 (halve 4 (halve 8 (halve 16 (halve 32 (sqrt_price_x32, 0))))) of (x, msb) \<Rightarrow>
      if 2 \<le> x then msb OR 1 else msb)"

function log2_loop :: "u64 \<Rightarrow> u128 \<Rightarrow> u64 \<Rightarrow> u64 tracked" where
  "log2_loop delta y result =
     (if LOG2_ACCURACY < delta then
        rbind (pmul y y) (\<lambda>v.
        let y = v div LOG2_ONE in
        if LOG2_TWO \<le> y then log2_loop (drop_bit 1 delta) (drop_bit 1 y) (result OR delta)
        else log2_loop (drop_bit 1 delta) y result)
      else Ok result)"
  by pat_completeness auto
termination
proof (relation "measure (\<lambda>(delta, _). unat delta)", goal_cases)
  case (2 delta y result v y')
  then have "unat delta \<noteq> 0" by (auto simp: LOG2_ACCURACY_def word_less_nat_alt)
  then show ?case by (simp add: drop_bit_eq_div unat_div)
next
  case (3 delta y result v y')
  then have "unat delta \<noteq> 0" by (auto simp: LOG2_ACCURACY_def word_less_nat_alt)
  then show ?case by (simp add: drop_bit_eq_div unat_div)
qed simp

declare log2_loop.simps [simp del]

definition log2_iterative_approximation_x32 :: "u64 \<Rightarrow> (bool \<times> u64) tracked" where
  "log2_iterative_approximation_x32 sqrt_price_x32 =
     (let sign = (LOG2_ONE \<le> ucast sqrt_price_x32) in
      rbind (if sign then Ok sqrt_price_x32
             else rbind (padd (ucast sqrt_price_x32) 1) (\<lambda>d. Ok (ucast (LOG2_DOUBLE_ONE div d)))) (\<lambda>x.
      let log2_floor = log2_floor_x32 (drop_bit 32 x);
          result = push_bit 32 log2_floor;
          y = drop_bit (unat log2_floor) (ucast x :: u128) in
      if y = LOG2_ONE then Ok (sign, result)
      else rbind (log2_loop LOG2_HALF y result) (\<lambda>result. Ok (sign, result))))"

definition get_tick_at_sqrt_price :: "decimal_lib \<Rightarrow> price \<Rightarrow> u16 \<Rightarrow> int tracked" where
  "get_tick_at_sqrt_price dl sqrt_price_decimal tick_spacing =
     rbind (price_to_x32 sqrt_price_decimal) (\<lambda>sqrt_price_x32.
     rbind (log2_iterative_approximation_x32 sqrt_price_x32) (\<lambda>(log2_sign, log2_sqrt_price).
     rbind (if log2_sign then Ok log2_sqrt_price else padd log2_sqrt_price LOG2_NEGATIVE_MAX_LOSE) (\<lambda>l.
     let abs_floor_tick = sint (ucast (l div LOG2_SQRT_10001) :: 32 word);
         spacing = uint tick_spacing in
     rbind (i32 (if log2_sign then abs_floor_tick else - abs_floor_tick)) (\<lambda>nearer_tick.
     rbind (i32 (if log2_sign then abs_floor_tick + 1 else - abs_floor_tick - 1)) (\<lambda>farther_tick.
     rbind (align_tick_to_spacing farther_tick spacing) (\<lambda>farther_tick_with_spacing.
     rbind (align_tick_to_spacing nearer_tick spacing) (\<lambda>nearer_tick_with_spacing.
     if farther_tick_with_spacing = nearer_tick_with_spacing then Ok nearer_tick_with_spacing
     else
       rbind (if log2_sign
              then rbind (calculate_price_sqrt dl farther_tick) (\<lambda>p.
                   Ok (if p \<le> sqrt_price_decimal then farther_tick_with_spacing else nearer_tick_with_spacing))
              else rbind (calculate_price_sqrt dl nearer_tick) (\<lambda>p.
                   Ok (if p \<le> sqrt_price_decimal then nearer_tick_with_spacing else farther_tick_with_spacing)))
         (\<lambda>accurate_tick.
       if 1 < tick_spacing then align_tick_to_spacing accurate_tick spacing else Ok accurate_tick))))))))"

end
