(* ===== verification/Invariant_Swap.thy ===== *)
theory Invariant_Swap
  imports Invariant_Log
begin

text \<open>
  The simulation of a swap on an Invariant pool (\<^verbatim>\<open>lib/dex-invariant/src/invariant_edge.rs\<close>,
  \<^verbatim>\<open>internal/swap.rs\<close>): steps from initialized tick to initialized tick until the amount is
  used up, with the ticks of the edge and a bound on the ticks looked at.

  Every way out of the loop other than an amount of zero ends in the error ''Insufficient
  liquidity''. The loop is a total function: a step either looks at one more virtual tick, of
  which there are at most 14, or uses the amount up, or moves the current tick towards the end
  of the price range.

  The theorem: a simulation that succeeds has consumed exactly the requested input.
\<close>

record simulation_params =
  sm_x_to_y :: bool
  sm_in_amount :: u64
  sm_sqrt_price_limit :: price
  sm_by_amount_in :: bool

record invariant_swap_result =
  is_in_amount :: u64
  is_out_amount :: u64
  is_fee_amount :: u64
  is_starting_sqrt_price :: price
  is_ending_sqrt_price :: price
  is_used_ticks :: "int list"
  is_global_insufficient_liquidity :: bool

record invariant_edge =
  ie_ticks :: "tick list"
  ie_pool :: pool
  ie_tickmap :: tickmap_slice

record sim_state =
  ss_pool :: pool
  ss_remaining :: token_amount
  ss_total_in :: token_amount
  ss_total_out :: token_amount
  ss_total_fee :: token_amount
  ss_used_ticks :: "int list"
  ss_virtual :: u16
  ss_tick_pos :: nat

definition break_swap_loop_early :: "u16 \<Rightarrow> u16 \<Rightarrow> bool tracked" where
  "break_swap_loop_early ticks_used virtual_ticks_crossed =
     rbind (ok_or ''virtual ticks crossed + ticks crossed overflow'' (checked_add ticks_used virtual_ticks_crossed)) (\<lambda>n.
     Ok (of_nat TICK_CROSSES_PER_IX + MAX_VIRTUAL_CROSS \<le> n \<or> TICK_CROSSES_PER_IX \<le> unat ticks_used))"

text \<open>The ticks behind the start are skipped.\<close>

fun skip_ticks :: "bool \<Rightarrow> int \<Rightarrow> tick list \<Rightarrow> nat" where
  "skip_ticks x_to_y current [] = 0"
| "skip_ticks x_to_y current (t # ticks) =
     (if (if x_to_y then current < tk_index t else tk_index t \<le> current)
      then Suc (skip_ticks x_to_y current ticks) else 0)"

text \<open>A virtual tick is counted; \<open>None\<close> stops the loop.\<close>

definition count_virtual :: "sim_state \<Rightarrow> sim_state option tracked" where
  "count_virtual st =
     rbind (ok_or ''add overflow'' (checked_add (ss_virtual st) 1)) (\<lambda>v.
     rbind (break_swap_loop_early (of_nat (length (ss_used_ticks st))) v) (\<lambda>stop.
     Ok (if stop then None else Some (st\<lparr>ss_virtual := v\<rparr>))))"

text \<open>Crossing an initialized tick: the tick of the edge at this index if it is next in line, a
  default tick otherwise.\<close>

definition next_tick :: "tick list \<Rightarrow> nat \<Rightarrow> int \<Rightarrow> tick \<times> nat" where
  "next_tick ticks pos tick_index =
     (if pos < length ticks \<and> tk_index (ticks ! pos) = tick_index then (ticks ! pos, Suc pos)
      else (default_tick\<lparr>tk_index := tick_index\<rparr>, pos))"

definition cross_initialized ::
    "tick list \<Rightarrow> bool \<Rightarrow> bool \<Rightarrow> int \<Rightarrow> sim_state \<Rightarrow> sim_state option tracked" where
  "cross_initialized ticks x_to_y enough tick_index st =
     (case next_tick ticks (ss_tick_pos st) tick_index of (tick, pos) \<Rightarrow>
      let st = st\<lparr>ss_used_ticks := ss_used_ticks st @ [tick_index], ss_tick_pos := pos\<rparr> in
      if \<not> x_to_y \<or> enough then
        (case cross_tick_no_fee_growth_update tick (ss_pool st) of
           Ok pool \<Rightarrow> Ok (Some (st\<lparr>ss_pool := pool\<rparr>))
         | Err _ \<Rightarrow> Ok None
         | Panic \<Rightarrow> Panic)
      else if ss_remaining st \<noteq> 0 then
        rbind (ok_or ''add overflow'' (checked_add (ss_total_in st) (ss_remaining st))) (\<lambda>t.
        Ok (Some (st\<lparr>ss_total_in := t, ss_remaining := 0\<rparr>)))
      else Ok (Some st))"

definition set_tick :: "int \<Rightarrow> sim_state \<Rightarrow> sim_state" where
  "set_tick i st = st\<lparr>ss_pool := (ss_pool st)\<lparr>pl_current_tick_index := i\<rparr>\<rparr>"

definition cross_limit ::
    "decimal_lib \<Rightarrow> simulation_params \<Rightarrow> tick list \<Rightarrow> price \<Rightarrow> int \<Rightarrow> bool \<Rightarrow> sim_state \<Rightarrow> sim_state option tracked" where
  "cross_limit dl params ticks next_price tick_index initialized st =
     (let x_to_y = sm_x_to_y params; pool = ss_pool st in
      rbind (is_enough_amount_to_push_price dl (ss_remaining st) next_price (pl_liquidity pool) (pl_fee pool)
               (sm_by_amount_in params) x_to_y) (\<lambda>enough.
      rbind (if initialized then cross_initialized ticks x_to_y enough tick_index st else count_virtual st) (\<lambda>st.
      case st of
        None \<Rightarrow> Ok None
      | Some st \<Rightarrow>
          rbind (if x_to_y \<and> enough then i32_or ''sub overflow'' (tick_index - uint (pl_tick_spacing pool))
                 else Ok tick_index) (\<lambda>i.
          Ok (Some (set_tick i st))))))"

text \<open>The step taken, and the amounts it adds.\<close>

definition account_step :: "swap_result \<Rightarrow> sim_state \<Rightarrow> sim_state tracked" where
  "account_step r st =
     rbind (decimal_add (sr_amount_in r) (sr_fee_amount r)) (\<lambda>taken.
     rbind (decimal_sub (ss_remaining st) taken) (\<lambda>remaining.
     rbind (decimal_add (ss_total_in st) (sr_amount_in r)) (\<lambda>t.
     rbind (decimal_add t (sr_fee_amount r)) (\<lambda>t.
     rbind (decimal_add (ss_total_out st) (sr_amount_out r)) (\<lambda>out.
     rbind (decimal_add (ss_total_fee st) (sr_fee_amount r)) (\<lambda>fee.
     Ok (st\<lparr>ss_remaining := remaining, ss_total_in := t, ss_total_out := out, ss_total_fee := fee,
            ss_pool := (ss_pool st)\<lparr>pl_sqrt_price := sr_next_price_sqrt r\<rparr>\<rparr>)))))))"

definition reached_tick_limit :: "bool \<Rightarrow> pool \<Rightarrow> bool tracked" where
  "reached_tick_limit x_to_y pool =
     (if x_to_y then rbind (get_min_tick (pl_tick_spacing pool)) (\<lambda>m. Ok (pl_current_tick_index pool \<le> m))
      else rbind (get_max_tick (pl_tick_spacing pool)) (\<lambda>m. Ok (m \<le> pl_current_tick_index pool)))"

text \<open>One turn of the loop; \<open>None\<close> is a \<open>break\<close>, always for want of liquidity.\<close>

definition sim_step ::
    "decimal_lib \<Rightarrow> simulation_params \<Rightarrow> tick list \<Rightarrow> tickmap_slice \<Rightarrow> sim_state \<Rightarrow> sim_state option tracked" where
  "sim_step dl params ticks tickmap st =
     (let pool = ss_pool st; x_to_y = sm_x_to_y params in
      case get_closer_limit dl (sm_sqrt_price_limit params) x_to_y (pl_current_tick_index pool)
             (pl_tick_spacing pool) tickmap of
        Panic \<Rightarrow> Panic
      | Err _ \<Rightarrow> Ok None
      | Ok (swap_limit, limiting_tick) \<Rightarrow>
          rbind (compute_swap_step dl (pl_sqrt_price pool) swap_limit (pl_liquidity pool) (ss_remaining st)
                   (sm_by_amount_in params) (pl_fee pool)) (\<lambda>r.
          rbind (account_step r st) (\<lambda>st.
          if sr_next_price_sqrt r = sm_sqrt_price_limit params \<and> ss_remaining st \<noteq> 0 then Ok None
          else
            rbind (reached_tick_limit x_to_y (ss_pool st)) (\<lambda>reached.
            if reached then Ok None
            else if sr_next_price_sqrt r = swap_limit \<and> limiting_tick \<noteq> None then
              (case the limiting_tick of (tick_index, initialized) \<Rightarrow>
                 cross_limit dl params ticks (sr_next_price_sqrt r) tick_index initialized st)
            else
              rbind (assert_that (pl_tick_spacing pool \<noteq> 0)) (\<lambda>_.
              rbind (require (pl_current_tick_index pool smod uint (pl_tick_spacing pool) = 0)
                       ''Internal Invariant Error: Invalid tick'') (\<lambda>_.
              rbind (get_tick_at_sqrt_price dl (sr_next_price_sqrt r) (pl_tick_spacing pool)) (\<lambda>i.
              count_virtual (set_tick i st))))))))"

subsection \<open>The loop ends\<close>

text \<open>The virtual ticks left, whether anything remains, and the way left to the end of the range.\<close>

definition way_left :: "bool \<Rightarrow> pool \<Rightarrow> nat" where
  "way_left x_to_y pool =
     nat (if x_to_y then pl_current_tick_index pool + MAX_TICK + TICK_LIMIT * uint (pl_tick_spacing pool)
          else MAX_TICK + TICK_LIMIT * uint (pl_tick_spacing pool) - pl_current_tick_index pool)"

definition sim_less :: "bool \<Rightarrow> sim_state rel" where
  "sim_less x_to_y = measures
     [\<lambda>st. 14 - unat (ss_virtual st), \<lambda>st. if ss_remaining st = 0 then 0 else 1,
      \<lambda>st. way_left x_to_y (ss_pool st)]"

lemma count_virtual_less:
  assumes "count_virtual st = Ok (Some st')"
  shows "14 - unat (ss_virtual st') < 14 - unat (ss_virtual st)"
proof -
  from assms obtain v where v: "checked_add (ss_virtual st) 1 = Some v" "ss_virtual st' = v"
    and stop: "break_swap_loop_early (of_nat (length (ss_used_ticks st))) v = Ok False"
    by (auto simp: count_virtual_def split: if_split_asm)
  from stop obtain n where n: "checked_add (of_nat (length (ss_used_ticks st))) v = Some n"
    "\<not> of_nat TICK_CROSSES_PER_IX + MAX_VIRTUAL_CROSS \<le> n"
    by (auto simp: break_swap_loop_early_def)
  have "unat n < 14" using n(2) by (simp add: TICK_CROSSES_PER_IX_def MAX_VIRTUAL_CROSS_def word_le_nat_alt)
  then have "unat v < 14" using n(1) by (simp add: checked_add_Some)
  then show ?thesis using v by (simp add: checked_add_Some)
qed

lemma closer_limit_Ok:
  "closer_limit dl limit x_to_y index b = Ok (p, Some (i, b')) \<Longrightarrow> i = index \<and> b' = b"
  by (simp add: closer_limit_def split: result.split_asm if_split_asm)

lemma get_closer_limit_initialized:
  assumes "get_closer_limit dl limit x_to_y current sp tm = Ok (p, Some (i, True))"
  shows "(if x_to_y then prev_initialized tm current sp else next_initialized tm current sp) =
    (Ok (Some i) :: (_, invariant_error) result)"
proof -
  from assms obtain c where c: "(if x_to_y then prev_initialized tm current sp else next_initialized tm current sp) =
      (Ok c :: (_, invariant_error) result)"
    and r: "(case c of Some index \<Rightarrow> closer_limit dl limit x_to_y index True
     | None \<Rightarrow> rbind (get_search_limit current sp (\<not> x_to_y)) (\<lambda>index.
         rbind (closer_limit dl limit x_to_y index False) (\<lambda>limit.
         rbind (require (current \<noteq> index) LimitReached) (\<lambda>_. Ok limit)))) = Ok (p, Some (i, True))"
    unfolding get_closer_limit_def rbind_eq_Ok by blast
  show ?thesis
  proof (cases c)
    case None
    then show ?thesis using r by (auto dest: closer_limit_Ok)
  next
    case (Some index)
    then show ?thesis using r c by (auto dest: closer_limit_Ok)
  qed
qed

lemma get_closer_limit_spacing:
  assumes "get_closer_limit dl limit x_to_y current sp tm = Ok r"
  shows "0 < uint sp"
proof -
  have "sp \<noteq> 0"
    using assms by (cases x_to_y) (auto simp: get_closer_limit_def prev_initialized_def next_initialized_def get_search_limit_def)
  then show ?thesis by (simp add: uint_pos word_neq_0_conv [symmetric])
qed

lemma cross_limit_less:
  assumes g: "get_closer_limit dl limit (sm_x_to_y params) (pl_current_tick_index (ss_pool st)) (pl_tick_spacing (ss_pool st)) tm =
      Ok (p, Some (i, initialized))"
    and r: "reached_tick_limit (sm_x_to_y params) (ss_pool st) = Ok False"
    and c: "cross_limit dl params ticks next i initialized st = Ok (Some st')"
    and nz: "ss_remaining st \<noteq> 0"
  shows "(st', st) \<in> sim_less (sm_x_to_y params)"
proof (cases initialized)
  case False
  then obtain st1 where "count_virtual st = Ok (Some st1)" "ss_virtual st' = ss_virtual st1"
    using c by (auto simp: cross_limit_def Let_def set_tick_def split: option.split_asm)
  then show ?thesis using count_virtual_less by (simp add: sim_less_def)
next
  case True
  let ?x = "sm_x_to_y params" and ?cur = "pl_current_tick_index (ss_pool st)" and ?s = "uint (pl_tick_spacing (ss_pool st))"
  have s: "0 < ?s" using get_closer_limit_spacing [OF g] .
  from c True obtain enough st1 j where e: "cross_initialized ticks ?x enough i st = Ok (Some st1)"
    and st': "st' = set_tick j st1" and j: "j = (if ?x \<and> enough then i - ?s else i)"
    by (auto simp: cross_limit_def Let_def i32_or_def split: option.split_asm if_split_asm)
  have sp: "pl_tick_spacing (ss_pool st1) = pl_tick_spacing (ss_pool st)" and v: "ss_virtual st1 = ss_virtual st"
    and rem: "ss_remaining st1 = (if ?x \<and> \<not> enough then 0 else ss_remaining st)"
    using e nz by (auto simp: cross_initialized_def cross_tick_no_fee_growth_update_def Let_def
        split: prod.split_asm if_split_asm result.split_asm)
  show ?thesis
  proof (cases "?x \<and> \<not> enough")
    case True
    then show ?thesis using v rem nz by (simp add: sim_less_def st' set_tick_def)
  next
    case go: False
    have "way_left ?x (ss_pool st') < way_left ?x (ss_pool st)"
    proof (cases ?x)
      case True
      have low: "- MAX_TICK < ?cur" "(1 - TICK_LIMIT) * ?s < ?cur"
        using r True by (auto simp: reached_tick_limit_def get_min_tick_def i32_or_def split: if_split_asm)
      have "prev_initialized tm ?cur (pl_tick_spacing (ss_pool st)) = (Ok (Some i) :: (_, invariant_error) result)"
        using get_closer_limit_initialized [of dl limit ?x] g True \<open>initialized\<close> by simp
      then have "i \<le> ?cur"
      proof (rule prev_initialized_le)
        show "- TICK_LIMIT \<le> ?cur sdiv ?s"
        proof (cases "0 \<le> ?cur")
          case True
          then show ?thesis using s by (simp add: sdiv_smod_nonneg pos_imp_zdiv_nonneg_iff TICK_LIMIT_def order.trans [of _ 0])
        next
          case False
          have "- ?cur < TICK_LIMIT * ?s" using low(2) s by (simp add: left_diff_distrib TICK_LIMIT_def)
          moreover have "(- ?cur) div ?s * ?s \<le> - ?cur"
            using div_mult_mod_eq [of "- ?cur" ?s] pos_mod_sign [OF s, of "- ?cur"] by linarith
          ultimately have "(- ?cur) div ?s * ?s < TICK_LIMIT * ?s" by linarith
          then have "(- ?cur) div ?s < TICK_LIMIT" using s by simp
          moreover have "?cur sdiv ?s = - ((- ?cur) div ?s)" using False s by (simp add: signed_divide_int_def sgn_if)
          ultimately show ?thesis by linarith
        qed
      qed
      moreover have "0 \<le> TICK_LIMIT * ?s" using s by (simp add: TICK_LIMIT_def)
      ultimately show ?thesis
        using True go low(1) s by (simp add: way_left_def st' set_tick_def sp j)
    next
      case False
      have "?cur < MAX_TICK" using r False
        by (auto simp: reached_tick_limit_def get_max_tick_def i32_or_def split: if_split_asm)
      moreover have "?cur < i"
        using get_closer_limit_initialized [of dl limit ?x] g False \<open>initialized\<close>
        by (intro next_initialized_gt [where ?'e = invariant_error]) simp
      moreover have "0 \<le> TICK_LIMIT * ?s" using s by (simp add: TICK_LIMIT_def)
      ultimately show ?thesis using False by (simp add: way_left_def st' set_tick_def sp j)
    qed
    then show ?thesis using v rem go by (simp add: sim_less_def st' set_tick_def)
  qed
qed

text \<open>What a crossing or a count keeps.\<close>

definition kept :: "sim_state \<Rightarrow> sim_state \<Rightarrow> bool" where
  "kept st st' \<longleftrightarrow> unat (ss_remaining st') \<le> unat (ss_remaining st) \<and>
     14 - unat (ss_virtual st') \<le> 14 - unat (ss_virtual st) \<and>
     unat (ss_total_in st') + unat (ss_remaining st') = unat (ss_total_in st) + unat (ss_remaining st) \<and>
     ss_total_fee st' = ss_total_fee st"

lemma count_virtual_kept: "count_virtual st = Ok (Some st') \<Longrightarrow> kept st st'"
  using count_virtual_less [of st st'] by (auto simp: kept_def count_virtual_def split: if_split_asm)

lemma cross_initialized_kept: "cross_initialized ticks x_to_y enough i st = Ok (Some st') \<Longrightarrow> kept st st'"
  by (auto simp: kept_def cross_initialized_def Let_def checked_add_Some split: prod.split_asm if_split_asm result.split_asm)

lemma set_tick_kept: "kept st (set_tick i st') = kept st st'" "kept (set_tick i st) st' = kept st st'"
  by (simp_all add: kept_def set_tick_def)

lemma cross_limit_kept:
  assumes "cross_limit dl params ticks next i initialized st = Ok (Some st')"
  shows "kept st st'"
proof -
  from assms obtain enough st1 j where
    "(if initialized then cross_initialized ticks (sm_x_to_y params) enough i st else count_virtual st) = Ok (Some st1)"
    "st' = set_tick j st1"
    by (auto simp: cross_limit_def Let_def split: option.split_asm)
  then show ?thesis
    by (cases initialized) (auto simp: set_tick_kept intro: count_virtual_kept cross_initialized_kept)
qed

lemma account_step_parts:
  assumes "account_step r st = Ok st'"
  shows "ss_virtual st' = ss_virtual st \<and> ss_used_ticks st' = ss_used_ticks st \<and>
    ss_pool st' = (ss_pool st)\<lparr>pl_sqrt_price := sr_next_price_sqrt r\<rparr> \<and>
    unat (ss_remaining st) = unat (ss_remaining st') + unat (sr_amount_in r) + unat (sr_fee_amount r) \<and>
    unat (ss_total_in st') = unat (ss_total_in st) + unat (sr_amount_in r) + unat (sr_fee_amount r) \<and>
    unat (ss_total_fee st') = unat (ss_total_fee st) + unat (sr_fee_amount r)"
  using assms by (auto simp: account_step_def decimal_add_def decimal_sub_def checked_add_Some checked_sub_Some)

text \<open>A turn that goes on has taken its step and ends in a crossing or a count.\<close>

lemma sim_step_Ok:
  assumes "sim_step dl params ticks tickmap st = Ok (Some st')"
  obtains swap_limit limiting_tick r st1 where
    "get_closer_limit dl (sm_sqrt_price_limit params) (sm_x_to_y params) (pl_current_tick_index (ss_pool st))
       (pl_tick_spacing (ss_pool st)) tickmap = Ok (swap_limit, limiting_tick)"
    "compute_swap_step dl (pl_sqrt_price (ss_pool st)) swap_limit (pl_liquidity (ss_pool st)) (ss_remaining st)
       (sm_by_amount_in params) (pl_fee (ss_pool st)) = Ok r"
    "account_step r st = Ok st1" "reached_tick_limit (sm_x_to_y params) (ss_pool st1) = Ok False"
    "(\<exists>i initialized. limiting_tick = Some (i, initialized) \<and>
        cross_limit dl params ticks (sr_next_price_sqrt r) i initialized st1 = Ok (Some st')) \<or>
     (\<exists>i. count_virtual (set_tick i st1) = Ok (Some st'))"
proof -
  let ?x = "sm_x_to_y params"
  obtain swap_limit limiting_tick where g: "get_closer_limit dl (sm_sqrt_price_limit params) ?x (pl_current_tick_index (ss_pool st))
       (pl_tick_spacing (ss_pool st)) tickmap = Ok (swap_limit, limiting_tick)"
    using assms by (cases "get_closer_limit dl (sm_sqrt_price_limit params) ?x (pl_current_tick_index (ss_pool st))
       (pl_tick_spacing (ss_pool st)) tickmap") (auto simp: sim_step_def Let_def)
  from assms obtain r st1 where r: "compute_swap_step dl (pl_sqrt_price (ss_pool st)) swap_limit (pl_liquidity (ss_pool st))
      (ss_remaining st) (sm_by_amount_in params) (pl_fee (ss_pool st)) = Ok r" and a: "account_step r st = Ok st1"
    by (auto simp: sim_step_def Let_def g)
  from assms have l: "reached_tick_limit ?x (ss_pool st1) = Ok False"
    by (auto simp: sim_step_def Let_def g r a split: if_split_asm)
  have "(\<exists>i initialized. limiting_tick = Some (i, initialized) \<and>
        cross_limit dl params ticks (sr_next_price_sqrt r) i initialized st1 = Ok (Some st')) \<or>
     (\<exists>i. count_virtual (set_tick i st1) = Ok (Some st'))"
    using assms by (cases limiting_tick) (auto simp: sim_step_def Let_def g r a l split: if_split_asm)
  then show ?thesis using that g r a l by blast
qed

lemma sim_step_less:
  assumes s: "sim_step dl params ticks tickmap st = Ok (Some st')" and nz: "ss_remaining st \<noteq> 0"
  shows "(st', st) \<in> sim_less (sm_x_to_y params)"
proof -
  let ?x = "sm_x_to_y params"
  from s obtain swap_limit limiting_tick r st1 where
    g: "get_closer_limit dl (sm_sqrt_price_limit params) ?x (pl_current_tick_index (ss_pool st))
       (pl_tick_spacing (ss_pool st)) tickmap = Ok (swap_limit, limiting_tick)"
    and a: "account_step r st = Ok st1" and l: "reached_tick_limit ?x (ss_pool st1) = Ok False"
    and f: "(\<exists>i initialized. limiting_tick = Some (i, initialized) \<and>
        cross_limit dl params ticks (sr_next_price_sqrt r) i initialized st1 = Ok (Some st')) \<or>
     (\<exists>i. count_virtual (set_tick i st1) = Ok (Some st'))"
    by (rule sim_step_Ok) blast
  have same: "ss_virtual st1 = ss_virtual st" "way_left ?x (ss_pool st1) = way_left ?x (ss_pool st)"
    "pl_current_tick_index (ss_pool st1) = pl_current_tick_index (ss_pool st)"
    "pl_tick_spacing (ss_pool st1) = pl_tick_spacing (ss_pool st)"
    using account_step_parts [OF a] by (simp_all add: way_left_def)
  from f show ?thesis
  proof (elim disjE exE conjE)
    fix i initialized
    assume lt: "limiting_tick = Some (i, initialized)"
      and c: "cross_limit dl params ticks (sr_next_price_sqrt r) i initialized st1 = Ok (Some st')"
    show ?thesis
    proof (cases "ss_remaining st1 = 0")
      case False
      then have "(st', st1) \<in> sim_less ?x" using cross_limit_less g l c lt same(3,4) by simp
      then show ?thesis using same False nz by (auto simp: sim_less_def split: if_split_asm)
    next
      case True
      have k: "kept st1 st'" using cross_limit_kept [OF c] .
      then have "ss_remaining st' = 0" using True by (simp add: kept_def word_unat_eq_iff)
      then show ?thesis using k same nz by (auto simp: kept_def sim_less_def)
    qed
  next
    fix i assume "count_virtual (set_tick i st1) = Ok (Some st')"
    from count_virtual_less [OF this] show ?thesis using same by (simp add: sim_less_def set_tick_def)
  qed
qed

function sim_loop ::
    "decimal_lib \<Rightarrow> simulation_params \<Rightarrow> tick list \<Rightarrow> tickmap_slice \<Rightarrow> sim_state \<Rightarrow> sim_state tracked" where
  "sim_loop dl params ticks tickmap st =
     (if ss_remaining st = 0 then Ok st
      else
        rbind (sim_step dl params ticks tickmap st) (\<lambda>r.
        case r of
          None \<Rightarrow> Err ''Insufficient liquidity''
        | Some st \<Rightarrow> sim_loop dl params ticks tickmap st))"
  by pat_completeness auto
termination
proof (relation "measures [\<lambda>(dl, params, ticks, tickmap, st). 14 - unat (ss_virtual st),
    \<lambda>(dl, params, ticks, tickmap, st). if ss_remaining st = 0 then 0 else 1,
    \<lambda>(dl, params, ticks, tickmap, st). way_left (sm_x_to_y params) (ss_pool st)]", goal_cases)
  case (2 dl params ticks tickmap st r st')
  then show ?case using sim_step_less [of dl params ticks tickmap st st'] by (simp add: sim_less_def)
qed simp

declare sim_loop.simps [simp del]

definition simulate_invariant_swap :: "decimal_lib \<Rightarrow> invariant_edge \<Rightarrow> simulation_params \<Rightarrow> invariant_swap_result tracked" where
  "simulate_invariant_swap dl edge params =
     (let pool = ie_pool edge; ticks = ie_ticks edge in
      rbind (sim_loop dl params ticks (ie_tickmap edge)
        \<lparr>ss_pool = pool, ss_remaining = sm_in_amount params, ss_total_in = 0, ss_total_out = 0,
         ss_total_fee = 0, ss_used_ticks = [], ss_virtual = 0,
         ss_tick_pos = skip_ticks (sm_x_to_y params) (pl_current_tick_index pool) ticks\<rparr>) (\<lambda>st.
      Ok \<lparr>is_in_amount = ss_total_in st, is_out_amount = ss_total_out st, is_fee_amount = ss_total_fee st,
          is_starting_sqrt_price = pl_sqrt_price pool, is_ending_sqrt_price = pl_sqrt_price (ss_pool st),
          is_used_ticks = ss_used_ticks st, is_global_insufficient_liquidity = False\<rparr>))"

lemma sim_step_totals:
  assumes "sim_step dl params ticks tickmap st = Ok (Some st')"
  shows "unat (ss_total_in st') + unat (ss_remaining st') = unat (ss_total_in st) + unat (ss_remaining st) \<and>
    (unat (ss_total_fee st) \<le> unat (ss_total_in st) \<longrightarrow> unat (ss_total_fee st') \<le> unat (ss_total_in st'))"
proof -
  from assms obtain r st1 where a: "account_step r st = Ok st1" and k: "kept st1 st'"
    by (rule sim_step_Ok) (auto dest: cross_limit_kept count_virtual_kept simp: set_tick_kept)
  show ?thesis using account_step_parts [OF a] k by (auto simp: kept_def)
qed

lemma sim_loop_totals:
  "sim_loop dl params ticks tickmap st = Ok st' \<Longrightarrow> unat (ss_total_fee st) \<le> unat (ss_total_in st) \<Longrightarrow>
    ss_remaining st' = 0 \<and> unat (ss_total_in st') = unat (ss_total_in st) + unat (ss_remaining st) \<and>
    unat (ss_total_fee st') \<le> unat (ss_total_in st')"
proof (induction dl params ticks tickmap st rule: sim_loop.induct)
  case (1 dl params ticks tickmap st)
  show ?case
  proof (cases "ss_remaining st = 0")
    case True
    then show ?thesis using 1(2,3) by (subst (asm) sim_loop.simps) simp
  next
    case False
    with 1(2) obtain st1 where s: "sim_step dl params ticks tickmap st = Ok (Some st1)"
      and l: "sim_loop dl params ticks tickmap st1 = Ok st'"
      by (subst (asm) sim_loop.simps) (auto split: option.split_asm)
    show ?thesis using 1(1) [OF False s refl l] sim_step_totals [OF s] 1(3) by simp
  qed
qed

lemma simulation_consumes:
  assumes "simulate_invariant_swap dl edge params = Ok r"
  shows "is_in_amount r = sm_in_amount params \<and> is_fee_amount r \<le> is_in_amount r \<and>
    \<not> is_global_insufficient_liquidity r"
proof -
  from assms obtain st where l: "sim_loop dl params (ie_ticks edge) (ie_tickmap edge)
        \<lparr>ss_pool = ie_pool edge, ss_remaining = sm_in_amount params, ss_total_in = 0, ss_total_out = 0,
         ss_total_fee = 0, ss_used_ticks = [], ss_virtual = 0,
         ss_tick_pos = skip_ticks (sm_x_to_y params) (pl_current_tick_index (ie_pool edge)) (ie_ticks edge)\<rparr> = Ok st"
    and r: "is_in_amount r = ss_total_in st" "is_fee_amount r = ss_total_fee st" "\<not> is_global_insufficient_liquidity r"
    by (auto simp: simulate_invariant_swap_def Let_def)
  show ?thesis using sim_loop_totals [OF l] r by (simp add: word_le_nat_alt word_unat_eq_iff)
qed

text \<open>
  C26 (simulated_swap_consumes). The simulation of a swap always returns, and when it succeeds
  it has consumed exactly the requested amount, fees included, and the fee reported is no more
  than that.
\<close>

theorem simulated_swap_consumes:
  assumes "simulate_invariant_swap dl edge params = Ok r"
  shows "is_in_amount r = sm_in_amount params \<and> is_fee_amount r \<le> is_in_amount r \<and>
    \<not> is_global_insufficient_liquidity r"
  using assms by (rule simulation_consumes)

subsection \<open>A concrete swap\<close>

definition ref_slice :: tickmap_slice where
  "ref_slice = \<lparr>ts_data = replicate 482 0, ts_offset = 5300\<rparr>"

definition ref_edge :: invariant_edge where
  "ref_edge = \<lparr>ie_ticks = [], ie_pool = ref_pool, ie_tickmap = ref_slice\<rparr>"

lemma ref_prev: "prev_initialized ref_slice 0 10 = (Ok None :: (int option, 'e) result)"
proof -
  have ok: "tick_ok 10 0" by (simp add: tick_ok_def TICK_LIMIT_def MAX_TICK_def)
  have b: "search_bound 10 0 False = - 256" by (simp add: search_bound_def TICK_LIMIT_def MAX_TICK_def)
  have o: "offset_usize ref_slice = 5300" by (simp add: offset_usize_def ref_slice_def)
  have "prev_initialized ref_slice (0 * uint (10 :: u16)) 10 =
      (Ok (find (\<lambda>_. False) (search_ticks 10 0 False)) :: (int option, 'e) result)"
  proof (rule prev_initialized_find [OF ok])
    show "covered ref_slice (bitpos (search_bound 10 0 False) div 8) (bitpos 0 div 8)"
      by (auto simp: b covered_def slice_position_def o) (simp add: ref_slice_def)
    fix k assume "search_bound 10 0 False \<le> k" "k \<le> 0"
    show "slice_bit ref_slice (bitpos k) = False"
      by (simp add: slice_bit_def slice_position_def o split: option.split) (simp add: ref_slice_def)
  qed
  then show ?thesis by (simp add: find_None_iff)
qed

definition ref_params :: simulation_params where
  "ref_params = \<lparr>sm_x_to_y = True, sm_in_amount = 20, sm_sqrt_price_limit = MIN_SQRT_PRICE, sm_by_amount_in = True\<rparr>"

lemma ref_limit_price: "calculate_price_sqrt ref_decimal (- 2560) = Ok 879859009883000000000000"
  by (simp add: calculate_price_sqrt_def i32_def MAX_TICK_def tick_factors_def price_factor_def decimal_eval)

lemma ref_swap_step:
  "compute_swap_step ref_decimal 1000000000000000000000000 879859009883000000000000 2000000000 20 True 600000000 =
     Ok \<lparr>sr_next_price_sqrt = 990589400693412580485389, sr_amount_in = 19, sr_amount_out = 18, sr_fee_amount = 1\<rparr>"
  by (simp add: compute_swap_step_def step_target_def amount_after_fee_def delta_in_def delta_out_def
      get_delta_y_def get_delta_x_def big_div_values_to_token_def big_div_values_to_token_up_def
      get_next_sqrt_price_from_input_def get_next_sqrt_price_x_up_def checked_big_div_values_up_def psub_def decimal_eval)

lemma ref_log2: "log2_iterative_approximation_x32 4254549079 = Ok (False, 58458112)"
  by code_simp

lemma ref_new_tick: "get_tick_at_sqrt_price ref_decimal 990589400693412580485389 10 = Ok (- 190)"
proof -
  have "price_to_x32 990589400693412580485389 = Ok 4254549079" by code_simp
  then show ?thesis
    by (simp add: get_tick_at_sqrt_price_def ref_log2 align_tick_to_spacing_def i32_def padd_def checked_add_def
        LOG2_SQRT_10001_def LOG2_NEGATIVE_MAX_LOSE_def)
qed

lemma ref_closer_limit:
  "get_closer_limit ref_decimal MIN_SQRT_PRICE True 0 10 ref_slice = Ok (879859009883000000000000, Some (- 2560, False))"
proof -
  have "get_search_limit 0 10 False = (Ok (- 2560) :: (int, invariant_error) result)"
    using get_search_limit_mult [of 10 0 False] by (simp add: tick_ok_def search_bound_def TICK_LIMIT_def MAX_TICK_def)
  then show ?thesis
    by (simp add: get_closer_limit_def ref_prev closer_limit_def ref_limit_price MIN_SQRT_PRICE_def)
qed

lemma ref_simulation:
  "\<exists>r. simulate_invariant_swap ref_decimal ref_edge ref_params = Ok r \<and> is_out_amount r = 18 \<and>
     is_ending_sqrt_price r = 990589400693412580485389"
proof -
  have "get_min_tick 10 = Ok (- 221818)" by (simp add: get_min_tick_def i32_or_def TICK_LIMIT_def MAX_TICK_def)
  moreover have "\<not> (14 :: u16) \<le> 1" by (simp add: word_le_nat_alt)
  ultimately show ?thesis
    by (simp add: simulate_invariant_swap_def ref_edge_def ref_params_def ref_pool_def sim_loop.simps sim_step_def
        ref_closer_limit ref_swap_step account_step_def decimal_add_def decimal_sub_def checked_add_def checked_sub_def
        reached_tick_limit_def ref_new_tick count_virtual_def break_swap_loop_early_def set_tick_def
        TICK_CROSSES_PER_IX_def MAX_VIRTUAL_CROSS_def)
qed

theorem simulated_swap_consumes_witness:
  "\<exists>r. simulate_invariant_swap ref_decimal ref_edge ref_params = Ok r \<and> is_in_amount r = 20 \<and> is_out_amount r = 18"
proof -
  obtain r where r: "simulate_invariant_swap ref_decimal ref_edge ref_params = Ok r" "is_out_amount r = 18"
    using ref_simulation by blast
  show ?thesis using simulated_swap_consumes [OF r(1)] r by (simp add: ref_params_def)
qed

end
