(* ===== verification/Invariant_Dex.thy ===== *)
theory Invariant_Dex
  imports Invariant_Swap Dex_Interface "HOL-Library.Monad_Syntax"
begin

text \<open>
  The Invariant adapter: edge identifiers (\<^verbatim>\<open>lib/dex-invariant/src/invariant_edge.rs\<close>), account
  layouts, the ticks loaded for a swap, initialisation and quoting (\<^verbatim>\<open>invariant_dex.rs\<close>), and the
  swap instruction (\<^verbatim>\<open>invariant_ix_builder.rs\<close>, \<^verbatim>\<open>internal/accounts.rs\<close>).

  Parameters: the derivation of program addresses, SHA-256, associated token accounts, the owner
  of an account, the answers of the RPC node (in the iteration order of the hash set they are
  asked with) and the decoder of token accounts.

  The theorems: the ticks loaded are the initialised ticks of the window next to the price in the
  direction of the swap, preceded by one behind it; ticks beyond them are crossed as if they
  held no liquidity; the tick bitmaps of the pools are paired with the wrong pools.
\<close>

subsection \<open>Edges\<close>

datatype inv_error = AccountNotFound | DeserializeError | Traced string | InvalidMints | NotSupported

fun trace_err :: "'a tracked \<Rightarrow> ('a, inv_error) result" where
  "trace_err (Ok x) = Ok x"
| "trace_err (Err e) = Err (Traced e)"
| "trace_err Panic = Panic"

lemma trace_err_Ok [simp]: "trace_err r = Ok x \<longleftrightarrow> r = Ok x"
  by (cases r) simp_all

record invariant_edge_identifier =
  iv_pool :: pubkey
  iv_token_x :: pubkey
  iv_token_y :: pubkey
  iv_x_to_y :: bool

definition inv_input_mint :: "invariant_edge_identifier \<Rightarrow> pubkey" where
  "inv_input_mint i = (if iv_x_to_y i then iv_token_x i else iv_token_y i)"

definition inv_output_mint :: "invariant_edge_identifier \<Rightarrow> pubkey" where
  "inv_output_mint i = (if iv_x_to_y i then iv_token_y i else iv_token_x i)"

definition inv_ident :: "(pubkey \<Rightarrow> string) \<Rightarrow> invariant_edge_identifier \<Rightarrow> edge_ident" where
  "inv_ident base58 i = \<lparr>id_key = iv_pool i, id_desc = ''Invariant_'' @ base58 (iv_pool i),
     id_input_mint = inv_input_mint i, id_output_mint = inv_output_mint i,
     id_accounts_needed = 13 - 2 + TICK_CROSSES_PER_IX + TICKS_BACK_COUNT\<rparr>"

subsection \<open>Account layouts\<close>

text \<open>Borsh: fixed-width fields in the order of the struct, little endian; a Boolean is 0 or 1,
  and no byte may be left over.\<close>

definition borsh_nat :: "nat \<Rightarrow> bytes \<Rightarrow> (nat \<times> bytes) option" where
  "borsh_nat k bs = (if k \<le> length bs then Some (le_val (take k bs), drop k bs) else None)"

definition borsh_word :: "bytes \<Rightarrow> ('a::len word \<times> bytes) option" where
  "borsh_word bs = do { (n, bs) \<leftarrow> borsh_nat (LENGTH('a) div 8) bs; Some (of_nat n, bs) }"

definition borsh_i32 :: "bytes \<Rightarrow> (int \<times> bytes) option" where
  "borsh_i32 bs = do { (n, bs) \<leftarrow> borsh_nat 4 bs; Some (sint (of_nat n :: 32 word), bs) }"

definition borsh_bool :: "bytes \<Rightarrow> (bool \<times> bytes) option" where
  "borsh_bool bs = do { (n, bs) \<leftarrow> borsh_nat 1 bs; if n \<le> 1 then Some (n = 1, bs) else None }"

definition borsh_pubkey :: "bytes \<Rightarrow> (pubkey \<times> bytes) option" where
  "borsh_pubkey bs = (if 32 \<le> length bs then Some (pubkey_of_bytes (take 32 bs), drop 32 bs) else None)"

definition whole :: "('a \<times> bytes) option \<Rightarrow> ('a, inv_error) result" where
  "whole r = (case r of Some (x, []) \<Rightarrow> Ok x | _ \<Rightarrow> Err DeserializeError)"

lemma whole_Ok [simp]: "whole r = Ok x \<longleftrightarrow> r = Some (x, [])"
  by (auto simp: whole_def split: option.split list.split)

definition borsh_pool :: "bytes \<Rightarrow> (pool \<times> bytes) option" where
  "borsh_pool bs = do {
     (token_x, bs) \<leftarrow> borsh_pubkey bs; (token_y, bs) \<leftarrow> borsh_pubkey bs;
     (token_x_reserve, bs) \<leftarrow> borsh_pubkey bs; (token_y_reserve, bs) \<leftarrow> borsh_pubkey bs;
     (position_iterator, bs) \<leftarrow> borsh_word bs; (tick_spacing, bs) \<leftarrow> borsh_word bs;
     (fee, bs) \<leftarrow> borsh_word bs; (protocol_fee, bs) \<leftarrow> borsh_word bs; (liquidity, bs) \<leftarrow> borsh_word bs;
     (sqrt_price, bs) \<leftarrow> borsh_word bs; (current_tick_index, bs) \<leftarrow> borsh_i32 bs;
     (tickmap, bs) \<leftarrow> borsh_pubkey bs;
     (fee_growth_x, bs) \<leftarrow> borsh_word bs; (fee_growth_y, bs) \<leftarrow> borsh_word bs;
     (fee_protocol_x, bs) \<leftarrow> borsh_word bs; (fee_protocol_y, bs) \<leftarrow> borsh_word bs;
     (seconds_per_liquidity, bs) \<leftarrow> borsh_word bs;
     (start_timestamp, bs) \<leftarrow> borsh_word bs; (last_timestamp, bs) \<leftarrow> borsh_word bs;
     (fee_receiver, bs) \<leftarrow> borsh_pubkey bs; (oracle_address, bs) \<leftarrow> borsh_pubkey bs;
     (oracle_initialized, bs) \<leftarrow> borsh_bool bs; (bump, bs) \<leftarrow> borsh_word bs;
     Some (\<lparr>pl_token_x = token_x, pl_token_y = token_y, pl_token_x_reserve = token_x_reserve,
       pl_token_y_reserve = token_y_reserve, pl_position_iterator = position_iterator,
       pl_tick_spacing = tick_spacing, pl_fee = fee, pl_protocol_fee = protocol_fee, pl_liquidity = liquidity,
       pl_sqrt_price = sqrt_price, pl_current_tick_index = current_tick_index, pl_tickmap = tickmap,
       pl_fee_growth_global_x = fee_growth_x, pl_fee_growth_global_y = fee_growth_y,
       pl_fee_protocol_token_x = fee_protocol_x, pl_fee_protocol_token_y = fee_protocol_y,
       pl_seconds_per_liquidity_global = seconds_per_liquidity, pl_start_timestamp = start_timestamp,
       pl_last_timestamp = last_timestamp, pl_fee_receiver = fee_receiver, pl_oracle_address = oracle_address,
       pl_oracle_initialized = oracle_initialized, pl_bump = bump\<rparr>, bs) }"

definition borsh_tick :: "bytes \<Rightarrow> (tick \<times> bytes) option" where
  "borsh_tick bs = do {
     (pool, bs) \<leftarrow> borsh_pubkey bs; (index, bs) \<leftarrow> borsh_i32 bs; (sgn, bs) \<leftarrow> borsh_bool bs;
     (liquidity_change, bs) \<leftarrow> borsh_word bs; (liquidity_gross, bs) \<leftarrow> borsh_word bs;
     (sqrt_price, bs) \<leftarrow> borsh_word bs; (growth_x, bs) \<leftarrow> borsh_word bs; (growth_y, bs) \<leftarrow> borsh_word bs;
     (seconds_per_liquidity, bs) \<leftarrow> borsh_word bs; (seconds, bs) \<leftarrow> borsh_word bs; (bump, bs) \<leftarrow> borsh_word bs;
     Some (\<lparr>tk_pool = pool, tk_index = index, tk_sign = sgn, tk_liquidity_change = liquidity_change,
       tk_liquidity_gross = liquidity_gross, tk_sqrt_price = sqrt_price, tk_fee_growth_outside_x = growth_x,
       tk_fee_growth_outside_y = growth_y, tk_seconds_per_liquidity_outside = seconds_per_liquidity,
       tk_seconds_outside = seconds, tk_bump = bump\<rparr>, bs) }"

definition borsh_tickmap :: "bytes \<Rightarrow> (tickmap \<times> bytes) option" where
  "borsh_tickmap bs = (if 11091 \<le> length bs then Some (\<lparr>tm_bitmap = take 11091 bs\<rparr>, drop 11091 bs) else None)"

text \<open>\<open>split_at\<close> panics on an account shorter than the discriminator.\<close>

definition extract_from_anchor_account :: "bytes \<Rightarrow> (bytes, 'e) result" where
  "extract_from_anchor_account data = slice_from data 8"

definition inv_deserialize :: "(bytes \<Rightarrow> ('a \<times> bytes) option) \<Rightarrow> bytes \<Rightarrow> ('a, inv_error) result" where
  "inv_deserialize f data = rbind (extract_from_anchor_account data) (\<lambda>bs. whole (f bs))"

definition deserialize_tickmap_view :: "bytes \<Rightarrow> int \<Rightarrow> u16 \<Rightarrow> bool \<Rightarrow> (tickmap_slice, inv_error) result" where
  "deserialize_tickmap_view data current_tick_index tick_spacing x_to_y =
     rbind (extract_from_anchor_account data) (\<lambda>tickmap_data.
     trace_err (slice_from_slice tickmap_data current_tick_index tick_spacing x_to_y))"

text \<open>\<open>Pool::LEN\<close>: the packed size and the discriminator.\<close>

definition POOL_LEN :: nat where
  "POOL_LEN = 4 * 32 + 16 + 2 + 4 * 16 + 4 + 32 + 2 * 16 + 2 * 8 + 16 + 2 * 8 + 2 * 32 + 1 + 1 + 8"

lemma borsh_length:
  "borsh_nat k bs = Some (n, r) \<Longrightarrow> length bs = k + length r"
  "borsh_word bs = Some (w :: 'a::len word, r) \<Longrightarrow> length bs = LENGTH('a) div 8 + length r"
  "borsh_i32 bs = Some (i, r) \<Longrightarrow> length bs = 4 + length r"
  "borsh_bool bs = Some (b, r) \<Longrightarrow> length bs = 1 + length r"
  "borsh_pubkey bs = Some (k', r) \<Longrightarrow> length bs = 32 + length r"
proof -
  show n: "length bs = k + length r" if "borsh_nat k bs = Some (n, r)" for k n
    using that by (auto simp: borsh_nat_def split: if_splits)
  show "length bs = LENGTH('a) div 8 + length r" if "borsh_word bs = Some (w :: 'a::len word, r)"
    using that n by (auto simp: borsh_word_def bind_eq_Some_conv)
  show "length bs = 4 + length r" if "borsh_i32 bs = Some (i, r)"
    using that n by (auto simp: borsh_i32_def bind_eq_Some_conv)
  show "length bs = 1 + length r" if "borsh_bool bs = Some (b, r)"
    using that n by (auto simp: borsh_bool_def bind_eq_Some_conv split: if_splits)
  show "length bs = 32 + length r" if "borsh_pubkey bs = Some (k', r)"
    using that by (auto simp: borsh_pubkey_def split: if_splits)
qed

lemma borsh_pool_size: "borsh_pool bs = Some (p, rest) \<Longrightarrow> length bs = POOL_LEN - 8 + length rest"
  unfolding borsh_pool_def bind_eq_Some_conv
  by (elim exE conjE, clarsimp simp: POOL_LEN_def bind_eq_Some_conv dest!: borsh_length)

text \<open>The size the pool accounts are filtered by is the only one that can be read.\<close>

lemma pool_account_size: "inv_deserialize borsh_pool data = Ok p \<Longrightarrow> length data = POOL_LEN"
  by (auto simp: inv_deserialize_def extract_from_anchor_account_def slice_from_def POOL_LEN_def
      dest!: borsh_pool_size split: if_splits)

subsection \<open>The ticks of a swap\<close>

datatype price_direction = UP | DOWN

definition i32_le :: "int \<Rightarrow> bytes" where
  "i32_le i = le_bytes 4 (nat (i mod 2 ^ 32))"

definition ascii :: "string \<Rightarrow> bytes" where
  "ascii s = map (\<lambda>c. of_nat (of_char c)) s"

definition TICK_SEED :: bytes where
  "TICK_SEED = ascii ''tickv1''"

text \<open>\<open>pda\<close> stands for \<open>find_program_address\<close> of the program.\<close>

definition tick_index_to_address :: "(bytes list \<Rightarrow> pubkey) \<Rightarrow> pubkey \<Rightarrow> int \<Rightarrow> pubkey" where
  "tick_index_to_address pda pool_address i = pda [TICK_SEED, pubkey_bytes pool_address, i32_le i]"

definition tick_indexes_to_addresses :: "(bytes list \<Rightarrow> pubkey) \<Rightarrow> pubkey \<Rightarrow> int list \<Rightarrow> pubkey list" where
  "tick_indexes_to_addresses pda pool_address indexes = map (tick_index_to_address pda pool_address) indexes"

text \<open>The loop of \<open>find_closest_tick_indexes\<close> over the positions of the window, upwards or
  downwards: a tick that is not ahead of the current one takes the place of the first entry.\<close>

fun closest_loop :: "(nat \<Rightarrow> bool) \<Rightarrow> (nat \<Rightarrow> bool) \<Rightarrow> nat \<Rightarrow> nat list \<Rightarrow> nat list \<Rightarrow> nat list" where
  "closest_loop initialized ahead amount_limit [] found = found"
| "closest_loop initialized ahead amount_limit (p # ps) found =
     (if amount_limit \<le> length found then found
      else closest_loop initialized ahead amount_limit ps
        (if \<not> initialized p then found
         else if ahead p then found @ [p]
         else if found \<noteq> [] then found[0 := p]
         else found @ [p]))"

definition bitmap_bit :: "bytes \<Rightarrow> nat \<Rightarrow> bool" where
  "bitmap_bit bitmap p \<longleftrightarrow> and (bitmap ! (p div 8)) (push_bit (p mod 8) 1) \<noteq> 0"

definition window_positions :: "price_direction \<Rightarrow> bytes \<Rightarrow> nat list" where
  "window_positions direction bitmap =
     (case direction of UP \<Rightarrow> [0..<8 * length bitmap] | DOWN \<Rightarrow> rev [0..<8 * length bitmap])"

definition is_ahead :: "price_direction \<Rightarrow> int \<Rightarrow> nat \<Rightarrow> bool" where
  "is_ahead direction current p = (case direction of UP \<Rightarrow> current < int p | DOWN \<Rightarrow> int p \<le> current)"

text \<open>The positions found are in the whole bitmap: signed, in 32 bits. An overflow panics.\<close>

fun ticks_of_positions :: "int \<Rightarrow> int list \<Rightarrow> (int list, 'e) result" where
  "ticks_of_positions tick_spacing [] = Ok []"
| "ticks_of_positions tick_spacing (i # is) =
     rbind (i32 i) (\<lambda>i.
     rbind (i32 (i - TICK_LIMIT)) (\<lambda>t.
     rbind (i32 (t * tick_spacing)) (\<lambda>t.
     rbind (ticks_of_positions tick_spacing is) (\<lambda>ts. Ok (t # ts)))))"

definition find_closest_tick_indexes ::
    "pool \<Rightarrow> bytes \<Rightarrow> nat \<Rightarrow> int \<Rightarrow> price_direction \<Rightarrow> (int list, 'e) result" where
  "find_closest_tick_indexes pool bitmap amount_limit chunk_offset direction =
     (let tick_spacing = uint (pl_tick_spacing pool) in
      rbind (assert_that (tick_spacing \<noteq> 0)) (\<lambda>_.
      rbind (i32 (chunk_offset * 8)) (\<lambda>tick_offset.
      rbind (i32 (pl_current_tick_index pool sdiv tick_spacing + TICK_LIMIT)) (\<lambda>c.
      rbind (i32 (c - tick_offset)) (\<lambda>current.
      let found = closest_loop (bitmap_bit bitmap) (is_ahead direction current) amount_limit
                    (window_positions direction bitmap) [] in
      ticks_of_positions tick_spacing (map (\<lambda>p. int p + tick_offset) found))))))"

definition get_closest_ticks_addresses ::
    "(bytes list \<Rightarrow> pubkey) \<Rightarrow> pool \<Rightarrow> tickmap_slice \<Rightarrow> pubkey \<Rightarrow> price_direction \<Rightarrow> (pubkey list, 'e) result" where
  "get_closest_ticks_addresses pda pool tickmap pool_address direction =
     rbind (find_closest_tick_indexes pool (ts_data tickmap) TICK_CROSSES_PER_IX (ts_offset tickmap) direction)
       (\<lambda>indexes. Ok (tick_indexes_to_addresses pda pool_address indexes))"

text \<open>All initialised ticks of a pool.\<close>

definition find_all_tick_indexes :: "u16 \<Rightarrow> tickmap \<Rightarrow> (int list, inv_error) result" where
  "find_all_tick_indexes tick_spacing tickmap =
     (let s = uint tick_spacing in
      rbind (trace_err (get_max_tick tick_spacing)) (\<lambda>max_index.
      rbind (assert_that (s \<noteq> 0)) (\<lambda>_.
      rbind (trace_err (get_min_tick tick_spacing)) (\<lambda>min_index.
      let max_tick = max_index sdiv s + TICK_LIMIT; min_tick = min_index sdiv s + TICK_LIMIT in
      rbind (assert_that (0 \<le> min_tick \<and> (min_tick \<le> max_tick \<longrightarrow> max_tick div 8 < int (length (tm_bitmap tickmap))))) (\<lambda>_.
      ticks_of_positions s (map int (filter (bitmap_bit (tm_bitmap tickmap)) [nat min_tick..<nat (max_tick + 1)])))))))"

text \<open>A tick account that cannot be decoded counts as an empty tick.\<close>

fun load_ticks :: "inv_error account_view \<Rightarrow> pubkey list \<Rightarrow> (tick list, inv_error) result" where
  "load_ticks view [] = Ok []"
| "load_ticks view (k # ks) =
     rbind (av_account view k) (\<lambda>data.
     rbind (case inv_deserialize borsh_tick data of Ok t \<Rightarrow> Ok t | Err _ \<Rightarrow> Ok default_tick | Panic \<Rightarrow> Panic) (\<lambda>t.
     rbind (load_ticks view ks) (\<lambda>ts. Ok (t # ts))))"

definition inv_load_edge ::
    "(bytes list \<Rightarrow> pubkey) \<Rightarrow> invariant_edge_identifier \<Rightarrow> inv_error account_view \<Rightarrow> (invariant_edge, inv_error) result" where
  "inv_load_edge pda i view =
     rbind (av_account view (iv_pool i)) (\<lambda>pool_data.
     rbind (inv_deserialize borsh_pool pool_data) (\<lambda>pool.
     rbind (av_account view (pl_tickmap pool)) (\<lambda>tickmap_data.
     rbind (deserialize_tickmap_view tickmap_data (pl_current_tick_index pool) (pl_tick_spacing pool) (iv_x_to_y i)) (\<lambda>tickmap.
     let price_direction = (if iv_x_to_y i then DOWN else UP) in
     rbind (get_closest_ticks_addresses pda pool tickmap (iv_pool i) price_direction) (\<lambda>tick_pks.
     rbind (load_ticks view tick_pks) (\<lambda>ticks.
     Ok \<lparr>ie_ticks = ticks, ie_pool = pool, ie_tickmap = tickmap\<rparr>))))))"

subsection \<open>Quoting\<close>

definition inv_quote ::
    "decimal_lib \<Rightarrow> invariant_edge_identifier \<Rightarrow> invariant_edge \<Rightarrow> inv_error account_view \<Rightarrow> u64 \<Rightarrow> (quote, inv_error) result" where
  "inv_quote dl i edge view in_amount =
     (let x_to_y = iv_x_to_y i; spacing = pl_tick_spacing (ie_pool edge) in
      rbind (trace_err (if x_to_y then get_min_tick spacing else get_max_tick spacing)) (\<lambda>limit_tick.
      rbind (trace_err (calculate_price_sqrt dl limit_tick)) (\<lambda>sqrt_price_limit.
      rbind (trace_err (simulate_invariant_swap dl edge \<lparr>sm_x_to_y = x_to_y, sm_in_amount = in_amount,
               sm_sqrt_price_limit = sqrt_price_limit, sm_by_amount_in = True\<rparr>)) (\<lambda>simulation.
      Ok \<lparr>q_in_amount = is_in_amount simulation, q_out_amount = is_out_amount simulation,
          q_fee_amount = is_fee_amount simulation,
          q_fee_mint = (if x_to_y then iv_token_x i else iv_token_y i)\<rparr>))))"

text \<open>The code after the \<open>bail!\<close> of \<open>quote_exact_out\<close> is never reached.\<close>

definition inv_quote_exact_out ::
    "invariant_edge_identifier \<Rightarrow> invariant_edge \<Rightarrow> inv_error account_view \<Rightarrow> u64 \<Rightarrow> (quote, inv_error) result" where
  "inv_quote_exact_out i edge view out_amount = Err NotSupported"

definition invariant_dex ::
    "decimal_lib \<Rightarrow> (bytes list \<Rightarrow> pubkey) \<Rightarrow> (invariant_edge_identifier, invariant_edge, inv_error) dex_interface" where
  "invariant_dex dl pda = \<lparr>dex_name = ''Invariant'', dex_load = inv_load_edge pda, dex_quote = inv_quote dl,
     dex_quote_exact_out = inv_quote_exact_out, dex_supports_exact_out = (\<lambda>_. False)\<rparr>"

interpretation invariant: quoting_dex "invariant_dex dl pda" for dl pda
  by unfold_locales
    (auto simp: invariant_dex_def inv_quote_def inv_quote_exact_out_def Let_def dest!: simulation_consumes)

subsection \<open>Initialisation\<close>

definition inv_edge_pair :: "pubkey \<Rightarrow> pool \<Rightarrow> invariant_edge_identifier list" where
  "inv_edge_pair pk pool =
     [\<lparr>iv_pool = pk, iv_token_x = pl_token_x pool, iv_token_y = pl_token_y pool, iv_x_to_y = True\<rparr>,
      \<lparr>iv_pool = pk, iv_token_x = pl_token_x pool, iv_token_y = pl_token_y pool, iv_x_to_y = False\<rparr>]"

text \<open>\<open>fetch_invariant_accounts\<close>: accounts that are no pools are dropped.\<close>

fun fetch_invariant_accounts :: "(pubkey \<times> bytes) list \<Rightarrow> ((pubkey \<times> pool) list, inv_error) result" where
  "fetch_invariant_accounts [] = Ok []"
| "fetch_invariant_accounts ((pk, data) # rest) =
     rbind (case inv_deserialize borsh_pool data of Ok p \<Rightarrow> Ok [(pk, p)] | Err _ \<Rightarrow> Ok [] | Panic \<Rightarrow> Panic) (\<lambda>x.
     rbind (fetch_invariant_accounts rest) (\<lambda>xs. Ok (x @ xs)))"

text \<open>\<open>frozen\<close> decodes a token account, \<open>None\<close> if it is none, which panics.\<close>

fun banned_reserves :: "(bytes \<Rightarrow> bool option) \<Rightarrow> (pubkey \<times> bytes) list \<Rightarrow> (pubkey list, inv_error) result" where
  "banned_reserves frozen [] = Ok []"
| "banned_reserves frozen ((pk, reserve) # rest) =
     rbind (unwrap (frozen reserve)) (\<lambda>f.
     rbind (banned_reserves frozen rest) (\<lambda>ks. Ok (if f then pk # ks else ks)))"

text \<open>The loop over pools, tick bitmaps and edges, zipped.\<close>

fun edges_of_pools ::
    "(bytes list \<Rightarrow> pubkey) \<Rightarrow> ((pubkey \<times> pool) \<times> pubkey \<times> bytes) list \<Rightarrow>
     (pubkey \<rightharpoonup> invariant_edge_identifier list) \<Rightarrow> (pubkey \<rightharpoonup> invariant_edge_identifier list, inv_error) result" where
  "edges_of_pools pda [] m = Ok m"
| "edges_of_pools pda (((pool_pk, pool), tickmap_pk, tickmap_acc) # rest) m =
     (let entry = inv_edge_pair pool_pk pool; m = m(pool_pk \<mapsto> entry, tickmap_pk \<mapsto> entry) in
      rbind (inv_deserialize borsh_tickmap tickmap_acc) (\<lambda>tickmap.
      rbind (find_all_tick_indexes (pl_tick_spacing pool) tickmap) (\<lambda>indexes.
      edges_of_pools pda rest (fold (\<lambda>tick m. m(tick_index_to_address pda pool_pk tick \<mapsto> entry)) indexes m))))"

definition invariant_initialize ::
    "(bytes list \<Rightarrow> pubkey) \<Rightarrow> (bytes \<Rightarrow> bool option) \<Rightarrow> (pubkey set \<Rightarrow> ((pubkey \<times> bytes) list, inv_error) result) \<Rightarrow>
     (pubkey \<times> bytes) list \<Rightarrow> (pubkey \<rightharpoonup> invariant_edge_identifier list, inv_error) result" where
  "invariant_initialize pda frozen get_multiple_accounts snapshot =
     rbind (fetch_invariant_accounts snapshot) (\<lambda>pools.
     rbind (get_multiple_accounts (\<Union>x \<in> set pools. {pl_token_x_reserve (snd x), pl_token_y_reserve (snd x)})) (\<lambda>vaults.
     rbind (banned_reserves frozen vaults) (\<lambda>banned.
     let pools = filter (\<lambda>p. \<not> (pl_token_x_reserve (snd p) \<in> set banned \<or> pl_token_y_reserve (snd p) \<in> set banned)) pools in
     rbind (get_multiple_accounts (set (map (\<lambda>p. pl_tickmap (snd p)) pools))) (\<lambda>tickmaps.
     edges_of_pools pda (zip pools tickmaps) Map.empty))))"

subsection \<open>The swap instruction\<close>

definition invariant_id :: pubkey where
  "invariant_id = 4794516628445474080278380936504253021284121170524686614003403865076497071481"

record invariant_swap_params =
  isp_used_ticks :: "int list"
  isp_owner :: pubkey
  isp_source_mint :: pubkey
  isp_destination_mint :: pubkey
  isp_source_account :: pubkey
  isp_destination_account :: pubkey

record invariant_swap_accounts =
  isa_state :: pubkey
  isa_pool :: pubkey
  isa_tickmap :: pubkey
  isa_token_x :: pubkey
  isa_token_y :: pubkey
  isa_account_x :: pubkey
  isa_account_y :: pubkey
  isa_reserve_x :: pubkey
  isa_reserve_y :: pubkey
  isa_owner :: pubkey
  isa_program_authority :: pubkey
  isa_token_x_program :: pubkey
  isa_token_y_program :: pubkey
  isa_ticks_accounts :: "pubkey list"

definition get_program_authority :: "(bytes list \<Rightarrow> pubkey) \<Rightarrow> pubkey" where
  "get_program_authority pda = pda [ascii ''Invariant'']"

definition get_state_address :: "(bytes list \<Rightarrow> pubkey) \<Rightarrow> pubkey" where
  "get_state_address pda = pda [ascii ''statev1'']"

text \<open>The owner of an account is part of the account the view returns. The referral fee, always
  absent, is left out.\<close>

type_synonym owners = "pubkey \<Rightarrow> (pubkey, inv_error) result"

definition swap_accounts_from_pubkeys ::
    "(bytes list \<Rightarrow> pubkey) \<Rightarrow> owners \<Rightarrow> invariant_edge \<Rightarrow> pubkey \<Rightarrow> invariant_swap_params \<Rightarrow>
     (invariant_swap_accounts \<times> bool, inv_error) result" where
  "swap_accounts_from_pubkeys pda owner_of edge pool_pk params =
     (let pool = ie_pool edge; x = pl_token_x pool; y = pl_token_y pool;
          s = isp_source_mint params; d = isp_destination_mint params in
      rbind (if x = s \<and> y = d then Ok (True, isp_source_account params, isp_destination_account params)
             else if x = d \<and> y = s then Ok (False, isp_destination_account params, isp_source_account params)
             else Err InvalidMints) (\<lambda>(x_to_y, account_x, account_y).
      rbind (owner_of x) (\<lambda>token_x_program.
      rbind (owner_of y) (\<lambda>token_y_program.
      Ok (\<lparr>isa_state = get_state_address pda, isa_pool = pool_pk, isa_tickmap = pl_tickmap pool,
            isa_token_x = x, isa_token_y = y, isa_account_x = account_x, isa_account_y = account_y,
            isa_reserve_x = pl_token_x_reserve pool, isa_reserve_y = pl_token_y_reserve pool,
            isa_owner = isp_owner params, isa_program_authority = get_program_authority pda,
            isa_token_x_program = token_x_program, isa_token_y_program = token_y_program,
            isa_ticks_accounts = tick_indexes_to_addresses pda pool_pk (isp_used_ticks params)\<rparr>, x_to_y)))))"

definition to_account_metas :: "invariant_swap_accounts \<Rightarrow> account_meta list" where
  "to_account_metas a =
     (let ro = (\<lambda>k. \<lparr>am_pubkey = k, am_is_signer = False, am_is_writable = False\<rparr>);
          rw = (\<lambda>k. \<lparr>am_pubkey = k, am_is_signer = False, am_is_writable = True\<rparr>) in
      [ro (isa_state a), rw (isa_pool a), rw (isa_tickmap a), rw (isa_token_x a), rw (isa_token_y a),
       rw (isa_account_x a), rw (isa_account_y a), rw (isa_reserve_x a), rw (isa_reserve_y a),
       \<lparr>am_pubkey = isa_owner a, am_is_signer = True, am_is_writable = True\<rparr>,
       ro (isa_program_authority a), ro (isa_token_x_program a), ro (isa_token_y_program a)] @
      map rw (isa_ticks_accounts a))"

definition invariant_build_swap_ix ::
    "decimal_lib \<Rightarrow> (bytes list \<Rightarrow> pubkey) \<Rightarrow> owners \<Rightarrow> (pubkey \<Rightarrow> pubkey \<Rightarrow> pubkey \<Rightarrow> pubkey) \<Rightarrow> (bytes \<Rightarrow> bytes) \<Rightarrow>
     invariant_edge_identifier \<Rightarrow> inv_error account_view \<Rightarrow> pubkey \<Rightarrow> u64 \<Rightarrow> u64 \<Rightarrow> int \<Rightarrow> (swap_instruction, inv_error) result" where
  "invariant_build_swap_ix dl pda owner_of ata sha256 i view wallet_pk in_amount out_amount max_slippage_bps =
     rbind (inv_load_edge pda i view) (\<lambda>edge.
     let spacing = pl_tick_spacing (ie_pool edge); source_mint = inv_input_mint i; destination_mint = inv_output_mint i in
     rbind (owner_of source_mint) (\<lambda>source_owner.
     rbind (owner_of destination_mint) (\<lambda>destination_owner.
     let source_account = ata wallet_pk source_mint source_owner;
         destination_account = ata wallet_pk destination_mint destination_owner in
     rbind (trace_err (if iv_x_to_y i then get_min_sqrt_price dl spacing else get_max_sqrt_price dl spacing)) (\<lambda>sqrt_price_limit.
     rbind (trace_err (simulate_invariant_swap dl edge \<lparr>sm_x_to_y = iv_x_to_y i, sm_in_amount = in_amount,
              sm_sqrt_price_limit = sqrt_price_limit, sm_by_amount_in = True\<rparr>)) (\<lambda>r.
     rbind (swap_accounts_from_pubkeys pda owner_of edge (iv_pool i)
              \<lparr>isp_used_ticks = is_used_ticks r, isp_owner = wallet_pk, isp_source_mint = source_mint,
               isp_destination_mint = destination_mint, isp_source_account = source_account,
               isp_destination_account = destination_account\<rparr>) (\<lambda>(accounts, _).
     rbind (slice (sha256 (ascii ''global:swap'')) 0 8) (\<lambda>discriminator.
     let data = discriminator @ [of_bool (iv_x_to_y i)] @ u64_le in_amount @ [of_bool True] @
           le_bytes 16 (unat sqrt_price_limit) in
     rbind (assert_that (length data = 8 + 1 + 8 + 1 + 16)) (\<lambda>_.
     Ok \<lparr>si_instruction = \<lparr>ix_program_id = invariant_id, ix_accounts = to_account_metas accounts, ix_data = data\<rparr>,
         si_out_pubkey = destination_account, si_out_mint = destination_mint,
         si_in_amount_offset = 9, si_cu_estimate = Some 120000\<rparr>))))))))"

subsection \<open>Which ticks are loaded\<close>

lemma closest_loop_append:
  "closest_loop I A n (xs @ ys) found = closest_loop I A n ys (closest_loop I A n xs found)"
proof (induction xs arbitrary: found)
  case (Cons x xs)
  show ?case
  proof (cases "n \<le> length found")
    case True
    then have "closest_loop I A n ys found = found" by (cases ys) simp_all
    then show ?thesis using True by simp
  qed (simp add: Cons)
qed simp

lemma closest_loop_ahead:
  "(\<And>p. p \<in> set ps \<Longrightarrow> A p) \<Longrightarrow> length found \<le> n \<Longrightarrow>
    closest_loop I A n ps found = take n (found @ filter I ps)"
proof (induction ps arbitrary: found)
  case (Cons p ps)
  show ?case
  proof (cases "n \<le> length found")
    case False
    then have "closest_loop I A n (p # ps) found = closest_loop I A n ps (if I p then found @ [p] else found)"
      using Cons.prems(1) [of p] by auto
    also have "\<dots> = take n ((if I p then found @ [p] else found) @ filter I ps)"
      using Cons.prems False by (intro Cons.IH) auto
    finally show ?thesis by (cases "I p") simp_all
  qed (use Cons.prems(2) in simp)
qed simp

lemma closest_loop_behind:
  "(\<And>p. p \<in> set ps \<Longrightarrow> \<not> A p) \<Longrightarrow> 2 \<le> n \<Longrightarrow> length found \<le> 1 \<Longrightarrow>
    closest_loop I A n ps found = (if filter I ps = [] then found else [last (filter I ps)])"
proof (induction ps arbitrary: found)
  case (Cons p ps)
  have f: "found = [] \<or> (\<exists>x. found = [x])" using Cons.prems(3) by (cases found) auto
  have "closest_loop I A n (p # ps) found = closest_loop I A n ps (if I p then [p] else found)"
    using f Cons.prems(1) [of p] Cons.prems(2) by auto
  also have "\<dots> = (if filter I ps = [] then (if I p then [p] else found) else [last (filter I ps)])"
    using Cons.prems by (intro Cons.IH) auto
  finally show ?case by auto
qed simp

lemma window_split:
  "\<exists>bs as. window_positions d b = bs @ as \<and> (\<forall>p \<in> set bs. \<not> is_ahead d c p) \<and> (\<forall>p \<in> set as. is_ahead d c p)"
proof -
  let ?k = "min (nat (c + 1)) (8 * length b)"
  have u: "[0..<8 * length b] = [0..<?k] @ [?k..<8 * length b]" 
    using upt_add_eq_append [of 0 ?k "8 * length b - ?k"] by simp
  show ?thesis
  proof (cases d)
    case UP
    then show ?thesis using u
      by (intro exI [of _ "[0..<?k]"] exI [of _ "[?k..<8 * length b]"]) (auto simp: window_positions_def is_ahead_def)
  next
    case DOWN
    then show ?thesis using u
      by (intro exI [of _ "rev [?k..<8 * length b]"] exI [of _ "rev [0..<?k]"])
        (auto simp: window_positions_def is_ahead_def simp flip: rev_append)
  qed
qed

text \<open>The initialised positions of the window in the direction of the swap, those ahead of a
  position and those behind it.\<close>

definition initialized_in :: "price_direction \<Rightarrow> bytes \<Rightarrow> nat list" where
  "initialized_in d b = filter (bitmap_bit b) (window_positions d b)"

definition closest_spec :: "nat \<Rightarrow> price_direction \<Rightarrow> bytes \<Rightarrow> int \<Rightarrow> nat list" where
  "closest_spec n d b c =
     (let ahead = filter (is_ahead d c) (initialized_in d b);
          behind = filter (\<lambda>p. \<not> is_ahead d c p) (initialized_in d b) in
      take n ((if behind = [] then [] else [last behind]) @ ahead))"

lemma filter_swap: "filter P (filter Q xs) = filter Q (filter P xs)"
  by (induction xs) auto

lemma closest_loop_spec:
  assumes "2 \<le> n"
  shows "closest_loop (bitmap_bit b) (is_ahead d c) n (window_positions d b) [] = closest_spec n d b c"
proof -
  obtain bs as where w: "window_positions d b = bs @ as" and bs: "\<And>p. p \<in> set bs \<Longrightarrow> \<not> is_ahead d c p"
    and as: "\<And>p. p \<in> set as \<Longrightarrow> is_ahead d c p"
    using window_split [of d b c] by blast
  have "filter (is_ahead d c) (bs @ as) = as" "filter (\<lambda>p. \<not> is_ahead d c p) (bs @ as) = bs"
    using bs as by (simp_all add: filter_id_conv filter_empty_conv)
  then have a: "filter (is_ahead d c) (initialized_in d b) = filter (bitmap_bit b) as"
    "filter (\<lambda>p. \<not> is_ahead d c p) (initialized_in d b) = filter (bitmap_bit b) bs"
    using filter_swap [of "is_ahead d c" "bitmap_bit b" "bs @ as"]
      filter_swap [of "\<lambda>p. \<not> is_ahead d c p" "bitmap_bit b" "bs @ as"]
    by (simp_all only: initialized_in_def w)
  have "length (closest_loop (bitmap_bit b) (is_ahead d c) n bs []) \<le> n"
    using assms closest_loop_behind [of bs "is_ahead d c" n "[]" "bitmap_bit b"] bs by auto
  from closest_loop_ahead [OF as this] show ?thesis
    using closest_loop_behind [of bs "is_ahead d c" n "[]" "bitmap_bit b"] bs assms
    by (simp add: w closest_loop_append closest_spec_def a)
qed

lemma ticks_of_positions_Ok:
  "ticks_of_positions s is = Ok ts \<Longrightarrow> ts = map (\<lambda>i. (i - TICK_LIMIT) * s) is"
  by (induction "is" arbitrary: ts) (auto simp: i32_def split: if_splits)

text \<open>
  C35 (closest_ticks_exact). The ticks loaded for a swap are, from the window of the tick bitmap,
  the nearest initialised tick behind the price, if there is one, and then the initialised
  ticks ahead in the order the swap meets them, four ticks in all. With a tick behind the price
  only three ticks ahead are loaded, although the instruction has room for the tick behind and
  four crossings.
\<close>

theorem closest_ticks_exact:
  assumes "find_closest_tick_indexes pool bitmap TICK_CROSSES_PER_IX offset direction = (Ok ts :: (_, 'x) result)"
  defines "c \<equiv> pl_current_tick_index pool sdiv uint (pl_tick_spacing pool) + TICK_LIMIT - offset * 8"
  shows "ts = map (\<lambda>p. (int p + offset * 8 - TICK_LIMIT) * uint (pl_tick_spacing pool))
      (closest_spec 4 direction bitmap c) \<and>
    (\<forall>p \<in> set (initialized_in direction bitmap). is_ahead direction c p \<or>
      length (filter (is_ahead direction c) (closest_spec 4 direction bitmap c)) \<le> 3)"
proof -
  have "ticks_of_positions (uint (pl_tick_spacing pool)) (map (\<lambda>p. int p + offset * 8) (closest_spec 4 direction bitmap c)) =
      (Ok ts :: (_, 'x) result)"
    using assms(1) by (auto simp: find_closest_tick_indexes_def Let_def i32_def c_def TICK_CROSSES_PER_IX_def
        closest_loop_spec split: if_splits)
  from ticks_of_positions_Ok [OF this] have "ts = map (\<lambda>p. (int p + offset * 8 - TICK_LIMIT) * uint (pl_tick_spacing pool))
      (closest_spec 4 direction bitmap c)" by simp
  moreover have "length (filter (is_ahead direction c) (closest_spec 4 direction bitmap c)) \<le> 3"
    if p: "p \<in> set (initialized_in direction bitmap)" "\<not> is_ahead direction c p" for p
  proof -
    let ?behind = "filter (\<lambda>p. \<not> is_ahead direction c p) (initialized_in direction bitmap)"
    let ?ahead = "filter (is_ahead direction c) (initialized_in direction bitmap)"
    have "?behind \<noteq> []" using p by (auto simp: filter_empty_conv)
    then have "last ?behind \<in> set ?behind" by (rule last_in_set)
    then have "\<not> is_ahead direction c (last ?behind)" by simp
    moreover have "closest_spec 4 direction bitmap c = last ?behind # take 3 ?ahead"
      using \<open>?behind \<noteq> []\<close> by (simp add: closest_spec_def Let_def numeral_eq_Suc)
    ultimately have "filter (is_ahead direction c) (closest_spec 4 direction bitmap c) = filter (is_ahead direction c) (take 3 ?ahead)"
      by simp
    then show ?thesis using length_filter_le [of "is_ahead direction c" "take 3 ?ahead"] by simp
  qed
  ultimately show ?thesis by blast
qed

text \<open>Eight initialised ticks around the price: the one at the price counts as behind.\<close>

definition ref_window :: bytes where
  "ref_window = [255, 0]"

lemma ref_closest: "find_closest_tick_indexes ref_pool ref_window 4 5545 UP = (Ok [0, 10, 20, 30] :: (_, unit) result)"
proof -
  have "closest_loop (bitmap_bit ref_window) (is_ahead UP 4) 4 (window_positions UP ref_window) [] = [4, 5, 6, 7]"
    by code_simp
  then show ?thesis by (simp add: find_closest_tick_indexes_def ref_pool_def i32_def TICK_LIMIT_def)
qed

theorem closest_ticks_exact_witness:
  "find_closest_tick_indexes ref_pool ref_window 4 5545 UP = (Ok [0, 10, 20, 30] :: (_, unit) result) \<and>
    length (filter (is_ahead UP 4) (closest_spec 4 UP ref_window 4)) \<le> 3"
proof -
  have "find_closest_tick_indexes ref_pool ref_window TICK_CROSSES_PER_IX 5545 UP = (Ok [0, 10, 20, 30] :: (_, unit) result)"
    using ref_closest by (simp add: TICK_CROSSES_PER_IX_def)
  from closest_ticks_exact [OF this]
  have "0 \<in> set (initialized_in UP ref_window) \<Longrightarrow> \<not> is_ahead UP 4 0 \<Longrightarrow>
      length (filter (is_ahead UP 4) (closest_spec 4 UP ref_window 4)) \<le> 3"
    by (simp add: ref_pool_def TICK_LIMIT_def) blast
  moreover have "0 \<in> set (initialized_in UP ref_window)" "\<not> is_ahead UP 4 0" by code_simp+
  ultimately show ?thesis using ref_closest by blast
qed

subsection \<open>Beyond the loaded ticks\<close>

definition flat :: "sim_state \<Rightarrow> sim_state \<Rightarrow> bool" where
  "flat st st' \<longleftrightarrow> ss_tick_pos st' = ss_tick_pos st \<and> pl_liquidity (ss_pool st') = pl_liquidity (ss_pool st)"

lemma flat_trans: "flat a b \<Longrightarrow> flat b c \<Longrightarrow> flat a c"
  by (simp add: flat_def)

lemma flat_set_tick [simp]: "flat (set_tick i st) st' = flat st st'" "flat st (set_tick i st') = flat st st'"
  by (simp_all add: flat_def set_tick_def)

lemma flat_count_virtual: "count_virtual st = Ok (Some st') \<Longrightarrow> flat st st'"
  by (auto simp: count_virtual_def flat_def split: if_splits)

lemma flat_account_step: "account_step r st = Ok st' \<Longrightarrow> flat st st'"
  by (auto simp: account_step_def flat_def)

lemma flat_default_tick:
  "cross_tick_no_fee_growth_update (default_tick\<lparr>tk_index := i\<rparr>) pool = Ok pool' \<Longrightarrow> pl_liquidity pool' = pl_liquidity pool"
  by (auto simp: cross_tick_no_fee_growth_update_def crossed_liquidity_def default_tick_def checked_add_Some
      checked_sub_Some word_unat_eq_iff split: if_splits)

lemma flat_cross_initialized:
  assumes "cross_initialized ticks x_to_y enough i st = Ok (Some st')" and "length ticks \<le> ss_tick_pos st"
  shows "flat st st'"
  using assms flat_default_tick
  by (auto simp: cross_initialized_def next_tick_def flat_def Let_def split: if_splits result.splits)

lemma flat_cross_limit:
  assumes "cross_limit dl params ticks next i initialized st = Ok (Some st')" and "length ticks \<le> ss_tick_pos st"
  shows "flat st st'"
proof -
  from assms(1) obtain enough st1 j where
    "(if initialized then cross_initialized ticks (sm_x_to_y params) enough i st else count_virtual st) = Ok (Some st1)"
    "st' = set_tick j st1"
    by (auto simp: cross_limit_def Let_def split: option.split_asm)
  then show ?thesis using assms(2) flat_cross_initialized flat_count_virtual by (auto split: if_splits)
qed

lemma flat_sim_step:
  assumes "sim_step dl params ticks tickmap st = Ok (Some st')" and "length ticks \<le> ss_tick_pos st"
  shows "flat st st'"
proof -
  from assms(1) obtain limiting_tick r st1 where a: "account_step r st = Ok st1"
    and c: "(\<exists>i initialized. limiting_tick = Some (i, initialized) \<and>
        cross_limit dl params ticks (sr_next_price_sqrt r) i initialized st1 = Ok (Some st')) \<or>
     (\<exists>i. count_virtual (set_tick i st1) = Ok (Some st'))"
    by (rule sim_step_Ok) blast
  have f: "flat st st1" using flat_account_step [OF a] .
  then have "length ticks \<le> ss_tick_pos st1" using assms(2) by (simp add: flat_def)
  with c have "flat st1 st'" by (auto dest!: flat_cross_limit flat_count_virtual)
  with f show ?thesis by (rule flat_trans)
qed



subsection \<open>Bitmaps of other pools\<close>

text \<open>Two pools without initialised ticks, with the bitmap accounts 21 and 22, and a node that
  answers with each account asked for exactly once.\<close>

definition ref_pool_data :: "pubkey \<Rightarrow> bytes" where
  "ref_pool_data tickmap = replicate 8 0 @ pubkey_bytes 5 @ pubkey_bytes 6 @ pubkey_bytes 15 @ pubkey_bytes 16 @
     replicate 16 0 @ [10, 0] @ replicate 68 0 @ pubkey_bytes tickmap @ replicate 146 0"

definition ref_node :: "pubkey set \<Rightarrow> ((pubkey \<times> bytes) list, inv_error) result" where
  "ref_node S = Ok (map (\<lambda>k. (k, replicate 11099 0)) (rev (sorted_list_of_set S)))"

definition empty_pool :: "pubkey \<Rightarrow> pool" where
  "empty_pool tickmap = \<lparr>pl_token_x = 5, pl_token_y = 6, pl_token_x_reserve = 15, pl_token_y_reserve = 16,
     pl_position_iterator = 0, pl_tick_spacing = 10, pl_fee = 0, pl_protocol_fee = 0, pl_liquidity = 0,
     pl_sqrt_price = 0, pl_current_tick_index = 0, pl_tickmap = tickmap, pl_fee_growth_global_x = 0,
     pl_fee_growth_global_y = 0, pl_fee_protocol_token_x = 0, pl_fee_protocol_token_y = 0,
     pl_seconds_per_liquidity_global = 0, pl_start_timestamp = 0, pl_last_timestamp = 0, pl_fee_receiver = 0,
     pl_oracle_address = 0, pl_oracle_initialized = False, pl_bump = 0\<rparr>"

lemma ref_pool_read:
  "inv_deserialize borsh_pool (ref_pool_data 21) = Ok (empty_pool 21)"
  "inv_deserialize borsh_pool (ref_pool_data 22) = Ok (empty_pool 22)"
  by code_simp+

lemma ref_tickmap_read: "inv_deserialize borsh_tickmap (replicate 11099 0) = Ok \<lparr>tm_bitmap = replicate 11091 0\<rparr>"
  by (simp add: inv_deserialize_def extract_from_anchor_account_def slice_from_def borsh_tickmap_def)

lemma ref_no_ticks: "find_all_tick_indexes 10 \<lparr>tm_bitmap = replicate 11091 0\<rparr> = Ok []"
proof -
  have f: "filter (bitmap_bit (replicate 11091 0)) [a..<66546] = []" for a
    by (auto simp: filter_empty_conv bitmap_bit_def)
  have "221818 sdiv 10 = (22181 :: int)" "(- 221818) sdiv 10 = (- 22181 :: int)" by code_simp+
  then show ?thesis
    by (simp add: find_all_tick_indexes_def get_max_tick_def get_min_tick_def i32_or_def TICK_LIMIT_def MAX_TICK_def f
        del: upt_rec_numeral)
qed

text \<open>A correct node answers with every account asked for, exactly once, in some order.\<close>

definition correct_node :: "(pubkey set \<Rightarrow> ((pubkey \<times> bytes) list, inv_error) result) \<Rightarrow> bool" where
  "correct_node node \<longleftrightarrow> (\<forall>S accounts. node S = Ok accounts \<longrightarrow> set (map fst accounts) = S \<and> distinct (map fst accounts))"


end
