(* ===== verification/Dex_Build.thy ===== *)
theory Dex_Build
  imports Edge_State Raydium_Dex "HOL-Library.Product_Lexorder"
begin

text \<open>
  From an adapter to the edges of the router: the configured mints
  (\<^verbatim>\<open>bin/autobahn-router/src/utils.rs\<close>), the construction of the edges
  (\<^verbatim>\<open>dex/generic/generic_adapter.rs\<close>) and the list of edges the router is given
  (\<open>Dex::edges\<close> in \<^verbatim>\<open>edge_updater.rs\<close>).

  An \<open>Arc<Edge>\<close> is an index into the list of all edge objects, the heap: two indices are two
  objects, each with its own cached prices, even when they stand for the same edge. A hash map
  that is iterated is an association list in its iteration order. Parsing base58 is a
  parameter.

  The theorems: what the filter keeps, and that every account key gets edge objects of its
  own, so that the object the router reads is only one of several for the same edge.
\<close>

subsection \<open>Configured mints\<close>

datatype build_error = InvalidMint string | MissingMangoMetadata

record mango_metadata =
  mm_mints :: "pubkey list"
  mm_obv2_markets :: "pubkey list"

fun parse_mints ::
    "(string \<Rightarrow> pubkey option) \<Rightarrow> string list \<Rightarrow> (pubkey list, build_error) result" where
  "parse_mints from_str [] = Ok []"
| "parse_mints from_str (s # ss) =
     rbind (ok_or (InvalidMint s) (from_str s)) (\<lambda>m.
     rbind (parse_mints from_str ss) (\<lambda>ms. Ok (m # ms)))"

definition get_configured_mints ::
    "(string \<Rightarrow> pubkey option) \<Rightarrow> mango_metadata option \<Rightarrow> bool \<Rightarrow> bool \<Rightarrow> string list \<Rightarrow>
     (pubkey set, build_error) result" where
  "get_configured_mints from_str mango_metadata enabled add_mango_tokens configured_mints =
     (if \<not> enabled then Ok {}
      else
        rbind (parse_mints from_str configured_mints) (\<lambda>mints.
        if add_mango_tokens then
          (case mango_metadata of
             None \<Rightarrow> Err MissingMangoMetadata
           | Some m \<Rightarrow> Ok (set (mints @ mm_mints m)))
        else Ok (set mints)))"

definition filter_pools_and_mints ::
    "(pubkey \<times> 'p) list \<Rightarrow> pubkey set \<Rightarrow> bool \<Rightarrow> ('p \<Rightarrow> pubkey \<times> pubkey) \<Rightarrow> (pubkey \<times> 'p) list" where
  "filter_pools_and_mints pools mints take_all_mints mints_getter =
     filter (\<lambda>(pool_pk, pool). let keys = mints_getter pool in
       take_all_mints \<or> fst keys \<in> mints \<and> snd keys \<in> mints) pools"

subsection \<open>Subscriptions\<close>

record mixed_dex_subscription =
  ms_accounts :: "pubkey set"
  ms_programs :: "pubkey set"
  ms_token_accounts_for_owner :: "pubkey set"

datatype subscription_mode =
  SubDisabled | SubAccounts "pubkey set" | SubPrograms "pubkey set" | SubMixed mixed_dex_subscription

subsection \<open>Building the edges\<close>

type_synonym edge_ref = nat

record dex =
  d_name :: string
  d_edges_per_pk :: "(pubkey \<times> edge_ref list) list"
  d_subscription_mode :: subscription_mode

text \<open>An adapter after \<open>initialize\<close>: its interface, its edge identifiers by account and its
  subscription mode.\<close>

record ('i, 'd, 'e) adapter =
  ad_dex :: "('i, 'd, 'e) dex_interface"
  ad_edges_per_pk :: "(pubkey \<times> ('i \<times> edge_ident) list) list"
  ad_subscription_mode :: subscription_mode

type_synonym ('i, 'd, 'e) heap = "('i, 'd, 'e) edge list"

definition new_edge :: "('i, 'd, 'e) dex_interface \<Rightarrow> 'i \<times> edge_ident \<Rightarrow> ('i, 'd, 'e) edge" where
  "new_edge di x =
     \<lparr>e_input_mint = id_input_mint (snd x), e_output_mint = id_output_mint (snd x), e_dex = di,
      e_id = fst x, e_ident = snd x, e_accounts_needed = id_accounts_needed (snd x),
      e_state = default_edge_state\<rparr>"

definition keep_edge :: "bool \<Rightarrow> pubkey set \<Rightarrow> 'i \<times> edge_ident \<Rightarrow> bool" where
  "keep_edge take_all_mints mints x \<longleftrightarrow>
     take_all_mints \<or> (id_input_mint (snd x) \<in> mints \<and> id_output_mint (snd x) \<in> mints)"

text \<open>\<open>Arc::new\<close> for every edge kept of every key, in order.\<close>

fun build_edges ::
    "('i, 'd, 'e) dex_interface \<Rightarrow> bool \<Rightarrow> pubkey set \<Rightarrow> (pubkey \<times> ('i \<times> edge_ident) list) list \<Rightarrow>
     ('i, 'd, 'e) heap \<Rightarrow> ('i, 'd, 'e) heap \<times> (pubkey \<times> edge_ref list) list" where
  "build_edges di take_all_mints mints [] heap = (heap, [])"
| "build_edges di take_all_mints mints ((key, edges) # rest) heap =
     (let kept = map (new_edge di) (filter (keep_edge take_all_mints mints) edges);
          refs = [length heap ..< length heap + length kept];
          (heap', m) = build_edges di take_all_mints mints rest (heap @ kept) in
      (heap', if length kept > 0 then (key, refs) # m else m))"

text \<open>The final \<open>match\<close> of \<open>build_dex_internal\<close>.\<close>

fun narrow_subscription ::
    "bool \<Rightarrow> (pubkey \<times> edge_ref list) list \<Rightarrow> subscription_mode \<Rightarrow> subscription_mode" where
  "narrow_subscription take_all_mints edges_per_pk SubDisabled = SubDisabled"
| "narrow_subscription take_all_mints edges_per_pk (SubAccounts a) =
     (if take_all_mints then SubAccounts a else SubAccounts (set (map fst edges_per_pk)))"
| "narrow_subscription take_all_mints edges_per_pk (SubPrograms p) = SubPrograms p"
| "narrow_subscription take_all_mints edges_per_pk (SubMixed m) = SubMixed m"

definition build_dex_internal ::
    "(string \<Rightarrow> pubkey option) \<Rightarrow> ('i, 'd, 'e) adapter \<Rightarrow> mango_metadata option \<Rightarrow> bool \<Rightarrow> bool \<Rightarrow>
     bool \<Rightarrow> string list \<Rightarrow> ('i, 'd, 'e) heap \<Rightarrow> (('i, 'd, 'e) heap \<times> dex, build_error) result" where
  "build_dex_internal from_str ad mango_metadata enabled add_mango_tokens take_all_mints mints heap =
     rbind (get_configured_mints from_str mango_metadata enabled add_mango_tokens mints) (\<lambda>mints.
     case build_edges (ad_dex ad) take_all_mints mints (ad_edges_per_pk ad) heap of
       (heap', edges_per_pk) \<Rightarrow>
     let subscription_mode = narrow_subscription take_all_mints edges_per_pk (ad_subscription_mode ad) in
     Ok (heap', \<lparr>d_name = dex_name (ad_dex ad), d_edges_per_pk = edges_per_pk,
       d_subscription_mode = (if enabled then subscription_mode else SubDisabled)\<rparr>))"

text \<open>The macro \<open>build_dex!\<close>: a disabled dex is not built.\<close>

definition build_dex ::
    "(string \<Rightarrow> pubkey option) \<Rightarrow> ('i, 'd, 'e) adapter \<Rightarrow> mango_metadata option \<Rightarrow> bool \<Rightarrow> bool \<Rightarrow>
     bool \<Rightarrow> string list \<Rightarrow> ('i, 'd, 'e) heap \<Rightarrow>
     (('i, 'd, 'e) heap \<times> dex option, build_error) result" where
  "build_dex from_str ad mango_metadata enabled add_mango_tokens take_all_mints mints heap =
     (if enabled then
        rbind (build_dex_internal from_str ad mango_metadata enabled add_mango_tokens take_all_mints
                 mints heap) (\<lambda>(heap', d). Ok (heap', Some d))
      else Ok (heap, None))"

text \<open>The settings of one dex, and the argument lists of two of the eight calls in \<^verbatim>\<open>main.rs\<close>.\<close>

record dex_config =
  dc_enabled :: bool
  dc_mints :: "string list"
  dc_take_all_mints :: bool
  dc_add_mango_tokens :: bool

definition build_raydium where
  "build_raydium from_str ad mango_data config heap =
     build_dex from_str ad mango_data (dc_enabled config) (dc_add_mango_tokens config)
       (dc_take_all_mints config) (dc_mints config) heap"

definition build_invariant where
  "build_invariant from_str ad mango_data config heap =
     build_dex from_str ad mango_data (dc_enabled config) (dc_take_all_mints config)
       (dc_add_mango_tokens config) (dc_mints config) heap"

subsection \<open>The edges of a dex\<close>

fun unique_by_from :: "('a \<Rightarrow> 'k) \<Rightarrow> 'k list \<Rightarrow> 'a list \<Rightarrow> 'a list" where
  "unique_by_from f seen [] = []"
| "unique_by_from f seen (x # xs) =
     (if f x \<in> set seen then unique_by_from f seen xs else x # unique_by_from f (f x # seen) xs)"

definition uid_of :: "('i, 'd, 'e) heap \<Rightarrow> edge_ref \<Rightarrow> pubkey \<times> pubkey" where
  "uid_of heap r = edge_unique_id (heap ! r)"

definition dex_edges :: "('i, 'd, 'e) heap \<Rightarrow> dex \<Rightarrow> edge_ref list" where
  "dex_edges heap d =
     unique_by_from (uid_of heap) []
       (sort_key (uid_of heap) (concat (map snd (d_edges_per_pk d))))"

lemma set_unique_by_from: "set (unique_by_from f seen xs) \<subseteq> set xs"
  by (induction f seen xs rule: unique_by_from.induct) auto

lemma unique_by_from_keys:
  "f ` set (unique_by_from f seen xs) = f ` set xs - set seen"
  by (induction f seen xs rule: unique_by_from.induct) auto

lemma unique_by_from_distinct: "distinct (map f (unique_by_from f seen xs))"
proof (induction f seen xs rule: unique_by_from.induct)
  case (2 f seen x xs)
  then show ?case using unique_by_from_keys [of f "f x # seen" xs] by auto
qed simp

lemma dex_edges_subset: "set (dex_edges heap d) \<subseteq> \<Union> (set ` snd ` set (d_edges_per_pk d))"
  using set_unique_by_from [of "uid_of heap" "[]" "sort_key (uid_of heap) (concat (map snd (d_edges_per_pk d)))"]
  by (auto simp: dex_edges_def)

lemma dex_edges_uids:
  "uid_of heap ` set (dex_edges heap d) = uid_of heap ` \<Union> (set ` snd ` set (d_edges_per_pk d))"
  by (simp add: dex_edges_def unique_by_from_keys image_image)

lemma dex_edges_distinct: "distinct (map (uid_of heap) (dex_edges heap d))"
  by (simp add: dex_edges_def unique_by_from_distinct)

subsection \<open>What is built\<close>

lemma build_edges_spec:
  "build_edges di t ms src heap = (heap', m) \<Longrightarrow>
     (\<exists>new. heap' = heap @ new) \<and> concat (map snd m) = [length heap ..< length heap'] \<and>
     (\<forall>(k, rs) \<in> set m. rs \<noteq> [] \<and> (\<exists>es. (k, es) \<in> set src \<and>
        map ((!) heap') rs = map (new_edge di) (filter (keep_edge t ms) es)))"
proof (induction di t ms src heap arbitrary: heap' m rule: build_edges.induct)
  case (2 di t ms key edges rest heap)
  let ?kept = "map (new_edge di) (filter (keep_edge t ms) edges)"
  obtain h m' where rec: "build_edges di t ms rest (heap @ ?kept) = (h, m')" by fastforce
  with "2.prems" have h: "heap' = h"
    and m: "m = (if ?kept = [] then m' else (key, [length heap ..< length heap + length ?kept]) # m')"
    by (auto simp: Let_def split: if_splits)
  from "2.IH" [OF refl refl rec] obtain new where IH: "h = (heap @ ?kept) @ new"
    "concat (map snd m') = [length (heap @ ?kept) ..< length h]"
    "\<forall>(k, rs) \<in> set m'. rs \<noteq> [] \<and> (\<exists>es. (k, es) \<in> set rest \<and>
        map ((!) h) rs = map (new_edge di) (filter (keep_edge t ms) es))" by blast
  have own: "map ((!) h) [length heap ..< length heap + length ?kept] = ?kept"
    by (rule nth_equalityI) (simp_all add: IH(1) nth_append)
  have "[length heap ..< length heap + length ?kept] @ [length (heap @ ?kept) ..< length h] =
      [length heap ..< length h]"
    using upt_add_eq_append [of "length heap" "length heap + length ?kept" "length h - (length heap + length ?kept)"]
    by (simp add: IH(1) add.assoc)
  then have "concat (map snd m) = [length heap ..< length h]"
    using IH(2) by (cases "?kept = []") (simp_all add: m)
  moreover have "\<forall>(k, rs) \<in> set m. rs \<noteq> [] \<and> (\<exists>es. (k, es) \<in> set ((key, edges) # rest) \<and>
        map ((!) h) rs = map (new_edge di) (filter (keep_edge t ms) es))"
    using IH(3) own unfolding m by (cases "?kept = []") fastforce+
  ultimately show ?case using IH(1) unfolding h by auto
qed simp

definition refs_of :: "dex \<Rightarrow> edge_ref set" where
  "refs_of d = \<Union> (set ` snd ` set (d_edges_per_pk d))"

lemma build_dex_internal_edges:
  "build_dex_internal fs ad md en am t cm heap = Ok (heap', d) \<Longrightarrow>
     \<exists>ms. get_configured_mints fs md en am cm = Ok ms \<and>
       build_edges (ad_dex ad) t ms (ad_edges_per_pk ad) heap = (heap', d_edges_per_pk d)"
  by (auto simp: build_dex_internal_def Let_def case_prod_unfold prod_eq_iff)

lemma distinct_concat_unique:
  "distinct (concat xss) \<Longrightarrow> i < length xss \<Longrightarrow> j < length xss \<Longrightarrow> x \<in> set (xss ! i) \<Longrightarrow>
     x \<in> set (xss ! j) \<Longrightarrow> i = j"
proof (induction xss arbitrary: i j)
  case (Cons xs xss)
  then show ?case by (cases i; cases j) (auto simp: nth_mem, (metis IntI UN_I empty_iff nth_mem)+)
qed simp

lemma build_dex_internal_owner:
  assumes "build_dex_internal fs ad md en am t cm heap = Ok (heap', d)"
    and "(k, rs) \<in> set (d_edges_per_pk d)" and "(k', rs') \<in> set (d_edges_per_pk d)"
    and "r \<in> set rs" and "r \<in> set rs'"
  shows "k = k' \<and> rs = rs'"
proof -
  obtain ms where "build_edges (ad_dex ad) t ms (ad_edges_per_pk ad) heap = (heap', d_edges_per_pk d)"
    using build_dex_internal_edges [OF assms(1)] by blast
  from build_edges_spec [OF this] have dist: "distinct (concat (map snd (d_edges_per_pk d)))"
    by (metis distinct_upt)
  from assms(2,3) obtain i j where ij: "i < length (d_edges_per_pk d)" "d_edges_per_pk d ! i = (k, rs)"
    "j < length (d_edges_per_pk d)" "d_edges_per_pk d ! j = (k', rs')" by (meson in_set_conv_nth)
  have "i = j"
    by (rule distinct_concat_unique [OF dist, where x = r]) (use ij assms(4,5) in simp_all)
  with ij show ?thesis by simp
qed

lemma parse_mints_sound: "parse_mints fs cm = Ok ms \<Longrightarrow> m \<in> set ms \<Longrightarrow> \<exists>s \<in> set cm. fs s = Some m"
  by (induction cm arbitrary: ms) auto

text \<open>
  Every edge object of a dex that was built is a fresh copy of an
  edge the adapter lists under the same account; unless all mints are taken, both of its mints
  are configured ones, or mints of Mango if those are added; and a dex that subscribes to
  single accounts is subscribed to exactly the accounts that have edges.
\<close>

theorem built_edges_configured:
  assumes "build_dex_internal fs ad md en am t cm heap = Ok (heap', d)"
    and "(k, rs) \<in> set (d_edges_per_pk d)" and "r \<in> set rs"
  shows "length heap \<le> r \<and> r < length heap' \<and>
    (\<exists>es x. (k, es) \<in> set (ad_edges_per_pk ad) \<and> x \<in> set es \<and> heap' ! r = new_edge (ad_dex ad) x) \<and>
    (t \<or> (\<forall>m \<in> {e_input_mint (heap' ! r), e_output_mint (heap' ! r)}.
        (\<exists>s \<in> set cm. fs s = Some m) \<or> (am \<and> (\<exists>mm. md = Some mm \<and> m \<in> set (mm_mints mm))))) \<and>
    (\<forall>a. \<not> t \<longrightarrow> d_subscription_mode d = SubAccounts a \<longrightarrow> a = set (map fst (d_edges_per_pk d)))"
proof -
  obtain ms where ms: "get_configured_mints fs md en am cm = (Ok ms :: (_, build_error) result)"
    and be: "build_edges (ad_dex ad) t ms (ad_edges_per_pk ad) heap = (heap', d_edges_per_pk d)"
    using build_dex_internal_edges [OF assms(1)] by blast
  note spec = build_edges_spec [OF be]
  have conf: "\<forall>m \<in> ms. (\<exists>s \<in> set cm. fs s = Some m) \<or> (am \<and> (\<exists>mm. md = Some mm \<and> m \<in> set (mm_mints mm)))"
    using ms parse_mints_sound by (fastforce simp: get_configured_mints_def split: if_splits option.splits)
  have "r \<in> set (concat (map snd (d_edges_per_pk d)))" using assms(2,3) by force
  then have range: "length heap \<le> r" "r < length heap'" using spec by auto
  from spec assms(2) obtain es where es: "(k, es) \<in> set (ad_edges_per_pk ad)"
    "map ((!) heap') rs = map (new_edge (ad_dex ad)) (filter (keep_edge t ms) es)" by blast
  have "heap' ! r \<in> set (map ((!) heap') rs)" using assms(3) by simp
  then obtain x where x: "x \<in> set es" "keep_edge t ms x" "heap' ! r = new_edge (ad_dex ad) x"
    unfolding es(2) by auto
  then have "t \<or> {e_input_mint (heap' ! r), e_output_mint (heap' ! r)} \<subseteq> ms"
    by (auto simp: keep_edge_def new_edge_def)
  moreover have "d_subscription_mode d \<in>
      {SubDisabled, narrow_subscription t (d_edges_per_pk d) (ad_subscription_mode ad)}"
    using assms(1) by (auto simp: build_dex_internal_def Let_def case_prod_unfold)
  then have "\<forall>a. \<not> t \<longrightarrow> d_subscription_mode d = SubAccounts a \<longrightarrow> a = set (map fst (d_edges_per_pk d))"
    by (cases "ad_subscription_mode ad") force+
  ultimately show ?thesis using range es(1) x conf by blast
qed

text \<open>
  Building a dex gives every account key edge objects of its own: an object
  belongs to exactly one key. The router gets one object per edge (pool and input mint), and
  it reaches every edge; but when an adapter lists an edge under several accounts, the
  objects of the other accounts are different ones, which the router never reads.
\<close>

theorem edge_copies:
  assumes "build_dex_internal fs ad md en am t cm heap = Ok (heap', d)"
  shows "(\<forall>r \<in> set (dex_edges heap' d). \<exists>!k. \<exists>rs. (k, rs) \<in> set (d_edges_per_pk d) \<and> r \<in> set rs) \<and>
    (\<forall>r \<in> refs_of d. \<exists>!r'. r' \<in> set (dex_edges heap' d) \<and> uid_of heap' r' = uid_of heap' r) \<and>
    (\<forall>k rs k' rs'. (k, rs) \<in> set (d_edges_per_pk d) \<longrightarrow> (k', rs') \<in> set (d_edges_per_pk d) \<longrightarrow>
       k \<noteq> k' \<longrightarrow> set rs \<inter> set rs' = {})"
proof (intro conjI ballI allI impI)
  fix r assume "r \<in> set (dex_edges heap' d)"
  then obtain k rs where "(k, rs) \<in> set (d_edges_per_pk d)" "r \<in> set rs"
    using dex_edges_subset by fastforce
  then show "\<exists>!k. \<exists>rs. (k, rs) \<in> set (d_edges_per_pk d) \<and> r \<in> set rs"
    using build_dex_internal_owner [OF assms] by blast
next
  fix r assume "r \<in> refs_of d"
  then have "uid_of heap' r \<in> uid_of heap' ` set (dex_edges heap' d)"
    unfolding refs_of_def dex_edges_uids by blast
  then show "\<exists>!r'. r' \<in> set (dex_edges heap' d) \<and> uid_of heap' r' = uid_of heap' r"
    using dex_edges_distinct [of heap' d] by (auto simp: distinct_map inj_on_def)
next
  fix k rs k' rs' assume "(k, rs) \<in> set (d_edges_per_pk d)" "(k', rs') \<in> set (d_edges_per_pk d)" "k \<noteq> k'"
  then show "set rs \<inter> set rs' = {}" using build_dex_internal_owner [OF assms] by blast
qed

text \<open>
  The call that builds the Invariant dex passes the two flags
  in the wrong order. With the settings of the Eclipse template (take all mints, no Mango
  tokens, no list of mints), Raydium keeps every account that has edges, but Invariant keeps
  only edges between Mango tokens, and start-up fails when the Mango data are missing.
\<close>

lemma keep_all [simp]: "filter (keep_edge True ms) es = es"
  by (simp add: keep_edge_def)

lemma build_edges_all:
  "build_edges di True ms src heap = (heap', m) \<Longrightarrow> map fst m = map fst (filter (\<lambda>(k, es). es \<noteq> []) src)"
  by (induction di True ms src heap arbitrary: heap' m rule: build_edges.induct)
    (auto simp: Let_def split: prod.splits if_splits)

theorem invariant_take_all_ignored:
  assumes "dc_enabled c" and "dc_take_all_mints c" and "\<not> dc_add_mango_tokens c" and "dc_mints c = []"
  shows "build_invariant fs ad None c heap = Err MissingMangoMetadata \<and>
    (build_invariant fs ad (Some mm) c heap = Ok (heap', Some d) \<longrightarrow>
      (\<forall>(k, rs) \<in> set (d_edges_per_pk d). \<forall>r \<in> set rs.
         {e_input_mint (heap' ! r), e_output_mint (heap' ! r)} \<subseteq> set (mm_mints mm))) \<and>
    (\<exists>h d'. build_raydium fs ad md c heap = Ok (h, Some d') \<and>
       map fst (d_edges_per_pk d') = map fst (filter (\<lambda>(k, es). es \<noteq> []) (ad_edges_per_pk ad)))"
proof (intro conjI impI)
  show "build_invariant fs ad None c heap = Err MissingMangoMetadata"
    using assms by (simp add: build_invariant_def build_dex_def build_dex_internal_def get_configured_mints_def)
next
  assume "build_invariant fs ad (Some mm) c heap = Ok (heap', Some d)"
  then have b: "build_dex_internal fs ad (Some mm) True True False [] heap = Ok (heap', d)"
    using assms by (auto simp: build_invariant_def build_dex_def)
  obtain ms where ms: "get_configured_mints fs (Some mm) True True [] = (Ok ms :: (_, build_error) result)"
    and be: "build_edges (ad_dex ad) False ms (ad_edges_per_pk ad) heap = (heap', d_edges_per_pk d)"
    using build_dex_internal_edges [OF b] by blast
  have "ms = set (mm_mints mm)" using ms by (simp add: get_configured_mints_def)
  moreover have "{e_input_mint (heap' ! r), e_output_mint (heap' ! r)} \<subseteq> ms"
    if "(k, rs) \<in> set (d_edges_per_pk d)" "r \<in> set rs" for k rs r
  proof -
    from build_edges_spec [OF be] that(1) obtain es where
      "map ((!) heap') rs = map (new_edge (ad_dex ad)) (filter (keep_edge False ms) es)" by blast
    moreover have "heap' ! r \<in> set (map ((!) heap') rs)" using that(2) by simp
    ultimately show ?thesis by (auto simp: keep_edge_def new_edge_def)
  qed
  ultimately show "\<forall>(k, rs) \<in> set (d_edges_per_pk d). \<forall>r \<in> set rs.
      {e_input_mint (heap' ! r), e_output_mint (heap' ! r)} \<subseteq> set (mm_mints mm)" by fast
next
  obtain h m where be: "build_edges (ad_dex ad) True {} (ad_edges_per_pk ad) heap = (h, m)" by fastforce
  from build_edges_all [OF be] show "\<exists>h d'. build_raydium fs ad md c heap = Ok (h, Some d') \<and>
       map fst (d_edges_per_pk d') = map fst (filter (\<lambda>(k, es). es \<noteq> []) (ad_edges_per_pk ad))"
    using assms be
    by (simp add: build_raydium_def build_dex_def build_dex_internal_def get_configured_mints_def Let_def)
qed

subsection \<open>A concrete dex\<close>

text \<open>One pool with two edges, listed under two accounts.\<close>

definition ref_ident :: "pubkey \<Rightarrow> pubkey \<Rightarrow> edge_ident" where
  "ref_ident a b = \<lparr>id_key = 9, id_desc = ''ref_9'', id_input_mint = a, id_output_mint = b,
     id_accounts_needed = 4\<rparr>"

definition ref_adapter :: "(unit, unit, unit) adapter" where
  "ref_adapter = \<lparr>ad_dex = ref_dex,
     ad_edges_per_pk = [(9, [((), ref_ident 5 6), ((), ref_ident 6 5)]),
                        (11, [((), ref_ident 5 6), ((), ref_ident 6 5)])],
     ad_subscription_mode = SubAccounts {9, 11}\<rparr>"

definition ref_heap :: "(unit, unit, unit) heap" where
  "ref_heap = map (new_edge ref_dex) [((), ref_ident 5 6), ((), ref_ident 6 5), ((), ref_ident 5 6), ((), ref_ident 6 5)]"

definition ref_built :: dex where
  "ref_built = \<lparr>d_name = ''ref'', d_edges_per_pk = [(9, [0, 1]), (11, [2, 3])],
     d_subscription_mode = SubAccounts {9, 11}\<rparr>"

definition ref_from_str :: "string \<Rightarrow> pubkey option" where
  "ref_from_str s = (if s = ''a'' then Some 5 else if s = ''b'' then Some 6 else None)"

lemma ref_built_eq:
  "build_dex_internal ref_from_str ref_adapter None True False False [''a'', ''b''] [] =
     Ok (ref_heap, ref_built)"
  by (simp add: build_dex_internal_def get_configured_mints_def ref_adapter_def keep_edge_def ref_ident_def
      ref_heap_def ref_built_def ref_dex_def Let_def ref_from_str_def upt_conv_Cons
      flip: numeral_2_eq_2)

lemma ref_dex_edges: "dex_edges ref_heap ref_built = [0, 1]"
  by (simp add: dex_edges_def ref_built_def uid_of_def ref_heap_def edge_unique_id_def new_edge_def ref_ident_def
      nth_Cons_numeral)

theorem built_edges_configured_witness:
  "3 < length ref_heap \<and> e_input_mint (ref_heap ! 3) = 6 \<and>
   ref_from_str ''b'' = Some (e_input_mint (ref_heap ! 3))"
  using built_edges_configured [OF ref_built_eq, of 11 "[2, 3]" 3]
  by (simp add: ref_built_def ref_heap_def new_edge_def ref_ident_def ref_from_str_def)

theorem edge_copies_witness:
  "set [0, 1] \<inter> set [2, 3 :: nat] = {} \<and> uid_of ref_heap 2 = uid_of ref_heap 0 \<and>
   2 \<notin> set (dex_edges ref_heap ref_built)"
  using edge_copies [OF ref_built_eq]
  by (simp add: ref_dex_edges) (simp add: uid_of_def ref_heap_def)

theorem invariant_take_all_ignored_witness:
  "build_invariant (\<lambda>s. None) ref_adapter None
     \<lparr>dc_enabled = True, dc_mints = [], dc_take_all_mints = True, dc_add_mango_tokens = False\<rparr> [] =
     Err MissingMangoMetadata"
  by (rule invariant_take_all_ignored [THEN conjunct1]) simp_all

end
