(* ===== verification/Edge_Updater.thy ===== *)
theory Edge_Updater
  imports Dex_Build "HOL-Library.AList" "HOL-Library.Multiset"
begin

text \<open>
  The job that keeps the edges of one dex up to date
  (\<^verbatim>\<open>bin/autobahn-router/src/edge_updater.rs\<close>): a loop over account, metadata, price and slot
  messages and a timer. Messages mark edges dirty; the timer refreshes dirty edges once all
  subscribed data have arrived.

  The state is \<open>updater\<close>: the fields of \<open>EdgeUpdaterState\<close> and what was sent on the two outgoing
  channels. Edge objects live in the heap of \<open>Dex_Build\<close>. One round of \<open>select!\<close> is \<open>updater_step\<close>
  on an \<open>event\<close>; \<open>updater_run\<close> is the loop. The clock, the time a refresh takes and the iteration
  order of the dirty map are part of the timer event. Metrics and logging are left out.

  The theorems: the dex is reported ready once, when everything subscribed has arrived, and no
  edge is refreshed before; an edge object that was marked is refreshed or still marked, as
  long as no two objects share a pool and input mint; every refresh makes progress; and what
  the copies of \<open>Dex_Build\<close> and the lag detector do to that.
\<close>

subsection \<open>Messages\<close>

datatype feed_metadata =
  InvalidAccount pubkey | SnapshotStart "pubkey option" | SnapshotEnd "pubkey option"

text \<open>What a broadcast receiver returns.\<close>

datatype 'a recv = Received 'a | Closed | Lagged u64

text \<open>The surroundings of one refresh.\<close>

record 'e refresh_env =
  re_ln :: "f64 \<Rightarrow> f64"
  re_now :: u64
  re_view :: "'e account_view"
  re_decimals :: "pubkey \<Rightarrow> u8 option"
  re_price_ui :: "pubkey \<Rightarrow> f64 option"
  re_amounts :: "u64 list"
  re_order :: "((pubkey \<times> pubkey) \<times> edge_ref) list \<Rightarrow> ((pubkey \<times> pubkey) \<times> edge_ref) list"
  re_over_budget :: "nat \<Rightarrow> bool"

datatype 'e event =
  Exit
| SlotUpdate "u64 recv" nat
| MetadataUpdate "feed_metadata recv"
| AccountUpdate "(pubkey \<times> pubkey \<times> u64) recv"
| PriceUpdate pubkey
| Tick bool "'e refresh_env"

subsection \<open>State\<close>

record updater_state =
  is_ready :: bool
  latest_slot_pending :: u64
  latest_slot_processed :: u64
  slot_excessive_lagging_since :: "nat option"
  dirty_prices :: bool
  received_account :: "pubkey set"
  dirty_programs :: "pubkey set"
  dirty_token_accounts_for_owners :: bool
  dirty_edges :: "((pubkey \<times> pubkey) \<times> edge_ref) list"
  edges_per_mint :: "pubkey \<rightharpoonup> edge_ref list"

record updater =
  eu_dex :: dex
  eu_state :: updater_state
  eu_registered_mints :: "pubkey set"
  eu_ready_sent :: nat

record updater_conf =
  uc_slot_excessive_lag :: "u64 option"
  uc_slot_excessive_lag_max_duration_secs :: "u64 option"
  uc_spl_token_id :: pubkey

definition push_entry :: "pubkey \<Rightarrow> edge_ref \<Rightarrow> (pubkey \<rightharpoonup> edge_ref list) \<Rightarrow> (pubkey \<rightharpoonup> edge_ref list)" where
  "push_entry k r m = m(k \<mapsto> (case m k of None \<Rightarrow> [] | Some rs \<Rightarrow> rs) @ [r])"

definition index_mints :: "('i, 'd, 'e) heap \<Rightarrow> edge_ref list \<Rightarrow> (pubkey \<rightharpoonup> edge_ref list)" where
  "index_mints heap edges = fold (\<lambda>r m. push_entry (e_output_mint (heap ! r)) r
     (push_entry (e_input_mint (heap ! r)) r m)) edges Map.empty"

text \<open>The state \<open>spawn_updater_job\<close> starts the loop with; no job for a disabled dex.\<close>

definition spawn_updater_job :: "('i, 'd, 'e) heap \<Rightarrow> dex \<Rightarrow> updater option" where
  "spawn_updater_job heap d =
     (if d_subscription_mode d = SubDisabled then None
      else Some \<lparr>eu_dex = d,
        eu_state = \<lparr>is_ready = False, latest_slot_pending = 0, latest_slot_processed = 0,
          slot_excessive_lagging_since = None, dirty_prices = False, received_account = {},
          dirty_programs = {}, dirty_token_accounts_for_owners = False, dirty_edges = [],
          edges_per_mint = index_mints heap (dex_edges heap d)\<rparr>,
        eu_registered_mints = {}, eu_ready_sent = 0\<rparr>)"

subsection \<open>Slot lag\<close>

text \<open>Instants are nanoseconds; \<open>slot as i64 - processed as i64\<close> is checked for overflow.\<close>

definition i64_sub :: "u64 \<Rightarrow> u64 \<Rightarrow> (int, 'x) result" where
  "i64_sub a b = (let n = sint a - sint b in if - (2 ^ 63) \<le> n \<and> n < 2 ^ 63 then Ok n else Panic)"

definition detect_and_handle_slot_lag ::
    "updater_conf \<Rightarrow> nat \<Rightarrow> u64 recv \<Rightarrow> updater_state \<Rightarrow> (updater_state, 'x) result" where
  "detect_and_handle_slot_lag conf now slot st =
     (if latest_slot_processed st = 0 then Ok st
      else case slot of
        Received slot \<Rightarrow>
          rbind (i64_sub slot (latest_slot_processed st)) (\<lambda>lag.
          if lag \<le> 0 then Ok st
          else
            let max_lag = (case uc_slot_excessive_lag conf of None \<Rightarrow> 300 | Some n \<Rightarrow> n);
                max_lag_duration = 1000000000 *
                  unat (case uc_slot_excessive_lag_max_duration_secs conf of None \<Rightarrow> 60 | Some n \<Rightarrow> n) in
            if of_int lag \<ge> max_lag then
              (case slot_excessive_lagging_since st of
                 None \<Rightarrow> Ok (st\<lparr>slot_excessive_lagging_since := Some now\<rparr>)
               | Some since \<Rightarrow> if now - since > max_lag_duration then Panic else Ok st)
            else if slot_excessive_lagging_since st \<noteq> None
              then Ok (st\<lparr>slot_excessive_lagging_since := None\<rparr>)
              else Ok st)
      | _ \<Rightarrow> Ok st)"

subsection \<open>Readiness\<close>

definition on_ready :: "('i, 'd, 'e) heap \<Rightarrow> updater \<Rightarrow> updater" where
  "on_ready heap u = u\<lparr>eu_registered_mints := eu_registered_mints u \<union>
       (\<Union>r \<in> set (dex_edges heap (eu_dex u)). {e_input_mint (heap ! r), e_output_mint (heap ! r)}),
     eu_ready_sent := eu_ready_sent u + 1\<rparr>"

text \<open>The test of \<open>check_readiness\<close> for each mode; \<open>Disabled\<close> leaves the flag as it is.\<close>

definition all_received :: "subscription_mode \<Rightarrow> updater_state \<Rightarrow> bool" where
  "all_received mode st = (case mode of
     SubAccounts accounts \<Rightarrow> accounts \<subseteq> received_account st
   | SubDisabled \<Rightarrow> is_ready st
   | SubPrograms programs \<Rightarrow> programs \<subseteq> dirty_programs st
   | SubMixed m \<Rightarrow> ms_accounts m \<subseteq> received_account st \<and> ms_programs m \<subseteq> dirty_programs st \<and>
       (dirty_token_accounts_for_owners st \<or> ms_token_accounts_for_owner m = {}))"

definition check_readiness :: "('i, 'd, 'e) heap \<Rightarrow> updater \<Rightarrow> updater" where
  "check_readiness heap u =
     (if is_ready (eu_state u) then u
      else
        let ready = all_received (d_subscription_mode (eu_dex u)) (eu_state u);
            u = u\<lparr>eu_state := (eu_state u)\<lparr>is_ready := ready\<rparr>\<rparr> in
        if ready then on_ready heap u else u)"

subsection \<open>Messages\<close>

definition on_metadata_update ::
    "updater_conf \<Rightarrow> ('i, 'd, 'e) heap \<Rightarrow> feed_metadata recv \<Rightarrow> updater \<Rightarrow> updater" where
  "on_metadata_update conf heap res u =
     (let st = eu_state u in
      case res of
        Received (InvalidAccount key) \<Rightarrow>
          check_readiness heap (u\<lparr>eu_state := st\<lparr>received_account := insert key (received_account st)\<rparr>\<rparr>)
      | Received (SnapshotEnd (Some x)) \<Rightarrow>
          if x = uc_spl_token_id conf
          then check_readiness heap (u\<lparr>eu_state := st\<lparr>dirty_token_accounts_for_owners := True\<rparr>\<rparr>)
          else check_readiness heap (u\<lparr>eu_state := st\<lparr>dirty_programs := insert x (dirty_programs st)\<rparr>\<rparr>)
      | _ \<Rightarrow> u)"

definition do_update :: "dex \<Rightarrow> pubkey \<Rightarrow> pubkey \<Rightarrow> bool" where
  "do_update d pk owner =
     (if map_of (d_edges_per_pk d) pk \<noteq> None then True
      else case d_subscription_mode d of
        SubAccounts accounts \<Rightarrow> pk \<in> accounts
      | SubDisabled \<Rightarrow> False
      | SubPrograms programs \<Rightarrow> pk \<in> programs \<or> owner \<in> programs
      | SubMixed m \<Rightarrow> pk \<in> ms_accounts m \<or> pk \<in> ms_token_accounts_for_owner m \<or>
          pk \<in> ms_programs m \<or> owner \<in> ms_programs m)"

text \<open>\<open>dirty_edges.insert(edge.unique_id(), edge.clone())\<close>: the map is keyed by pool and input
  mint, so an object replaces another one of the same key.\<close>

definition mark_dirty :: "('i, 'd, 'e) heap \<Rightarrow> edge_ref list \<Rightarrow> updater_state \<Rightarrow> updater_state" where
  "mark_dirty heap edges st =
     st\<lparr>dirty_edges := fold (\<lambda>r. AList.update (uid_of heap r) r) edges (dirty_edges st)\<rparr>"

definition edges_at :: "dex \<Rightarrow> pubkey \<Rightarrow> edge_ref list" where
  "edges_at d pk = (case map_of (d_edges_per_pk d) pk of None \<Rightarrow> [] | Some rs \<Rightarrow> rs)"

definition invalidate_one ::
    "('i, 'd, 'e) heap \<Rightarrow> (pubkey \<times> pubkey \<times> u64) recv \<Rightarrow> updater \<Rightarrow> bool \<times> updater" where
  "invalidate_one heap res u =
     (case res of
        Closed \<Rightarrow> (False, u)
      | Lagged n \<Rightarrow> (True, u)
      | Received (pk, owner, slot) \<Rightarrow>
          if \<not> do_update (eu_dex u) pk owner then (True, u)
          else
            let st = mark_dirty heap (edges_at (eu_dex u) pk) (eu_state u);
                st = st\<lparr>received_account := insert pk (received_account st)\<rparr>;
                st = (if latest_slot_pending st < slot then st\<lparr>latest_slot_pending := slot\<rparr> else st) in
            (True, check_readiness heap (u\<lparr>eu_state := st\<rparr>)))"

definition on_price_update :: "('i, 'd, 'e) heap \<Rightarrow> pubkey \<Rightarrow> updater \<Rightarrow> updater" where
  "on_price_update heap mint u =
     (case edges_per_mint (eu_state u) mint of
        None \<Rightarrow> u
      | Some impacted \<Rightarrow> u\<lparr>eu_state := mark_dirty heap impacted (eu_state u)\<rparr>)"

subsection \<open>Refreshing\<close>

definition refresh_edge ::
    "'e refresh_env \<Rightarrow> edge_ref \<Rightarrow> ('i, 'd, 'e) heap \<Rightarrow> (('i, 'd, 'e) heap, 'x) result" where
  "refresh_edge env r heap =
     rbind (edge_update (re_ln env) (re_now env) (re_view env) (re_decimals env) (re_price_ui env)
              (re_amounts env) (heap ! r)) (\<lambda>st.
     Ok (heap[r := (heap ! r)\<lparr>e_state := st\<rparr>]))"

text \<open>The loop stops after an edge when the budget of 100 ms is spent; it returns the entries it
  refreshed.\<close>

fun refresh_loop ::
    "'e refresh_env \<Rightarrow> nat \<Rightarrow> ((pubkey \<times> pubkey) \<times> edge_ref) list \<Rightarrow> ('i, 'd, 'e) heap \<Rightarrow>
     (('i, 'd, 'e) heap \<times> ((pubkey \<times> pubkey) \<times> edge_ref) list, 'x) result" where
  "refresh_loop env n [] heap = Ok (heap, [])"
| "refresh_loop env n ((uid, r) # rest) heap =
     rbind (refresh_edge env r heap) (\<lambda>heap.
     if re_over_budget env (Suc n) then Ok (heap, [(uid, r)])
     else rbind (refresh_loop env (Suc n) rest heap) (\<lambda>(heap, done).
       Ok (heap, (uid, r) # done)))"

definition refresh_some ::
    "'e refresh_env \<Rightarrow> ('i, 'd, 'e) heap \<Rightarrow> updater \<Rightarrow>
     (('i, 'd, 'e) heap \<times> updater \<times> edge_ref list, 'x) result" where
  "refresh_some env heap u =
     (let st = eu_state u in
      if dirty_edges st = [] \<or> \<not> is_ready st then Ok (heap, u, [])
      else
        rbind (refresh_loop env 0 (re_order env (dirty_edges st)) heap) (\<lambda>(heap, refreshed).
        let st = st\<lparr>dirty_edges := fold (\<lambda>x. AList.delete (fst x)) refreshed (dirty_edges st)\<rparr>;
            st = st\<lparr>latest_slot_processed := latest_slot_pending st\<rparr> in
        Ok (heap, u\<lparr>eu_state := st\<rparr>, map snd refreshed)))"

subsection \<open>The loop\<close>

text \<open>The flag says whether the loop goes on; the list is the edge objects refreshed.\<close>

fun updater_step ::
    "updater_conf \<Rightarrow> 'e event \<Rightarrow> ('i, 'd, 'e) heap \<Rightarrow> updater \<Rightarrow>
     (bool \<times> ('i, 'd, 'e) heap \<times> updater \<times> edge_ref list, 'x) result" where
  "updater_step conf Exit heap u = Ok (False, heap, u, [])"
| "updater_step conf (SlotUpdate slot now) heap u =
     rbind (detect_and_handle_slot_lag conf now slot (eu_state u)) (\<lambda>st.
     Ok (True, heap, u\<lparr>eu_state := st\<rparr>, []))"
| "updater_step conf (MetadataUpdate res) heap u = Ok (True, heap, on_metadata_update conf heap res u, [])"
| "updater_step conf (AccountUpdate res) heap u =
     (case invalidate_one heap res u of (go_on, u) \<Rightarrow> Ok (go_on, heap, u, []))"
| "updater_step conf (PriceUpdate mint) heap u = Ok (True, heap, on_price_update heap mint u, [])"
| "updater_step conf (Tick timed_out env) heap u =
     (if \<not> is_ready (eu_state u) \<and> timed_out then Ok (False, heap, u, [])
      else rbind (refresh_some env heap u) (\<lambda>(heap, u, refreshed). Ok (True, heap, u, refreshed)))"

text \<open>The last \<open>try_send\<close> unblocks whoever waits for the dex.\<close>

fun updater_run ::
    "updater_conf \<Rightarrow> 'e event list \<Rightarrow> ('i, 'd, 'e) heap \<Rightarrow> updater \<Rightarrow>
     (bool \<times> ('i, 'd, 'e) heap \<times> updater \<times> edge_ref list, 'x) result" where
  "updater_run conf [] heap u = Ok (True, heap, u, [])"
| "updater_run conf (ev # evs) heap u =
     rbind (updater_step conf ev heap u) (\<lambda>(go_on, heap, u, refreshed).
     if go_on then
       rbind (updater_run conf evs heap u) (\<lambda>(go_on, heap, u, more).
       Ok (go_on, heap, u, refreshed @ more))
     else Ok (False, heap, u\<lparr>eu_ready_sent := eu_ready_sent u + 1\<rparr>, refreshed))"

subsection \<open>Runs\<close>

lemma updater_run_Cons:
  assumes "updater_run conf (ev # evs) h u = (Ok (g, h', u', lg) :: (_, 'x) result)"
  obtains (go_on) h1 u1 rs more where "updater_step conf ev h u = (Ok (True, h1, u1, rs) :: (_, 'x) result)"
      "updater_run conf evs h1 u1 = (Ok (g, h', u', more) :: (_, 'x) result)" "lg = rs @ more"
  | (stop) u1 where "updater_step conf ev h u = (Ok (False, h', u1, lg) :: (_, 'x) result)" "\<not> g"
      "u' = u1\<lparr>eu_ready_sent := eu_ready_sent u1 + 1\<rparr>"
proof -
  from assms obtain g1 h1 u1 rs where s: "updater_step conf ev h u = (Ok (g1, h1, u1, rs) :: (_, 'x) result)"
    by auto
  show ?thesis
  proof (cases g1)
    case True
    with assms s obtain more where "updater_run conf evs h1 u1 = (Ok (g, h', u', more) :: (_, 'x) result)"
      "lg = rs @ more" by auto
    with s True show ?thesis using go_on by simp
  next
    case False
    with assms s show ?thesis using stop by auto
  qed
qed

lemma updater_run_inv:
  assumes "\<And>ev h u L g h' u' rs. I h u L \<Longrightarrow> ev \<in> set evs \<Longrightarrow>
      updater_step conf ev h u = (Ok (g, h', u', rs) :: (_, 'x) result) \<Longrightarrow> I h' u' (L @ rs)"
    and "updater_run conf evs h u = (Ok (g, h', u', lg) :: (_, 'x) result)" and "I h u L"
  shows "\<exists>u''. I h' u'' (L @ lg) \<and>
    u' = (if g then u'' else u''\<lparr>eu_ready_sent := eu_ready_sent u'' + 1\<rparr>)"
  using assms
proof (induction evs arbitrary: h u L lg)
  case (Cons ev evs)
  from Cons.prems(2) show ?case
  proof (cases rule: updater_run_Cons)
    case (go_on h1 u1 rs more)
    have I: "I h1 u1 (L @ rs)" by (rule Cons.prems(1) [OF Cons.prems(3) _ go_on(1)]) simp
    have "\<exists>u''. I h' u'' ((L @ rs) @ more) \<and>
        u' = (if g then u'' else u''\<lparr>eu_ready_sent := eu_ready_sent u'' + 1\<rparr>)"
      by (rule Cons.IH [OF _ go_on(2) I], rule Cons.prems(1)) simp_all
    then show ?thesis by (simp only: go_on(3) append_assoc)
  next
    case (stop u1)
    have "I h' u1 (L @ lg)" by (rule Cons.prems(1) [OF Cons.prems(3) _ stop(1)]) simp
    with stop show ?thesis by auto
  qed
qed auto

text \<open>Refreshing changes nothing but the states of edges.\<close>

definition same_edges :: "('i, 'd, 'e) heap \<Rightarrow> ('i, 'd, 'e) heap \<Rightarrow> bool" where
  "same_edges h h' \<longleftrightarrow> length h' = length h \<and>
     (\<forall>r. (h' ! r)\<lparr>e_state := default_edge_state\<rparr> = (h ! r)\<lparr>e_state := default_edge_state\<rparr>)"

lemma same_edges_refl [simp]: "same_edges h h"
  by (simp add: same_edges_def)

lemma same_edges_trans: "same_edges h h' \<Longrightarrow> same_edges h' h'' \<Longrightarrow> same_edges h h''"
  by (simp add: same_edges_def)

lemma same_edges_update: "same_edges h (h[r := (h ! r)\<lparr>e_state := st\<rparr>])"
  by (cases "r < length h") (auto simp: same_edges_def nth_list_update list_update_beyond)

lemma same_edges_uid:
  assumes "same_edges h h'"
  shows "uid_of h' = uid_of h"
proof
  fix r
  have "e_ident ((h' ! r)\<lparr>e_state := default_edge_state\<rparr>) = e_ident ((h ! r)\<lparr>e_state := default_edge_state\<rparr>)"
    using assms by (simp only: same_edges_def)
  then show "uid_of h' r = uid_of h r" by (simp add: uid_of_def edge_unique_id_def)
qed

lemma same_edges_mints:
  assumes "same_edges h h'"
  shows "e_input_mint (h' ! r) = e_input_mint (h ! r) \<and> e_output_mint (h' ! r) = e_output_mint (h ! r)"
proof -
  have "(h' ! r)\<lparr>e_state := default_edge_state\<rparr> = (h ! r)\<lparr>e_state := default_edge_state\<rparr>"
    using assms by (simp only: same_edges_def)
  then have "e_input_mint ((h' ! r)\<lparr>e_state := default_edge_state\<rparr>) = e_input_mint ((h ! r)\<lparr>e_state := default_edge_state\<rparr>)"
    "e_output_mint ((h' ! r)\<lparr>e_state := default_edge_state\<rparr>) = e_output_mint ((h ! r)\<lparr>e_state := default_edge_state\<rparr>)"
    by simp_all
  then show ?thesis by simp
qed

lemma same_edges_dex_edges: "same_edges h h' \<Longrightarrow> dex_edges h' d = dex_edges h d"
  by (simp add: dex_edges_def same_edges_uid)

lemma refresh_edge_same: "refresh_edge env r h = Ok h' \<Longrightarrow> same_edges h h'"
  by (auto simp: refresh_edge_def intro: same_edges_update)

lemma refresh_edge_other: "refresh_edge env r h = Ok h' \<Longrightarrow> r' \<noteq> r \<Longrightarrow> h' ! r' = h ! r'"
  by (auto simp: refresh_edge_def)

text \<open>A refresh handles a non-empty first part of the list.\<close>

lemma refresh_loop_spec:
  "refresh_loop env n xs h = (Ok (h', done) :: (_, 'x) result) \<Longrightarrow>
     same_edges h h' \<and> (\<forall>r. r \<notin> snd ` set done \<longrightarrow> h' ! r = h ! r) \<and>
     (\<exists>rest. xs = done @ rest) \<and> (xs \<noteq> [] \<longrightarrow> done \<noteq> [])"
proof (induction xs arbitrary: n h h' "done")
  case (Cons x rest)
  obtain uid r where x: "x = (uid, r)" by fastforce
  from Cons.prems obtain h1 where h1: "refresh_edge env r h = (Ok h1 :: (_, 'x) result)"
    by (auto simp: x)
  show ?case
  proof (cases "re_over_budget env (Suc n)")
    case True
    with Cons.prems h1 show ?thesis
      using refresh_edge_same [OF h1] refresh_edge_other [OF h1] by (auto simp: x)
  next
    case False
    with Cons.prems h1 obtain d' where
      d': "refresh_loop env (Suc n) rest h1 = (Ok (h', d') :: (_, 'x) result)" "done = (uid, r) # d'"
      by (auto simp: x)
    from Cons.IH [OF d'(1)] show ?thesis
      using refresh_edge_same [OF h1] refresh_edge_other [OF h1] d'(2)
      by (auto simp: x intro: same_edges_trans)
  qed
qed simp

lemma refresh_loop_all:
  "refresh_loop env n xs h = Ok (h', done) \<Longrightarrow> (\<And>k. \<not> re_over_budget env k) \<Longrightarrow> done = xs"
  by (induction xs arbitrary: n h h' "done") auto

lemma refresh_some_cases:
  assumes "refresh_some env h u = (Ok (h', u', rs) :: (_, 'x) result)"
  shows "(h' = h \<and> u' = u \<and> rs = [] \<and> (dirty_edges (eu_state u) = [] \<or> \<not> is_ready (eu_state u))) \<or>
    (is_ready (eu_state u) \<and> dirty_edges (eu_state u) \<noteq> [] \<and>
     (\<exists>done. refresh_loop env 0 (re_order env (dirty_edges (eu_state u))) h = (Ok (h', done) :: (_, 'x) result) \<and>
       rs = map snd done \<and>
       u' = u\<lparr>eu_state := (eu_state u)
         \<lparr>dirty_edges := fold (\<lambda>x. AList.delete (fst x)) done (dirty_edges (eu_state u)),
          latest_slot_processed := latest_slot_pending (eu_state u)\<rparr>\<rparr>))"
  using assms
  by (cases "dirty_edges (eu_state u) = [] \<or> \<not> is_ready (eu_state u)")
    (auto simp: refresh_some_def Let_def)

lemma fold_delete: "fold (\<lambda>x. AList.delete (fst x)) ds al = filter (\<lambda>x. fst x \<notin> fst ` set ds) al"
  by (induction ds arbitrary: al) (auto simp: AList.delete_eq case_prod_unfold intro!: filter_cong)

subsection \<open>The dirty map\<close>

text \<open>Well-formed: one entry per pool and input mint, each naming an object of the dex.\<close>

definition dirty_ok :: "('i, 'd, 'e) heap \<Rightarrow> updater_state \<Rightarrow> bool" where
  "dirty_ok h st \<longleftrightarrow> distinct (map fst (dirty_edges st)) \<and>
     (\<forall>(uid, r) \<in> set (dirty_edges st). uid = uid_of h r)"

definition dirty_refs :: "updater_state \<Rightarrow> edge_ref set" where
  "dirty_refs st = snd ` set (dirty_edges st)"

lemma dirty_ok_same: "same_edges h h' \<Longrightarrow> dirty_ok h' st = dirty_ok h st"
  by (simp add: dirty_ok_def same_edges_uid)

lemma set_update_distinct:
  "distinct (map fst al) \<Longrightarrow> set (AList.update k v al) = {x \<in> set al. fst x \<noteq> k} \<union> {(k, v)}"
  by (induction al) (auto simp: image_iff)

text \<open>Marking one object takes the place of an object with the same key.\<close>

definition mark_one :: "('i, 'd, 'e) heap \<Rightarrow> edge_ref \<Rightarrow> updater_state \<Rightarrow> updater_state" where
  "mark_one h r st = st\<lparr>dirty_edges := AList.update (uid_of h r) r (dirty_edges st)\<rparr>"

lemma mark_dirty_Nil [simp]: "mark_dirty h [] st = st"
  by (simp add: mark_dirty_def)

lemma mark_dirty_Cons [simp]: "mark_dirty h (r # rs) st = mark_dirty h rs (mark_one h r st)"
  by (simp add: mark_dirty_def mark_one_def)

lemma mark_one_ok: "dirty_ok h st \<Longrightarrow> dirty_ok h (mark_one h r st)"
  by (auto simp: dirty_ok_def mark_one_def distinct_update set_update_distinct)

lemma mark_one_refs:
  "dirty_ok h st \<Longrightarrow> dirty_refs (mark_one h r st) = {x \<in> dirty_refs st. uid_of h x \<noteq> uid_of h r} \<union> {r}"
  by (fastforce simp: dirty_ok_def mark_one_def dirty_refs_def set_update_distinct)

lemma mark_dirty_ok: "dirty_ok h st \<Longrightarrow> dirty_ok h (mark_dirty h rs st)"
  by (induction rs arbitrary: st) (simp_all add: mark_one_ok)

lemma mark_dirty_refs_sub: "dirty_ok h st \<Longrightarrow> dirty_refs (mark_dirty h rs st) \<subseteq> dirty_refs st \<union> set rs"
proof (induction rs arbitrary: st)
  case (Cons r rs)
  from Cons.IH [OF mark_one_ok [OF Cons.prems]] show ?case
    using mark_one_refs [OF Cons.prems] by auto
qed simp

text \<open>Among objects with different keys nothing is displaced.\<close>

lemma mark_dirty_refs:
  "dirty_ok h st \<Longrightarrow> inj_on (uid_of h) (dirty_refs st \<union> set rs) \<Longrightarrow>
     dirty_refs (mark_dirty h rs st) = dirty_refs st \<union> set rs"
proof (induction rs arbitrary: st)
  case (Cons r rs)
  have one: "dirty_refs (mark_one h r st) = insert r (dirty_refs st)"
    using mark_one_refs [OF Cons.prems(1)] Cons.prems(2) by (auto simp: inj_on_def)
  show ?case using Cons.IH [OF mark_one_ok [OF Cons.prems(1)]] Cons.prems(2) by (simp add: one)
qed simp

lemma mark_dirty_simps [simp]:
  "is_ready (mark_dirty h rs st) = is_ready st"
  "received_account (mark_dirty h rs st) = received_account st"
  "dirty_programs (mark_dirty h rs st) = dirty_programs st"
  "dirty_token_accounts_for_owners (mark_dirty h rs st) = dirty_token_accounts_for_owners st"
  "edges_per_mint (mark_dirty h rs st) = edges_per_mint st"
  by (simp_all add: mark_dirty_def)

lemma check_readiness_simps [simp]:
  "eu_dex (check_readiness h u) = eu_dex u"
  "dirty_edges (eu_state (check_readiness h u)) = dirty_edges (eu_state u)"
  "edges_per_mint (eu_state (check_readiness h u)) = edges_per_mint (eu_state u)"
  by (simp_all add: check_readiness_def on_ready_def Let_def)

text \<open>What a step does to the dirty map.\<close>

inductive dirty_change ::
    "dex \<Rightarrow> (pubkey \<rightharpoonup> edge_ref list) \<Rightarrow> ('i, 'd, 'e) heap \<Rightarrow> 'e event \<Rightarrow> updater_state \<Rightarrow>
     updater_state \<Rightarrow> edge_ref list \<Rightarrow> bool" for d m h where
  same: "dirty_edges st' = dirty_edges st \<Longrightarrow> (\<And>pk own sl. ev = AccountUpdate (Received (pk, own, sl)) \<Longrightarrow>
     edges_at d pk = []) \<Longrightarrow> dirty_change d m h ev st st' []"
| account: "dirty_edges st' = dirty_edges (mark_dirty h (edges_at d pk) st) \<Longrightarrow>
    dirty_change d m h (AccountUpdate (Received (pk, own, sl))) st st' []"
| price: "m mint = Some rs \<Longrightarrow> dirty_edges st' = dirty_edges (mark_dirty h rs st) \<Longrightarrow>
    dirty_change d m h (PriceUpdate mint) st st' []"
| refresh: "is_ready st \<Longrightarrow> dirty_edges st \<noteq> [] \<Longrightarrow>
    re_order env (dirty_edges st) = finished @ rest \<Longrightarrow>
    finished \<noteq> [] \<or> re_order env (dirty_edges st) = [] \<Longrightarrow>
    dirty_edges st' = filter (\<lambda>x. fst x \<notin> fst ` set finished) (dirty_edges st) \<Longrightarrow>
    dirty_change d m h (Tick timed_out env) st st' (map snd finished)"

lemma detect_dirty: "detect_and_handle_slot_lag conf now slot st = Ok st' \<Longrightarrow>
     \<exists>x. st' = st\<lparr>slot_excessive_lagging_since := x\<rparr>"
  by (auto simp: detect_and_handle_slot_lag_def Let_def split: if_splits recv.splits option.splits)
    (metis updater_state.surjective updater_state.update_convs(4))+

lemma step_dirty:
  assumes "updater_step conf ev h u = (Ok (g, h', u', rs) :: (_, 'x) result)"
  shows "dirty_change (eu_dex u) (edges_per_mint (eu_state u)) h ev (eu_state u) (eu_state u') rs \<and>
    eu_dex u' = eu_dex u \<and> edges_per_mint (eu_state u') = edges_per_mint (eu_state u) \<and>
    same_edges h h' \<and> (\<forall>r. r \<notin> set rs \<longrightarrow> h' ! r = h ! r)"
proof (cases ev)
  case (SlotUpdate slot now)
  with assms obtain st where "detect_and_handle_slot_lag conf now slot (eu_state u) = (Ok st :: (_, 'x) result)"
    "u' = u\<lparr>eu_state := st\<rparr>" "h' = h" "rs = []" by auto
  with detect_dirty [OF this(1)] show ?thesis using SlotUpdate by (auto intro: dirty_change.same)
next
  case (AccountUpdate res)
  show ?thesis
  proof (cases "\<exists>pk own sl. res = Received (pk, own, sl) \<and> do_update (eu_dex u) pk own")
    case True
    then obtain pk own sl where r: "res = Received (pk, own, sl)" "do_update (eu_dex u) pk own" by blast
    show ?thesis using assms unfolding AccountUpdate r(1)
      by (auto simp: invalidate_one_def r Let_def intro!: dirty_change.account)
  next
    case False
    then have "u' = u" "h' = h" "rs = []"
      using assms by (auto simp: AccountUpdate invalidate_one_def split: recv.splits)
    moreover have "edges_at (eu_dex u) pk = []" if "ev = AccountUpdate (Received (pk, own, sl))" for pk own sl
      using False that by (auto simp: AccountUpdate do_update_def edges_at_def split: if_splits)
    ultimately show ?thesis by (auto intro: dirty_change.same)
  qed
next
  case (MetadataUpdate res)
  then show ?thesis using assms
    by (auto simp: on_metadata_update_def Let_def intro!: dirty_change.same
        split: recv.splits feed_metadata.splits option.splits if_splits)
next
  case (PriceUpdate mint)
  then show ?thesis using assms
    by (auto simp: on_price_update_def intro: dirty_change.same dirty_change.price split: option.splits)
next
  case (Tick timed_out env)
  show ?thesis
  proof (cases "\<not> is_ready (eu_state u) \<and> timed_out")
    case True
    then show ?thesis using assms Tick by (auto intro: dirty_change.same)
  next
    case False
    then have r: "refresh_some env h u = (Ok (h', u', rs) :: (_, 'x) result)" using assms Tick by auto
    show ?thesis using refresh_some_cases [OF r]
    proof (elim disjE conjE exE)
      fix finished
      assume a: "is_ready (eu_state u)" "dirty_edges (eu_state u) \<noteq> []" "rs = map snd finished"
        "refresh_loop env 0 (re_order env (dirty_edges (eu_state u))) h = (Ok (h', finished) :: (_, 'x) result)"
        and u': "u' = u\<lparr>eu_state := (eu_state u)
           \<lparr>dirty_edges := fold (\<lambda>x. AList.delete (fst x)) finished (dirty_edges (eu_state u)),
            latest_slot_processed := latest_slot_pending (eu_state u)\<rparr>\<rparr>"
      from refresh_loop_spec [OF a(4)] obtain rest where f: "same_edges h h'"
        "\<forall>r. r \<notin> snd ` set finished \<longrightarrow> h' ! r = h ! r"
        "re_order env (dirty_edges (eu_state u)) = finished @ rest"
        "re_order env (dirty_edges (eu_state u)) \<noteq> [] \<longrightarrow> finished \<noteq> []" by blast
      have ne: "finished \<noteq> [] \<or> re_order env (dirty_edges (eu_state u)) = []" using f(4) by blast
      have untouched: "\<forall>r. r \<notin> set rs \<longrightarrow> h' ! r = h ! r" using f(2) by (simp add: a(3))
      have "dirty_change (eu_dex u) (edges_per_mint (eu_state u)) h ev (eu_state u) (eu_state u') rs"
        unfolding Tick a(3) by (rule dirty_change.refresh [OF a(1,2) f(3) ne]) (simp add: u' fold_delete)
      moreover have "eu_dex u' = eu_dex u" "edges_per_mint (eu_state u') = edges_per_mint (eu_state u)"
        by (simp_all add: u')
      ultimately show ?thesis using f(1) untouched by (intro conjI)
    qed (auto simp: Tick intro: dirty_change.same)
  qed
qed (use assms in \<open>auto intro: dirty_change.same\<close>)

subsection \<open>Nothing marked is lost\<close>

text \<open>The dirty map may be iterated in any order.\<close>

definition order_ok :: "'e event \<Rightarrow> bool" where
  "order_ok ev = (case ev of Tick timed_out env \<Rightarrow> (\<forall>xs. mset (re_order env xs) = mset xs) | _ \<Rightarrow> True)"

lemma finished_sub:
  assumes "order_ok (Tick timed_out env)" and "re_order env xs = finished @ rest"
  shows "set finished \<subseteq> set xs"
proof -
  have "mset (finished @ rest) = mset xs" using assms by (simp add: order_ok_def flip: assms(2))
  then have "set (finished @ rest) = set xs" by (rule mset_eq_setD)
  then show ?thesis by auto
qed

lemma change_ok:
  "dirty_change d m h ev st st' rs \<Longrightarrow> dirty_ok h st \<Longrightarrow> dirty_ok h st'"
proof (induction rule: dirty_change.induct)
  case (account st' pk st own sl)
  from mark_dirty_ok [OF account(2), of "edges_at d pk"] show ?case by (simp add: dirty_ok_def account(1))
next
  case (price mint rs st' st)
  from mark_dirty_ok [OF price(3), of rs] show ?case by (simp add: dirty_ok_def price(2))
next
  case (refresh st env finished rest st' timed_out)
  then show ?case by (auto simp: dirty_ok_def distinct_map_filter)
qed (simp add: dirty_ok_def)

lemma dirty_refs_cong: "dirty_edges st = dirty_edges st' \<Longrightarrow> dirty_refs st = dirty_refs st'"
  by (simp add: dirty_refs_def)

lemma edges_at_sub: "set (edges_at d pk) \<subseteq> refs_of d"
  by (cases "map_of (d_edges_per_pk d) pk") (auto simp: edges_at_def refs_of_def dest!: map_of_SomeD intro!: bexI)

text \<open>The objects a step marks.\<close>

lemma change_sub:
  assumes "dirty_change d m h ev st st' rs" and "dirty_ok h st" and "order_ok ev"
  shows "set rs \<subseteq> dirty_refs st \<and> dirty_refs st' \<subseteq> dirty_refs st \<union> (case ev of
      AccountUpdate (Received (pk, own, sl)) \<Rightarrow> set (edges_at d pk)
    | PriceUpdate mint \<Rightarrow> (case m mint of None \<Rightarrow> {} | Some es \<Rightarrow> set es)
    | _ \<Rightarrow> {})"
  using assms
proof (induction rule: dirty_change.induct)
  case (account st' pk st own sl)
  then show ?case using mark_dirty_refs_sub [OF account(2), of "edges_at d pk"] dirty_refs_cong [OF account(1)]
    by auto
next
  case (price mint es st' st)
  then show ?case using mark_dirty_refs_sub [OF price(3), of es] dirty_refs_cong [OF price(2)] by auto
next
  case (refresh st env finished rest st' timed_out)
  from finished_sub [OF refresh(7) refresh(3)] show ?case by (auto simp: dirty_refs_def refresh(5))
qed (auto dest: dirty_refs_cong)

definition index_ok :: "dex \<Rightarrow> (pubkey \<rightharpoonup> edge_ref list) \<Rightarrow> bool" where
  "index_ok d m \<longleftrightarrow> (\<forall>mint es. m mint = Some es \<longrightarrow> set es \<subseteq> refs_of d)"

text \<open>Among objects with different keys a step forgets only what it refreshed.\<close>

lemma change_kept:
  assumes "dirty_change d m h ev st st' rs" and "dirty_ok h st" and "order_ok ev"
    and "inj_on (uid_of h) (refs_of d)" and "dirty_refs st \<subseteq> refs_of d"
    and "index_ok d m"
  shows "dirty_refs st \<subseteq> dirty_refs st' \<union> set rs \<and>
    (\<forall>pk own sl. ev = AccountUpdate (Received (pk, own, sl)) \<longrightarrow> set (edges_at d pk) \<subseteq> dirty_refs st')"
  using assms
proof (induction rule: dirty_change.induct)
  case (same st' st ev)
  then show ?case using dirty_refs_cong [OF same(1)] by auto
next
  case (account st' pk st own sl)
  have "inj_on (uid_of h) (dirty_refs st \<union> set (edges_at d pk))"
    by (rule inj_on_subset [OF account(4)]) (use account(5) edges_at_sub in auto)
  from mark_dirty_refs [OF account(2) this] show ?case using dirty_refs_cong [OF account(1)] by auto
next
  case (price mint es st' st)
  have "inj_on (uid_of h) (dirty_refs st \<union> set es)"
    by (rule inj_on_subset [OF price(5)]) (use price(1,6,7) in \<open>auto simp: index_ok_def\<close>)
  from mark_dirty_refs [OF price(3) this] show ?case using dirty_refs_cong [OF price(2)] by auto
next
  case (refresh st env finished rest st' timed_out)
  note sub = finished_sub [OF refresh(7) refresh(3)]
  have "r \<in> dirty_refs st' \<union> set (map snd finished)" if "r \<in> dirty_refs st" for r
  proof -
    from that obtain uid where x: "(uid, r) \<in> set (dirty_edges st)" by (auto simp: dirty_refs_def)
    show ?thesis
    proof (cases "uid \<in> fst ` set finished")
      case True
      then obtain r' where r': "(uid, r') \<in> set finished" by auto
      with sub x refresh(6) have "r' = r" by (auto simp: dirty_ok_def dest: eq_key_imp_eq_value)
      with r' show ?thesis by force
    next
      case False
      with x show ?thesis by (force simp: dirty_refs_def refresh(5))
    qed
  qed
  then show ?case by auto
qed

text \<open>The invariant of a run.\<close>

definition dirty_inv ::
    "('i, 'd, 'e) heap \<Rightarrow> dex \<Rightarrow> (pubkey \<rightharpoonup> edge_ref list) \<Rightarrow> ('i, 'd, 'e) heap \<Rightarrow> updater \<Rightarrow> bool" where
  "dirty_inv h0 d m h u \<longleftrightarrow> same_edges h0 h \<and> dirty_ok h (eu_state u) \<and>
     dirty_refs (eu_state u) \<subseteq> refs_of d \<and> eu_dex u = d \<and> edges_per_mint (eu_state u) = m"

lemma dirty_inv_step:
  assumes "dirty_inv h0 d m h u" and "order_ok ev"
    and "updater_step conf ev h u = (Ok (g, h', u', rs) :: (_, 'x) result)"
    and "index_ok d m"
  shows "dirty_inv h0 d m h' u' \<and> dirty_change d m h ev (eu_state u) (eu_state u') rs \<and>
    (\<forall>r. r \<notin> set rs \<longrightarrow> h' ! r = h ! r)"
proof -
  from step_dirty [OF assms(3)] assms(1) have c: "dirty_change d m h ev (eu_state u) (eu_state u') rs"
    and s: "eu_dex u' = d" "edges_per_mint (eu_state u') = m" "same_edges h h'"
    and un: "\<forall>r. r \<notin> set rs \<longrightarrow> h' ! r = h ! r"
    unfolding dirty_inv_def by auto
  have ok: "dirty_ok h (eu_state u)" using assms(1) by (simp add: dirty_inv_def)
  have "dirty_refs (eu_state u') \<subseteq> refs_of d"
    by (rule subset_trans [OF conjunct2 [OF change_sub [OF c ok assms(2)]]])
      (use assms(1,4) in \<open>auto simp: dirty_inv_def index_ok_def dest: subsetD [OF edges_at_sub]
         split: event.splits recv.splits option.splits\<close>)
  moreover have "same_edges h0 h'" using assms(1) s(3) same_edges_trans unfolding dirty_inv_def by blast
  moreover have "dirty_ok h' (eu_state u')" using change_ok [OF c ok] dirty_ok_same [OF s(3)] by simp
  ultimately show ?thesis using c s(1,2) un unfolding dirty_inv_def by (intro conjI)
qed

lemma push_entry_Some:
  "push_entry a r m k = Some es \<Longrightarrow> x \<in> set es \<Longrightarrow> x = r \<and> k = a \<or> (\<exists>es'. m k = Some es' \<and> x \<in> set es')"
  by (auto simp: push_entry_def split: if_splits option.splits)

lemma index_mints_Some:
  "index_mints heap edges k = Some es \<Longrightarrow> r \<in> set es \<Longrightarrow>
     r \<in> set edges \<and> k \<in> {e_input_mint (heap ! r), e_output_mint (heap ! r)}"
proof (induction edges arbitrary: es rule: rev_induct)
  case (snoc x edges)
  let ?m = "index_mints heap edges"
  have "push_entry (e_output_mint (heap ! x)) x (push_entry (e_input_mint (heap ! x)) x ?m) k = Some es"
    using snoc.prems(1) by (simp add: index_mints_def)
  from push_entry_Some [OF this snoc.prems(2)] consider "r = x" "k = e_output_mint (heap ! x)"
    | es' where "push_entry (e_input_mint (heap ! x)) x ?m k = Some es'" "r \<in> set es'" by blast
  then show ?case
  proof cases
    case (2 es')
    from push_entry_Some [OF 2] show ?thesis using snoc.IH by auto
  qed simp
qed (simp add: index_mints_def)

lemma spawned:
  assumes "spawn_updater_job h d = Some u"
  shows "dirty_inv h d (index_mints h (dex_edges h d)) h u \<and> \<not> is_ready (eu_state u) \<and>
    eu_ready_sent u = 0 \<and> eu_registered_mints u = {} \<and> dirty_edges (eu_state u) = [] \<and>
    d_subscription_mode d \<noteq> SubDisabled"
  using assms by (auto simp: spawn_updater_job_def dirty_inv_def dirty_ok_def dirty_refs_def split: if_splits)

lemma spawned_mints: "index_ok d (index_mints h (dex_edges h d))"
proof (unfold index_ok_def, intro allI impI subsetI)
  fix mint es r assume "index_mints h (dex_edges h d) mint = Some es" "r \<in> set es"
  then have "r \<in> set (dex_edges h d)" using index_mints_Some by blast
  then show "r \<in> refs_of d" using subsetD [OF dex_edges_subset [of h d]] by (simp add: refs_of_def)
qed

lemma edges_at_owner:
  "build_dex_internal fs ad md en am t cm heap = Ok (h, d) \<Longrightarrow> (k, es) \<in> set (d_edges_per_pk d) \<Longrightarrow>
     r \<in> set es \<Longrightarrow> pk \<noteq> k \<Longrightarrow> r \<notin> set (edges_at d pk)"
  using build_dex_internal_owner [of fs ad md en am t cm heap h d k es pk _ r]
  by (cases "map_of (d_edges_per_pk d) pk") (auto simp: edges_at_def dest: map_of_SomeD)

lemma updater_run_append:
  "updater_run conf (xs @ ys) h u = (Ok (True, h', u', lg) :: (_, 'x) result) \<Longrightarrow>
     \<exists>h1 u1 l1 l2. updater_run conf xs h u = (Ok (True, h1, u1, l1) :: (_, 'x) result) \<and>
       updater_run conf ys h1 u1 = (Ok (True, h', u', l2) :: (_, 'x) result) \<and> lg = l1 @ l2"
proof (induction xs arbitrary: h u lg)
  case (Cons x xs)
  from Cons.prems [unfolded append_Cons] show ?case
  proof (cases rule: updater_run_Cons)
    case (go_on h1 u1 rs more)
    from Cons.IH [OF go_on(2)] go_on(1,3) show ?thesis by fastforce
  qed simp
qed simp

lemma dirty_inv_run:
  assumes "dirty_inv h0 d m h u" and "\<forall>ev \<in> set evs. order_ok ev"
    and "index_ok d m"
    and "updater_run conf evs h u = (Ok (True, h', u', lg) :: (_, 'x) result)"
  shows "dirty_inv h0 d m h' u'"
  using updater_run_inv [where I = "\<lambda>h u L. dirty_inv h0 d m h u", OF _ assms(4) assms(1)]
    dirty_inv_step [OF _ _ _ assms(3)] assms(2) by fastforce

lemma marked_run:
  assumes "dirty_inv h0 d m h u" and "\<forall>ev \<in> set evs. order_ok ev"
    and "index_ok d m" and "inj_on (uid_of h0) (refs_of d)"
    and "updater_run conf evs h u = (Ok (True, h', u', lg) :: (_, 'x) result)"
    and "r \<in> dirty_refs (eu_state u)"
  shows "r \<in> set lg \<or> r \<in> dirty_refs (eu_state u')"
proof -
  let ?I = "\<lambda>h u L. dirty_inv h0 d m h u \<and> (r \<in> set L \<or> r \<in> dirty_refs (eu_state u))"
  have "\<exists>u''. ?I h' u'' ([] @ lg) \<and>
      u' = (if True then u'' else u''\<lparr>eu_ready_sent := eu_ready_sent u'' + 1\<rparr>)"
  proof (rule updater_run_inv [where I = ?I, OF _ assms(5)])
    fix ev h u L g h' u' rs
    assume I: "?I h u L" and ev: "ev \<in> set evs"
      and s: "updater_step conf ev h u = (Ok (g, h', u', rs) :: (_, 'x) result)"
    have o: "order_ok ev" using assms(2) ev by blast
    from dirty_inv_step [OF conjunct1 [OF I] o s assms(3)]
    have st: "dirty_inv h0 d m h' u'" "dirty_change d m h ev (eu_state u) (eu_state u') rs" by blast+
    have d: "dirty_ok h (eu_state u)" "dirty_refs (eu_state u) \<subseteq> refs_of d" "same_edges h0 h"
      using I by (auto simp: dirty_inv_def)
    have "inj_on (uid_of h) (refs_of d)" using assms(4) same_edges_uid [OF d(3)] by simp
    from change_kept [OF st(2) d(1) o this d(2) assms(3)]
    show "?I h' u' (L @ rs)" using I st(1) by auto
  qed (use assms(1,6) in simp)
  then show ?thesis by auto
qed

subsection \<open>Properties\<close>

text \<open>
  C27 (update_not_lost). When no two edge objects of a dex stand for the same pool and input
  mint, no account update is lost: after the message for an account, each of its edge objects
  is refreshed later in the run, or is still marked for the next refresh.
\<close>

theorem update_not_lost:
  assumes "spawn_updater_job h d = Some u" and "inj_on (uid_of h) (refs_of d)"
    and "\<forall>ev \<in> set (pre @ AccountUpdate (Received (pk, own, sl)) # post). order_ok ev"
    and "updater_run conf (pre @ AccountUpdate (Received (pk, own, sl)) # post) h u =
      (Ok (True, h', u', lg) :: (_, 'x) result)"
    and "r \<in> set (edges_at d pk)"
  shows "\<exists>h1 u1 l1 l2. updater_run conf pre h u = (Ok (True, h1, u1, l1) :: (_, 'x) result) \<and>
    lg = l1 @ l2 \<and> (r \<in> set l2 \<or> r \<in> dirty_refs (eu_state u'))"
proof -
  let ?m = "index_mints h (dex_edges h d)" and ?a = "AccountUpdate (Received (pk, own, sl))"
  from updater_run_append [OF assms(4)] obtain h1 u1 l1 l2 where
    pre: "updater_run conf pre h u = (Ok (True, h1, u1, l1) :: (_, 'x) result)" and
    rest: "updater_run conf (?a # post) h1 u1 = (Ok (True, h', u', l2) :: (_, 'x) result)" "lg = l1 @ l2"
    by blast
  have I1: "dirty_inv h d ?m h1 u1"
    by (rule dirty_inv_run [OF conjunct1 [OF spawned [OF assms(1)]] _ spawned_mints pre]) (use assms(3) in auto)
  from rest(1) obtain h2 u2 rs l3 where a: "updater_step conf ?a h1 u1 = (Ok (True, h2, u2, rs) :: (_, 'x) result)"
    "updater_run conf post h2 u2 = (Ok (True, h', u', l3) :: (_, 'x) result)" "l2 = rs @ l3"
    by (cases rule: updater_run_Cons) auto
  have o: "order_ok ?a" by (simp add: order_ok_def)
  from dirty_inv_step [OF I1 o a(1) spawned_mints] have I2: "dirty_inv h d ?m h2 u2"
    and c: "dirty_change d ?m h1 ?a (eu_state u1) (eu_state u2) rs" by blast+
  have "inj_on (uid_of h1) (refs_of d)" using assms(2) same_edges_uid [of h h1] I1 by (simp add: dirty_inv_def)
  from change_kept [OF c _ o this _ spawned_mints] I1 assms(5)
  have "r \<in> dirty_refs (eu_state u2)" unfolding dirty_inv_def by blast
  from marked_run [OF I2 _ spawned_mints assms(2) a(2) this] assms(3)
  have "r \<in> set l3 \<or> r \<in> dirty_refs (eu_state u')" by auto
  with pre rest(2) a(3) show ?thesis by auto
qed

text \<open>
  C28 (starved_copy). The edges that are built do not meet that condition. The object the router
  reads belongs to one account; without updates of that account and of the prices of its two
  mints, it is never refreshed and keeps its cached prices, whatever happens to the other
  accounts of the same pool.
\<close>

theorem starved_copy:
  assumes "build_dex_internal fs ad md en am t cm heap = Ok (h, d)" and "spawn_updater_job h d = Some u"
    and "(k, es) \<in> set (d_edges_per_pk d)" and "r \<in> set es" and "\<forall>ev \<in> set evs. order_ok ev"
    and "\<And>pk own sl. AccountUpdate (Received (pk, own, sl)) \<in> set evs \<Longrightarrow> pk \<noteq> k"
    and "\<And>mint. PriceUpdate mint \<in> set evs \<Longrightarrow> mint \<notin> {e_input_mint (h ! r), e_output_mint (h ! r)}"
    and "updater_run conf evs h u = (Ok (g, h', u', lg) :: (_, 'x) result)"
  shows "h' ! r = h ! r \<and> r \<notin> set lg"
proof -
  let ?m = "index_mints h (dex_edges h d)"
  let ?I = "\<lambda>h1 u1 L. dirty_inv h d ?m h1 u1 \<and> r \<notin> dirty_refs (eu_state u1) \<and> r \<notin> set L \<and> h1 ! r = h ! r"
  have "\<exists>u''. ?I h' u'' ([] @ lg) \<and>
      u' = (if g then u'' else u''\<lparr>eu_ready_sent := eu_ready_sent u'' + 1\<rparr>)"
  proof (rule updater_run_inv [where I = ?I, OF _ assms(8)])
    fix ev h1 u1 L g h2 u2 rs
    assume I: "?I h1 u1 L" and ev: "ev \<in> set evs"
      and s: "updater_step conf ev h1 u1 = (Ok (g, h2, u2, rs) :: (_, 'x) result)"
    have o: "order_ok ev" using assms(5) ev by blast
    from dirty_inv_step [OF conjunct1 [OF I] o s spawned_mints]
    have st: "dirty_inv h d ?m h2 u2" "dirty_change d ?m h1 ev (eu_state u1) (eu_state u2) rs"
      "\<forall>r. r \<notin> set rs \<longrightarrow> h2 ! r = h1 ! r" by blast+
    have ok: "dirty_ok h1 (eu_state u1)" using I by (simp add: dirty_inv_def)
    note acc = edges_at_owner [OF assms(1,3,4)]
    from change_sub [OF st(2) ok o] have "set rs \<subseteq> dirty_refs (eu_state u1)"
      and new: "dirty_refs (eu_state u2) \<subseteq> dirty_refs (eu_state u1) \<union> (case ev of
        AccountUpdate (Received (pk, own, sl)) \<Rightarrow> set (edges_at d pk)
      | PriceUpdate mint \<Rightarrow> (case ?m mint of None \<Rightarrow> {} | Some es \<Rightarrow> set es) | _ \<Rightarrow> {})" by blast+
    have "r \<notin> dirty_refs (eu_state u2)"
      using new I acc assms(6,7) ev index_mints_Some [of h "dex_edges h d" _ _ r]
      by (fastforce split: event.splits recv.splits option.splits)
    then show "?I h2 u2 (L @ rs)" using I st \<open>set rs \<subseteq> dirty_refs (eu_state u1)\<close> by auto
  qed (use spawned [OF assms(2)] in \<open>simp add: dirty_refs_def\<close>)
  then show ?thesis by auto
qed

text \<open>
  Worse, a mark on the router's object does not survive: an update of
  another account of the pool puts that account's copy in its place, so the next refresh
  leaves the router's object as it is.
\<close>

lemma mark_dirty_displaces:
  "dirty_ok h st \<Longrightarrow> r' \<in> set rs \<Longrightarrow> uid_of h r' = uid_of h r \<Longrightarrow> r \<notin> set rs \<Longrightarrow>
     r \<notin> dirty_refs (mark_dirty h rs st)"
proof (induction rs arbitrary: st)
  case (Cons x rs)
  show ?case
  proof (cases "x = r'")
    case True
    with Cons.prems have "r \<notin> dirty_refs (mark_one h x st)" by (auto simp: mark_one_refs)
    with mark_dirty_refs_sub [OF mark_one_ok [OF Cons.prems(1)]] Cons.prems(4) show ?thesis by auto
  next
    case False
    with Cons show ?thesis by (simp add: mark_one_ok)
  qed
qed simp

theorem copy_displaces:
  assumes "build_dex_internal fs ad md en am t cm heap = Ok (h, d)" and "spawn_updater_job h d = Some u"
    and "\<forall>ev \<in> set evs. order_ok ev"
    and "updater_run conf evs h u = (Ok (True, h1, u1, lg) :: (_, 'x) result)"
    and "(k, es) \<in> set (d_edges_per_pk d)" and "r \<in> set es" and "pk \<noteq> k"
    and "r' \<in> set (edges_at d pk)" and "uid_of h r' = uid_of h r"
  shows "\<exists>u2. updater_step conf (AccountUpdate (Received (pk, own, sl))) h1 u1 =
      (Ok (True, h1, u2, []) :: (_, 'x) result) \<and> r' \<in> refs_of d \<and> r \<notin> dirty_refs (eu_state u2)"
proof -
  let ?m = "index_mints h (dex_edges h d)" and ?a = "AccountUpdate (Received (pk, own, sl))"
  have I: "dirty_inv h d ?m h1 u1"
    by (rule dirty_inv_run [OF conjunct1 [OF spawned [OF assms(2)]] assms(3) spawned_mints assms(4)])
  note r = edges_at_owner [OF assms(1,5,6,7)]
  have up: "do_update (eu_dex u1) pk own"
    using assms(8) I by (auto simp: do_update_def edges_at_def dirty_inv_def split: option.splits)
  obtain u2 where s: "updater_step conf ?a h1 u1 = (Ok (True, h1, u2, []) :: (_, 'x) result)"
    and e: "dirty_edges (eu_state u2) = dirty_edges (mark_dirty h1 (edges_at d pk) (eu_state u1))"
    using up I by (auto simp: invalidate_one_def Let_def dirty_inv_def)
  have "r \<notin> dirty_refs (mark_dirty h1 (edges_at d pk) (eu_state u1))"
    by (rule mark_dirty_displaces [OF _ assms(8) _ r])
      (use I assms(9) same_edges_uid [of h h1] in \<open>simp_all add: dirty_inv_def\<close>)
  with s dirty_refs_cong [OF e] edges_at_sub assms(8) show ?thesis by blast
qed

subsection \<open>Readiness\<close>

definition nothing_received :: "updater_state \<Rightarrow> bool" where
  "nothing_received st \<longleftrightarrow> received_account st = {} \<and> dirty_programs st = {} \<and>
     \<not> dirty_token_accounts_for_owners st"

definition dex_mints :: "('i, 'd, 'e) heap \<Rightarrow> dex \<Rightarrow> pubkey set" where
  "dex_mints h d = (\<Union>r \<in> set (dex_edges h d). {e_input_mint (h ! r), e_output_mint (h ! r)})"

text \<open>What holds before a check, and what holds after it.\<close>

definition ready_pre :: "('i, 'd, 'e) heap \<Rightarrow> dex \<Rightarrow> updater \<Rightarrow> bool" where
  "ready_pre h d u \<longleftrightarrow> eu_dex u = d \<and>
     (is_ready (eu_state u) \<longrightarrow> all_received (d_subscription_mode d) (eu_state u) \<and>
        eu_ready_sent u = 1 \<and> eu_registered_mints u = dex_mints h d) \<and>
     (\<not> is_ready (eu_state u) \<longrightarrow> eu_ready_sent u = 0 \<and> eu_registered_mints u = {})"

definition ready_inv :: "('i, 'd, 'e) heap \<Rightarrow> dex \<Rightarrow> updater \<Rightarrow> bool" where
  "ready_inv h d u \<longleftrightarrow> ready_pre h d u \<and> (\<not> is_ready (eu_state u) \<longrightarrow>
     all_received (d_subscription_mode d) (eu_state u) \<longrightarrow> nothing_received (eu_state u))"

lemma spawned_ready: "spawn_updater_job h d = Some u \<Longrightarrow> ready_inv h d u"
  by (auto simp: spawn_updater_job_def ready_inv_def ready_pre_def nothing_received_def split: if_splits)

lemma check_readiness_inv:
  assumes "ready_pre h d u" and "d_subscription_mode d \<noteq> SubDisabled"
  shows "ready_inv h d (check_readiness h u)"
proof -
  have "all_received (d_subscription_mode d) (st\<lparr>is_ready := b\<rparr>) = all_received (d_subscription_mode d) st" for st b
    using assms(2) by (simp add: all_received_def split: subscription_mode.splits)
  then show ?thesis using assms(1)
    by (auto simp: check_readiness_def on_ready_def ready_inv_def ready_pre_def dex_mints_def Let_def)
qed

lemma all_received_mono:
  "all_received mode st \<Longrightarrow> is_ready st' = is_ready st \<Longrightarrow> received_account st \<subseteq> received_account st' \<Longrightarrow>
     dirty_programs st \<subseteq> dirty_programs st' \<Longrightarrow>
     (dirty_token_accounts_for_owners st \<longrightarrow> dirty_token_accounts_for_owners st') \<Longrightarrow> all_received mode st'"
  by (auto simp: all_received_def split: subscription_mode.splits)

lemma ready_pre_mono:
  assumes "ready_pre h d u" and "is_ready st = is_ready (eu_state u)"
    and "received_account (eu_state u) \<subseteq> received_account st" and "dirty_programs (eu_state u) \<subseteq> dirty_programs st"
    and "dirty_token_accounts_for_owners (eu_state u) \<longrightarrow> dirty_token_accounts_for_owners st"
  shows "ready_pre h d (u\<lparr>eu_state := st\<rparr>)"
  using assms all_received_mono [of "d_subscription_mode d" "eu_state u" st] by (auto simp: ready_pre_def)

lemma ready_inv_same:
  assumes "ready_inv h d u" and "is_ready st = is_ready (eu_state u)"
    and "received_account st = received_account (eu_state u)" and "dirty_programs st = dirty_programs (eu_state u)"
    and "dirty_token_accounts_for_owners st = dirty_token_accounts_for_owners (eu_state u)"
  shows "ready_inv h d (u\<lparr>eu_state := st\<rparr>)"
proof -
  have "all_received (d_subscription_mode d) st = all_received (d_subscription_mode d) (eu_state u)"
    using assms(2-5) by (simp add: all_received_def split: subscription_mode.splits)
  then show ?thesis using assms ready_pre_mono [of h d u st]
    by (simp add: ready_inv_def nothing_received_def)
qed

lemma invalidate_one_ready:
  assumes "ready_inv h d u" and "d_subscription_mode d \<noteq> SubDisabled"
  shows "ready_inv h d (snd (invalidate_one h res u))"
proof (cases "\<exists>pk own sl. res = Received (pk, own, sl) \<and> do_update (eu_dex u) pk own")
  case True
  then obtain pk own sl where r: "res = Received (pk, own, sl)" "do_update (eu_dex u) pk own" by blast
  let ?st = "mark_dirty h (edges_at (eu_dex u) pk) (eu_state u)\<lparr>received_account := insert pk (received_account (eu_state u))\<rparr>"
  let ?st' = "if latest_slot_pending ?st < sl then ?st\<lparr>latest_slot_pending := sl\<rparr> else ?st"
  have "ready_pre h d (u\<lparr>eu_state := ?st'\<rparr>)"
    by (rule ready_pre_mono) (use assms(1) in \<open>auto simp: ready_inv_def\<close>)
  from check_readiness_inv [OF this assms(2)] show ?thesis
    by (simp add: invalidate_one_def r Let_def split: if_splits)
next
  case False
  then show ?thesis using assms(1) by (auto simp: invalidate_one_def split: recv.splits)
qed

lemma on_metadata_update_ready:
  assumes "ready_inv h d u" and "d_subscription_mode d \<noteq> SubDisabled"
  shows "ready_inv h d (on_metadata_update conf h res u)"
proof -
  have pre: "ready_pre h d u" using assms(1) by (simp add: ready_inv_def)
  have "ready_inv h d (check_readiness h (u\<lparr>eu_state := (eu_state u)\<lparr>received_account := insert k (received_account (eu_state u))\<rparr>\<rparr>))"
    "ready_inv h d (check_readiness h (u\<lparr>eu_state := (eu_state u)\<lparr>dirty_programs := insert k (dirty_programs (eu_state u))\<rparr>\<rparr>))"
    "ready_inv h d (check_readiness h (u\<lparr>eu_state := (eu_state u)\<lparr>dirty_token_accounts_for_owners := True\<rparr>\<rparr>))" for k
    by (rule check_readiness_inv [OF ready_pre_mono [OF pre] assms(2)]; auto)+
  then show ?thesis using assms(1)
    by (auto simp: on_metadata_update_def Let_def split: recv.splits feed_metadata.splits option.splits)
qed

lemma step_ready:
  assumes "ready_inv h d u" and "d_subscription_mode d \<noteq> SubDisabled"
    and "updater_step conf ev h u = (Ok (g, h', u', rs) :: (_, 'x) result)"
  shows "ready_inv h d u' \<and> (\<not> is_ready (eu_state u') \<longrightarrow> h' = h \<and> rs = [] \<and> \<not> is_ready (eu_state u))"
proof (cases ev)
  case (SlotUpdate slot now)
  with assms(3) obtain st where "detect_and_handle_slot_lag conf now slot (eu_state u) = (Ok st :: (_, 'x) result)"
    "u' = u\<lparr>eu_state := st\<rparr>" "h' = h" "rs = []" by auto
  with detect_dirty [OF this(1)] assms(1) show ?thesis by (auto intro: ready_inv_same)
next
  case (AccountUpdate res)
  have u': "u' = snd (invalidate_one h res u)" "h' = h" "rs = []"
    using assms(3) by (auto simp: AccountUpdate split: prod.splits)
  have "is_ready (eu_state u) \<longrightarrow> is_ready (eu_state u')"
    by (auto simp: u' invalidate_one_def check_readiness_def Let_def split: recv.splits)
  then show ?thesis using u' invalidate_one_ready [OF assms(1,2)] by auto
next
  case (MetadataUpdate res)
  have u': "u' = on_metadata_update conf h res u" "h' = h" "rs = []"
    using assms(3) by (auto simp: MetadataUpdate)
  have "is_ready (eu_state u) \<longrightarrow> is_ready (eu_state u')"
    by (auto simp: u' on_metadata_update_def check_readiness_def Let_def
        split: recv.splits feed_metadata.splits option.splits)
  then show ?thesis using u' on_metadata_update_ready [OF assms(1,2)] by auto
next
  case (PriceUpdate mint)
  then show ?thesis using assms(1,3)
    by (auto simp: on_price_update_def intro: ready_inv_same split: option.splits)
next
  case (Tick timed_out env)
  show ?thesis
  proof (cases "\<not> is_ready (eu_state u) \<and> timed_out")
    case False
    then have r: "refresh_some env h u = (Ok (h', u', rs) :: (_, 'x) result)" using assms(3) Tick by auto
    from refresh_some_cases [OF r] assms(1) show ?thesis by (auto intro: ready_inv_same)
  qed (use assms(1,3) Tick in auto)
qed (use assms(1,3) in auto)

lemma ready_inv_heap: "same_edges h h' \<Longrightarrow> ready_inv h' d u = ready_inv h d u"
proof -
  assume s: "same_edges h h'"
  have "dex_mints h' d = dex_mints h d"
    by (simp add: dex_mints_def same_edges_dex_edges [OF s] same_edges_mints [OF s])
  then show ?thesis by (simp add: ready_inv_def ready_pre_def)
qed

text \<open>
  C29 (ready_once). A dex is reported ready exactly when everything it subscribed to has been
  received (and at least one message has arrived): one signal then and one more when the job
  ends, so a waiting start-up is always released. Until it is ready no edge is refreshed and
  no mint is registered for prices; once it is, all mints of its edges are.
\<close>

theorem ready_once:
  assumes "spawn_updater_job h d = Some u"
    and "updater_run conf evs h u = (Ok (g, h', u', lg) :: (_, 'x) result)"
  shows "eu_ready_sent u' = (if is_ready (eu_state u') then 1 else 0) + (if g then 0 else 1) \<and>
    (is_ready (eu_state u') \<longrightarrow> all_received (d_subscription_mode d) (eu_state u') \<and>
       eu_registered_mints u' = dex_mints h d) \<and>
    (\<not> is_ready (eu_state u') \<longrightarrow> h' = h \<and> lg = [] \<and> eu_registered_mints u' = {} \<and>
       (all_received (d_subscription_mode d) (eu_state u') \<longrightarrow> nothing_received (eu_state u')))"
proof -
  let ?I = "\<lambda>h1 u1 L. same_edges h h1 \<and> ready_inv h d u1 \<and> (\<not> is_ready (eu_state u1) \<longrightarrow> h1 = h \<and> L = ([] :: edge_ref list))"
  note s = spawned [OF assms(1)]
  have "\<exists>u''. ?I h' u'' ([] @ lg) \<and>
      u' = (if g then u'' else u''\<lparr>eu_ready_sent := eu_ready_sent u'' + 1\<rparr>)"
  proof (rule updater_run_inv [where I = ?I, OF _ assms(2)])
    fix ev h1 u1 L g h2 u2 rs
    assume I: "?I h1 u1 L" and st: "updater_step conf ev h1 u1 = (Ok (g, h2, u2, rs) :: (_, 'x) result)"
    have h12: "same_edges h1 h2" using step_dirty [OF st] by blast
    have "ready_inv h1 d u1 = ready_inv h d u1" by (rule ready_inv_heap) (use I in blast)
    with I have "ready_inv h1 d u1" by blast
    from step_ready [OF this _ st] s have "ready_inv h1 d u2"
      "\<not> is_ready (eu_state u2) \<longrightarrow> h2 = h1 \<and> rs = [] \<and> \<not> is_ready (eu_state u1)" by auto
    moreover have "ready_inv h1 d u2 = ready_inv h d u2" by (rule ready_inv_heap) (use I in blast)
    moreover have "same_edges h h2" by (rule same_edges_trans [OF _ h12]) (use I in blast)
    ultimately show "?I h2 u2 (L @ rs)" using I by (intro conjI impI) (blast, blast, metis, simp)
  next
    show "?I h u []" using spawned_ready [OF assms(1)] by simp
  qed
  then obtain u'' where I: "ready_inv h d u''" "\<not> is_ready (eu_state u'') \<longrightarrow> h' = h \<and> lg = []"
    and u': "u' = (if g then u'' else u''\<lparr>eu_ready_sent := eu_ready_sent u'' + 1\<rparr>)" by auto
  show ?thesis using I unfolding u' ready_inv_def ready_pre_def by (cases g; cases "is_ready (eu_state u'')") simp_all
qed

subsection \<open>Progress and lag\<close>

text \<open>
  Once the dex is ready, a timer event that finds dirty edges refreshes at
  least one of them and removes it from the dirty map; within its time budget it refreshes
  all of them.
\<close>

theorem refresh_progress:
  assumes "is_ready (eu_state u)" and "dirty_edges (eu_state u) \<noteq> []" and "order_ok (Tick timed_out env)"
    and "updater_step conf (Tick timed_out env) h u = (Ok (g, h', u', lg) :: (_, 'x) result)"
  shows "length (dirty_edges (eu_state u')) < length (dirty_edges (eu_state u)) \<and> lg \<noteq> [] \<and>
    set lg \<subseteq> dirty_refs (eu_state u) \<and>
    ((\<forall>n. \<not> re_over_budget env n) \<longrightarrow> dirty_edges (eu_state u') = [] \<and> set lg = dirty_refs (eu_state u))"
proof -
  let ?d = "dirty_edges (eu_state u)"
  have "refresh_some env h u = (Ok (h', u', lg) :: (_, 'x) result)" using assms(1,4) by auto
  from refresh_some_cases [OF this] assms(1,2) obtain fin where
    l: "refresh_loop env 0 (re_order env ?d) h = (Ok (h', fin) :: (_, 'x) result)" "lg = map snd fin"
    and u': "dirty_edges (eu_state u') = filter (\<lambda>x. fst x \<notin> fst ` set fin) ?d"
    by (auto simp: fold_delete)
  have m: "mset (re_order env ?d) = mset ?d" using assms(3) by (simp add: order_ok_def)
  then have ne: "re_order env ?d \<noteq> []" using assms(2) by auto
  from refresh_loop_spec [OF l(1)] obtain rest where f: "re_order env ?d = fin @ rest" "fin \<noteq> []"
    using ne by blast
  have sub: "set fin \<subseteq> set ?d" using finished_sub [OF assms(3) f(1)] .
  from f(2) obtain x where x: "x \<in> set fin" by (cases fin) auto
  have "length (filter (\<lambda>y. fst y \<notin> fst ` set fin) ?d) < length ?d"
    by (rule length_filter_less [of x]) (use x sub in auto)
  moreover have "filter (\<lambda>y. fst y \<notin> fst ` set fin) ?d = [] \<and> set lg = dirty_refs (eu_state u)"
    if "\<forall>n. \<not> re_over_budget env n"
  proof -
    have "fin = re_order env ?d" using refresh_loop_all [OF l(1)] that by blast
    then have "set fin = set ?d" using mset_eq_setD [OF m] by simp
    then show ?thesis by (auto simp: l(2) dirty_refs_def filter_empty_conv)
  qed
  ultimately show ?thesis using u' l(2) f(2) sub by (auto simp: dirty_refs_def)
qed

text \<open>
  The lag detector does not forget an old lag when the updater has
  caught up: the time stamp is cleared only by a slot that is ahead by less than the limit,
  not by one that is level or behind. Two isolated lags, further apart than the limit of one
  minute and with nothing but caught-up slots in between, abort the process.
\<close>

definition caught_up :: "u64 \<Rightarrow> 'e event \<Rightarrow> bool" where
  "caught_up processed ev = (case ev of
     SlotUpdate (Received slot) now \<Rightarrow> sint slot \<le> sint processed \<and> - (2 ^ 63) \<le> sint slot - sint processed
   | _ \<Rightarrow> False)"

lemma caught_up_step:
  "caught_up (latest_slot_processed (eu_state u)) ev \<Longrightarrow> updater_step conf ev h u = (Ok (True, h, u, []) :: (_, 'x) result)"
proof -
  let ?p = "latest_slot_processed (eu_state u)"
  assume "caught_up ?p ev"
  then obtain slot now where ev: "ev = SlotUpdate (Received slot) now" and "sint slot \<le> sint ?p"
    "- (2 ^ 63) \<le> sint slot - sint ?p"
    by (auto simp: caught_up_def split: event.splits recv.splits)
  then have "i64_sub slot ?p = (Ok (sint slot - sint ?p) :: (_, 'x) result)" "sint slot - sint ?p \<le> 0"
    by (simp_all add: i64_sub_def)
  then have "detect_and_handle_slot_lag conf now (Received slot) (eu_state u) = (Ok (eu_state u) :: (_, 'x) result)"
    by (simp add: detect_and_handle_slot_lag_def)
  then show ?thesis by (simp add: ev)
qed

lemma caught_up_run:
  "\<forall>ev \<in> set evs. caught_up (latest_slot_processed (eu_state u)) ev \<Longrightarrow>
     updater_run conf (evs @ evs') h u = (updater_run conf evs' h u :: (_, 'x) result)"
proof (induction evs)
  case (Cons ev evs)
  then have "updater_run conf ((ev # evs) @ evs') h u =
      rbind (updater_run conf evs' h u :: (_, 'x) result) (\<lambda>(go_on, heap, u, more). Ok (go_on, heap, u, more))"
    by (simp add: caught_up_step)
  then show ?case by (cases "updater_run conf evs' h u :: (_, 'x) result") auto
qed simp

theorem lag_not_forgotten:
  assumes "uc_slot_excessive_lag conf = None" and "uc_slot_excessive_lag_max_duration_secs conf = None"
    and "p = latest_slot_processed (eu_state u)" and "0 < sint p" and "sint p < 2 ^ 62"
    and "slot_excessive_lagging_since (eu_state u) = None"
    and "slot1 = p + 300" and "slot2 = p + 300"
    and "\<forall>ev \<in> set evs. caught_up p ev" and "t + 60 * 1000000000 < t'"
  shows "updater_run conf (SlotUpdate (Received slot1) t # evs @ [SlotUpdate (Received slot2) t']) h u =
    (Panic :: (_, 'x) result)"
proof -
  let ?u = "u\<lparr>eu_state := (eu_state u)\<lparr>slot_excessive_lagging_since := Some t\<rparr>\<rparr>"
  have "sint (p + 300) = sint p + 300"
    using assms(4,5) by (simp add: signed_take_bit_int_eq_self sint_word_ariths)
  then have lag: "i64_sub (p + 300) p = (Ok 300 :: (_, 'x) result)" by (simp add: i64_sub_def)
  have p: "p \<noteq> 0" using assms(4) by auto
  have "detect_and_handle_slot_lag conf t (Received slot1) (eu_state u) = (Ok (eu_state ?u) :: (_, 'x) result)"
    using assms(1,2,6) p lag by (simp add: detect_and_handle_slot_lag_def assms(7) flip: assms(3))
  then have one: "updater_step conf (SlotUpdate (Received slot1) t) h u = (Ok (True, h, ?u, []) :: (_, 'x) result)"
    by simp
  have "detect_and_handle_slot_lag conf t' (Received slot2) (eu_state ?u) = (Panic :: (_, 'x) result)"
    using assms(1,2,10) p lag by (simp add: detect_and_handle_slot_lag_def assms(8) flip: assms(3))
  then have two: "updater_step conf (SlotUpdate (Received slot2) t') h ?u = (Panic :: (_, 'x) result)" by simp
  have "updater_run conf (evs @ [SlotUpdate (Received slot2) t']) h ?u =
      (updater_run conf [SlotUpdate (Received slot2) t'] h ?u :: (_, 'x) result)"
    by (rule caught_up_run) (use assms(3,9) in simp)
  also have "\<dots> = Panic" by (simp only: updater_run.simps two rbind.simps)
  finally have "updater_run conf (evs @ [SlotUpdate (Received slot2) t']) h ?u = (Panic :: (_, 'x) result)" .
  with one show ?thesis by (simp only: updater_run.simps rbind.simps prod.case if_True)
qed

subsection \<open>A concrete run\<close>

definition ref_env :: "unit refresh_env" where
  "ref_env = \<lparr>re_ln = (\<lambda>x. NaN), re_now = 50, re_view = ref_view, re_decimals = (\<lambda>_. Some 0),
     re_price_ui = (\<lambda>_. Some (Finite False 1)), re_amounts = [100], re_order = (\<lambda>x. x),
     re_over_budget = (\<lambda>n. False)\<rparr>"

definition ref_fresh :: edge_state where
  "ref_fresh = \<lparr>cached_prices = [(100, ref_price, NaN)], es_is_valid = True, last_update = 50,
     last_update_slot = 77, cooldown_event = 0, cooldown_until = None\<rparr>"

definition ref_conf :: updater_conf where
  "ref_conf = \<lparr>uc_slot_excessive_lag = None, uc_slot_excessive_lag_max_duration_secs = None,
     uc_spl_token_id = 1\<rparr>"

definition ref_updater :: updater where
  "ref_updater = \<lparr>eu_dex = ref_built, eu_state = \<lparr>is_ready = False, latest_slot_pending = 0,
     latest_slot_processed = 0, slot_excessive_lagging_since = None, dirty_prices = False,
     received_account = {}, dirty_programs = {}, dirty_token_accounts_for_owners = False,
     dirty_edges = [], edges_per_mint = index_mints ref_heap [0, 1]\<rparr>,
     eu_registered_mints = {}, eu_ready_sent = 0\<rparr>"

lemma ref_env_simps [simp]: "re_order ref_env xs = xs" "\<not> re_over_budget ref_env n"
  by (simp_all add: ref_env_def)

lemma ref_env_order [simp]: "order_ok (Tick b ref_env)"
  by (simp add: order_ok_def ref_env_def)

lemma order_ok_simps [simp]:
  "order_ok Exit" "order_ok (SlotUpdate x n)" "order_ok (MetadataUpdate y)" "order_ok (AccountUpdate z)"
  "order_ok (PriceUpdate m)"
  by (simp_all add: order_ok_def)

lemma ref_spawn: "spawn_updater_job ref_heap ref_built = Some ref_updater"
  by (simp add: spawn_updater_job_def ref_updater_def ref_dex_edges) (simp add: ref_built_def)

lemma ref_refresh:
  "r < length h \<Longrightarrow> e_dex (h ! r) = ref_dex \<Longrightarrow> e_state (h ! r) = default_edge_state \<Longrightarrow>
     refresh_edge ref_env r h = Ok (h[r := (h ! r)\<lparr>e_state := ref_fresh\<rparr>])"
  using ref_price_eval
  by (simp add: refresh_edge_def ref_env_def edge_update_def update_internal_def pow10_u64_def edge_prepare_def
      edge_quote_def ref_dex_def ref_view_def default_edge_state_def ref_price_def ref_fresh_def Let_def)

lemma ref_uids [simp]:
  "uid_of ref_heap 0 = (9, 5)" "uid_of ref_heap (Suc 0) = (9, 6)" "uid_of ref_heap 2 = (9, 5)" "uid_of ref_heap 3 = (9, 6)"
  by (simp_all add: uid_of_def ref_heap_def edge_unique_id_def new_edge_def ref_ident_def)

text \<open>Account 9 is reported missing, account 11 is updated, the timer fires: the copies of
  account 11 are refreshed and those of account 9, which the router reads, are not.\<close>

definition ref_events :: "unit event list" where
  "ref_events = [MetadataUpdate (Received (InvalidAccount 9)), AccountUpdate (Received (11, 1, 50)),
     Tick False ref_env]"

definition ref_after :: "(unit, unit, unit) heap" where
  "ref_after = ref_heap[2 := (ref_heap ! 2)\<lparr>e_state := ref_fresh\<rparr>, 3 := (ref_heap ! 3)\<lparr>e_state := ref_fresh\<rparr>]"

lemma ref_run:
  "\<exists>u. updater_run ref_conf ref_events ref_heap ref_updater = (Ok (True, ref_after, u, [2, 3]) :: (_, unit) result)"
proof -
  have len: "length ref_heap = 4" by (simp add: ref_heap_def)
  have all: "\<forall>e \<in> set ref_heap. e_dex e = ref_dex \<and> e_state e = default_edge_state"
    by (simp add: ref_heap_def new_edge_def)
  have "e_dex (ref_heap ! r) = ref_dex \<and> e_state (ref_heap ! r) = default_edge_state" if "r < 4" for r
    using all nth_mem [of r ref_heap] that by (simp add: len)
  with len have l: "refresh_loop ref_env 0 [((9, 5), 2), ((9, 6), 3)] ref_heap =
      (Ok (ref_after, [((9, 5), 2), ((9, 6), 3)]) :: (_, unit) result)"
    by (simp add: ref_refresh) (simp add: ref_after_def)
  show ?thesis
    by (simp add: l ref_events_def ref_updater_def on_metadata_update_def invalidate_one_def do_update_def edges_at_def
        ref_built_def mark_dirty_def check_readiness_def all_received_def on_ready_def refresh_some_def Let_def
        del: refresh_loop.simps)
qed

theorem starved_copy_witness:
  "\<exists>u. updater_run ref_conf ref_events ref_heap ref_updater =
     (Ok (True, ref_after, u, [2, 3]) :: (_, unit) result) \<and>
   uid_of ref_after 0 = uid_of ref_after 2 \<and> edge_is_valid (e_state (ref_after ! 2)) \<and>
   ref_after ! 0 = ref_heap ! 0 \<and> \<not> edge_is_valid (e_state (ref_after ! 0))"
proof -
  obtain u where r: "updater_run ref_conf ref_events ref_heap ref_updater =
      (Ok (True, ref_after, u, [2, 3]) :: (_, unit) result)" using ref_run by blast
  have "ref_after ! 0 = ref_heap ! 0 \<and> (0 :: nat) \<notin> set [2, 3]"
    by (rule starved_copy [OF ref_built_eq ref_spawn _ _ _ _ _ r, where k = 9 and es = "[0, 1]"])
      (auto simp: ref_built_def ref_events_def)
  with r show ?thesis
    by (simp add: ref_after_def uid_of_def ref_heap_def edge_unique_id_def new_edge_def ref_ident_def
        edge_is_valid_def ref_fresh_def default_edge_state_def)
qed

theorem copy_displaces_witness:
  "\<exists>u1 u2. updater_run ref_conf [PriceUpdate 5] ref_heap ref_updater =
     (Ok (True, ref_heap, u1, []) :: (_, unit) result) \<and> 0 \<in> dirty_refs (eu_state u1) \<and>
   updater_step ref_conf (AccountUpdate (Received (11, 1, 50))) ref_heap u1 =
     (Ok (True, ref_heap, u2, []) :: (_, unit) result) \<and> 0 \<notin> dirty_refs (eu_state u2)"
proof -
  have m: "index_mints ref_heap [0, 1] 5 = Some [0, 1]"
    by (simp add: index_mints_def push_entry_def ref_heap_def new_edge_def ref_ident_def)
  obtain u1 where u1: "updater_run ref_conf [PriceUpdate 5] ref_heap ref_updater =
      (Ok (True, ref_heap, u1, []) :: (_, unit) result)" "0 \<in> dirty_refs (eu_state u1)"
    using m by (simp add: on_price_update_def ref_updater_def mark_dirty_def dirty_refs_def)
  have "\<exists>u2. updater_step ref_conf (AccountUpdate (Received (11, 1, 50))) ref_heap u1 =
      (Ok (True, ref_heap, u2, []) :: (_, unit) result) \<and> 2 \<in> refs_of ref_built \<and> 0 \<notin> dirty_refs (eu_state u2)"
    by (rule copy_displaces [OF ref_built_eq ref_spawn _ u1(1), where k = 9 and es = "[0, 1]"])
      (simp_all add: ref_built_def edges_at_def)
  with u1 show ?thesis by blast
qed

definition single_built :: dex where
  "single_built = \<lparr>d_name = ''ref'', d_edges_per_pk = [(9, [0, 1])], d_subscription_mode = SubAccounts {9}\<rparr>"

lemma single_dex_edges: "dex_edges ref_heap single_built = [0, 1]"
  by (simp add: dex_edges_def single_built_def)

lemma single_spawn: "spawn_updater_job ref_heap single_built = Some (ref_updater\<lparr>eu_dex := single_built\<rparr>)"
  by (simp add: spawn_updater_job_def ref_updater_def single_dex_edges) (simp add: single_built_def)

lemma single_run:
  "\<exists>h' u'. updater_run ref_conf ([] @ AccountUpdate (Received (9, 1, 50)) # [Tick False ref_env]) ref_heap
     (ref_updater\<lparr>eu_dex := single_built\<rparr>) = (Ok (True, h', u', [0, 1]) :: (_, unit) result)"
proof -
  have "length ref_heap = 4" "e_dex (ref_heap ! 0) = ref_dex" "e_state (ref_heap ! 0) = default_edge_state"
    "e_dex (ref_heap ! Suc 0) = ref_dex" "e_state (ref_heap ! Suc 0) = default_edge_state"
    by (simp_all add: ref_heap_def new_edge_def)
  then obtain h' where l: "refresh_loop ref_env 0 [((9, 5), 0), ((9, 6), Suc 0)] ref_heap =
      (Ok (h', [((9, 5), 0), ((9, 6), Suc 0)]) :: (_, unit) result)"
    by (simp add: ref_refresh)
  show ?thesis
    by (simp add: l ref_updater_def invalidate_one_def do_update_def edges_at_def single_built_def mark_dirty_def
        check_readiness_def all_received_def on_ready_def refresh_some_def Let_def del: refresh_loop.simps)
qed

theorem update_not_lost_witness:
  "\<exists>u h' u' lg. spawn_updater_job ref_heap single_built = Some u \<and>
     updater_run ref_conf ([] @ AccountUpdate (Received (9, 1, 50)) # [Tick False ref_env]) ref_heap u =
       (Ok (True, h', u', lg) :: (_, unit) result) \<and> (0 \<in> set lg \<or> 0 \<in> dirty_refs (eu_state u'))"
proof -
  obtain h' u' where r: "updater_run ref_conf ([] @ AccountUpdate (Received (9, 1, 50)) # [Tick False ref_env])
      ref_heap (ref_updater\<lparr>eu_dex := single_built\<rparr>) = (Ok (True, h', u', [0, 1]) :: (_, unit) result)"
    using single_run by blast
  have inj: "inj_on (uid_of ref_heap) (refs_of single_built)"
    by (simp add: refs_of_def single_built_def inj_on_def)
  have "\<exists>h1 u1 l1 l2. updater_run ref_conf [] ref_heap (ref_updater\<lparr>eu_dex := single_built\<rparr>) =
      (Ok (True, h1, u1, l1) :: (_, unit) result) \<and> [0, 1] = l1 @ l2 \<and> (0 \<in> set l2 \<or> 0 \<in> dirty_refs (eu_state u'))"
    by (rule update_not_lost [OF single_spawn inj _ r]) (simp_all add: edges_at_def single_built_def)
  then have "0 \<in> set [0, 1] \<or> 0 \<in> dirty_refs (eu_state u')" by simp
  with single_spawn r show ?thesis by blast
qed

theorem ready_once_witness:
  "\<exists>u. updater_run ref_conf ref_events ref_heap ref_updater =
     (Ok (True, ref_after, u, [2, 3]) :: (_, unit) result) \<and> is_ready (eu_state u) \<and> eu_ready_sent u = 1"
proof -
  obtain u where r: "updater_run ref_conf ref_events ref_heap ref_updater =
      (Ok (True, ref_after, u, [2, 3]) :: (_, unit) result)" using ref_run by blast
  from ready_once [OF ref_spawn r] r show ?thesis by fastforce
qed

theorem refresh_progress_witness:
  "\<exists>h' u'. updater_step ref_conf (Tick False ref_env) ref_heap
     (ref_updater\<lparr>eu_state := (eu_state ref_updater)\<lparr>is_ready := True, dirty_edges := [((9, 5), 0)]\<rparr>\<rparr>) =
     (Ok (True, h', u', [0]) :: (_, unit) result) \<and> dirty_edges (eu_state u') = []"
proof -
  let ?u = "ref_updater\<lparr>eu_state := (eu_state ref_updater)\<lparr>is_ready := True, dirty_edges := [((9, 5), 0)]\<rparr>\<rparr>"
  have "length ref_heap = 4" "e_dex (ref_heap ! 0) = ref_dex" "e_state (ref_heap ! 0) = default_edge_state"
    by (simp_all add: ref_heap_def new_edge_def)
  then obtain h' u' where s: "updater_step ref_conf (Tick False ref_env) ref_heap ?u =
      (Ok (True, h', u', [0]) :: (_, unit) result)"
    by (simp add: refresh_some_def ref_refresh Let_def)
  from refresh_progress [OF _ _ ref_env_order s] s show ?thesis by simp
qed

theorem lag_not_forgotten_witness:
  "updater_run ref_conf (SlotUpdate (Received (400 + 300)) 0 # [SlotUpdate (Received 390) 5] @
       [SlotUpdate (Received (400 + 300)) 60000000001]) ref_heap
     (ref_updater\<lparr>eu_state := (eu_state ref_updater)\<lparr>latest_slot_processed := 400\<rparr>\<rparr>) = (Panic :: (_, unit) result)"
  by (rule lag_not_forgotten [where p = 400]) (simp_all add: ref_conf_def ref_updater_def caught_up_def)

end
