(* ===== verification/Tx_Watcher.thy ===== *)
theory Tx_Watcher
  imports Edge_Updater Exec_Program "HOL-Library.Sublist"
begin

text \<open>
  Feedback from transactions on chain: the filter of executor transactions
  (\<open>decode_and_forward_tx\<close> in \<^verbatim>\<open>lib/router-feed-lib/src/grpc_tx_watcher.rs\<close>) and the cooldown of the
  edges a failed transaction used (\<^verbatim>\<open>bin/autobahn-router/src/tx_watcher.rs\<close>). The clock is a
  parameter.

  The theorems: at most one edge object per description is touched, so the two directions of
  a pool and the copies of an edge share one cooldown; and the number of hops is read one
  byte too early, so practically every failure counts as a single hop.
\<close>

subsection \<open>The filter\<close>

record exec_tx =
  tx_is_success :: bool
  tx_data :: bytes
  tx_accounts :: "pubkey list"
  tx_logs :: "string list"

definition insufficient_funds :: string where
  "insufficient_funds = ''insufficient funds''"

definition expected_initialized :: string where
  "expected_initialized = ''The program expected this account to be already initialized''"

text \<open>What is forwarded for one message; an empty instruction panics.\<close>

definition decode_and_forward_tx :: "exec_tx \<Rightarrow> exec_tx option presult" where
  "decode_and_forward_tx tx =
     rbind (at_index (tx_data tx) 0) (\<lambda>b.
     let ix_discriminator = and b 15 in
     if ix_discriminator \<noteq> instruction_tag ExecuteSwapV3 \<and> ix_discriminator \<noteq> instruction_tag ExecuteSwapV2
     then Ok None
     else if list_ex (\<lambda>l. sublist insufficient_funds l) (tx_logs tx) then Ok None
     else if list_ex (\<lambda>l. sublist expected_initialized l) (tx_logs tx) then Ok None
     else Ok (Some tx))"

subsection \<open>Cooling edges down\<close>

text \<open>The maps of all dexs collected into one; of two entries for a key the last one counts.\<close>

definition tx_edges_per_pk :: "dex list \<Rightarrow> (pubkey \<rightharpoonup> edge_ref list)" where
  "tx_edges_per_pk dexs = map_of (rev (concat (map d_edges_per_pk dexs)))"

definition cooldown_duration :: "u64 \<Rightarrow> u64 \<Rightarrow> bytes \<Rightarrow> u64 presult" where
  "cooldown_duration cooldown_multi cooldown_single instruction_data =
     rbind (read_u64 instruction_data) (\<lambda>(_, instruction_data).
     rbind (read_u8 instruction_data) (\<lambda>(number_of_ix, _).
     Ok (if number_of_ix > 1 then cooldown_multi else cooldown_single)))"

text \<open>The inner loop: an edge is touched when its description was not seen before.\<close>

fun touch_edges ::
    "(edge_state \<Rightarrow> edge_state presult) \<Rightarrow> edge_ref list \<Rightarrow> string list \<times> ('i, 'd, 'e) heap \<Rightarrow>
     (string list \<times> ('i, 'd, 'e) heap) presult" where
  "touch_edges f [] st = Ok st"
| "touch_edges f (r # rs) (impacted, heap) =
     (let desc = id_desc (e_ident (heap ! r)) in
      if desc \<in> set impacted then touch_edges f rs (impacted, heap)
      else rbind (f (e_state (heap ! r))) (\<lambda>st.
        touch_edges f rs (desc # impacted, heap[r := (heap ! r)\<lparr>e_state := st\<rparr>])))"

fun touch_accounts ::
    "(edge_state \<Rightarrow> edge_state presult) \<Rightarrow> (pubkey \<rightharpoonup> edge_ref list) \<Rightarrow> pubkey list \<Rightarrow>
     string list \<times> ('i, 'd, 'e) heap \<Rightarrow> (string list \<times> ('i, 'd, 'e) heap) presult" where
  "touch_accounts f m [] st = Ok st"
| "touch_accounts f m (account # accounts) st =
     (case m account of
        None \<Rightarrow> touch_accounts f m accounts st
      | Some edges \<Rightarrow> rbind (touch_edges f edges st) (touch_accounts f m accounts))"

definition handle_tx ::
    "(f64 \<Rightarrow> f64 \<Rightarrow> f64) \<Rightarrow> u64 \<Rightarrow> exec_tx \<Rightarrow> (pubkey \<rightharpoonup> edge_ref list) \<Rightarrow> u64 \<Rightarrow> u64 \<Rightarrow>
     ('i, 'd, 'e) heap \<Rightarrow> ('i, 'd, 'e) heap presult" where
  "handle_tx powf now tx edges_per_pk cooldown_multi cooldown_single heap =
     rbind (cooldown_duration cooldown_multi cooldown_single (tx_data tx)) (\<lambda>duration.
     let touch = (if tx_is_success tx then (\<lambda>st. Ok (reset_cooldown st)) else add_cooldown powf now duration) in
     rbind (touch_accounts touch edges_per_pk (tx_accounts tx) ([], heap)) (\<lambda>(impacted, heap). Ok heap))"

text \<open>The loop of \<open>watch_tx_events\<close> over the messages received before the channel closes;
  seconds of the configuration as milliseconds.\<close>

definition cooldown_millis :: "u64 \<Rightarrow> u64 option \<Rightarrow> u64" where
  "cooldown_millis default_secs secs = of_nat (1000 * unat (case secs of None \<Rightarrow> default_secs | Some n \<Rightarrow> n))"

definition watch_tx_events ::
    "(f64 \<Rightarrow> f64 \<Rightarrow> f64) \<Rightarrow> u64 option \<Rightarrow> u64 option \<Rightarrow> (u64 \<times> exec_tx) list \<Rightarrow> dex list \<Rightarrow>
     ('i, 'd, 'e) heap \<Rightarrow> ('i, 'd, 'e) heap presult" where
  "watch_tx_events powf multihop_secs singlehop_secs received dexs heap =
     rfold (\<lambda>(now, tx). handle_tx powf now tx (tx_edges_per_pk dexs)
       (cooldown_millis 15 multihop_secs) (cooldown_millis 45 singlehop_secs)) received heap"

subsection \<open>What is touched\<close>

text \<open>Descriptions are never changed; only objects whose description enters the list are.\<close>

definition desc_of :: "('i, 'd, 'e) heap \<Rightarrow> edge_ref \<Rightarrow> string" where
  "desc_of h r = id_desc (e_ident (h ! r))"

lemma desc_of_update [simp]: "desc_of (h[r := (h ! r)\<lparr>e_state := st\<rparr>]) = desc_of h"
proof
  fix r'
  show "desc_of (h[r := (h ! r)\<lparr>e_state := st\<rparr>]) r' = desc_of h r'"
    by (cases "r < length h"; cases "r' = r") (simp_all add: desc_of_def list_update_beyond)
qed

text \<open>The invariant of the loops: for every description at most one object has changed, and
  only if the description is in the list.\<close>

definition touched_ok :: "('i, 'd, 'e) heap \<Rightarrow> string list \<times> ('i, 'd, 'e) heap \<Rightarrow> bool" where
  "touched_ok h0 st \<longleftrightarrow> desc_of (snd st) = desc_of h0 \<and>
     (\<forall>r. snd st ! r \<noteq> h0 ! r \<longrightarrow> desc_of h0 r \<in> set (fst st)) \<and>
     (\<forall>r r'. snd st ! r \<noteq> h0 ! r \<longrightarrow> snd st ! r' \<noteq> h0 ! r' \<longrightarrow> desc_of h0 r = desc_of h0 r' \<longrightarrow> r = r')"

lemma touch_edges_ok: "touch_edges f rs st = Ok st' \<Longrightarrow> touched_ok h0 st \<Longrightarrow> touched_ok h0 st'"
proof (induction rs arbitrary: st)
  case (Cons r rs)
  obtain imp h where st: "st = (imp, h)" by fastforce
  show ?case
  proof (cases "desc_of h r \<in> set imp")
    case True
    with Cons show ?thesis by (simp add: st desc_of_def)
  next
    case False
    with Cons.prems(1) obtain es where
      rest: "touch_edges f rs (desc_of h r # imp, h[r := (h ! r)\<lparr>e_state := es\<rparr>]) = Ok st'"
      by (auto simp: st desc_of_def Let_def)
    have old: "desc_of h = desc_of h0" "\<And>x. h ! x \<noteq> h0 ! x \<Longrightarrow> desc_of h0 x \<in> set imp"
      "\<And>x y. h ! x \<noteq> h0 ! x \<Longrightarrow> h ! y \<noteq> h0 ! y \<Longrightarrow> desc_of h0 x = desc_of h0 y \<Longrightarrow> x = y"
      using Cons.prems(2) by (auto simp: touched_ok_def st)
    have ne: "h[r := (h ! r)\<lparr>e_state := es\<rparr>] ! x = h ! x" if "x \<noteq> r" for x using that by simp
    have "touched_ok h0 (desc_of h r # imp, h[r := (h ! r)\<lparr>e_state := es\<rparr>])"
      unfolding touched_ok_def fst_conv snd_conv
    proof (intro conjI allI impI)
      fix x assume "h[r := (h ! r)\<lparr>e_state := es\<rparr>] ! x \<noteq> h0 ! x"
      then show "desc_of h0 x \<in> set (desc_of h r # imp)" using old(1,2) ne by (cases "x = r") auto
    next
      fix x y
      assume "h[r := (h ! r)\<lparr>e_state := es\<rparr>] ! x \<noteq> h0 ! x" "h[r := (h ! r)\<lparr>e_state := es\<rparr>] ! y \<noteq> h0 ! y"
        "desc_of h0 x = desc_of h0 y"
      then show "x = y" using old False ne by (cases "x = r"; cases "y = r") metis+
    qed (simp add: old(1))
    with Cons.IH [OF rest] show ?thesis .
  qed
qed simp

lemma touch_accounts_ok: "touch_accounts f m as st = Ok st' \<Longrightarrow> touched_ok h0 st \<Longrightarrow> touched_ok h0 st'"
proof (induction as arbitrary: st)
  case (Cons a as)
  show ?case
  proof (cases "m a")
    case (Some rs)
    with Cons.prems obtain st1 where "touch_edges f rs st = Ok st1" "touch_accounts f m as st1 = Ok st'" by auto
    with Cons.IH touch_edges_ok Cons.prems(2) show ?thesis by blast
  qed (use Cons in simp)
qed simp

text \<open>
  Whatever edges a transaction used, at most one edge object of each
  description is cooled down or reset. All adapters describe the two directions of a pool
  alike, so a failure in one direction is charged to whichever edge is found first.
\<close>

theorem one_object_touched:
  assumes "handle_tx powf now tx m multi single h = Ok h'"
    and "h' ! r \<noteq> h ! r" and "h' ! r' \<noteq> h ! r'" and "id_desc (e_ident (h ! r)) = id_desc (e_ident (h ! r'))"
  shows "r = r'"
proof -
  from assms(1) obtain f imp where "touch_accounts f m (tx_accounts tx) ([], h) = Ok (imp, h')"
    by (auto simp: handle_tx_def Let_def)
  from touch_accounts_ok [OF this, of h] have "touched_ok h (imp, h')" by (simp add: touched_ok_def)
  with assms(2-4) show ?thesis by (auto simp: touched_ok_def desc_of_def)
qed

text \<open>
  The data the watcher looks at still start with the discriminator, which it
  does not skip: what it takes for the number of hops is the top byte of the minimum output
  amount. For any minimum below \<open>2 ^ 57\<close> a failed swap gets the cooldown of a single hop,
  however many hops it had.
\<close>

lemma le_bytes_nth: "i < k \<Longrightarrow> le_bytes k n ! i = of_nat (n div 256 ^ i)"
proof (induction k arbitrary: i n)
  case (Suc k)
  then show ?case by (cases i) (simp_all add: div_mult2_eq)
qed simp

lemma u64_le_top:
  assumes "unat n < 2 ^ 57"
  shows "u64_le n ! 7 \<le> 1"
proof -
  have "unat n div 256 ^ 7 < 2" using assms by (simp add: div_less_iff_less_mult)
  then have "unat n div 256 ^ 7 = 0 \<or> unat n div 256 ^ 7 = 1" by linarith
  then show ?thesis by (auto simp: u64_le_def le_bytes_nth)
qed

theorem hops_misread:
  assumes "read_u64 (tl (tx_data tx)) = Ok (min_out, rest)" and "unat min_out < 2 ^ 57"
  shows "cooldown_duration multi single (tx_data tx) = Ok single"
proof -
  from assms(1) have l: "8 \<le> length (tl (tx_data tx))" "min_out = u64_of_le (take 8 (tl (tx_data tx)))"
    by (auto simp: read_u64_def extract_part_def slice_def split: if_splits)
  then obtain t ds where d: "tx_data tx = t # ds" "8 \<le> length ds" by (cases "tx_data tx") auto
  have "u64_le min_out = take 8 ds" using l d by simp
  then have "take 8 ds ! 7 = u64_le min_out ! 7" by simp
  then have top: "\<not> 1 < ds ! 7" using u64_le_top [OF assms(2)] by simp
  have "read_u64 (tx_data tx) = Ok (u64_of_le (take 8 (tx_data tx)), drop 8 (tx_data tx))"
    using d by (simp add: read_u64_def extract_part_def slice_def slice_from_def)
  moreover have "drop 8 (tx_data tx) = ds ! 7 # drop 8 ds"
    using d Cons_nth_drop_Suc [of 7 ds] by (simp add: drop_Cons')
  then have "read_u8 (drop 8 (tx_data tx)) = Ok (ds ! 7, drop 8 ds)"
    by (simp add: read_u8_def extract_part_def slice_def slice_from_def at_index_def)
  ultimately show ?thesis using top by (simp add: cooldown_duration_def)
qed

subsection \<open>A failed transaction\<close>

text \<open>A failed swap of two hops through account 9, with a minimum output of 1000: only the
  edge from 5 to 6 is cooled down, and for the time of a single hop.\<close>

definition ref_tx :: exec_tx where
  "ref_tx = \<lparr>tx_is_success = False, tx_data = 1 # u64_le 1000 @ [2], tx_accounts = [9], tx_logs = []\<rparr>"

definition ref_cooled :: edge_state where
  "ref_cooled = default_edge_state\<lparr>cooldown_event := 1, cooldown_until := Some 45100\<rparr>"

lemma ref_min_out: "u64_le 1000 = [232, 3, 0, 0, 0, 0, 0, 0]"
  by code_simp

lemma ref_tx_misread: "cooldown_duration 15000 45000 (tx_data ref_tx) = Ok 45000"
  by (simp add: cooldown_duration_def read_u64_def read_u8_def extract_part_def slice_def slice_from_def
      at_index_def ref_tx_def ref_min_out)

lemma ref_handle_tx:
  "handle_tx (\<lambda>x y. x) 100 ref_tx (tx_edges_per_pk [ref_built]) 15000 45000 ref_heap =
     Ok (ref_heap[0 := (ref_heap ! 0)\<lparr>e_state := ref_cooled\<rparr>])"
proof -
  have "cooldown_factor (\<lambda>x y. x) 1 = 1" by code_simp
  then have c: "add_cooldown (\<lambda>x y. x) 100 45000 default_edge_state = (Ok ref_cooled :: edge_state presult)"
    by (simp add: add_cooldown_def default_edge_state_def ref_cooled_def padd_def pmul_def checked_add_def checked_mul_def)
  have e: "e_state (ref_heap ! 0) = default_edge_state" "id_desc (e_ident (ref_heap ! 0)) = ''ref_9''"
    "id_desc (e_ident (ref_heap ! Suc 0)) = ''ref_9''"
    by (simp_all add: ref_heap_def new_edge_def ref_ident_def)
  show ?thesis
    using e by (simp add: handle_tx_def ref_tx_misread tx_edges_per_pk_def ref_built_def c Let_def)
      (simp add: ref_tx_def c)
qed

theorem one_object_touched_witness:
  "\<exists>h'. handle_tx (\<lambda>x y. x) 100 ref_tx (tx_edges_per_pk [ref_built]) 15000 45000 ref_heap = Ok h' \<and>
     \<not> edge_is_valid (e_state (h' ! 0)) \<and> h' ! 1 = ref_heap ! 1"
proof -
  let ?h = "ref_heap[0 := (ref_heap ! 0)\<lparr>e_state := ref_cooled\<rparr>]"
  have ch: "?h ! 0 \<noteq> ref_heap ! 0" "id_desc (e_ident (ref_heap ! 0)) = id_desc (e_ident (ref_heap ! 1))"
    by (simp_all add: ref_heap_def new_edge_def ref_ident_def ref_cooled_def default_edge_state_def)
  have "?h ! 1 = ref_heap ! 1"
  proof (rule ccontr)
    assume "?h ! 1 \<noteq> ref_heap ! 1"
    from one_object_touched [OF ref_handle_tx ch(1) this ch(2)] show False by simp
  qed
  moreover have "\<not> edge_is_valid (e_state (?h ! 0))"
    by (simp add: ref_heap_def edge_is_valid_def ref_cooled_def)
  ultimately show ?thesis using ref_handle_tx by blast
qed

theorem hops_misread_witness:
  "\<exists>rest. read_u64 (tl (tx_data ref_tx)) = Ok (1000, 2 # rest) \<and>
     cooldown_duration 15000 45000 (tx_data ref_tx) = Ok 45000"
proof -
  have r: "read_u64 (tl (tx_data ref_tx)) = Ok (1000, [2])"
    by (simp add: ref_tx_def read_u64_def extract_part_def slice_def slice_from_def)
  from hops_misread [OF r, of 15000 45000] r show ?thesis by simp
qed

end
