(* ===== verification/Slippage.thy ===== *)
theory Slippage
  imports Float64
begin

text \<open>
  The floating-point scaling of a token amount by basis points, as the quote handler applies
  the slippage of a request: \<open>(amount as f64 * (10000 +/- bps as f64) / 10000).floor() as u64\<close>.

  The lemmas: it is monotone in the factor for every amount, and exact (the floor of the
  quotient) where the product is at most \<open>2^53\<close>.
\<close>

lemma f64_pack_nat: "n \<le> 2 ^ 53 \<Longrightarrow> f64_pack False (of_nat n) = Finite False (of_nat n)"
proof -
  assume n: "n \<le> 2 ^ 53"
  then have "(of_nat n :: rat) \<le> of_nat (2 ^ 53)" by (simp only: of_nat_le_iff)
  also have "\<dots> \<le> 2 ^ 1023" by simp
  finally show ?thesis using round_mag_nat [OF n] by (simp add: f64_pack_finite)
qed

text \<open>The floating-point pipeline on an amount and a factor.\<close>

definition scaled :: "u64 \<Rightarrow> f64 \<Rightarrow> u64" where
  "scaled a v = f64_as_u64 (f64_floor (f64_div (f64_mul (f64_of_u64 a) v) (Finite False 10000)))"

definition scaled_val :: "u64 \<Rightarrow> rat \<Rightarrow> int" where
  "scaled_val a r = \<lfloor>round_mag (round_mag (round_mag (of_nat (unat a)) * r) / 10000)\<rfloor>"

lemma scaled_Finite:
  assumes "0 \<le> r" and "r \<le> 2 ^ 70"
  shows "scaled a (Finite False r) = (if (2 ^ 64 :: rat) \<le> of_int (scaled_val a r) then - 1 else of_int (scaled_val a r))"
proof -
  have A: "0 \<le> round_mag (of_nat (unat a))" "round_mag (of_nat (unat a)) \<le> 2 ^ 64"
    using round_mag_nonneg round_mag_bound unat_u64_le of_nat_0_le_iff by blast+
  have "round_mag (of_nat (unat a)) * r \<le> 2 ^ 64 * 2 ^ 70" using A assms by (intro mult_mono) simp_all
  then have p: "0 \<le> round_mag (of_nat (unat a)) * r" "round_mag (of_nat (unat a)) * r \<le> 2 ^ 134"
    using A assms by simp_all
  have q: "0 \<le> round_mag (round_mag (of_nat (unat a)) * r)" "round_mag (round_mag (of_nat (unat a)) * r) \<le> 2 ^ 134"
    using round_mag_nonneg [OF p(1)] round_mag_bound [OF p] by simp_all
  have big: "(2 ^ 134 :: rat) \<le> 2 ^ 1023" by simp
  define x where "x = round_mag (of_nat (unat a)) * r"
  have p1: "f64_pack False x = Finite False (round_mag x)"
    using p(1) order_trans [OF p(2) big] unfolding x_def by (rule f64_pack_finite)
  have q': "0 \<le> round_mag x / 10000" "round_mag x / 10000 \<le> 2 ^ 134" using q by (simp_all add: x_def)
  have "f64_pack False (round_mag x / 10000) = Finite False (round_mag (round_mag x / 10000))"
    using q'(1) order_trans [OF q'(2) big] by (rule f64_pack_finite)
  then have "f64_div (f64_mul (f64_of_u64 a) (Finite False r)) (Finite False 10000) =
      Finite False (round_mag (round_mag (round_mag (of_nat (unat a)) * r) / 10000))"
    using p1 by (simp add: f64_of_u64_eq x_def)
  then show ?thesis by (simp add: scaled_def f64_floor_def f64_as_u64_def scaled_val_def)
qed

lemma scaled_val_bounds:
  assumes "0 \<le> r" and "r \<le> r'"
  shows "0 \<le> scaled_val a r" and "scaled_val a r \<le> scaled_val a r'"
proof -
  have A: "0 \<le> round_mag (of_nat (unat a))" by (simp add: round_mag_nonneg of_nat_0_le_iff)
  have p: "0 \<le> round_mag (of_nat (unat a)) * r" using A assms(1) by simp
  have "round_mag (of_nat (unat a)) * r \<le> round_mag (of_nat (unat a)) * r'"
    using A assms(2) by (rule mult_left_mono [rotated])
  then have le: "round_mag (round_mag (of_nat (unat a)) * r) / 10000 \<le> round_mag (round_mag (of_nat (unat a)) * r') / 10000"
    using round_mag_mono [OF p] by (simp add: divide_right_mono)
  have nn: "0 \<le> round_mag (round_mag (of_nat (unat a)) * r) / 10000" using round_mag_nonneg [OF p] by simp
  show "0 \<le> scaled_val a r" using round_mag_nonneg [OF nn] by (simp add: scaled_val_def)
  show "scaled_val a r \<le> scaled_val a r'" unfolding scaled_val_def by (rule floor_mono [OF round_mag_mono [OF nn le]])
qed

lemma uint_minus_1: "uint (- 1 :: u64) = 2 ^ 64 - 1"
  by (simp add: unsigned_minus_1_eq_mask mask_eq_exp_minus_1)

lemma scaled_mono:
  assumes "0 \<le> r" and "r \<le> r'" and "r' \<le> 2 ^ 70"
  shows "scaled a (Finite False r) \<le> scaled a (Finite False r')"
proof -
  note v = scaled_val_bounds [OF assms(1,2), of a]
  have up: "(2 ^ 64 :: rat) \<le> of_int z \<longleftrightarrow> 2 ^ 64 \<le> z" for z :: int
    by (metis of_int_le_iff of_int_numeral of_int_power)
  have word: "uint (of_int z :: u64) = z" if "0 \<le> z" "\<not> 2 ^ 64 \<le> z" for z
    using that by (simp add: unsigned_of_int take_bit_int_eq_self)
  show ?thesis
    unfolding scaled_Finite [OF assms(1) order_trans [OF assms(2,3)]] scaled_Finite [OF order_trans [OF assms(1,2)] assms(3)] up
    using v by (auto simp: word_le_def word uint_minus_1)
qed

text \<open>The factors.\<close>

lemma bps_factors:
  assumes "unat s \<le> 10000"
  shows "f64_sub (Finite False 10000) (f64_of_u64 s) = Finite False (of_nat (10000 - unat s))"
    "f64_add (Finite False 10000) (f64_of_u64 s) = Finite False (of_nat (10000 + unat s))"
proof -
  have s: "f64_of_u64 s = Finite False (of_nat (unat s))" using assms by (intro f64_of_u64_exact) simp
  have p: "f64_pack False (of_nat (10000 - unat s)) = Finite False (of_nat (10000 - unat s))"
    "f64_pack False (of_nat (10000 + unat s)) = Finite False (of_nat (10000 + unat s))"
    using assms f64_pack_nat [of "10000 - unat s"] f64_pack_nat [of "10000 + unat s"] by simp_all
  have "(of_nat (unat s) :: rat) \<le> of_nat 10000" using assms by (simp only: of_nat_le_iff)
  then show "f64_sub (Finite False 10000) (f64_of_u64 s) = Finite False (of_nat (10000 - unat s))"
    using p(1) assms by (simp add: f64_sub_def s f64_of_rat_def of_nat_diff Let_def)
  show "f64_add (Finite False 10000) (f64_of_u64 s) = Finite False (of_nat (10000 + unat s))"
    using p(2) of_nat_0_le_iff [of "unat s", where 'a = rat] by (simp add: s f64_of_rat_def Let_def)
qed

lemma bps_add:
  obtains r where "f64_add (Finite False 10000) (f64_of_u64 s) = Finite False r" "10000 \<le> r" "r \<le> 2 ^ 70"
proof -
  let ?v = "10000 + round_mag (of_nat (unat s))"
  have S: "0 \<le> round_mag (of_nat (unat s))" "round_mag (of_nat (unat s)) \<le> 2 ^ 64"
    using round_mag_nonneg round_mag_bound unat_u64_le of_nat_0_le_iff by blast+
  have v: "0 < ?v" "?v \<le> 2 ^ 70" using S by simp_all
  have big: "?v \<le> 2 ^ 1023" using v(2) by (rule order_trans) simp
  have "f64_add (Finite False 10000) (f64_of_u64 s) = Finite False (round_mag ?v)"
    using v S f64_pack_finite [OF less_imp_le [OF v(1)] big, of False]
    by (simp add: f64_of_u64_eq Let_def f64_of_rat_def)
  moreover have "round_mag 10000 = 10000" using round_mag_nat [of 10000] by simp
  then have "10000 \<le> round_mag ?v" using round_mag_mono [of 10000 ?v] S(1) by simp
  moreover have "round_mag ?v \<le> 2 ^ 70" using v by (intro round_mag_bound) simp_all
  ultimately show thesis by (rule that)
qed

lemma scaled_sub_le: "scaled a (f64_sub (Finite False 10000) (f64_of_u64 s)) \<le> scaled a (Finite False 10000)"
proof -
  let ?S = "round_mag (of_nat (unat s))" let ?d = "10000 - ?S"
  have S: "0 \<le> ?S" "?S \<le> 2 ^ 64" using round_mag_nonneg round_mag_bound unat_u64_le of_nat_0_le_iff by blast+
  have sub: "f64_sub (Finite False 10000) (f64_of_u64 s) = (if ?d = 0 then Finite False 0 else f64_of_rat ?d)"
    by (simp add: f64_sub_def f64_of_u64_eq Let_def)
  consider "?d = 0" | "0 < ?d" | "?d < 0" by linarith
  then show ?thesis
  proof cases
    case 1
    then show ?thesis unfolding sub by (simp add: scaled_mono)
  next
    case 2
    have big: "?d \<le> 2 ^ 1023" using S(1) order_trans [of ?d 10000 "2 ^ 1023"] by simp
    have "round_mag 10000 = 10000" using round_mag_nat [of 10000] by simp
    then have "round_mag ?d \<le> 10000" using round_mag_mono [of ?d 10000] 2 S(1) by simp
    moreover have "f64_of_rat ?d = Finite False (round_mag ?d)"
      using 2 f64_pack_finite [of ?d False] big by (simp add: f64_of_rat_def)
    ultimately show ?thesis unfolding sub using 2 round_mag_nonneg [of ?d] by (simp add: scaled_mono)
  next
    case 3
    have "- ?d \<le> 2 ^ 70" using S(2) by simp
    then have big: "- ?d \<le> 2 ^ 1023" by (rule order_trans) simp
    define r where "r = round_mag (- ?d)"
    have r: "f64_of_rat ?d = Finite True r" "0 \<le> r" "r \<le> 2 ^ 70"
      using 3 f64_pack_finite [of "- ?d" True] big round_mag_nonneg [of "- ?d"] round_mag_bound [of "- ?d" 70]
        \<open>- ?d \<le> 2 ^ 70\<close> by (simp_all add: f64_of_rat_def r_def)
    have "scaled a (Finite True r) = 0"
      by (simp add: scaled_def f64_of_u64_eq f64_pack_def f64_floor_def f64_as_u64_def Let_def)
    then show ?thesis unfolding sub using 3 r(1) by simp
  qed
qed

text \<open>Where the product is exact, dividing it by 10000 and rounding to an \<open>f64\<close> does not cross
  an integer: the floor is that of the exact quotient.\<close>

lemma round_mag_floor:
  assumes "n \<le> 2 ^ 53"
  shows "\<lfloor>round_mag (of_nat n / 10000)\<rfloor> = int (n div 10000)"
proof -
  let ?x = "of_nat n / 10000 :: rat" and ?k = "n div 10000"
  have n: "n = 10000 * ?k + n mod 10000" by simp
  have nr: "of_nat n = (10000 * of_nat ?k + of_nat (n mod 10000) :: rat)"
    by (subst n) (simp only: of_nat_add of_nat_mult of_nat_numeral)
  have k: "?k \<le> 2 ^ 53" using assms div_le_dividend order_trans by blast
  have "(of_nat ?k :: rat) \<le> ?x" using of_nat_0_le_iff [of "n mod 10000", where 'a = rat] by (simp add: nr)
  then have lo: "of_nat ?k \<le> round_mag ?x"
    using round_mag_mono [OF of_nat_0_le_iff, of ?k ?x] round_mag_nat [OF k] by simp
  have hi: "round_mag ?x < of_nat ?k + 1"
  proof (cases "n = 0")
    case False
    then have x: "0 < ?x" by simp
    let ?u = "pow2 (ulp_exp ?x)"
    have "(of_nat n :: rat) \<le> of_nat (2 ^ 53)" using assms by (simp only: of_nat_le_iff)
    then have "?x < pow2 40" by (simp add: pow2_def)
    then have "pow2 (rat_log2 ?x) < pow2 40" using rat_log2_bounds(1) [OF x] by linarith
    then have e: "ulp_exp ?x \<le> - 13" using pow2_less_imp [of "rat_log2 ?x" 40] by (simp add: ulp_exp_def)
    have u: "?u \<le> 1 / 8192" using pow2_mono [OF e] by (simp add: pow2_def)
    define N :: int where "N = (int ?k + 1) * 2 ^ nat (- ulp_exp ?x)"
    have N: "of_int N * ?u = of_nat ?k + 1"
      using e pow2_add [of "ulp_exp ?x" "- ulp_exp ?x"] by (simp add: N_def pow2_def)
    have "(of_nat (n mod 10000) :: rat) \<le> of_nat 9999" by (simp only: of_nat_le_iff)
    then have "?x \<le> of_nat ?k + 1 - 1 / 10000" by (simp add: nr)
    also have "\<dots> < of_int N * ?u - ?u / 2" unfolding N using u by simp
    also have "\<dots> = (of_int N - 1 / 2) * ?u" by (simp add: left_diff_distrib)
    finally have "?x / ?u < of_int N - 1 / 2" by (simp add: pos_divide_less_eq)
    then have "round_half_even (?x / ?u) \<le> N - 1"
      by (auto simp: round_half_even_def Let_def floor_less_iff floor_le_iff)
    then have "round_half_even (?x / ?u) < N" by simp
    then have "of_int (round_half_even (?x / ?u)) * ?u < of_int N * ?u" by simp
    then show ?thesis using x unfolding N by (simp add: round_mag_def Let_def)
  qed simp
  show ?thesis using lo hi by (simp add: floor_eq_iff)
qed

lemma scaled_exact:
  assumes a: "unat a \<le> 2 ^ 38" and b: "b \<le> 20000"
  shows "unat (scaled a (Finite False (of_nat b))) = unat a * b div 10000"
proof -
  have "unat a * b \<le> 2 ^ 38 * 20000" using a b by (rule mult_le_mono)
  then have ab: "unat a * b \<le> 2 ^ 53" by simp
  have v: "scaled_val a (of_nat b) = int (unat a * b div 10000)"
    using round_mag_floor [OF ab] round_mag_nat [OF ab] round_mag_nat [of "unat a"] a
    by (simp add: scaled_val_def)
  have "(of_nat b :: rat) \<le> of_nat 20000" using b by (simp only: of_nat_le_iff)
  then have r: "(of_nat b :: rat) \<le> 2 ^ 70" by simp
  have lt: "unat a * b div 10000 < 2 ^ 64" using ab by simp
  then have "(of_nat (unat a * b div 10000) :: rat) < of_nat (2 ^ 64)" by (simp only: of_nat_less_iff)
  then have "\<not> (2 ^ 64 :: rat) \<le> of_int (scaled_val a (of_nat b))" unfolding v by simp
  then have "scaled a (Finite False (of_nat b)) = of_nat (unat a * b div 10000)"
    using scaled_Finite [OF of_nat_0_le_iff r, of a] by (simp add: v)
  then show ?thesis using lt by (simp add: unat_of_nat)
qed

text \<open>Above \<open>2^53\<close> the amount itself is rounded, possibly up.\<close>

lemma scaled_rounds_up: "scaled (2 ^ 62 - 1) (Finite False 10000) = 2 ^ 62"
proof -
  have "rat_log2 (2 ^ 62 - 1) = 61" by (rule rat_log2_unique) (simp_all add: pow2_def)
  moreover have "\<lfloor>4611686018427387903 / 512 :: rat\<rfloor> = 9007199254740991" by (rule floor_unique) simp_all
  ultimately have up: "round_mag (2 ^ 62 - 1) = 2 ^ 62"
    by (simp add: round_mag_def ulp_exp_def pow2_def round_half_even_def Let_def)
  have prod: "round_mag (2 ^ 62 * 10000) = 2 ^ 62 * 10000"
  proof (rule round_mag_exact [of _ 10000 62])
    have "(0 :: rat) < 2 ^ 62 * 10000" "(2 ^ 62 * 10000 :: rat) < pow2 76" by (simp_all add: pow2_def)
    then have "pow2 (rat_log2 (2 ^ 62 * 10000)) < pow2 76" using rat_log2_bounds(1) by fastforce
    then have "rat_log2 (2 ^ 62 * 10000) < 76" by (rule pow2_less_imp)
    then show "ulp_exp (2 ^ 62 * 10000) \<le> 62" by (simp add: ulp_exp_def)
  qed (simp add: pow2_def)
  have quot: "round_mag (2 ^ 62) = 2 ^ 62" by (rule round_mag_exact [of _ 1 62]) (auto simp: pow2_def intro: ulp_exp_le)
  have "(of_nat (unat (2 ^ 62 - 1 :: u64)) :: rat) = 2 ^ 62 - 1" by simp
  then have v: "scaled_val (2 ^ 62 - 1) 10000 = 2 ^ 62"
    unfolding scaled_val_def by (simp only: up prod nonzero_mult_div_cancel_right zero_neq_numeral) (simp add: quot [simplified])
  show ?thesis by (subst scaled_Finite) (simp_all add: v [simplified])
qed

end
