(* ===== verification/Api_Model.thy ===== *)
theory Api_Model
  imports Ix_Builder
begin

text \<open>
  The messages of the HTTP interface (\<^verbatim>\<open>lib/router-lib/src/model\<close>) and the text they carry:
  64-bit numbers in decimal, as the standard library prints and parses them, instructions and
  quotes. Base58, base64 and the shortest decimal form of a double are third-party or
  library code behind the record \<open>texts\<close>.

  The contract of a text form, what is printed can be read back, is the locale \<open>text_form\<close>; the
  theorem: an instruction survives the way to a client and back.
\<close>

subsection \<open>Numbers as text\<close>

datatype parse_error = EmptyNumber | InvalidDigit | PosOverflow

definition digit_char :: "nat \<Rightarrow> char" where
  "digit_char d = ''0123456789'' ! d"

fun nat_digits :: "nat \<Rightarrow> string" where
  "nat_digits n = (if n < 10 then [digit_char n] else nat_digits (n div 10) @ [digit_char (n mod 10)])"

declare nat_digits.simps [simp del]

definition u64_to_string :: "u64 \<Rightarrow> string" where
  "u64_to_string n = nat_digits (unat n)"

definition char_digit :: "char \<Rightarrow> nat option" where
  "char_digit c = (if 48 \<le> (of_char c :: nat) \<and> (of_char c :: nat) \<le> 57 then Some (of_char c - 48) else None)"

fun parse_digits :: "u64 \<Rightarrow> string \<Rightarrow> (u64, parse_error) result" where
  "parse_digits acc [] = Ok acc"
| "parse_digits acc (c # cs) =
     rbind (ok_or InvalidDigit (char_digit c)) (\<lambda>d.
     rbind (ok_or PosOverflow (checked_mul acc 10)) (\<lambda>m.
     rbind (ok_or PosOverflow (checked_add m (of_nat d))) (\<lambda>acc. parse_digits acc cs)))"

definition parse_u64 :: "string \<Rightarrow> (u64, parse_error) result" where
  "parse_u64 s =
     (case s of
        [] \<Rightarrow> Err EmptyNumber
      | c # cs \<Rightarrow>
          if cs = [] \<and> c \<in> {CHR ''+'', CHR ''-''} then Err InvalidDigit
          else if c = CHR ''+'' then parse_digits 0 cs
          else parse_digits 0 s)"

text \<open>The contract of a written form: what was written can be read back, also item by item in a
  list.\<close>

fun collect_results :: "('a \<Rightarrow> ('b, 'x) result) \<Rightarrow> 'a list \<Rightarrow> ('b list, 'x) result" where
  "collect_results f [] = Ok []"
| "collect_results f (x # xs) = rbind (f x) (\<lambda>y. rbind (collect_results f xs) (\<lambda>ys. Ok (y # ys)))"

lemma collect_results_inverse: "(\<And>x. x \<in> set xs \<Longrightarrow> f (g x) = Ok (h x)) \<Longrightarrow> collect_results f (map g xs) = Ok (map h xs)"
  by (induction xs) auto

locale text_form =
  fixes print :: "'a \<Rightarrow> 'b" and parse :: "'b \<Rightarrow> ('a, 'e) result"
  assumes parse_print: "parse (print x) = Ok x"
begin

lemma parse_all: "collect_results parse (map print xs) = Ok xs"
  using collect_results_inverse [of xs parse print "\<lambda>x. x"] parse_print by simp

end

lemma char_digit_char [simp]: "d < 10 \<Longrightarrow> char_digit (digit_char d) = Some d"
proof -
  assume "d < 10"
  then have "d \<in> {0, 1, 2, 3, 4, 5, 6, 7, 8, 9}" by auto
  then show ?thesis by (auto simp: char_digit_def digit_char_def)
qed

lemma checked_of_nat:
  "a < 2 ^ 64 \<Longrightarrow> b < 2 ^ 64 \<Longrightarrow> a * b < 2 ^ 64 \<Longrightarrow> checked_mul (of_nat a) (of_nat b :: u64) = Some (of_nat (a * b))"
  "a < 2 ^ 64 \<Longrightarrow> b < 2 ^ 64 \<Longrightarrow> a + b < 2 ^ 64 \<Longrightarrow> checked_add (of_nat a) (of_nat b :: u64) = Some (of_nat (a + b))"
  by (simp_all add: checked_mul_def checked_add_def unat_of_nat)

lemma parse_digits_append: "parse_digits acc (xs @ ys) = rbind (parse_digits acc xs) (\<lambda>acc. parse_digits acc ys)"
  by (induction xs arbitrary: acc) (simp_all add: rbind_assoc)

lemma parse_nat_digits: "n < 2 ^ 64 \<Longrightarrow> parse_digits 0 (nat_digits n) = Ok (of_nat n)"
proof (induction n rule: nat_digits.induct)
  case (1 n)
  show ?case
  proof (cases "n < 10")
    case True
    then show ?thesis
      by (simp add: nat_digits.simps [of n] checked_mul_def checked_add_def unat_of_nat)
  next
    case False
    have le: "n div 10 * 10 + n mod 10 = n" by simp
    have "parse_digits 0 (nat_digits (n div 10)) = Ok (of_nat (n div 10))" using 1 False by simp
    moreover have "checked_mul (of_nat (n div 10)) (10 :: u64) = Some (of_nat (n div 10 * 10))"
      using checked_of_nat(1) [of "n div 10" 10] 1(2) by simp
    moreover have "checked_add (of_nat (n div 10 * 10)) (of_nat (n mod 10) :: u64) = Some (of_nat n)"
      using checked_of_nat(2) [of "n div 10 * 10" "n mod 10"] 1(2) unfolding le by simp
    ultimately show ?thesis
      using False by (simp add: nat_digits.simps [of n] parse_digits_append)
  qed
qed

lemma nat_digits_head: "\<exists>d cs. d < 10 \<and> nat_digits n = digit_char d # cs"
proof (induction n rule: nat_digits.induct)
  case (1 n)
  then show ?case by (cases "n < 10") (auto simp: nat_digits.simps [of n])
qed

interpretation decimal: text_form u64_to_string parse_u64
proof unfold_locales
  fix n :: u64
  obtain d cs where d: "d < 10" "nat_digits (unat n) = digit_char d # cs" using nat_digits_head by blast
  have "digit_char d \<noteq> CHR ''+''" "digit_char d \<noteq> CHR ''-''"
    using char_digit_char [OF d(1)] by (auto simp: char_digit_def)
  then show "parse_u64 (u64_to_string n) = Ok n"
    using d parse_nat_digits [of "unat n"] by (simp add: parse_u64_def u64_to_string_def unsigned_less [of n, simplified])
qed

declare decimal.parse_print [simp]

subsection \<open>Text forms of other crates\<close>

datatype text_error = BadPubkey string | BadNumber parse_error | BadFloat string | BadBase64 string

record texts =
  tx_pubkey :: "pubkey \<Rightarrow> string"
  tx_pubkey_from_str :: "string \<Rightarrow> (pubkey, text_error) result"
  tx_f64 :: "f64 \<Rightarrow> string"
  tx_parse_f64 :: "string \<Rightarrow> (f64, text_error) result"
  tx_base64 :: "bytes \<Rightarrow> string"
  tx_base64_decode :: "string \<Rightarrow> (bytes, text_error) result"

text \<open>What is relied on: base58 and base64 can be read back, and a printed double is read as
  some double.\<close>

definition texts_ok :: "texts \<Rightarrow> bool" where
  "texts_ok t \<longleftrightarrow> text_form (tx_pubkey t) (tx_pubkey_from_str t) \<and>
     text_form (tx_base64 t) (tx_base64_decode t) \<and>
     (\<forall>x. is_finite x \<longrightarrow> (\<exists>y. tx_parse_f64 t (tx_f64 t x) = Ok y))"

text \<open>The conversion of an error by \<open>?\<close>.\<close>

fun map_err :: "('e \<Rightarrow> 'f) \<Rightarrow> ('a, 'e) result \<Rightarrow> ('a, 'f) result" where
  "map_err f (Ok x) = Ok x"
| "map_err f (Err e) = Err (f e)"
| "map_err f Panic = Panic"

lemma map_err_Ok [simp]: "map_err f r = Ok x \<longleftrightarrow> r = Ok x"
  by (cases r) simp_all

definition u64_from_str :: "string \<Rightarrow> (u64, text_error) result" where
  "u64_from_str s = map_err BadNumber (parse_u64 s)"

lemma u64_from_str_print [simp]: "u64_from_str (u64_to_string n) = Ok n"
  by (simp add: u64_from_str_def)

subsection \<open>Instructions\<close>

record account_meta_response =
  amr_pubkey :: string
  amr_is_signer :: "bool option"
  amr_is_writable :: "bool option"

record instruction_response =
  ir_program_id :: string
  ir_data :: "string option"
  ir_accounts :: "account_meta_response list option"

definition meta_response :: "texts \<Rightarrow> account_meta \<Rightarrow> account_meta_response" where
  "meta_response t x = \<lparr>amr_pubkey = tx_pubkey t (am_pubkey x), amr_is_signer = Some (am_is_signer x),
     amr_is_writable = Some (am_is_writable x)\<rparr>"

definition from_ix :: "texts \<Rightarrow> instruction \<Rightarrow> instruction_response" where
  "from_ix t ix = \<lparr>ir_program_id = tx_pubkey t (ix_program_id ix), ir_data = Some (tx_base64 t (ix_data ix)),
     ir_accounts = Some (map (meta_response t) (ix_accounts ix))\<rparr>"

definition meta_of_response :: "texts \<Rightarrow> account_meta_response \<Rightarrow> (account_meta, text_error) result" where
  "meta_of_response t m =
     rbind (tx_pubkey_from_str t (amr_pubkey m)) (\<lambda>k.
     Ok \<lparr>am_pubkey = k, am_is_signer = or_default False (amr_is_signer m),
         am_is_writable = or_default False (amr_is_writable m)\<rparr>)"

definition to_ix :: "texts \<Rightarrow> instruction_response \<Rightarrow> (instruction, text_error) result" where
  "to_ix t m =
     rbind (tx_pubkey_from_str t (ir_program_id m)) (\<lambda>program.
     rbind (case ir_data m of None \<Rightarrow> Ok [] | Some d \<Rightarrow> tx_base64_decode t d) (\<lambda>data.
     rbind (case ir_accounts m of None \<Rightarrow> Ok [] | Some accs \<Rightarrow> collect_results (meta_of_response t) accs) (\<lambda>accounts.
     Ok \<lparr>ix_program_id = program, ix_accounts = accounts, ix_data = data\<rparr>)))"

text \<open>A client that reads the instruction the server wrote has that instruction.\<close>

lemma text_form_meta: "texts_ok t \<Longrightarrow> text_form (meta_response t) (meta_of_response t)"
  by (simp add: texts_ok_def text_form_def meta_of_response_def meta_response_def or_default_def)

lemma text_form_ix: "texts_ok t \<Longrightarrow> text_form (from_ix t) (to_ix t)"
  using text_form.parse_all [OF text_form_meta, of t]
  by (simp add: text_form_def texts_ok_def to_ix_def from_ix_def)

subsection \<open>Quotes and requests\<close>

text \<open>The captured accounts and the time taken of a response, for debugging, are left out.\<close>

record swap_info =
  sf_amm_key :: string
  sf_label :: "string option"
  sf_input_mint :: string
  sf_output_mint :: string
  sf_in_amount :: string
  sf_out_amount :: string
  sf_fee_amount :: string
  sf_fee_mint :: string

record route_plan =
  rp_percent :: int
  rp_swap_info :: "swap_info option"

record platform_fee =
  pf_amount :: string
  pf_fee_bps :: int

record quote_response =
  qr_input_mint :: string
  qr_in_amount :: "string option"
  qr_output_mint :: string
  qr_out_amount :: string
  qr_other_amount_threshold :: string
  qr_swap_mode :: string
  qr_slippage_bps :: int
  qr_platform_fee :: "platform_fee option"
  qr_price_impact_pct :: string
  qr_route_plan :: "route_plan list"
  qr_context_slot :: u64

record quote_request =
  qq_input_mint :: string
  qq_output_mint :: string
  qq_amount :: u64
  qq_slippage_bps :: u64
  qq_only_direct_routes :: "bool option"
  qq_max_accounts :: "u8 option"
  qq_swap_mode :: "swap_mode option"
  qq_mode :: "swap_mode option"

record swap_request =
  sr_user_public_key :: string
  sr_wrap_and_unwrap_sol :: bool
  sr_auto_create_out_ata :: bool
  sr_compute_unit_price :: "u64 option"
  sr_quote_response :: quote_response

record swap_response =
  sp_swap_transaction :: bytes
  sp_last_valid_block_height :: u64
  sp_priorization_fee_lamports :: u64

record swap_ix_response =
  xr_compute_budget_instructions :: "instruction_response list"
  xr_setup_instructions :: "instruction_response list"
  xr_swap_instruction :: instruction_response
  xr_cleanup_instructions :: "instruction_response list"
  xr_address_lookup_table_addresses :: "string list"

end
