(* ===== verification/Alt_Optimizer.thy ===== *)
theory Alt_Optimizer
  imports Exec_Runtime
begin

text \<open>
  The choice of address lookup tables for a transaction
  (\<^verbatim>\<open>bin/autobahn-router/src/alt/alt_optimizer.rs\<close>): greedily the table that replaces most addresses,
  at most four times. \<open>sort_by_key\<close> is a stable sort.

  The theorem: the tables chosen are among those given, there are at most four, each replaces
  at least two addresses that no earlier one replaces, and the first one replaces most.
\<close>

record alt_account =
  alt_key :: pubkey
  alt_addresses :: "pubkey list"

definition alt_hits :: "pubkey list \<Rightarrow> alt_account \<Rightarrow> nat" where
  "alt_hits tx_addresses alt = length (filter (\<lambda>a. a \<in> set (alt_addresses alt)) tx_addresses)"

function get_best_alt_internal ::
    "alt_account list \<Rightarrow> pubkey list \<Rightarrow> nat \<Rightarrow> (alt_account list, 'x) result" where
  "get_best_alt_internal all_alt tx_addresses level =
     (let sorted_all_alt = sort_key (\<lambda>alt. - int (snd alt)) (map (\<lambda>alt. (alt, alt_hits tx_addresses alt)) all_alt) in
      case sorted_all_alt of
        [] \<Rightarrow> Ok []
      | (first, count) # others \<Rightarrow>
          if count \<le> 1 then Ok []
          else if level < 3 then
            rbind (get_best_alt_internal (map fst others)
                     (filter (\<lambda>x. x \<notin> set (alt_addresses first)) tx_addresses) (level + 1)) (\<lambda>rest.
            Ok ([first] @ rest))
          else Ok [first])"
  by pat_completeness auto
termination
  by (relation "measure (\<lambda>(all_alt, tx_addresses, level). 3 - level)") auto

declare get_best_alt_internal.simps [simp del]

definition get_best_alt :: "alt_account list \<Rightarrow> pubkey list \<Rightarrow> (alt_account list, 'x) result" where
  "get_best_alt all_alt tx_addresses = get_best_alt_internal all_alt tx_addresses 0"

subsection \<open>What is chosen\<close>

text \<open>The addresses that still have to be listed in the transaction.\<close>

definition unreplaced :: "alt_account list \<Rightarrow> pubkey list \<Rightarrow> pubkey list" where
  "unreplaced alts = filter (\<lambda>a. \<forall>t \<in> set alts. a \<notin> set (alt_addresses t))"

lemma unreplaced_Cons:
  "unreplaced (t # ts) as = unreplaced ts (filter (\<lambda>x. x \<notin> set (alt_addresses t)) as)"
  by (simp add: unreplaced_def)

lemma first_is_best:
  assumes "sort_key (\<lambda>alt. - int (snd alt)) (map (\<lambda>alt. (alt, alt_hits as alt)) alts) = (first, n) # others"
  shows "first \<in> set alts \<and> n = alt_hits as first \<and> (\<forall>alt \<in> set alts. alt_hits as alt \<le> n) \<and>
    set (map fst others) \<subseteq> set alts"
proof -
  let ?xs = "map (\<lambda>alt. (alt, alt_hits as alt)) alts"
  have s: "set ((first, n) # others) = set ?xs" using assms by (metis set_sort)
  have "sorted (map (\<lambda>alt. - int (snd alt)) ((first, n) # others))" using assms by (metis sorted_sort_key)
  then have "\<forall>x \<in> set ?xs. - int n \<le> - int (snd x)" unfolding s [symmetric] by auto
  then show ?thesis using s by force
qed

lemma alt_hits_split: "length as = alt_hits as t + length (filter (\<lambda>x. x \<notin> set (alt_addresses t)) as)"
  by (simp add: alt_hits_def sum_length_filter_compl)

lemma get_best_alt_internal_spec:
  assumes "level \<le> 3"
  shows "\<exists>r. get_best_alt_internal alts as level = (Ok r :: (_, 'x) result) \<and> length r \<le> 4 - level \<and>
    set r \<subseteq> set alts \<and> length (unreplaced r as) + 2 * length r \<le> length as \<and>
    (case r of [] \<Rightarrow> \<forall>alt \<in> set alts. alt_hits as alt \<le> 1
     | t # ts \<Rightarrow> \<forall>alt \<in> set alts. alt_hits as alt \<le> alt_hits as t)"
  using assms
proof (induction "3 - level" arbitrary: level alts as)
  case 0
  show ?case
  proof (cases "sort_key (\<lambda>alt. - int (snd alt)) (map (\<lambda>alt. (alt, alt_hits as alt)) alts)")
    case Nil
    then have "alts = []" by (metis length_0_conv length_map length_sort)
    then show ?thesis by (simp add: get_best_alt_internal.simps unreplaced_def)
  next
    case (Cons p others)
    obtain first n where p: "p = (first, n)" by fastforce
    note best = first_is_best [OF Cons [unfolded p]]
    show ?thesis
    proof (cases "n \<le> 1")
      case True
      then have "get_best_alt_internal alts as level = (Ok [] :: (_, 'x) result)"
        by (simp add: get_best_alt_internal.simps Cons p)
      with True best show ?thesis by (auto simp: unreplaced_def intro: le_trans)
    next
      case False
      then have "get_best_alt_internal alts as level = (Ok [first] :: (_, 'x) result)"
        using 0 by (simp add: get_best_alt_internal.simps Cons p)
      with False best alt_hits_split [of as first] 0 show ?thesis
        by (auto simp: unreplaced_def)
    qed
  qed
next
  case (Suc k)
  show ?case
  proof (cases "sort_key (\<lambda>alt. - int (snd alt)) (map (\<lambda>alt. (alt, alt_hits as alt)) alts)")
    case Nil
    then have "alts = []" by (metis length_0_conv length_map length_sort)
    then show ?thesis by (simp add: get_best_alt_internal.simps unreplaced_def)
  next
    case (Cons p others)
    obtain first n where p: "p = (first, n)" by fastforce
    note best = first_is_best [OF Cons [unfolded p]]
    show ?thesis
    proof (cases "n \<le> 1")
      case True
      then have "get_best_alt_internal alts as level = (Ok [] :: (_, 'x) result)"
        by (simp add: get_best_alt_internal.simps Cons p)
      with True best show ?thesis by (auto simp: unreplaced_def intro: le_trans)
    next
      case False
      let ?as = "filter (\<lambda>x. x \<notin> set (alt_addresses first)) as"
      have level: "level < 3" using Suc(2) by auto
      have "k = 3 - (level + 1)" "level + 1 \<le> 3" using Suc(2) by auto
      from Suc(1) [OF this, of "map fst others" ?as] obtain r where
        r: "get_best_alt_internal (map fst others) ?as (level + 1) = (Ok r :: (_, 'x) result)"
          "length r \<le> 4 - (level + 1)" "set r \<subseteq> set (map fst others)"
          "length (unreplaced r ?as) + 2 * length r \<le> length ?as" by blast
      have "get_best_alt_internal alts as level = (Ok (first # r) :: (_, 'x) result)"
        using False r(1) level by (simp add: get_best_alt_internal.simps [of alts] Cons p)
      moreover have "length (unreplaced (first # r) as) + 2 * length (first # r) \<le> length as"
        using r(4) alt_hits_split [of as first] False best by (simp add: unreplaced_Cons)
      moreover have "length (first # r) \<le> 4 - level" using r(2) Suc(2) by simp
      moreover have "set (first # r) \<subseteq> set alts" using r(3) best by auto
      ultimately show ?thesis using best by (intro exI [of _ "first # r"]) auto
    qed
  qed
qed

text \<open>
  The choice always returns at most four of the given tables; with \<open>k\<close>
  tables at least \<open>2 k\<close> addresses fewer have to be listed; the first table replaces as many
  addresses as any; and none is chosen only if none replaces two addresses.
\<close>

theorem alt_choice_pays:
  "\<exists>r. get_best_alt alts as = (Ok r :: (_, 'x) result) \<and> length r \<le> 4 \<and> set r \<subseteq> set alts \<and>
    length (unreplaced r as) + 2 * length r \<le> length as \<and>
    (case r of [] \<Rightarrow> \<forall>alt \<in> set alts. alt_hits as alt \<le> 1
     | t # ts \<Rightarrow> \<forall>alt \<in> set alts. alt_hits as alt \<le> alt_hits as t)"
  using get_best_alt_internal_spec [of 0 alts as] by (simp add: get_best_alt_def)

theorem alt_choice_pays_witness:
  "\<exists>r. get_best_alt [\<lparr>alt_key = 9, alt_addresses = [1, 2]\<rparr>] [1, 2, 3] = (Ok r :: (_, unit) result) \<and>
     length r \<le> 4 \<and> r \<noteq> []"
proof -
  let ?alt = "\<lparr>alt_key = 9, alt_addresses = [1, 2]\<rparr>" and ?as = "[1, 2, 3] :: pubkey list"
  obtain r where r: "get_best_alt [?alt] ?as = (Ok r :: (_, unit) result)" "length r \<le> 4"
    and c: "case r of [] \<Rightarrow> \<forall>alt \<in> set [?alt]. alt_hits ?as alt \<le> 1
      | t # ts \<Rightarrow> \<forall>alt \<in> set [?alt]. alt_hits ?as alt \<le> alt_hits ?as t"
    using alt_choice_pays [of "[?alt]" ?as] by blast
  have "r \<noteq> []" using c by (auto simp: alt_hits_def)
  with r show ?thesis by blast
qed

end
