(* ===== verification/Hot_Mints.thy ===== *)
theory Hot_Mints
  imports Exec_Runtime
begin

text \<open>
  The mints that were asked for last (\<^verbatim>\<open>bin/autobahn-router/src/hot_mints.rs\<close>), which the pruning of
  the graph treats better. The deque is a list with its front first, base58 parsing is a
  parameter.

  The theorem: after any sequence of additions the cache holds the most recent distinct mints,
  as many as configured, apart from those that are always hot.
\<close>

record hot_mints_config =
  always_hot_mints :: "string list"
  keep_latest_count :: nat

record hot_mints_cache =
  hm_max_count :: nat
  hm_always_hot :: "pubkey set"
  hm_latest_unordered :: "pubkey set"
  hm_latest_ordered :: "pubkey list"

definition default_hot_mints :: hot_mints_config where
  "default_hot_mints = \<lparr>
     always_hot_mints = [''So11111111111111111111111111111111111111112'',
       ''EPjFWdd5AufqSSqeM2qN1xzybapC8G4wEGGkZwyTDt1v'',
       ''Es9vMFrzaCERmJfrF4H2FYD4KCoNkY11McCe8BenwNYB''],
     keep_latest_count = 100\<rparr>"

fun unwrap_all :: "('a \<Rightarrow> 'b option) \<Rightarrow> 'a list \<Rightarrow> ('b list, 'x) result" where
  "unwrap_all f [] = Ok []"
| "unwrap_all f (x # xs) = rbind (unwrap (f x)) (\<lambda>y. rbind (unwrap_all f xs) (\<lambda>ys. Ok (y # ys)))"

definition hot_mints_new ::
    "(string \<Rightarrow> pubkey option) \<Rightarrow> hot_mints_config option \<Rightarrow> (hot_mints_cache, 'x) result" where
  "hot_mints_new from_str config =
     (let config = (case config of None \<Rightarrow> default_hot_mints | Some c \<Rightarrow> c) in
      rbind (unwrap_all from_str (always_hot_mints config)) (\<lambda>always.
      Ok \<lparr>hm_max_count = keep_latest_count config, hm_always_hot = set always,
          hm_latest_unordered = {}, hm_latest_ordered = []\<rparr>))"

definition hot_mints_add :: "pubkey \<Rightarrow> hot_mints_cache \<Rightarrow> (hot_mints_cache, 'x) result" where
  "hot_mints_add pubkey c =
     (if pubkey \<in> hm_always_hot c then Ok c
      else
        rbind (if pubkey \<in> hm_latest_unordered c then
                 rbind (assert_that (pubkey \<in> set (hm_latest_ordered c))) (\<lambda>_.
                 Ok (c\<lparr>hm_latest_ordered := remove1 pubkey (hm_latest_ordered c)\<rparr>))
               else if card (hm_latest_unordered c) \<ge> hm_max_count c then
                 rbind (assert_that (hm_latest_ordered c \<noteq> [])) (\<lambda>_.
                 Ok (c\<lparr>hm_latest_ordered := butlast (hm_latest_ordered c),
                       hm_latest_unordered := hm_latest_unordered c - {last (hm_latest_ordered c)}\<rparr>))
               else Ok c) (\<lambda>c.
        Ok (c\<lparr>hm_latest_unordered := insert pubkey (hm_latest_unordered c),
              hm_latest_ordered := pubkey # hm_latest_ordered c\<rparr>)))"

definition hot_mints_get :: "hot_mints_cache \<Rightarrow> pubkey set" where
  "hot_mints_get c = hm_latest_unordered c \<union> hm_always_hot c"

subsection \<open>The most recent mints\<close>

text \<open>The specification: distinct mints, the one asked for last first.\<close>

definition recent :: "'a list \<Rightarrow> 'a list" where
  "recent xs = rev (remdups xs)"

lemma recent_snoc: "recent (xs @ [x]) = x # removeAll x (recent xs)"
proof -
  have "remdups (xs @ [x]) = removeAll x (remdups xs) @ [x]" by (induction xs) auto
  then show ?thesis by (simp add: recent_def removeAll_filter_not_eq rev_filter)
qed

lemma distinct_recent [simp]: "distinct (recent xs)"
  by (simp add: recent_def)

lemma take_removeAll_in:
  "distinct l \<Longrightarrow> x \<in> set (take n l) \<Longrightarrow> take (n - 1) (removeAll x l) = remove1 x (take n l)"
proof (induction l arbitrary: n)
  case (Cons a l)
  show ?case
  proof (cases "a = x")
    case True
    with Cons.prems show ?thesis by (cases n) (auto simp: removeAll_id)
  next
    case False
    with Cons.prems obtain m where n: "n = Suc m" "x \<in> set (take m l)" by (cases n) auto
    then obtain k where m: "m = Suc k" by (cases m) auto
    from Cons.IH [of m] Cons.prems(1) n False show ?thesis by (simp add: m)
  qed
qed simp

lemma take_removeAll_out: "x \<notin> set (take n l) \<Longrightarrow> take (n - 1) (removeAll x l) = take (n - 1) l"
proof (induction l arbitrary: n)
  case (Cons a l)
  show ?case
  proof (cases n)
    case (Suc m)
    with Cons.prems have a: "a \<noteq> x" "x \<notin> set (take m l)" by auto
    show ?thesis
    proof (cases m)
      case (Suc k)
      with a Cons.IH [of m] \<open>n = Suc m\<close> show ?thesis by simp
    qed (use Suc in simp)
  qed simp
qed simp

lemma set_butlast: "xs \<noteq> [] \<Longrightarrow> distinct xs \<Longrightarrow> set (butlast xs) = set xs - {last xs}"
  by (induction xs rule: rev_induct) auto

text \<open>What the cache holds after the additions \<open>xs\<close>.\<close>

definition holds_recent :: "nat \<Rightarrow> pubkey set \<Rightarrow> pubkey list \<Rightarrow> hot_mints_cache \<Rightarrow> bool" where
  "holds_recent n always xs c \<longleftrightarrow> hm_max_count c = n \<and> hm_always_hot c = always \<and>
     hm_latest_ordered c = take n (recent (filter (\<lambda>x. x \<notin> always) xs)) \<and>
     hm_latest_unordered c = set (hm_latest_ordered c)"

lemma hot_mints_add_recent:
  assumes "holds_recent n always xs c" and "0 < n"
  shows "\<exists>c'. hot_mints_add x c = (Ok c' :: (_, 'x) result) \<and> holds_recent n always (xs @ [x]) c'"
proof (cases "x \<in> always")
  case True
  then show ?thesis using assms(1) by (simp add: hot_mints_add_def holds_recent_def)
next
  case False
  let ?l = "recent (filter (\<lambda>x. x \<notin> always) xs)"
  have c: "hm_max_count c = n" "hm_always_hot c = always" "hm_latest_ordered c = take n ?l"
    "hm_latest_unordered c = set (take n ?l)" using assms(1) by (auto simp: holds_recent_def)
  have new: "take n (recent (filter (\<lambda>x. x \<notin> always) (xs @ [x]))) = x # take (n - 1) (removeAll x ?l)"
    using False assms(2) by (cases n) (simp_all add: recent_snoc)
  have dist: "distinct (take n ?l)" by simp
  consider (old) "x \<in> set (take n ?l)" | (full) "x \<notin> set (take n ?l)" "n \<le> length ?l"
    | (room) "x \<notin> set (take n ?l)" "length ?l < n" by linarith
  then show ?thesis
  proof cases
    case old
    then show ?thesis
      using False c dist new take_removeAll_in [OF _ old]
      by (auto simp: hot_mints_add_def holds_recent_def)
  next
    case full
    have ne: "take n ?l \<noteq> []" using full(2) assms(2) by auto
    have "butlast (take n ?l) = take (n - 1) ?l" using full(2) by (simp add: butlast_take)
    moreover have "set (butlast (take n ?l)) = set (take n ?l) - {last (take n ?l)}"
      by (rule set_butlast [OF ne dist])
    ultimately show ?thesis
      using False c ne new take_removeAll_out [OF full(1)] full distinct_card [OF dist]
      by (auto simp: hot_mints_add_def holds_recent_def)
  next
    case room
    have "take (n - 1) ?l = ?l" "take n ?l = ?l" using room(2) by simp_all
    moreover have "card (set (take n ?l)) < n" using room(2) distinct_card [OF dist] by simp
    ultimately show ?thesis
      using False c new take_removeAll_out [OF room(1)] room(1)
      by (auto simp: hot_mints_add_def holds_recent_def)
  qed
qed

text \<open>
  C30 (hot_mints_recent). After any sequence of additions to a new cache with room for at least
  one mint, the cache returns the mints that are always hot and the most recently added
  distinct other mints, as many as configured. Additions never panic.
\<close>

theorem hot_mints_recent:
  assumes "hot_mints_new from_str config = (Ok c :: (_, 'x) result)" and "0 < hm_max_count c"
  shows "\<exists>c'. rfold hot_mints_add xs c = (Ok c' :: (_, 'x) result) \<and>
    hm_latest_ordered c' = take (hm_max_count c) (recent (filter (\<lambda>x. x \<notin> hm_always_hot c) xs)) \<and>
    hot_mints_get c' = set (hm_latest_ordered c') \<union> hm_always_hot c"
proof -
  have start: "holds_recent (hm_max_count c) (hm_always_hot c) [] c"
    using assms(1) by (auto simp: hot_mints_new_def holds_recent_def recent_def Let_def)
  have "\<exists>c'. rfold hot_mints_add xs c = (Ok c' :: (_, 'x) result) \<and>
      holds_recent (hm_max_count c) (hm_always_hot c) (take (length xs) xs) c'"
    by (rule rfold_prefix [where I = "\<lambda>k. holds_recent (hm_max_count c) (hm_always_hot c) (take k xs)"])
      (use hot_mints_add_recent [OF _ assms(2)] start in \<open>simp_all add: take_Suc_conv_app_nth\<close>)
  then show ?thesis by (auto simp: holds_recent_def hot_mints_get_def)
qed

theorem hot_mints_recent_witness:
  "\<exists>c c'. hot_mints_new (\<lambda>s. Some 7) (Some \<lparr>always_hot_mints = [''x''], keep_latest_count = 3\<rparr>) =
     (Ok c :: (_, unit) result) \<and>
   rfold hot_mints_add [1, 2, 3, 2, 2, 3, 4, 7] c = (Ok c' :: (_, unit) result) \<and>
   hot_mints_get c' = {2, 3, 4, 7}"
proof -
  let ?c = "\<lparr>hm_max_count = 3, hm_always_hot = {7}, hm_latest_unordered = {}, hm_latest_ordered = []\<rparr>"
  have n: "hot_mints_new (\<lambda>s. Some 7) (Some \<lparr>always_hot_mints = [''x''], keep_latest_count = 3\<rparr>) =
      (Ok ?c :: (_, unit) result)" by (simp add: hot_mints_new_def)
  from hot_mints_recent [OF n, of "[1, 2, 3, 2, 2, 3, 4, 7]"] n show ?thesis
    by (auto simp: recent_def insert_commute)
qed

text \<open>With a count of zero the first mint that is not always hot aborts the request.\<close>

lemma hot_mints_zero_panics:
  assumes "hot_mints_new from_str config = (Ok c :: (_, 'x) result)" and "hm_max_count c = 0"
    and "x \<notin> hm_always_hot c"
  shows "hot_mints_add x c = (Panic :: (_, 'x) result)"
  using assms by (auto simp: hot_mints_new_def hot_mints_add_def Let_def)

end
