(* ===== verification/Liquidity.thy ===== *)
theory Liquidity
  imports Edge_State "HOL-Library.AList" "HOL-Library.Multiset"
begin

text \<open>
  Liquidity of mints (\<^verbatim>\<open>bin/autobahn-router/src/liquidity\<close>) and the token cache
  (\<^verbatim>\<open>token_cache.rs\<close>): an estimate of how much of a mint one pool can pay out at an acceptable
  price impact, and the totals per mint. A hash map that is iterated is an association list;
  \<open>pow\<close> is a parameter.

  The theorems: the estimate takes at most 51 quotes and is one of them; a total is the sum of
  the last values set for each pool, cut off at 64 bits.
\<close>

subsection \<open>The token cache\<close>

record token =
  tok_mint :: pubkey
  tok_decimals :: u8

datatype token_error = TokenNotFound

definition token_cache_token :: "(pubkey \<rightharpoonup> u8) \<Rightarrow> pubkey \<Rightarrow> (token, token_error) result" where
  "token_cache_token tokens mint =
     ok_or TokenNotFound (map_option (\<lambda>decimals. \<lparr>tok_mint = mint, tok_decimals = decimals\<rparr>) (tokens mint))"

definition token_cache_tokens :: "(pubkey \<rightharpoonup> u8) \<Rightarrow> pubkey set" where
  "token_cache_tokens tokens = dom tokens"

subsection \<open>The estimate for one edge\<close>

definition saturating_add :: "'a::len word \<Rightarrow> 'a word \<Rightarrow> 'a word" where
  "saturating_add a b = (if unat a + unat b < 2 ^ LENGTH('a) then a + b else - 1)"

lemma unat_saturating_add: "unat (saturating_add a b) = min (2 ^ LENGTH('a) - 1) (unat a + unat (b :: 'a::len word))"
  by (auto simp: saturating_add_def unat_add_lt unsigned_minus_1_eq_mask mask_eq_exp_minus_1 min_def)

definition output_or_zero :: "(quote, 'e) result \<Rightarrow> (u64, 'x) result" where
  "output_or_zero q = (case q of Ok q \<Rightarrow> Ok (q_out_amount q) | Err _ \<Rightarrow> Ok 0 | Panic \<Rightarrow> Panic)"

text \<open>\<open>2.0 - acceptable_price_impact\<close>.\<close>

definition growth_factor :: f64 where
  "growth_factor = f64_sub (Finite False 2) (f64_of_rat (3 / 10))"

text \<open>The loop; the ghost list holds the amounts that were quoted, the last one first.\<close>

function liquidity_loop ::
    "(u64 \<Rightarrow> (u64, 'x) result) \<Rightarrow> nat \<Rightarrow> bool \<Rightarrow> u64 \<Rightarrow> u64 \<Rightarrow> u64 \<Rightarrow> u64 list \<Rightarrow> (u64 \<times> u64 list, 'x) result" where
  "liquidity_loop ask iter_counter has_failed last_in next_in last_out asked =
     (if next_in = 0 \<or> iter_counter > 50 then Ok (last_out, asked)
      else
        rbind (ask next_in) (\<lambda>out_amount.
        let expected_output = f64_mul growth_factor (f64_of_u64 last_out);
            asked = next_in # asked in
        if f64_less (f64_of_u64 out_amount) expected_output then
          (if has_failed then Ok (last_out, asked)
           else liquidity_loop ask (iter_counter + 1) True last_in (saturating_add next_in last_in div 2)
                  last_out asked)
        else liquidity_loop ask (iter_counter + 1) has_failed next_in (saturating_mul next_in 2)
               out_amount asked))"
  by pat_completeness auto
termination
  by (relation "measure (\<lambda>(ask, iter_counter, _). 51 - iter_counter)") auto

declare liquidity_loop.simps [simp del]

datatype 'e liquidity_error = PrepareFailed 'e | TooEarly

definition compute_liquidity ::
    "('i, 'd, 'e) edge \<Rightarrow> 'e account_view \<Rightarrow> (u64 \<times> u64 list, 'e liquidity_error) result" where
  "compute_liquidity edge view =
     (case edge_prepare edge view of
        Err e \<Rightarrow> Err (PrepareFailed e)
      | Panic \<Rightarrow> Panic
      | Ok loaded \<Rightarrow>
          (case cached_prices (e_state edge) of
             [] \<Rightarrow> Err TooEarly
           | (first_in_amount, _) # _ \<Rightarrow>
               liquidity_loop (\<lambda>a. output_or_zero (edge_quote edge loaded view a)) 0 False
                 first_in_amount first_in_amount 0 []))"

subsection \<open>Totals\<close>

text \<open>Pools of a mint with the amounts last set.\<close>

type_synonym liquidity_by_mint = "pubkey \<rightharpoonup> (pubkey \<times> u64) list"

definition set_liquidity :: "pubkey \<Rightarrow> pubkey \<Rightarrow> u64 \<Rightarrow> liquidity_by_mint \<Rightarrow> liquidity_by_mint" where
  "set_liquidity mint pool amount m =
     (case m mint of
        Some cache \<Rightarrow> m(mint \<mapsto> AList.update pool amount cache)
      | None \<Rightarrow> m(mint \<mapsto> [(pool, amount)]))"

definition get_total_liquidity_native :: "liquidity_by_mint \<Rightarrow> pubkey \<Rightarrow> u64" where
  "get_total_liquidity_native m mint =
     (case m mint of
        Some cache \<Rightarrow> fold (\<lambda>x sum. saturating_add sum (snd x)) cache 0
      | None \<Rightarrow> 0)"

datatype dollars_error = NoPrice | NoToken token_error

definition get_total_liquidity_in_dollars ::
    "(f64 \<Rightarrow> f64 \<Rightarrow> f64) \<Rightarrow> (pubkey \<Rightarrow> f64 option) \<Rightarrow> (pubkey \<rightharpoonup> u8) \<Rightarrow> liquidity_by_mint \<Rightarrow> pubkey \<Rightarrow>
     (f64, dollars_error) result" where
  "get_total_liquidity_in_dollars powf price_ui tokens m mint =
     (let liquidity_native = get_total_liquidity_native m mint in
      rbind (ok_or NoPrice (price_ui mint)) (\<lambda>price.
      case token_cache_token tokens mint of
        Err e \<Rightarrow> Err (NoToken e)
      | Panic \<Rightarrow> Panic
      | Ok t \<Rightarrow> Ok (f64_mul (f64_div (f64_of_u64 liquidity_native)
                  (powf (Finite False 10) (f64_of_u64 (ucast (tok_decimals t))))) price)))"

text \<open>One turn of the updater job; an estimate that fails leaves the old value.\<close>

definition refresh_liquidity ::
    "('i, 'd, 'e) edge list \<Rightarrow> 'e account_view \<Rightarrow> liquidity_by_mint \<Rightarrow> (liquidity_by_mint, 'x) result" where
  "refresh_liquidity edges view m =
     rfold (\<lambda>edge m. case compute_liquidity edge view of
         Ok (liquidity, _) \<Rightarrow> Ok (set_liquidity (e_output_mint edge) (id_key (e_ident edge)) liquidity m)
       | Err _ \<Rightarrow> Ok m
       | Panic \<Rightarrow> Panic) edges m"

subsection \<open>Properties\<close>

lemma liquidity_loop_spec:
  assumes "liquidity_loop ask n hf last_in next_in last_out asked = Ok (v, qs)" and "n \<le> 51"
    and "last_out = 0 \<or> (\<exists>a \<in> set asked. ask a = Ok last_out)"
  shows "(v = 0 \<or> (\<exists>a \<in> set qs. ask a = Ok v)) \<and> length qs \<le> length asked + (51 - n)"
  using assms
proof (induction "51 - n" arbitrary: n hf last_in next_in last_out asked)
  case 0
  then show ?case by (simp add: liquidity_loop.simps)
next
  case (Suc k)
  show ?case
  proof (cases "next_in = 0 \<or> n > 50")
    case True
    then show ?thesis using Suc.prems by (auto simp: liquidity_loop.simps)
  next
    case False
    with Suc.prems(1) obtain out where out: "ask next_in = Ok out"
      by (auto simp: liquidity_loop.simps [of ask n])
    have k: "k = 51 - (n + 1)" "n + 1 \<le> 51" using Suc(2) False by auto
    show ?thesis
    proof (cases "f64_less (f64_of_u64 out) (f64_mul growth_factor (f64_of_u64 last_out))")
      case True
      show ?thesis
      proof (cases hf)
        case True
        with \<open>f64_less _ _\<close> Suc.prems False out show ?thesis
          by (auto simp: liquidity_loop.simps [of ask n] Let_def)
      next
        case h: False
        have "liquidity_loop ask (n + 1) True last_in (saturating_add next_in last_in div 2) last_out
            (next_in # asked) = Ok (v, qs)"
          using Suc.prems(1) True False h out by (simp add: liquidity_loop.simps [of ask n] Let_def)
        have "last_out = 0 \<or> (\<exists>a \<in> set (next_in # asked). ask a = Ok last_out)" using Suc.prems(3) by auto
        from Suc(1) [OF k(1) \<open>liquidity_loop ask (n + 1) True _ _ _ _ = _\<close> k(2) this] k show ?thesis by auto
      qed
    next
      case ok: False
      have "liquidity_loop ask (n + 1) hf next_in (saturating_mul next_in 2) out (next_in # asked) = Ok (v, qs)"
        using Suc.prems(1) ok False out by (simp add: liquidity_loop.simps [of ask n] Let_def)
      from Suc(1) [OF k(1) this k(2)] out k show ?thesis by auto
    qed
  qed
qed

text \<open>
  The estimate for an edge ends after at most 51 quotes, and a result
  other than zero is the output of one of them; it fails only when the edge cannot be loaded
  or has no cached price yet.
\<close>

theorem liquidity_quoted:
  fixes edge :: "('i, 'd, 'e) edge"
  assumes "compute_liquidity edge view = Ok (v, asked)"
  shows "length asked \<le> 51 \<and> (v = 0 \<or> (\<exists>loaded a q. a \<in> set asked \<and> edge_prepare edge view = Ok loaded \<and>
    edge_quote edge loaded view a = Ok q \<and> q_out_amount q = v))"
proof -
  obtain loaded where l: "edge_prepare edge view = Ok loaded"
    using assms by (cases "edge_prepare edge view") (simp_all add: compute_liquidity_def)
  let ?ask = "\<lambda>a. output_or_zero (edge_quote edge loaded view a) :: (u64, 'e liquidity_error) result"
  obtain first rest where c: "cached_prices (e_state edge) = first # rest"
    using assms l by (cases "cached_prices (e_state edge)") (simp_all add: compute_liquidity_def)
  have "liquidity_loop ?ask 0 False (fst first) (fst first) 0 [] = Ok (v, asked)"
    using assms l c by (cases first) (simp add: compute_liquidity_def)
  from liquidity_loop_spec [OF this] have r: "length asked \<le> 51" "v = 0 \<or> (\<exists>a \<in> set asked. ?ask a = Ok v)"
    by auto
  show ?thesis
  proof (cases "v = 0")
    case False
    with r(2) obtain a where "a \<in> set asked" "?ask a = Ok v" by blast
    with l r(1) False show ?thesis by (auto simp: output_or_zero_def split: result.splits)
  qed (use r(1) in simp)
qed

lemma fold_saturating:
  "unat s \<le> 2 ^ 64 - 1 \<Longrightarrow> unat (fold (\<lambda>x sum. saturating_add sum (snd x)) xs (s :: u64)) =
     min (2 ^ 64 - 1) (unat s + sum_list (map (\<lambda>x. unat (snd x)) xs))"
proof (induction xs arbitrary: s)
  case (Cons x xs)
  have "unat (saturating_add s (snd x)) \<le> 2 ^ 64 - 1" by (simp add: unat_saturating_add)
  from Cons.IH [OF this] show ?case by (simp add: unat_saturating_add)
qed simp

text \<open>The liquidity set last for a pool.\<close>

definition liquidity_of :: "liquidity_by_mint \<Rightarrow> pubkey \<Rightarrow> pubkey \<Rightarrow> u64 option" where
  "liquidity_of m mint pool = (case m mint of None \<Rightarrow> None | Some cache \<Rightarrow> map_of cache pool)"

text \<open>
  Setting the liquidity of a pool changes that of no other pool and of
  no other mint, and the total of a mint is the exact sum over its pools, cut off at the
  largest 64-bit value, in whatever order the pools are visited.
\<close>

theorem liquidity_total:
  "liquidity_of (set_liquidity mint pool amount m) mint' pool' =
     (if mint' = mint \<and> pool' = pool then Some amount else liquidity_of m mint' pool') \<and>
   (m mint = Some cache \<longrightarrow> mset cache' = mset cache \<longrightarrow>
     unat (get_total_liquidity_native (m(mint \<mapsto> cache')) mint) =
       min (2 ^ 64 - 1) (sum_list (map (\<lambda>x. unat (snd x)) cache)))"
proof (intro conjI impI)
  show "liquidity_of (set_liquidity mint pool amount m) mint' pool' =
     (if mint' = mint \<and> pool' = pool then Some amount else liquidity_of m mint' pool')"
    by (cases "m mint") (simp_all add: liquidity_of_def set_liquidity_def update_conv)
next
  assume "mset cache' = mset cache"
  then have "mset (map (\<lambda>x. unat (snd x)) cache') = mset (map (\<lambda>x. unat (snd x)) cache)" by simp
  then have "sum_list (map (\<lambda>x. unat (snd x)) cache') = sum_list (map (\<lambda>x. unat (snd x)) cache)"
    by (simp only: flip: sum_mset_sum_list)
  then show "unat (get_total_liquidity_native (m(mint \<mapsto> cache')) mint) =
      min (2 ^ 64 - 1) (sum_list (map (\<lambda>x. unat (snd x)) cache))"
    using fold_saturating [of 0 cache'] by (simp add: get_total_liquidity_native_def)
qed

theorem liquidity_total_witness:
  "unat (get_total_liquidity_native ([5 \<mapsto> [(1, 10), (2, - 1)]](5 \<mapsto> [(2, - 1), (1, 10)])) 5) = 2 ^ 64 - 1"
proof -
  have "unat (get_total_liquidity_native ([5 \<mapsto> [(1, 10), (2, - 1)]](5 \<mapsto> [(2, - 1), (1, 10)])) 5) =
      min (2 ^ 64 - 1) (sum_list (map (\<lambda>x. unat (snd x)) [(1 :: pubkey, 10 :: u64), (2, - 1)]))"
    using liquidity_total [of 5 0 0 "[5 \<mapsto> [(1, 10), (2, - 1)]]" 5 0 "[(1, 10), (2, - 1)]" "[(2, - 1), (1, 10)]"]
    by (simp only: fun_upd_same simp_thms) (simp add: add_mset_commute)
  then show ?thesis by (simp add: unsigned_minus_1_eq_mask mask_eq_exp_minus_1)
qed

text \<open>A pool without liquidity is asked for ever larger amounts and is worth nothing.\<close>

definition dry_edge :: "(unit, unit, unit) edge" where
  "dry_edge = \<lparr>e_input_mint = 5, e_output_mint = 6,
     e_dex = ref_dex\<lparr>dex_quote := (\<lambda>i d view a. Err ())\<rparr>, e_id = (),
     e_ident = \<lparr>id_key = 9, id_desc = ''dry'', id_input_mint = 5, id_output_mint = 6,
       id_accounts_needed = 4\<rparr>, e_accounts_needed = 4,
     e_state = default_edge_state\<lparr>cached_prices := [(2 ^ 63, NaN, NaN)]\<rparr>\<rparr>"

lemma growth_zero: "\<not> f64_less (f64_of_u64 0) (f64_mul growth_factor (f64_of_u64 0))"
  by code_simp

lemma dry_loop:
  "n \<le> 51 \<Longrightarrow> \<exists>qs. liquidity_loop (\<lambda>a. Ok 0) n hf l next_in 0 asked = Ok (0, qs)"
proof (induction "51 - n" arbitrary: n l next_in asked)
  case 0
  then show ?case by (simp add: liquidity_loop.simps)
next
  case (Suc k)
  have "k = 51 - (n + 1)" "n + 1 \<le> 51" using Suc(2) by auto
  from Suc(1) [OF this] show ?case
    by (simp add: liquidity_loop.simps [of "\<lambda>a. Ok 0" n] growth_zero Let_def)
qed

theorem liquidity_quoted_witness:
  "\<exists>qs. compute_liquidity dry_edge ref_view = Ok (0, qs) \<and> length qs \<le> 51"
proof -
  have ask: "(\<lambda>a. output_or_zero (edge_quote dry_edge () ref_view a)) =
      (\<lambda>a. Ok 0 :: (u64, unit liquidity_error) result)"
    by (simp add: fun_eq_iff output_or_zero_def edge_quote_def dry_edge_def)
  obtain qs where "liquidity_loop (\<lambda>a. Ok 0 :: (u64, unit liquidity_error) result) 0 False (2 ^ 63) (2 ^ 63) 0 [] =
      Ok (0, qs)" using dry_loop [of 0] by blast
  then have c: "compute_liquidity dry_edge ref_view = Ok (0, qs)"
    unfolding ask [symmetric]
    by (simp add: compute_liquidity_def edge_prepare_def) (simp add: dry_edge_def ref_dex_def)
  from liquidity_quoted [OF c] c show ?thesis by blast
qed

end
