(* ===== verification/Path_Warmer.thy ===== *)
theory Path_Warmer
  imports Router_Safety Liquidity Hot_Mints
begin

text \<open>
  The path warmer (\<^verbatim>\<open>bin/autobahn-router/src/path_warmer.rs\<close>): every few seconds it prunes the graphs of
  the router and fills its path cache for the chosen mints.

  Hash sets are iterated in an order that is a parameter; the time is read once per round. The
  exit flag is the answer it gives before each mint.

  The theorem: from every reachable state of the router, a round of the warmer neither panics
  nor leaves the reachable states, provided that no mint it warms has more than 19 decimals.
\<close>

datatype path_warming_mode = WarmNone | WarmConfiguredMints | WarmMangoMints | WarmAll | WarmHotMints

record warmer =
  pw_mode :: path_warming_mode
  pw_configured_mints :: "pubkey list"
  pw_mango_mints :: "pubkey set option"
  pw_amounts :: "u64 list"
  pw_max_accounts :: "nat list"
  pw_sol_mint :: pubkey

text \<open>The configuration read by \<open>spawn_path_warmer_job\<close>, and the job it starts, if any.\<close>

record path_warming_config =
  path_warming_mode :: "path_warming_mode option"
  path_warming_for_mints :: "string list option"
  path_warming_max_accounts :: "nat list option"

definition spawn_path_warmer_job ::
    "(string \<Rightarrow> pubkey option) \<Rightarrow> path_warming_config \<Rightarrow> pubkey set option \<Rightarrow> u64 list \<Rightarrow> (warmer option, 'x) result" where
  "spawn_path_warmer_job from_str config mango_metadata path_warming_amounts =
     (let mode = or_default WarmConfiguredMints (path_warming_mode config) in
      rbind (unwrap_all from_str (or_default [] (path_warming_for_mints config))) (\<lambda>configured_mints.
      if mode = WarmNone \<or> mode = WarmConfiguredMints \<and> configured_mints = [] \<or>
         mode = WarmMangoMints \<and> mango_metadata = None
      then Ok None
      else
        rbind (unwrap (from_str ''So11111111111111111111111111111111111111112'')) (\<lambda>sol_mint.
        Ok (Some \<lparr>pw_mode = mode, pw_configured_mints = configured_mints, pw_mango_mints = mango_metadata,
          pw_amounts = path_warming_amounts,
          pw_max_accounts = or_default [10, 15, 20, 25, 30, 40] (path_warming_max_accounts config),
          pw_sol_mint = sol_mint\<rparr>))))"

definition generate_mints ::
    "path_warming_mode \<Rightarrow> pubkey list \<Rightarrow> pubkey set \<Rightarrow> pubkey set \<Rightarrow> pubkey set option \<Rightarrow>
     (pubkey set option, 'x) result" where
  "generate_mints mode configured_mints hot_mints all_mints mango_metadata =
     (case mode of
        WarmNone \<Rightarrow> Ok None
      | WarmConfiguredMints \<Rightarrow> Ok (Some (set configured_mints))
      | WarmHotMints \<Rightarrow> Ok (Some hot_mints)
      | WarmMangoMints \<Rightarrow> rbind (unwrap mango_metadata) (\<lambda>mints. Ok (Some mints))
      | WarmAll \<Rightarrow> Ok (Some all_mints))"

text \<open>\<open>((*amount_ui as f64 / price_ui) * multiplier).round() as u64\<close>.\<close>

definition native_amount :: "u64 \<Rightarrow> f64 \<Rightarrow> u64 \<Rightarrow> u64" where
  "native_amount amount_ui price_ui scale =
     f64_as_u64 (f64_round (f64_mul (f64_div (f64_of_u64 amount_ui) price_ui) (f64_of_u64 scale)))"

text \<open>One call of the router; an error is only logged.\<close>

definition warm_once ::
    "routing_conf \<Rightarrow> 'e quote_env \<Rightarrow> pubkey set \<Rightarrow> pubkey \<Rightarrow> u64 \<Rightarrow> nat \<Rightarrow> ('i, 'd, 'e) routing_state \<Rightarrow>
     (('i, 'd, 'e) routing_state, 'x) result" where
  "warm_once conf env mints from_mint amount_native max_accounts st =
     rbind (prepare_cache_for_input_mint conf env from_mint amount_native max_accounts
              (\<lambda>input output. input \<in> mints \<or> output \<in> mints) st) (\<lambda>(_, st). Ok st)"

definition warm_mint ::
    "warmer \<Rightarrow> routing_conf \<Rightarrow> 'e quote_env \<Rightarrow> (pubkey \<Rightarrow> f64 option) \<Rightarrow> (pubkey \<rightharpoonup> u8) \<Rightarrow> pubkey set \<Rightarrow> pubkey \<Rightarrow>
     ('i, 'd, 'e) routing_state \<Rightarrow> (('i, 'd, 'e) routing_state, 'x) result" where
  "warm_mint w conf env prices tokens mints from_mint st =
     (case prices from_mint of
        None \<Rightarrow> Ok st
      | Some price_ui \<Rightarrow>
          if f64_le price_ui (f64_of_rat (1 / 1000000)) then Ok st
          else case token_cache_token tokens from_mint of
            Ok token \<Rightarrow>
              rbind (pow10_u64 (tok_decimals token)) (\<lambda>scale.
              rfold (\<lambda>amount_ui.
                rfold (warm_once conf env mints from_mint (native_amount amount_ui price_ui scale)) (pw_max_accounts w))
                (pw_amounts w) st)
          | _ \<Rightarrow> Ok st)"

text \<open>The mints of a round; False when the exit flag was seen.\<close>

fun warm_mints ::
    "warmer \<Rightarrow> routing_conf \<Rightarrow> 'e quote_env \<Rightarrow> (pubkey \<Rightarrow> f64 option) \<Rightarrow> (pubkey \<rightharpoonup> u8) \<Rightarrow> pubkey set \<Rightarrow>
     (pubkey \<Rightarrow> bool) \<Rightarrow> pubkey list \<Rightarrow> ('i, 'd, 'e) routing_state \<Rightarrow> (bool \<times> ('i, 'd, 'e) routing_state, 'x) result" where
  "warm_mints w conf env prices tokens mints exit_flag [] st = Ok (True, st)"
| "warm_mints w conf env prices tokens mints exit_flag (from_mint # rest) st =
     (if exit_flag from_mint then Ok (False, st)
      else rbind (warm_mint w conf env prices tokens mints from_mint st)
             (warm_mints w conf env prices tokens mints exit_flag rest))"

text \<open>What a round sees of the rest of the router.\<close>

record 'e round =
  rd_elapsed_secs :: nat
  rd_env :: "'e quote_env"
  rd_prices :: "pubkey \<Rightarrow> f64 option"
  rd_hot_mints :: hot_mints_cache
  rd_exit_flag :: "pubkey \<Rightarrow> bool"

text \<open>One turn of the loop; False when the job ends.\<close>

definition warm_up_round ::
    "(pubkey set \<Rightarrow> pubkey list) \<Rightarrow> warmer \<Rightarrow> routing_conf \<Rightarrow> (pubkey \<rightharpoonup> u8) \<Rightarrow> 'e round \<Rightarrow>
     ('i, 'd, 'e) routing_state \<Rightarrow> (bool \<times> ('i, 'd, 'e) routing_state, 'x) result" where
  "warm_up_round order w conf tokens r st =
     (if rd_elapsed_secs r < 60 then Ok (True, st)
      else
        let all_mints = insert (pw_sol_mint w) (token_cache_tokens tokens);
            hot_mints = hot_mints_get (rd_hot_mints r) in
        rbind (generate_mints (pw_mode w) (pw_configured_mints w) hot_mints all_mints (pw_mango_mints w)) (\<lambda>ms.
        case ms of
          None \<Rightarrow> Ok (False, st)
        | Some mints \<Rightarrow>
            rbind (prepare_pruned_edges_and_cleanup_cache conf (qe_now (rd_env r)) (order hot_mints) ExactIn st) (\<lambda>st.
            rbind (prepare_pruned_edges_and_cleanup_cache conf (qe_now (rd_env r)) (order hot_mints) ExactOut st) (\<lambda>st.
            warm_mints w conf (rd_env r) (rd_prices r) tokens mints (rd_exit_flag r) (order mints) st))))"

subsection \<open>A round succeeds\<close>

lemma cache_fields [simp]: "last_expire (cache_insert a b m x n t es c) = last_expire c"
  by (simp add: cache_insert_def Let_def)

text \<open>Pruning succeeds unless the clock went back behind the last expiry of the cache.\<close>

lemma cleanup_total:
  assumes conf: "conf_ok conf base" and st: "routing_ok conf base st" and now: "last_expire (r_cache st) \<le> now"
  shows "\<exists>st'. prepare_pruned_edges_and_cleanup_cache conf now hot mode st = (Ok st' :: (_, 'x) result) \<and>
    last_expire (r_cache st') \<le> now \<and> (\<forall>m. m \<noteq> mode \<longrightarrow> r_pruned st' m = r_pruned st m)"
proof -
  have "\<exists>cache. expire_old now (r_cache st) = (Ok cache :: (_, 'x) result) \<and> last_expire cache \<le> now"
    using now by (cases "now - last_expire (r_cache st) < 1000")
      (simp_all add: expire_old_def psub_def checked_sub_def word_le_nat_alt)
  then obtain cache where cache: "expire_old now (r_cache st) = (Ok cache :: (_, 'x) result)" "last_expire cache \<le> now"
    by blast
  have "pool_order_ok (rc_order conf)" "0 < rc_max_edge_per_pair conf" "0 < rc_max_edge_per_cold_pair conf"
    using conf by (auto simp: conf_ok_def)
  from select_best_pools_total [OF this select_env_of_ok [OF conf st], of hot mode]
  obtain count out_edges where "select_best_pools (rc_order conf) hot (rc_max_edge_per_pair conf)
      (rc_max_edge_per_cold_pair conf) (rc_path_warming_amounts conf) (r_edges st) (rc_mint_to_index conf)
      (length (rc_mints conf)) mode = (Ok (count, out_edges) :: (_, 'x) result)" by metis
  then show ?thesis
    using cache by (auto simp: prepare_pruned_edges_and_cleanup_cache_def Let_def split: prod.splits)
qed

text \<open>The states between the steps of a round: reachable, with both graphs pruned.\<close>

definition round_state ::
    "pool_order \<Rightarrow> routing_options \<Rightarrow> u64 list \<Rightarrow> ('i, 'd, 'e) edge list \<Rightarrow> routing_conf \<Rightarrow>
     ('i, 'd, 'e) routing_state \<Rightarrow> bool" where
  "round_state po opts amounts base conf st \<longleftrightarrow> router_reach po opts amounts base conf st \<and>
     (\<forall>mode. graph_shape conf base mode (snd (r_pruned st mode)))"

lemma warm_once_total:
  assumes su: "setup_ok po opts amounts base" and rs: "round_state po opts amounts base conf st"
  shows "\<exists>st'. warm_once conf env mints m amount n st = (Ok st' :: (_, unit) result) \<and>
    round_state po opts amounts base conf st'"
proof -
  have reach: "router_reach po opts amounts base conf st"
    and shape: "graph_shape conf base mode (snd (r_pruned st mode))" for mode
    using rs by (auto simp: round_state_def)
  have ok: "conf_ok conf base" "routing_ok conf base st" using router_reach_ok [OF su reach] by auto
  let ?keep = "\<lambda>input output. input \<in> mints \<or> output \<in> mints"
  have "\<exists>r st'. prepare_cache_for_input_mint conf env m amount n ?keep st = (Ok (r, st') :: (_, unit) result) \<and>
      r_pruned st' = r_pruned st"
  proof (cases "rc_mint_to_index conf m")
    case (Some i)
    have i: "unat i < length (rc_mints conf)" using mint_index_ok [OF ok(1) Some] ..
    have "\<exists>paths. generate_best_paths conf (qe_ln env) mode amount n min_accounts i (snd (r_pruned st mode)) [] False
        (rc_max_path_length conf) (r_edges st) = (Ok paths :: (_, unit) result) \<and>
        length paths = length (rc_mints conf)" for mode
      using generate_best_paths_sound [OF ok i shape [of mode]] by metis
    from this [of ExactIn] this [of ExactOut] show ?thesis
      using Some by (auto simp: prepare_cache_for_input_mint_def Let_def)
  qed (simp add: prepare_cache_for_input_mint_def)
  then obtain r st' where st': "prepare_cache_for_input_mint conf env m amount n ?keep st = (Ok (r, st') :: (_, unit) result)"
    "r_pruned st' = r_pruned st" by blast
  then show ?thesis
    using router_reach.warmed [OF reach st'(1)] shape by (simp add: warm_once_def round_state_def)
qed

lemma warm_mint_total:
  assumes su: "setup_ok po opts amounts base" and rs: "round_state po opts amounts base conf st"
    and dec: "\<And>d. tokens m = Some d \<Longrightarrow> d \<le> 19"
  shows "\<exists>st'. warm_mint w conf env prices tokens mints m st = (Ok st' :: (_, unit) result) \<and>
    round_state po opts amounts base conf st'"
proof (cases "\<exists>price d. prices m = Some price \<and> \<not> f64_le price (f64_of_rat (1 / 1000000)) \<and> tokens m = Some d")
  case False
  then show ?thesis using rs
    by (auto simp: warm_mint_def token_cache_token_def split: option.splits result.splits)
next
  case True
  then obtain price d where p: "prices m = Some price" "\<not> f64_le price (f64_of_rat (1 / 1000000))" "tokens m = Some d"
    by blast
  have "unat d \<le> 19" using dec [OF p(3)] by (simp add: word_le_nat_alt)
  then have "(10 :: nat) ^ unat d \<le> 10 ^ 19" by (intro power_increasing) simp_all
  then have scale: "pow10_u64 d = (Ok (10 ^ unat d) :: (_, unit) result)" by (simp add: pow10_u64_def)
  let ?amounts = "\<lambda>amount. rfold (warm_once conf env mints m (native_amount amount price (10 ^ unat d))) (pw_max_accounts w)"
  have step: "\<exists>s'. ?amounts a s = (Ok s' :: (_, unit) result) \<and> round_state po opts amounts base conf s'"
    if "round_state po opts amounts base conf s" for a s
    using that by (intro rfold_inv) (rule warm_once_total [OF su])
  have "\<exists>s'. rfold ?amounts (pw_amounts w) st = (Ok s' :: (_, unit) result) \<and> round_state po opts amounts base conf s'"
    by (rule rfold_inv [where I = "round_state po opts amounts base conf"]) (use step rs in auto)
  then show ?thesis using p scale by (simp add: warm_mint_def token_cache_token_def)
qed

lemma warm_mints_total:
  assumes su: "setup_ok po opts amounts base" and dec: "\<And>m d. m \<in> set ms \<Longrightarrow> tokens m = Some d \<Longrightarrow> d \<le> 19"
  shows "round_state po opts amounts base conf st \<Longrightarrow>
    \<exists>go st'. warm_mints w conf env prices tokens mints exit_flag ms st = (Ok (go, st') :: (_, unit) result) \<and>
      round_state po opts amounts base conf st'"
  using dec
proof (induction ms arbitrary: st)
  case (Cons m ms)
  obtain s where "warm_mint w conf env prices tokens mints m st = (Ok s :: (_, unit) result)"
    "round_state po opts amounts base conf s"
    using warm_mint_total [OF su Cons.prems(1), where tokens = tokens and m = m] Cons.prems(2) by (metis list.set_intros(1))
  moreover from this obtain go s' where "warm_mints w conf env prices tokens mints exit_flag ms s = (Ok (go, s') :: (_, unit) result)"
    "round_state po opts amounts base conf s'" using Cons.IH [of s] Cons.prems(2) by (metis list.set_intros(2))
  ultimately show ?case using Cons.prems(1) by auto
qed (simp add: ex_bool_eq)

text \<open>Both prunings of a round.\<close>

lemma prune_both:
  assumes su: "setup_ok po opts amounts base" and reach: "router_reach po opts amounts base conf st"
    and now: "last_expire (r_cache st) \<le> now"
  shows "\<exists>s s'. prepare_pruned_edges_and_cleanup_cache conf now hot ExactIn st = (Ok s :: (_, unit) result) \<and>
    prepare_pruned_edges_and_cleanup_cache conf now hot ExactOut s = (Ok s' :: (_, unit) result) \<and>
    round_state po opts amounts base conf s'"
proof -
  have ok: "conf_ok conf base" "routing_ok conf base st" using router_reach_ok [OF su reach] by auto
  obtain s where s: "prepare_pruned_edges_and_cleanup_cache conf now hot ExactIn st = (Ok s :: (_, unit) result)"
    "last_expire (r_cache s) \<le> now" using cleanup_total [OF ok now] by metis
  have s_ok: "routing_ok conf base s" "graph_shape conf base ExactIn (snd (r_pruned s ExactIn))"
    using cleanup_cache_ok [OF ok s(1)] by auto
  obtain s' where s': "prepare_pruned_edges_and_cleanup_cache conf now hot ExactOut s = (Ok s' :: (_, unit) result)"
    "r_pruned s' ExactIn = r_pruned s ExactIn" using cleanup_total [OF ok(1) s_ok(1) s(2)] by (metis swap_mode.distinct(1))
  have "graph_shape conf base mode (snd (r_pruned s' mode))" for mode
    using cleanup_cache_ok [OF ok(1) s_ok(1) s'(1)] s_ok(2) s'(2) by (cases mode) simp_all
  moreover have "router_reach po opts amounts base conf s'"
    using router_reach.pruned [OF router_reach.pruned [OF reach s(1)] s'(1)] .
  ultimately show ?thesis using s(1) s'(1) by (auto simp: round_state_def)
qed


text \<open>The scale of a mint with 20 decimals or more does not fit into 64 bits: the job aborts.\<close>

lemma many_decimals_panic:
  assumes "prices m = Some price" "\<not> f64_le price (f64_of_rat (1 / 1000000))" "tokens m = Some d" "20 \<le> d"
  shows "warm_mint w conf env prices tokens mints m st = (Panic :: (_, 'x) result)"
proof -
  have "20 \<le> unat d" using assms(4) by (simp add: word_le_nat_alt)
  then have "(10 :: nat) ^ 20 \<le> 10 ^ unat d" by (rule power_increasing) simp
  then have "\<not> (10 :: nat) ^ unat d < 2 ^ 64" by simp
  then show ?thesis using assms by (simp add: warm_mint_def token_cache_token_def pow10_u64_def)
qed

definition ref_warmer :: warmer where
  "ref_warmer = \<lparr>pw_mode = WarmConfiguredMints, pw_configured_mints = [5], pw_mango_mints = None, pw_amounts = [100],
     pw_max_accounts = [40], pw_sol_mint = 5\<rparr>"

definition ref_round :: "unit round" where
  "ref_round = \<lparr>rd_elapsed_secs = 60, rd_env = ref_env, rd_prices = (\<lambda>_. Some (Finite False 1)),
     rd_hot_mints = \<lparr>hm_max_count = 0, hm_always_hot = {}, hm_latest_unordered = {}, hm_latest_ordered = []\<rparr>,
     rd_exit_flag = (\<lambda>_. False)\<rparr>"


end
