(* ===== verification/Raydium_Cp.thy ===== *)
theory Raydium_Cp
  imports Raydium_Dex
begin

text \<open>
  The adapter of the Raydium constant-product program (\<^verbatim>\<open>lib/dex-raydium-cp\<close>): pool selection and
  the accounts watched (\<^verbatim>\<open>raydium_cp.rs\<close>, \<open>insert_or_extend\<close> in \<^verbatim>\<open>lib/router-lib/src/utils.rs\<close>),
  loading, quoting in both directions (\<^verbatim>\<open>edge.rs\<close>) and the swap instruction
  (\<^verbatim>\<open>raydium_cp_ix_builder.rs\<close>).

  The states of the program, its curve, the token program and the generated instruction code are
  other crates: \<open>cp_pool\<close> and \<open>cp_config\<close> hold what the adapter reads, the functions are the
  parameters \<open>cp_lib\<close>. \<open>catch_unwind\<close> turns a panic into an error.

  The theorems: exactly the accounts of the pools kept are watched, and each leads to the edges
  of all pools that use it; a quote with an output answers for the amount asked, while for a
  closed pool the answer is for the amount zero, outside the contract \<open>quoting_dex\<close>.
\<close>

subsection \<open>What other crates provide\<close>

record cp_pool =
  cp_amm_config :: pubkey
  cp_token_0_vault :: pubkey
  cp_token_1_vault :: pubkey
  cp_token_0_mint :: pubkey
  cp_token_1_mint :: pubkey
  cp_token_0_program :: pubkey
  cp_token_1_program :: pubkey
  cp_observation_key :: pubkey
  cp_swap_enabled :: bool
  cp_protocol_fees_token_0 :: u64
  cp_protocol_fees_token_1 :: u64
  cp_fund_fees_token_0 :: u64
  cp_fund_fees_token_1 :: u64
  cp_open_time :: u64

record cp_config =
  cp_trade_fee_rate :: u64
  cp_protocol_fee_rate :: u64
  cp_fund_fee_rate :: u64

record curve_result =
  cr_source_amount_swapped :: u128
  cr_destination_amount_swapped :: u128
  cr_trade_fee :: u128
  cr_protocol_fee :: u128
  cr_fund_fee :: u128

datatype cp_error = CpAccount | CpDecode | NotApproved | InAmountZero | OutAmountZero | InvalidVault
  | InvalidSub | NotEnoughTokens | CantSwap | SomethingWrong

text \<open>A transfer fee configuration is its fee in the current epoch.\<close>

type_synonym transfer_fee = "u64 \<Rightarrow> (u64, cp_error) result"

type_synonym curve = "u128 \<Rightarrow> u128 \<Rightarrow> u128 \<Rightarrow> u64 \<Rightarrow> u64 \<Rightarrow> u64 \<Rightarrow> (curve_result option, cp_error) result"

record cp_lib =
  cl_token_id :: pubkey
  cl_program_id :: pubkey
  cl_authority :: pubkey
  cl_clock_id :: pubkey
  cl_pool :: "bytes \<Rightarrow> (cp_pool, cp_error) result"
  cl_config :: "bytes \<Rightarrow> (cp_config, cp_error) result"
  cl_vault_amount :: "bytes \<Rightarrow> (u64, cp_error) result"
  cl_unix_timestamp :: "bytes \<Rightarrow> (u64, cp_error) result"
  cl_swap_base_input :: curve
  cl_swap_base_output :: curve
  cl_instruction_data :: "u64 \<Rightarrow> u64 \<Rightarrow> bytes"
  cl_account_metas :: "pubkey list \<Rightarrow> account_meta list"

subsection \<open>Edges\<close>

record cp_edge_identifier =
  ci_pool :: pubkey
  ci_mint_a :: pubkey
  ci_mint_b :: pubkey
  ci_is_a_to_b :: bool

definition cp_ident :: "(pubkey \<Rightarrow> string) \<Rightarrow> cp_edge_identifier \<Rightarrow> edge_ident" where
  "cp_ident base58 i = \<lparr>id_key = ci_pool i, id_desc = ''RaydiumCp_'' @ base58 (ci_pool i),
     id_input_mint = ci_mint_a i, id_output_mint = ci_mint_b i, id_accounts_needed = 11\<rparr>"

record cp_edge =
  ce_pool :: cp_pool
  ce_config :: cp_config
  ce_vault_0_amount :: u64
  ce_vault_1_amount :: u64
  ce_mint_0 :: "transfer_fee option"
  ce_mint_1 :: "transfer_fee option"

definition insert_or_extend :: "'k \<Rightarrow> 'v list \<Rightarrow> ('k \<rightharpoonup> 'v list) \<Rightarrow> ('k \<rightharpoonup> 'v list)" where
  "insert_or_extend pk entry m =
     (case m pk of Some old \<Rightarrow> m(pk \<mapsto> old @ entry) | None \<Rightarrow> m(pk \<mapsto> entry))"

definition cp_edge_pair :: "pubkey \<Rightarrow> cp_pool \<Rightarrow> cp_edge_identifier list" where
  "cp_edge_pair pk pool =
     [\<lparr>ci_pool = pk, ci_mint_a = cp_token_0_mint pool, ci_mint_b = cp_token_1_mint pool, ci_is_a_to_b = True\<rparr>,
      \<lparr>ci_pool = pk, ci_mint_a = cp_token_1_mint pool, ci_mint_b = cp_token_0_mint pool, ci_is_a_to_b = False\<rparr>]"

definition watched :: "pubkey \<Rightarrow> cp_pool \<Rightarrow> pubkey list" where
  "watched pk pool = [pk, cp_amm_config pool, cp_token_0_vault pool, cp_token_1_vault pool]"

definition cp_edges_per_pk :: "(pubkey \<times> cp_pool) list \<Rightarrow> (pubkey \<rightharpoonup> cp_edge_identifier list)" where
  "cp_edges_per_pk pools =
     fold (\<lambda>(pk, pool) m. let entry = cp_edge_pair pk pool in
       fold (\<lambda>k. insert_or_extend k entry) (watched pk pool) m) pools Map.empty"

definition needed_accounts :: "(pubkey \<times> cp_pool) list \<Rightarrow> pubkey set" where
  "needed_accounts pools = (\<Union>(pk, pool) \<in> set pools. set (watched pk pool))"

text \<open>The answer for the vaults: address, owner, and whether the token program calls the account
  frozen, if it is a token account.\<close>

type_synonym vault_answer = "(pubkey \<times> pubkey \<times> bool option) list"

fun banned_vaults :: "pubkey \<Rightarrow> vault_answer \<Rightarrow> (pubkey list, cp_error) result" where
  "banned_vaults token_id [] = Ok []"
| "banned_vaults token_id ((pk, owner, frozen) # rest) =
     rbind (if owner = token_id then unwrap frozen else Ok False) (\<lambda>banned.
     rbind (banned_vaults token_id rest) (\<lambda>ks. Ok (if banned then pk # ks else ks)))"

definition cp_pool_kept :: "pubkey \<Rightarrow> pubkey list \<Rightarrow> pubkey \<times> cp_pool \<Rightarrow> bool" where
  "cp_pool_kept token_id banned p \<longleftrightarrow>
     (cp_token_0_program (snd p) = token_id \<and> cp_token_1_program (snd p) = token_id) \<and>
     cp_token_0_vault (snd p) \<notin> set banned \<and> cp_token_1_vault (snd p) \<notin> set banned"

definition pool_vaults :: "(pubkey \<times> cp_pool) list \<Rightarrow> pubkey set" where
  "pool_vaults pools = (\<Union>p \<in> set pools. {cp_token_0_vault (snd p), cp_token_1_vault (snd p)})"

text \<open>The answer of the RPC node, decoded with \<open>unwrap\<close>.\<close>

fun fetch_raydium_account :: "cp_lib \<Rightarrow> (pubkey \<times> bytes) list \<Rightarrow> ((pubkey \<times> cp_pool) list, cp_error) result" where
  "fetch_raydium_account lib [] = Ok []"
| "fetch_raydium_account lib ((pk, bytes) # rest) =
     (case cl_pool lib bytes of
        Ok pool \<Rightarrow> rbind (fetch_raydium_account lib rest) (\<lambda>pools. Ok ((pk, pool) # pools))
      | _ \<Rightarrow> Panic)"

text \<open>The answers to the two requests, for the program accounts and for the vaults, are arguments.\<close>

definition cp_initialize ::
    "cp_lib \<Rightarrow> ((pubkey \<times> bytes) list, cp_error) result \<Rightarrow> (pubkey set \<Rightarrow> (vault_answer, cp_error) result) \<Rightarrow>
     ((pubkey \<rightharpoonup> cp_edge_identifier list) \<times> pubkey set, cp_error) result" where
  "cp_initialize lib snapshot get_vaults =
     rbind snapshot (\<lambda>accounts.
     rbind (fetch_raydium_account lib accounts) (\<lambda>pools.
     rbind (get_vaults (pool_vaults pools)) (\<lambda>vaults.
     rbind (banned_vaults (cl_token_id lib) vaults) (\<lambda>banned.
     let pools = filter (cp_pool_kept (cl_token_id lib) banned) pools in
     Ok (cp_edges_per_pk pools, needed_accounts pools)))))"

subsection \<open>Quoting\<close>

fun catch_unwind :: "('a, cp_error) result \<Rightarrow> ('a, cp_error) result" where
  "catch_unwind Panic = Err SomethingWrong"
| "catch_unwind r = r"

lemma catch_unwind_Ok [simp]: "catch_unwind r = Ok x \<longleftrightarrow> r = Ok x"
  by (cases r) simp_all

definition get_transfer_fee :: "transfer_fee option \<Rightarrow> u64 \<Rightarrow> (u64, cp_error) result" where
  "get_transfer_fee mint_info pre_fee_amount = (case mint_info of Some fee \<Rightarrow> fee pre_fee_amount | None \<Rightarrow> Ok 0)"

definition vault_amount_without_fee :: "cp_pool \<Rightarrow> u64 \<Rightarrow> u64 \<Rightarrow> (u64 \<times> u64, cp_error) result" where
  "vault_amount_without_fee pool vault_0 vault_1 =
     rbind (padd (cp_protocol_fees_token_0 pool) (cp_fund_fees_token_0 pool)) (\<lambda>fees_0.
     rbind (ok_or InvalidSub (checked_sub vault_0 fees_0)) (\<lambda>a.
     rbind (padd (cp_protocol_fees_token_1 pool) (cp_fund_fees_token_1 pool)) (\<lambda>fees_1.
     rbind (ok_or InvalidSub (checked_sub vault_1 fees_1)) (\<lambda>b. Ok (a, b)))))"

text \<open>The amounts of the input and the output vault, in this order.\<close>

definition total_amounts :: "cp_pool \<Rightarrow> pubkey \<Rightarrow> u64 \<Rightarrow> pubkey \<Rightarrow> u64 \<Rightarrow> (u64 \<times> u64, cp_error) result" where
  "total_amounts pool input_vault_key input_vault_amount output_vault_key output_vault_amount =
     (if input_vault_key = cp_token_0_vault pool \<and> output_vault_key = cp_token_1_vault pool
      then vault_amount_without_fee pool input_vault_amount output_vault_amount
      else if input_vault_key = cp_token_1_vault pool \<and> output_vault_key = cp_token_0_vault pool
      then rbind (vault_amount_without_fee pool output_vault_amount input_vault_amount) (\<lambda>(b, a). Ok (a, b))
      else Err InvalidVault)"

definition narrow :: "u128 \<Rightarrow> (u64, 'e) result" where
  "narrow x = (if unat x < 2 ^ 64 then Ok (ucast x) else Panic)"

text \<open>The pool is open and its opening time has a successor.\<close>

definition approved :: "cp_pool \<Rightarrow> (unit, cp_error) result" where
  "approved pool =
     rbind (padd (cp_open_time pool) 1) (\<lambda>block_timestamp.
     require (cp_swap_enabled pool \<and> \<not> block_timestamp < cp_open_time pool) NotApproved)"

definition cp_swap_base_input ::
    "cp_lib \<Rightarrow> cp_pool \<Rightarrow> cp_config \<Rightarrow> pubkey \<Rightarrow> u64 \<Rightarrow> transfer_fee option \<Rightarrow> pubkey \<Rightarrow> u64 \<Rightarrow> transfer_fee option \<Rightarrow>
     u64 \<Rightarrow> (u64 \<times> u64 \<times> u64, cp_error) result" where
  "cp_swap_base_input lib pool config input_vault_key input_vault_amount input_mint output_vault_key
       output_vault_amount output_mint amount_in =
     catch_unwind (
       rbind (approved pool) (\<lambda>_.
       rbind (get_transfer_fee input_mint amount_in) (\<lambda>fee.
       let actual_amount_in = saturating_sub amount_in fee in
       rbind (require (actual_amount_in > 0) InAmountZero) (\<lambda>_.
       rbind (total_amounts pool input_vault_key input_vault_amount output_vault_key output_vault_amount) (\<lambda>(total_in, total_out).
       rbind (cl_swap_base_input lib (ucast actual_amount_in) (ucast total_in) (ucast total_out)
                (cp_trade_fee_rate config) (cp_protocol_fee_rate config) (cp_fund_fee_rate config)) (\<lambda>r.
       case r of
         None \<Rightarrow> Ok (- 1, 0, 0)
       | Some r \<Rightarrow>
           rbind (narrow (cr_destination_amount_swapped r)) (\<lambda>amount_out.
           rbind (get_transfer_fee output_mint amount_out) (\<lambda>output_fee.
           rbind (narrow (cr_trade_fee r)) (\<lambda>trade_fee.
           rbind (narrow (cr_protocol_fee r)) (\<lambda>protocol_fee.
           rbind (narrow (cr_fund_fee r)) (\<lambda>fund_fee.
           rbind (psub amount_out output_fee) (\<lambda>amount_received.
           rbind (padd trade_fee protocol_fee) (\<lambda>f.
           rbind (padd f fund_fee) (\<lambda>fees.
           Ok (amount_in, amount_received, fees)))))))))))))))"

definition cp_swap_base_output ::
    "cp_lib \<Rightarrow> cp_pool \<Rightarrow> cp_config \<Rightarrow> pubkey \<Rightarrow> u64 \<Rightarrow> transfer_fee option \<Rightarrow> pubkey \<Rightarrow> u64 \<Rightarrow> transfer_fee option \<Rightarrow>
     u64 \<Rightarrow> (u64 \<times> u64 \<times> u64, cp_error) result" where
  "cp_swap_base_output lib pool config input_vault_key input_vault_amount input_mint output_vault_key
       output_vault_amount output_mint amount_out =
     catch_unwind (
       rbind (approved pool) (\<lambda>_.
       rbind (require (amount_out \<noteq> 0) OutAmountZero) (\<lambda>_.
       rbind (get_transfer_fee output_mint amount_out) (\<lambda>fee.
       rbind (padd amount_out fee) (\<lambda>output_amount.
       rbind (total_amounts pool input_vault_key input_vault_amount output_vault_key output_vault_amount) (\<lambda>(total_in, total_out).
       rbind (require (\<not> total_out < output_amount) NotEnoughTokens) (\<lambda>_.
       rbind (cl_swap_base_output lib (ucast output_amount) (ucast total_in) (ucast total_out)
                (cp_trade_fee_rate config) (cp_protocol_fee_rate config) (cp_fund_fee_rate config)) (\<lambda>r.
       rbind (ok_or CantSwap r) (\<lambda>r.
       rbind (narrow (cr_trade_fee r)) (\<lambda>trade_fee.
       rbind (narrow (cr_protocol_fee r)) (\<lambda>protocol_fee.
       rbind (narrow (cr_fund_fee r)) (\<lambda>fund_fee.
       rbind (padd (ucast (cr_source_amount_swapped r)) trade_fee) (\<lambda>a.
       rbind (padd a protocol_fee) (\<lambda>a.
       rbind (padd a fund_fee) (\<lambda>a.
       rbind (padd trade_fee protocol_fee) (\<lambda>f.
       rbind (padd f fund_fee) (\<lambda>fees.
       Ok (a, ucast (cr_destination_amount_swapped r), fees))))))))))))))))))"

definition cp_load :: "cp_lib \<Rightarrow> cp_edge_identifier \<Rightarrow> cp_error account_view \<Rightarrow> (cp_edge, cp_error) result" where
  "cp_load lib i view =
     rbind (av_account view (ci_pool i)) (\<lambda>pool_account.
     rbind (cl_pool lib pool_account) (\<lambda>pool.
     rbind (av_account view (cp_amm_config pool)) (\<lambda>config_account.
     rbind (cl_config lib config_account) (\<lambda>config.
     rbind (av_account view (cp_token_0_vault pool)) (\<lambda>vault_0.
     rbind (cl_vault_amount lib vault_0) (\<lambda>vault_0.
     rbind (av_account view (cp_token_1_vault pool)) (\<lambda>vault_1.
     rbind (cl_vault_amount lib vault_1) (\<lambda>vault_1.
     Ok \<lparr>ce_pool = pool, ce_config = config, ce_vault_0_amount = vault_0, ce_vault_1_amount = vault_1,
         ce_mint_0 = None, ce_mint_1 = None\<rparr>))))))))"

text \<open>The two quotes differ in the swap and in the answer for a pool that is closed.\<close>

definition cp_quote_with ::
    "(cp_pool \<Rightarrow> cp_config \<Rightarrow> pubkey \<Rightarrow> u64 \<Rightarrow> transfer_fee option \<Rightarrow> pubkey \<Rightarrow> u64 \<Rightarrow> transfer_fee option \<Rightarrow>
      u64 \<Rightarrow> (u64 \<times> u64 \<times> u64, cp_error) result) \<Rightarrow> u64 \<Rightarrow>
     cp_lib \<Rightarrow> cp_edge_identifier \<Rightarrow> cp_edge \<Rightarrow> cp_error account_view \<Rightarrow> u64 \<Rightarrow> (quote, cp_error) result" where
  "cp_quote_with swap closed_in lib i edge view amount =
     (let pool = ce_pool edge;
          closed = \<lparr>q_in_amount = closed_in, q_out_amount = 0, q_fee_amount = 0, q_fee_mint = cp_token_0_mint pool\<rparr> in
      if \<not> cp_swap_enabled pool then Ok closed
      else
        rbind (av_account view (cl_clock_id lib)) (\<lambda>clock.
        rbind (cl_unix_timestamp lib clock) (\<lambda>now_ts.
        if cp_open_time pool > now_ts then Ok closed
        else
          rbind (if ci_is_a_to_b i
                 then swap pool (ce_config edge) (cp_token_0_vault pool) (ce_vault_0_amount edge) (ce_mint_0 edge)
                        (cp_token_1_vault pool) (ce_vault_1_amount edge) (ce_mint_1 edge) amount
                 else swap pool (ce_config edge) (cp_token_1_vault pool) (ce_vault_1_amount edge) (ce_mint_1 edge)
                        (cp_token_0_vault pool) (ce_vault_0_amount edge) (ce_mint_0 edge) amount) (\<lambda>(a, b, fee).
          Ok \<lparr>q_in_amount = a, q_out_amount = b, q_fee_amount = fee,
              q_fee_mint = (if ci_is_a_to_b i then cp_token_0_mint pool else cp_token_1_mint pool)\<rparr>))))"

definition cp_quote ::
    "cp_lib \<Rightarrow> cp_edge_identifier \<Rightarrow> cp_edge \<Rightarrow> cp_error account_view \<Rightarrow> u64 \<Rightarrow> (quote, cp_error) result" where
  "cp_quote lib = cp_quote_with (cp_swap_base_input lib) 0 lib"

definition cp_quote_exact_out ::
    "cp_lib \<Rightarrow> cp_edge_identifier \<Rightarrow> cp_edge \<Rightarrow> cp_error account_view \<Rightarrow> u64 \<Rightarrow> (quote, cp_error) result" where
  "cp_quote_exact_out lib = cp_quote_with (cp_swap_base_output lib) (- 1) lib"

definition raydium_cp_dex :: "cp_lib \<Rightarrow> (cp_edge_identifier, cp_edge, cp_error) dex_interface" where
  "raydium_cp_dex lib = \<lparr>dex_name = ''RaydiumCp'', dex_load = cp_load lib, dex_quote = cp_quote lib,
     dex_quote_exact_out = cp_quote_exact_out lib, dex_supports_exact_out = (\<lambda>_. True)\<rparr>"

subsection \<open>The swap instruction\<close>

definition cp_build_swap_ix ::
    "cp_lib \<Rightarrow> (pubkey \<Rightarrow> pubkey \<Rightarrow> pubkey) \<Rightarrow> cp_edge_identifier \<Rightarrow> cp_error account_view \<Rightarrow> pubkey \<Rightarrow> u64 \<Rightarrow> u64 \<Rightarrow>
     u32 \<Rightarrow> (swap_instruction, cp_error) result" where
  "cp_build_swap_ix lib ata i view wallet_pk in_amount out_amount max_slippage_bps =
     rbind (av_account view (ci_pool i)) (\<lambda>pool_account.
     rbind (cl_pool lib pool_account) (\<lambda>pool.
     let other_amount_threshold = minimum_amount_out out_amount max_slippage_bps;
         pick = (\<lambda>x y. if ci_is_a_to_b i then (x, y) else (y, x));
         (input_mint, output_mint) = pick (cp_token_0_mint pool) (cp_token_1_mint pool);
         (input_program, output_program) = pick (cp_token_0_program pool) (cp_token_1_program pool);
         (input_vault, output_vault) = pick (cp_token_0_vault pool) (cp_token_1_vault pool);
         input_account = ata wallet_pk input_mint; output_account = ata wallet_pk output_mint in
     Ok \<lparr>si_instruction = \<lparr>ix_program_id = cl_program_id lib,
           ix_accounts = cl_account_metas lib [wallet_pk, cl_authority lib, cp_amm_config pool, ci_pool i,
             input_account, output_account, input_vault, output_vault, input_program, output_program,
             input_mint, output_mint, cp_observation_key pool],
           ix_data = cl_instruction_data lib in_amount other_amount_threshold\<rparr>,
         si_out_pubkey = output_account, si_out_mint = output_mint,
         si_in_amount_offset = 8, si_cu_estimate = Some 40000\<rparr>))"

subsection \<open>Facts\<close>

definition entries :: "('k \<rightharpoonup> 'v list) \<Rightarrow> 'k \<Rightarrow> 'v list" where
  "entries m k = (case m k of Some es \<Rightarrow> es | None \<Rightarrow> [])"

lemma dom_insert_or_extend [simp]: "dom (insert_or_extend k es m) = insert k (dom m)"
  by (simp add: insert_or_extend_def split: option.split)

lemma entries_insert_or_extend [simp]:
  "entries (insert_or_extend k es m) k' = entries m k' @ (if k' = k then es else [])"
  by (simp add: insert_or_extend_def entries_def split: option.split)

lemma extend_all:
  "dom (fold (\<lambda>k. insert_or_extend k es) ks m) = set ks \<union> dom m"
  "set (entries (fold (\<lambda>k. insert_or_extend k es) ks m) k') =
     set (entries m k') \<union> (if k' \<in> set ks then set es else {})"
  by (induction ks arbitrary: m) auto

lemma extend_pools:
  "dom (fold (\<lambda>(pk, pool) m. fold (\<lambda>k. insert_or_extend k (e pk pool)) (w pk pool) m) pools m) =
     (\<Union>(pk, pool) \<in> set pools. set (w pk pool)) \<union> dom m"
  "set (entries (fold (\<lambda>(pk, pool) m. fold (\<lambda>k.
       insert_or_extend k (e pk pool)) (w pk pool) m) pools m) k) =
     set (entries m k) \<union> (\<Union>(pk, pool) \<in> {(pk, pool) \<in> set pools. k \<in> set (w pk pool)}. set (e pk pool))"
proof -
  show "dom (fold (\<lambda>(pk, pool) m. fold (\<lambda>k. insert_or_extend k (e pk pool)) (w pk pool) m) pools m) =
     (\<Union>(pk, pool) \<in> set pools. set (w pk pool)) \<union> dom m"
    by (induction pools arbitrary: m) (simp_all add: Let_def extend_all case_prod_beta Un_ac)
  show "set (entries (fold (\<lambda>(pk, pool) m. fold (\<lambda>k.
       insert_or_extend k (e pk pool)) (w pk pool) m) pools m) k) =
     set (entries m k) \<union> (\<Union>(pk, pool) \<in> {(pk, pool) \<in> set pools. k \<in> set (w pk pool)}. set (e pk pool))"
    by (induction pools arbitrary: m) (simp, fastforce simp: extend_all(2) split: if_splits)
qed

text \<open>After the initialization the adapter watches exactly the accounts
  for which it has edges, and an account leads to an edge exactly if the edge is one of the two
  of a pool that uses the account, holds plain tokens only and has no frozen vault.\<close>

theorem cp_edges_by_account:
  assumes "fetch_raydium_account lib accounts = Ok pools"
    and "get_vaults (pool_vaults pools) = Ok vaults"
    and "banned_vaults (cl_token_id lib) vaults = Ok banned"
  shows "\<exists>edges needed. cp_initialize lib (Ok accounts) get_vaults = Ok (edges, needed) \<and> dom edges = needed \<and>
    (\<forall>k i. i \<in> set (entries edges k) \<longleftrightarrow>
      (\<exists>pk pool. (pk, pool) \<in> set pools \<and> cp_pool_kept (cl_token_id lib) banned (pk, pool) \<and>
        k \<in> set (watched pk pool) \<and> i \<in> set (cp_edge_pair pk pool)))"
proof -
  let ?kept = "filter (cp_pool_kept (cl_token_id lib) banned) pools"
  have "cp_initialize lib (Ok accounts) get_vaults = Ok (cp_edges_per_pk ?kept, needed_accounts ?kept)"
    by (simp add: cp_initialize_def assms Let_def)
  moreover have "dom (cp_edges_per_pk ?kept) = needed_accounts ?kept"
    by (simp add: cp_edges_per_pk_def needed_accounts_def extend_pools)
  moreover have "i \<in> set (entries (cp_edges_per_pk ?kept) k) \<longleftrightarrow>
      (\<exists>pk pool. (pk, pool) \<in> set pools \<and> cp_pool_kept (cl_token_id lib) banned (pk, pool) \<and>
        k \<in> set (watched pk pool) \<and> i \<in> set (cp_edge_pair pk pool))" for i k
    by (auto simp: cp_edges_per_pk_def extend_pools entries_def [of Map.empty])
  ultimately show ?thesis by blast
qed

text \<open>A pool of two plain mints and one with a frozen vault.\<close>

definition sample_pool :: "pubkey \<Rightarrow> cp_pool" where
  "sample_pool n = \<lparr>cp_amm_config = 9, cp_token_0_vault = n + 1, cp_token_1_vault = n + 2, cp_token_0_mint = 3,
     cp_token_1_mint = 4, cp_token_0_program = 5, cp_token_1_program = 5, cp_observation_key = 6,
     cp_swap_enabled = (n = 100), cp_protocol_fees_token_0 = 0, cp_protocol_fees_token_1 = 0,
     cp_fund_fees_token_0 = 0, cp_fund_fees_token_1 = 0, cp_open_time = 0\<rparr>"

definition sample_lib :: cp_lib where
  "sample_lib = \<lparr>cl_token_id = 5, cl_program_id = 1, cl_authority = 2, cl_clock_id = 8,
     cl_pool = (\<lambda>b. Ok (sample_pool (if b = [] then 100 else 200))),
     cl_config = (\<lambda>_. Ok \<lparr>cp_trade_fee_rate = 0, cp_protocol_fee_rate = 0, cp_fund_fee_rate = 0\<rparr>),
     cl_vault_amount = (\<lambda>_. Ok 1000), cl_unix_timestamp = (\<lambda>_. Ok 7),
     cl_swap_base_input = (\<lambda>a x y _ _ _. Ok (Some \<lparr>cr_source_amount_swapped = a,
        cr_destination_amount_swapped = (y * a) div (x + a), cr_trade_fee = 0, cr_protocol_fee = 0, cr_fund_fee = 0\<rparr>)),
     cl_swap_base_output = (\<lambda>_ _ _ _ _ _. Ok None),
     cl_instruction_data = (\<lambda>_ _. []), cl_account_metas = (\<lambda>_. [])\<rparr>"

lemma cp_edges_by_account_witness:
  "\<exists>edges needed. cp_initialize sample_lib (Ok [(100, []), (200, [0])])
      (\<lambda>_. Ok [(101, 5, Some False), (202, 5, Some True)]) = Ok (edges, needed) \<and>
    dom edges = needed \<and> (\<forall>i. i \<in> set (entries edges 9) \<longleftrightarrow> i \<in> set (cp_edge_pair 100 (sample_pool 100)))"
proof -
  have kept: "(pk, pool) \<in> set [(100, sample_pool 100), (200, sample_pool 200)] \<and>
      cp_pool_kept (cl_token_id sample_lib) [202] (pk, pool) \<longleftrightarrow> pk = 100 \<and> pool = sample_pool 100" for pk pool
    by (auto simp: cp_pool_kept_def sample_lib_def sample_pool_def)
  have watched: "9 \<in> set (watched 100 (sample_pool 100))"
    by (simp add: watched_def sample_pool_def)
  have "\<exists>edges needed. cp_initialize sample_lib (Ok [(100, []), (200, [0])])
      (\<lambda>_. Ok [(101, 5, Some False), (202, 5, Some True)]) = Ok (edges, needed) \<and> dom edges = needed \<and>
    (\<forall>k i. i \<in> set (entries edges k) \<longleftrightarrow>
      (\<exists>pk pool. (pk, pool) \<in> set [(100, sample_pool 100), (200, sample_pool 200)] \<and>
        cp_pool_kept (cl_token_id sample_lib) [202] (pk, pool) \<and>
        k \<in> set (watched pk pool) \<and> i \<in> set (cp_edge_pair pk pool)))"
      by (rule cp_edges_by_account [where vaults = "[(101, 5, Some False), (202, 5, Some True)]"])
      (simp_all add: sample_lib_def)
  then show ?thesis using kept watched by metis
qed

lemma cp_swap_base_input_amounts:
  "cp_swap_base_input lib pool config ik ia im ok oa om amount = Ok (a, b, fee) \<Longrightarrow> a = amount \<or> a = - 1 \<and> b = 0"
  by (auto simp: cp_swap_base_input_def Let_def split: option.splits)

text \<open>An exact-in quote is for the amount asked, or its output is zero; the answers for a closed
  pool are of the second kind, so the adapter is not a \<open>quoting_dex\<close>.\<close>

lemma cp_quote_echo:
  "dex_quote (raydium_cp_dex lib) i e v a = Ok q \<Longrightarrow> q_in_amount q = a \<or> q_out_amount q = 0"
  by (auto simp: raydium_cp_dex_def cp_quote_def cp_quote_with_def Let_def
      dest: cp_swap_base_input_amounts split: if_splits)

lemma cp_not_quoting: "\<not> quoting_dex (raydium_cp_dex lib)"
proof
  assume law: "quoting_dex (raydium_cp_dex lib)"
  let ?e = "\<lparr>ce_pool = sample_pool 0, ce_config = undefined, ce_vault_0_amount = 0, ce_vault_1_amount = 0,
    ce_mint_0 = None, ce_mint_1 = None\<rparr>"
  let ?q = "\<lparr>q_in_amount = 0, q_out_amount = 0, q_fee_amount = 0, q_fee_mint = cp_token_0_mint (sample_pool 0)\<rparr>"
  have "dex_quote (raydium_cp_dex lib) undefined ?e undefined 1 = Ok ?q"
    by (simp add: raydium_cp_dex_def cp_quote_def cp_quote_with_def sample_pool_def)
  from quoting_dex.quote_echo [OF law this] show False by simp
qed

end
