(* ===== verification/Saber_Dex.thy ===== *)
theory Saber_Dex
  imports Raydium_Dex
begin

text \<open>
  The adapter of the Saber stable-swap program (\<^verbatim>\<open>lib/dex-saber\<close>): pool selection, loading, quotes
  and the swap instruction. Its pools have no exact-out quotes.

  The state of the program, its curve and its instruction encoding are other crates: the
  record \<open>saber_pool\<close> holds what the adapter reads, \<open>saber_lib\<close> the functions it calls.

  The theorems: an account leads to the edges of the last pool that uses it, so all pools are
  served if no two share an account; quotes keep the contract \<open>quoting_dex\<close>, and the
  instruction moves tokens in the direction of the edge.
\<close>

subsection \<open>What other crates provide\<close>

record saber_token =
  st_mint :: pubkey
  st_reserves :: pubkey
  st_admin_fees :: pubkey

record 'fees saber_pool =
  sw_token_a :: saber_token
  sw_token_b :: saber_token
  sw_initial_amp_factor :: u64
  sw_target_amp_factor :: u64
  sw_start_ramp_ts :: int
  sw_stop_ramp_ts :: int
  sw_fees :: 'fees
  sw_is_paused :: bool
  sw_nonce :: u8

record stable_swap =
  ss_initial_amp_factor :: u64
  ss_target_amp_factor :: u64
  ss_current_ts :: int
  ss_start_ramp_ts :: int
  ss_stop_ramp_ts :: int

record saber_swap_result =
  sr_amount_swapped :: u64
  sr_fee :: u64
  sr_admin_fee :: u64

datatype saber_error = SaberAccount | SaberDecode | InvalidSaberSwap | NoAuthority | ExactOutUnsupported

record 'fees saber_lib =
  sl_program_id :: pubkey
  sl_token_id :: pubkey
  sl_clock_id :: pubkey
  sl_unpack_pool :: "bytes \<Rightarrow> ('fees saber_pool, saber_error) result"
  sl_unpack_amount :: "bytes \<Rightarrow> (u64, saber_error) result"
  sl_unix_timestamp :: "bytes \<Rightarrow> (int, saber_error) result"
  sl_swap_to :: "stable_swap \<Rightarrow> u64 \<Rightarrow> u64 \<Rightarrow> u64 \<Rightarrow> 'fees \<Rightarrow> saber_swap_result option"
  sl_pack_swap :: "u64 \<Rightarrow> u64 \<Rightarrow> bytes"
  sl_create_program_address :: "bytes list \<Rightarrow> pubkey \<Rightarrow> pubkey option"

subsection \<open>Edges\<close>

record saber_edge_identifier =
  sb_pool :: pubkey
  sb_mint_a :: pubkey
  sb_mint_b :: pubkey
  sb_is_a_to_b :: bool

definition saber_ident :: "(pubkey \<Rightarrow> string) \<Rightarrow> saber_edge_identifier \<Rightarrow> edge_ident" where
  "saber_ident base58 i = \<lparr>id_key = sb_pool i, id_desc = ''Saber_'' @ base58 (sb_pool i),
     id_input_mint = sb_mint_a i, id_output_mint = sb_mint_b i, id_accounts_needed = 7\<rparr>"

text \<open>The vaults and the clock are reduced to the amounts and the timestamp.\<close>

record 'fees saber_edge =
  se_pool :: "'fees saber_pool"
  se_vault_a :: u64
  se_vault_b :: u64
  se_unix_timestamp :: int

fun fetch_saber_account :: "'fees saber_lib \<Rightarrow> (pubkey \<times> bytes) list \<Rightarrow> (pubkey \<times> 'fees saber_pool) list" where
  "fetch_saber_account lib [] = []"
| "fetch_saber_account lib ((pk, bytes) # rest) =
     (case sl_unpack_pool lib bytes of
        Ok pool \<Rightarrow> (pk, pool) # fetch_saber_account lib rest
      | _ \<Rightarrow> fetch_saber_account lib rest)"

definition saber_edge_pair :: "pubkey \<Rightarrow> 'fees saber_pool \<Rightarrow> saber_edge_identifier list" where
  "saber_edge_pair pk pool =
     [\<lparr>sb_pool = pk, sb_mint_a = st_mint (sw_token_a pool), sb_mint_b = st_mint (sw_token_b pool), sb_is_a_to_b = True\<rparr>,
      \<lparr>sb_pool = pk, sb_mint_a = st_mint (sw_token_b pool), sb_mint_b = st_mint (sw_token_a pool), sb_is_a_to_b = False\<rparr>]"

definition saber_edges_per_pk :: "(pubkey \<times> 'fees saber_pool) list \<Rightarrow> (pubkey \<rightharpoonup> saber_edge_identifier list)" where
  "saber_edges_per_pk pools =
     fold (\<lambda>(pk, pool) m. let entry = saber_edge_pair pk pool in
       m(pk \<mapsto> entry, st_reserves (sw_token_a pool) \<mapsto> entry, st_reserves (sw_token_b pool) \<mapsto> entry)) pools Map.empty"

definition saber_initialize ::
    "'fees saber_lib \<Rightarrow> ((pubkey \<times> bytes) list, saber_error) result \<Rightarrow>
     (pubkey \<rightharpoonup> saber_edge_identifier list, saber_error) result" where
  "saber_initialize lib snapshot =
     rbind snapshot (\<lambda>accounts. Ok (saber_edges_per_pk (fetch_saber_account lib accounts)))"

subsection \<open>Loading and quoting\<close>

definition saber_load ::
    "'fees saber_lib \<Rightarrow> saber_edge_identifier \<Rightarrow> saber_error account_view \<Rightarrow> ('fees saber_edge, saber_error) result" where
  "saber_load lib i view =
     rbind (av_account view (sb_pool i)) (\<lambda>pool_account.
     rbind (sl_unpack_pool lib pool_account) (\<lambda>pool.
     rbind (av_account view (st_reserves (sw_token_a pool))) (\<lambda>vault_a_account.
     rbind (sl_unpack_amount lib vault_a_account) (\<lambda>vault_a.
     rbind (av_account view (st_reserves (sw_token_b pool))) (\<lambda>vault_b_account.
     rbind (sl_unpack_amount lib vault_b_account) (\<lambda>vault_b.
     rbind (av_account view (sl_clock_id lib)) (\<lambda>clock_account.
     rbind (sl_unix_timestamp lib clock_account) (\<lambda>clock.
     Ok \<lparr>se_pool = pool, se_vault_a = vault_a, se_vault_b = vault_b, se_unix_timestamp = clock\<rparr>))))))))"

definition saber_simulate_swap ::
    "'fees saber_lib \<Rightarrow> 'fees saber_pool \<Rightarrow> u64 \<Rightarrow> u64 \<Rightarrow> int \<Rightarrow> u64 \<Rightarrow> (u64 \<times> u64, saber_error) result" where
  "saber_simulate_swap lib token_swap source_amount destination_amount unix_timestamp amount_in =
     (let invariant = \<lparr>ss_initial_amp_factor = sw_initial_amp_factor token_swap,
            ss_target_amp_factor = sw_target_amp_factor token_swap, ss_current_ts = unix_timestamp,
            ss_start_ramp_ts = sw_start_ramp_ts token_swap, ss_stop_ramp_ts = sw_stop_ramp_ts token_swap\<rparr> in
      rbind (ok_or InvalidSaberSwap
               (sl_swap_to lib invariant amount_in source_amount destination_amount (sw_fees token_swap))) (\<lambda>r.
      rbind (padd (sr_fee r) (sr_admin_fee r)) (\<lambda>fees.
      Ok (sr_amount_swapped r, fees))))"

definition saber_quote ::
    "'fees saber_lib \<Rightarrow> saber_edge_identifier \<Rightarrow> 'fees saber_edge \<Rightarrow> saber_error account_view \<Rightarrow> u64 \<Rightarrow>
     (quote, saber_error) result" where
  "saber_quote lib i edge view in_amount =
     (let pool = se_pool edge in
      rbind (if sb_is_a_to_b i
             then saber_simulate_swap lib pool (se_vault_a edge) (se_vault_b edge) (se_unix_timestamp edge) in_amount
             else saber_simulate_swap lib pool (se_vault_b edge) (se_vault_a edge) (se_unix_timestamp edge) in_amount)
        (\<lambda>(out_amount, fee_amount).
      let fee_mint = (if sb_is_a_to_b i then st_mint (sw_token_b pool) else st_mint (sw_token_a pool)) in
      if sw_is_paused pool
      then Ok \<lparr>q_in_amount = in_amount, q_out_amount = 0, q_fee_amount = fee_amount, q_fee_mint = fee_mint\<rparr>
      else Ok \<lparr>q_in_amount = in_amount, q_out_amount = out_amount, q_fee_amount = fee_amount, q_fee_mint = fee_mint\<rparr>))"

definition saber_dex :: "'fees saber_lib \<Rightarrow> (saber_edge_identifier, 'fees saber_edge, saber_error) dex_interface" where
  "saber_dex lib = \<lparr>dex_name = ''Saber'', dex_load = saber_load lib, dex_quote = saber_quote lib,
     dex_quote_exact_out = (\<lambda>_ _ _ _. Err ExactOutUnsupported), dex_supports_exact_out = (\<lambda>_. False)\<rparr>"

interpretation saber: quoting_dex "saber_dex lib" for lib
  by unfold_locales (auto simp: saber_dex_def saber_quote_def Let_def split: if_splits prod.splits)

subsection \<open>The swap instruction\<close>

definition authority_id :: "'fees saber_lib \<Rightarrow> pubkey \<Rightarrow> pubkey \<Rightarrow> u8 \<Rightarrow> (pubkey, saber_error) result" where
  "authority_id lib program_id my_info nonce =
     rbind (slice (pubkey_bytes my_info) 0 32) (\<lambda>seed.
     ok_or NoAuthority (sl_create_program_address lib [seed, [nonce]] program_id))"

definition saber_build_swap_ix ::
    "'fees saber_lib \<Rightarrow> (pubkey \<Rightarrow> pubkey \<Rightarrow> pubkey) \<Rightarrow> saber_edge_identifier \<Rightarrow> saber_error account_view \<Rightarrow>
     pubkey \<Rightarrow> u64 \<Rightarrow> u64 \<Rightarrow> u32 \<Rightarrow> (swap_instruction, saber_error) result" where
  "saber_build_swap_ix lib ata i view wallet_pk amount_in out_amount max_slippage_bps =
     rbind (av_account view (sb_pool i)) (\<lambda>pool_account.
     rbind (sl_unpack_pool lib pool_account) (\<lambda>pool.
     let min_out = minimum_amount_out out_amount max_slippage_bps;
         (source, target) = (if sb_is_a_to_b i then (sw_token_a pool, sw_token_b pool)
                             else (sw_token_b pool, sw_token_a pool));
         input_account = ata wallet_pk (st_mint source); output_account = ata wallet_pk (st_mint target);
         ro = (\<lambda>k s. \<lparr>am_pubkey = k, am_is_signer = s, am_is_writable = False\<rparr>);
         rw = (\<lambda>k. \<lparr>am_pubkey = k, am_is_signer = False, am_is_writable = True\<rparr>) in
     rbind (authority_id lib (sl_program_id lib) (sb_pool i) (sw_nonce pool)) (\<lambda>swap_authority.
     Ok \<lparr>si_instruction = \<lparr>ix_program_id = sl_program_id lib,
           ix_accounts = [ro (sb_pool i) False, ro swap_authority False, ro wallet_pk True, rw input_account,
             rw (st_reserves source), rw (st_reserves target), rw output_account, rw (st_admin_fees target),
             ro (sl_token_id lib) False],
           ix_data = sl_pack_swap lib amount_in min_out\<rparr>,
         si_out_pubkey = output_account, si_out_mint = st_mint target,
         si_in_amount_offset = 1, si_cu_estimate = Some 75000\<rparr>)))"

subsection \<open>Facts\<close>

definition pool_accounts :: "pubkey \<times> 'fees saber_pool \<Rightarrow> pubkey list" where
  "pool_accounts p = [fst p, st_reserves (sw_token_a (snd p)), st_reserves (sw_token_b (snd p))]"

text \<open>Exactly the accounts of the pools are subscribed; the last pool that uses an account has it.\<close>

lemma saber_edges_last:
  "saber_edges_per_pk (pools @ [p]) k =
     (if k \<in> set (pool_accounts p) then Some (saber_edge_pair (fst p) (snd p)) else saber_edges_per_pk pools k)"
  by (cases p) (simp add: saber_edges_per_pk_def pool_accounts_def Let_def)

lemma saber_edges_dom: "dom (saber_edges_per_pk pools) = (\<Union>p \<in> set pools. set (pool_accounts p))"
proof (induction pools rule: rev_induct)
  case (snoc p pools)
  then show ?case by (auto simp: saber_edges_last dom_def set_eq_iff)
qed (simp add: saber_edges_per_pk_def)

lemma saber_edges_disjoint:
  "distinct (concat (map pool_accounts pools)) \<Longrightarrow> p \<in> set pools \<Longrightarrow> k \<in> set (pool_accounts p) \<Longrightarrow>
     saber_edges_per_pk pools k = Some (saber_edge_pair (fst p) (snd p))"
proof (induction pools rule: rev_induct)
  case (snoc q pools)
  then show ?case by (cases "p = q") (auto simp: saber_edges_last)
qed simp

text \<open>A paused pool has no output.\<close>

lemma saber_quote_paused:
  "dex_quote (saber_dex lib) i edge view a = Ok q \<Longrightarrow> sw_is_paused (se_pool edge) \<Longrightarrow> q_out_amount q = 0"
  by (auto simp: saber_dex_def saber_quote_def Let_def split: if_splits prod.splits)

text \<open>The instruction for an edge pays out its output mint.\<close>

lemma saber_swap_direction:
  assumes "av_account view pk = Ok acc" and "sl_unpack_pool lib acc = Ok pool" and "i \<in> set (saber_edge_pair pk pool)"
    and "saber_build_swap_ix lib ata i view wallet a out bps = Ok ix"
  shows "si_out_mint ix = id_output_mint (saber_ident base58 i) \<and>
    si_out_pubkey ix = ata wallet (id_output_mint (saber_ident base58 i))"
  using assms by (auto simp: saber_build_swap_ix_def saber_edge_pair_def saber_ident_def Let_def)

end
