(* ===== verification/Infinity_Dex.thy ===== *)
theory Infinity_Dex
  imports Dex_Build Raydium_Cp
begin

text \<open>
  The adapter of the Sanctum Infinity pool (\<^verbatim>\<open>lib/dex-infinity\<close>): one pool that trades its LP token
  against every liquid staking token (LST) it lists.

  The pool logic is the crate \<^verbatim>\<open>s_jup_interface\<close>: its state \<open>'amm\<close> and the functions the adapter
  calls are the parameters \<open>inf_lib\<close>.

  The theorems: quotes keep the contract \<open>quoting_dex\<close>. The adapter identifies an edge by its
  input mint, so all edges that sell the LP token have the same identity, and the router,
  which keeps one edge per identity, keeps at most one of them.
\<close>

subsection \<open>What other crates provide\<close>

datatype inf_error = InfAccount | InfPool | InfQuote | InfSwap

record lst_data =
  ld_mint :: pubkey
  ld_ix_accounts :: nat
  ld_accounts_to_update :: "pubkey list"

record jup_quote =
  jq_not_enough_liquidity :: bool
  jq_in_amount :: u64
  jq_out_amount :: u64
  jq_fee_amount :: u64
  jq_fee_mint :: pubkey

record quote_params =
  qp_amount :: u64
  qp_input_mint :: pubkey
  qp_output_mint :: pubkey
  qp_swap_mode :: swap_mode

record swap_params =
  sp_in_amount :: u64
  sp_out_amount :: u64
  sp_source_mint :: pubkey
  sp_destination_mint :: pubkey
  sp_source_token_account :: pubkey
  sp_destination_token_account :: pubkey
  sp_token_transfer_authority :: pubkey

text \<open>\<open>il_find_ready_lst\<close> tells whether the input of the LST is disabled, and its data.\<close>

record 'amm inf_lib =
  il_lst_state_list :: pubkey
  il_pool_state :: pubkey
  il_from_init_accounts :: "bytes \<Rightarrow> bytes \<Rightarrow> ('amm, inf_error) result"
  il_accounts_to_update_full :: "'amm \<Rightarrow> pubkey list"
  il_update_full :: "(pubkey \<rightharpoonup> bytes) \<Rightarrow> 'amm \<Rightarrow> ('amm, inf_error) result"
  il_lst_data_list :: "'amm \<Rightarrow> lst_data option list"
  il_find_ready_lst :: "'amm \<Rightarrow> pubkey \<Rightarrow> (bool \<times> lst_data) option"
  il_quote :: "'amm \<Rightarrow> quote_params \<Rightarrow> (jup_quote, inf_error) result"
  il_swap_ix :: "'amm \<Rightarrow> swap_params \<Rightarrow> (instruction, inf_error) result"
  il_program_dependencies :: "'amm \<Rightarrow> (pubkey \<times> string) list"

subsection \<open>Edges\<close>

definition INF_LP_PK :: pubkey where
  "INF_LP_PK = 32268877789384639468501569650187405656848348120859681414739458189213401907790"

record infinity_edge_identifier =
  ii_input_mint :: pubkey
  ii_output_mint :: pubkey
  ii_is_output_lp :: bool
  ii_accounts_needed :: nat

definition infinity_ident :: "(pubkey \<Rightarrow> string) \<Rightarrow> infinity_edge_identifier \<Rightarrow> edge_ident" where
  "infinity_ident base58 i = \<lparr>id_key = ii_input_mint i, id_desc = ''Infinity_'' @ base58 (ii_input_mint i),
     id_input_mint = ii_input_mint i, id_output_mint = ii_output_mint i,
     id_accounts_needed = ii_accounts_needed i\<rparr>"

definition infinity_edge_pair :: "pubkey \<Rightarrow> nat \<Rightarrow> infinity_edge_identifier list" where
  "infinity_edge_pair lst_mint num_accounts_for_tx =
     [\<lparr>ii_input_mint = INF_LP_PK, ii_output_mint = lst_mint, ii_is_output_lp = True,
       ii_accounts_needed = 10 + num_accounts_for_tx\<rparr>,
      \<lparr>ii_input_mint = lst_mint, ii_output_mint = INF_LP_PK, ii_is_output_lp = False,
       ii_accounts_needed = 10 + num_accounts_for_tx\<rparr>]"

text \<open>\<open>flatten\<close> of a list of options.\<close>

definition flatten :: "'a option list \<Rightarrow> 'a list" where
  "flatten xs = concat (map (case_option [] (\<lambda>x. [x])) xs)"

definition infinity_edges_per_pk :: "'amm inf_lib \<Rightarrow> 'amm \<Rightarrow> (pubkey \<rightharpoonup> infinity_edge_identifier list)" where
  "infinity_edges_per_pk lib amm =
     fold (\<lambda>lst m.
       case il_find_ready_lst lib amm (ld_mint lst) of
         None \<Rightarrow> m
       | Some (is_input_disabled, ready) \<Rightarrow>
           if is_input_disabled then m
           else fold (\<lambda>pk. insert_or_extend pk (infinity_edge_pair (ld_mint lst) (ld_ix_accounts lst)))
                  (ld_accounts_to_update ready) m)
       (flatten (il_lst_data_list lib amm)) Map.empty"

record infinity_state =
  is_edges :: "pubkey \<rightharpoonup> infinity_edge_identifier list"
  is_subscribed_pks :: "pubkey set"
  is_programs :: "(pubkey \<times> string) list"

text \<open>\<open>unwrap\<close> of an answer of the RPC node.\<close>

definition must :: "('a, 'e) result \<Rightarrow> ('a, 'e) result" where
  "must r = (case r of Ok x \<Rightarrow> Ok x | _ \<Rightarrow> Panic)"

definition infinity_initialize ::
    "'amm inf_lib \<Rightarrow> (pubkey \<Rightarrow> (bytes option, inf_error) result) \<Rightarrow> (infinity_state, inf_error) result" where
  "infinity_initialize lib get_account =
     rbind (must (get_account (il_lst_state_list lib))) (\<lambda>lst_state_list_account.
     rbind (unwrap lst_state_list_account) (\<lambda>lst_state_list_account.
     rbind (must (get_account (il_pool_state lib))) (\<lambda>pool_state_account.
     rbind (unwrap pool_state_account) (\<lambda>pool_state_account.
     rbind (il_from_init_accounts lib lst_state_list_account pool_state_account) (\<lambda>amm.
     Ok \<lparr>is_edges = infinity_edges_per_pk lib amm, is_subscribed_pks = set (il_accounts_to_update_full lib amm),
         is_programs = il_program_dependencies lib amm\<rparr>)))))"

definition infinity_subscription_mode :: "infinity_state \<Rightarrow> subscription_mode" where
  "infinity_subscription_mode s = SubAccounts (dom (is_edges s) \<union> is_subscribed_pks s)"

subsection \<open>Loading and quoting\<close>

text \<open>Accounts that are missing are left out of the update.\<close>

definition available :: "'e account_view \<Rightarrow> pubkey list \<Rightarrow> (pubkey \<rightharpoonup> bytes)" where
  "available view pks =
     (\<lambda>pk. if pk \<in> set pks then (case av_account view pk of Ok acc \<Rightarrow> Some acc | _ \<Rightarrow> None) else None)"

definition load_amm :: "'amm inf_lib \<Rightarrow> inf_error account_view \<Rightarrow> ('amm, inf_error) result" where
  "load_amm lib view =
     rbind (must (av_account view (il_lst_state_list lib))) (\<lambda>lst_state_list_account.
     rbind (must (av_account view (il_pool_state lib))) (\<lambda>pool_state_account.
     rbind (il_from_init_accounts lib lst_state_list_account pool_state_account) (\<lambda>amm.
     il_update_full lib (available view (il_accounts_to_update_full lib amm)) amm)))"

definition infinity_load ::
    "'amm inf_lib \<Rightarrow> infinity_edge_identifier \<Rightarrow> inf_error account_view \<Rightarrow> ('amm, inf_error) result" where
  "infinity_load lib i view = load_amm lib view"

definition infinity_quote ::
    "'amm inf_lib \<Rightarrow> infinity_edge_identifier \<Rightarrow> 'amm \<Rightarrow> inf_error account_view \<Rightarrow> u64 \<Rightarrow> (quote, inf_error) result" where
  "infinity_quote lib i amm view in_amount =
     rbind (il_quote lib amm \<lparr>qp_amount = in_amount, qp_input_mint = ii_input_mint i,
              qp_output_mint = ii_output_mint i, qp_swap_mode = ExactIn\<rparr>) (\<lambda>q.
     Ok \<lparr>q_in_amount = in_amount, q_out_amount = (if jq_not_enough_liquidity q then 0 else jq_out_amount q),
         q_fee_amount = jq_fee_amount q, q_fee_mint = jq_fee_mint q\<rparr>)"

definition infinity_quote_exact_out ::
    "'amm inf_lib \<Rightarrow> infinity_edge_identifier \<Rightarrow> 'amm \<Rightarrow> inf_error account_view \<Rightarrow> u64 \<Rightarrow> (quote, inf_error) result" where
  "infinity_quote_exact_out lib i amm view out_amount =
     rbind (il_quote lib amm \<lparr>qp_amount = out_amount, qp_input_mint = ii_input_mint i,
              qp_output_mint = ii_output_mint i, qp_swap_mode = ExactOut\<rparr>) (\<lambda>q.
     Ok \<lparr>q_in_amount = (if jq_not_enough_liquidity q then - 1 else jq_in_amount q), q_out_amount = out_amount,
         q_fee_amount = jq_fee_amount q, q_fee_mint = jq_fee_mint q\<rparr>)"

definition infinity_dex :: "'amm inf_lib \<Rightarrow> (infinity_edge_identifier, 'amm, inf_error) dex_interface" where
  "infinity_dex lib = \<lparr>dex_name = ''Infinity'', dex_load = infinity_load lib, dex_quote = infinity_quote lib,
     dex_quote_exact_out = infinity_quote_exact_out lib, dex_supports_exact_out = (\<lambda>_. True)\<rparr>"

interpretation infinity: quoting_dex "infinity_dex lib" for lib
  by unfold_locales (auto simp: infinity_dex_def infinity_quote_def infinity_quote_exact_out_def)

subsection \<open>The swap instruction\<close>

definition infinity_build_swap_ix ::
    "'amm inf_lib \<Rightarrow> (pubkey \<Rightarrow> pubkey \<Rightarrow> pubkey) \<Rightarrow> infinity_edge_identifier \<Rightarrow> inf_error account_view \<Rightarrow> pubkey \<Rightarrow>
     u64 \<Rightarrow> u64 \<Rightarrow> u32 \<Rightarrow> (swap_instruction, inf_error) result" where
  "infinity_build_swap_ix lib ata i view wallet_pk in_amount out_amount max_slippage_bps =
     rbind (load_amm lib view) (\<lambda>amm.
     let in_mint = ii_input_mint i; out_mint = ii_output_mint i;
         in_pubkey = ata wallet_pk in_mint; out_pubkey = ata wallet_pk out_mint in
     rbind (il_swap_ix lib amm \<lparr>sp_in_amount = in_amount,
              sp_out_amount = minimum_amount_out out_amount max_slippage_bps, sp_source_mint = in_mint,
              sp_destination_mint = out_mint, sp_source_token_account = in_pubkey,
              sp_destination_token_account = out_pubkey, sp_token_transfer_authority = wallet_pk\<rparr>) (\<lambda>instruction.
     Ok \<lparr>si_instruction = instruction, si_out_pubkey = out_pubkey, si_out_mint = out_mint,
         si_in_amount_offset = 6, si_cu_estimate = None\<rparr>))"

subsection \<open>The edges of the router\<close>

text \<open>The adapter as the router builds it, with the map of edges in its iteration order.\<close>

definition infinity_adapter ::
    "'amm inf_lib \<Rightarrow> (pubkey \<Rightarrow> string) \<Rightarrow> infinity_state \<Rightarrow> (pubkey \<times> infinity_edge_identifier list) list \<Rightarrow>
     (infinity_edge_identifier, 'amm, inf_error) adapter" where
  "infinity_adapter lib base58 s order =
     \<lparr>ad_dex = infinity_dex lib,
      ad_edges_per_pk = map (\<lambda>(pk, is). (pk, map (\<lambda>i. (i, infinity_ident base58 i)) is)) order,
      ad_subscription_mode = infinity_subscription_mode s\<rparr>"

text \<open>Which edges the adapter offers: for every LST that is ready and may be sold, both directions.\<close>

lemma fold_offers:
  assumes "\<And>x m k. set (entries (f x m) k) = set (entries m k) \<union> g x k"
  shows "set (entries (fold f xs m) k) = set (entries m k) \<union> (\<Union>x \<in> set xs. g x k)"
  by (induction xs arbitrary: m) (auto simp: assms)

lemma set_flatten: "set (flatten xs) = {x. Some x \<in> set xs}"
  by (force simp: flatten_def split: option.splits)

lemma infinity_offers:
  "i \<in> set (entries (infinity_edges_per_pk lib amm) k) \<longleftrightarrow>
     (\<exists>lst ready. Some lst \<in> set (il_lst_data_list lib amm) \<and>
        il_find_ready_lst lib amm (ld_mint lst) = Some (False, ready) \<and> k \<in> set (ld_accounts_to_update ready) \<and>
        i \<in> set (infinity_edge_pair (ld_mint lst) (ld_ix_accounts lst)))"
proof -
  let ?f = "\<lambda>lst m. case il_find_ready_lst lib amm (ld_mint lst) of None \<Rightarrow> m | Some (is_input_disabled, ready) \<Rightarrow>
      if is_input_disabled then m
      else fold (\<lambda>pk. insert_or_extend pk (infinity_edge_pair (ld_mint lst) (ld_ix_accounts lst))) (ld_accounts_to_update ready) m"
  let ?g = "\<lambda>lst k. case il_find_ready_lst lib amm (ld_mint lst) of None \<Rightarrow> {} | Some (is_input_disabled, ready) \<Rightarrow>
      if is_input_disabled \<or> k \<notin> set (ld_accounts_to_update ready) then {}
      else set (infinity_edge_pair (ld_mint lst) (ld_ix_accounts lst))"
  have "set (entries (?f lst m) k) = set (entries m k) \<union> ?g lst k" for lst m k
    by (auto simp: extend_all split: option.split)
  then have all: "set (entries (fold ?f xs m) k) = set (entries m k) \<union> (\<Union>x \<in> set xs. ?g x k)" for xs m k
    by (rule fold_offers)
  have "entries (Map.empty :: (pubkey \<rightharpoonup> infinity_edge_identifier list)) k = []" by (simp add: entries_def)
  then have "set (entries (infinity_edges_per_pk lib amm) k) = (\<Union>x \<in> set (flatten (il_lst_data_list lib amm)). ?g x k)"
    using all [of "flatten (il_lst_data_list lib amm)" Map.empty k] by (simp add: infinity_edges_per_pk_def)
  moreover have "i \<in> ?g lst k \<longleftrightarrow> (\<exists>ready. il_find_ready_lst lib amm (ld_mint lst) = Some (False, ready) \<and>
      k \<in> set (ld_accounts_to_update ready) \<and> i \<in> set (infinity_edge_pair (ld_mint lst) (ld_ix_accounts lst)))" for lst
    by (auto split: option.split)
  ultimately show ?thesis by (simp add: set_flatten) blast
qed

text \<open>
  C39 (infinity_one_sale). However many LSTs the pool lists, of the edges that sell the LP token the
  router keeps at most one: the identity of an edge is its key and its input mint, the adapter
  uses the input mint for both, and \<open>Dex::edges\<close> drops all but one edge per identity.
\<close>

theorem infinity_one_sale:
  assumes "build_dex_internal fs (infinity_adapter lib base58 s order) md en am t cm heap = Ok (heap', d)"
  shows "length (filter (\<lambda>r. e_input_mint (heap' ! r) = INF_LP_PK) (dex_edges heap' d)) \<le> 1"
proof -
  have uid: "uid_of heap' r = (e_input_mint (heap' ! r), e_input_mint (heap' ! r))" if "r \<in> set (dex_edges heap' d)" for r
  proof -
    have "r \<in> \<Union> (set ` snd ` set (d_edges_per_pk d))" using that dex_edges_subset by blast
    then obtain k rs where k: "(k, rs) \<in> set (d_edges_per_pk d)" "r \<in> set rs" by auto
    have "ad_dex (infinity_adapter lib base58 s order) = infinity_dex lib" by (simp add: infinity_adapter_def)
    then obtain es x where "(k, es) \<in> set (ad_edges_per_pk (infinity_adapter lib base58 s order))"
      "x \<in> set es" "heap' ! r = new_edge (infinity_dex lib) x"
      using built_edges_configured [OF assms k] by metis
    then have "id_key (snd x) = id_input_mint (snd x)" by (auto simp: infinity_adapter_def infinity_ident_def)
    with \<open>heap' ! r = _\<close> show ?thesis by (simp add: uid_of_def edge_unique_id_def new_edge_def)
  qed
  let ?sales = "filter (\<lambda>r. e_input_mint (heap' ! r) = INF_LP_PK) (dex_edges heap' d)"
  have "distinct (map (uid_of heap') ?sales)" using dex_edges_distinct [of heap' d] by (rule distinct_map_filter)
  from distinct_card [OF this] have "length ?sales = card (set (map (uid_of heap') ?sales))" by simp
  also have "\<dots> \<le> card {(INF_LP_PK, INF_LP_PK)}" by (rule card_mono) (use uid in auto)
  finally show ?thesis by simp
qed

text \<open>A pool of two LSTs, 5 and 6: four edges, two of which sell the LP token.\<close>

definition two_lsts :: "unit inf_lib" where
  "two_lsts = \<lparr>il_lst_state_list = 1, il_pool_state = 2, il_from_init_accounts = (\<lambda>_ _. Ok ()),
     il_accounts_to_update_full = (\<lambda>_. []), il_update_full = (\<lambda>_ _. Ok ()),
     il_lst_data_list = (\<lambda>_. map (\<lambda>m. Some \<lparr>ld_mint = m, ld_ix_accounts = 1, ld_accounts_to_update = [m + 10]\<rparr>) [5, 6]),
     il_find_ready_lst = (\<lambda>_ m. Some (False, \<lparr>ld_mint = m, ld_ix_accounts = 1, ld_accounts_to_update = [m + 10]\<rparr>)),
     il_quote = (\<lambda>_ _. Err InfQuote), il_swap_ix = (\<lambda>_ _. Err InfSwap), il_program_dependencies = (\<lambda>_. [])\<rparr>"

definition two_lsts_state :: infinity_state where
  "two_lsts_state = \<lparr>is_edges = infinity_edges_per_pk two_lsts (), is_subscribed_pks = {}, is_programs = []\<rparr>"

definition two_lsts_adapter :: "(infinity_edge_identifier, unit, inf_error) adapter" where
  "two_lsts_adapter = infinity_adapter two_lsts (\<lambda>_. []) two_lsts_state
     [(15, infinity_edge_pair 5 1), (16, infinity_edge_pair 6 1)]"

lemma two_lsts_edges: "is_edges two_lsts_state = [15 \<mapsto> infinity_edge_pair 5 1, 16 \<mapsto> infinity_edge_pair 6 1]"
  by (simp add: two_lsts_state_def infinity_edges_per_pk_def two_lsts_def flatten_def insert_or_extend_def)

lemma two_lsts_built:
  "\<exists>heap d. build_dex_internal (\<lambda>_. None) two_lsts_adapter None True False True [] [] = Ok (heap, d) \<and>
     d_edges_per_pk d = [(15, [0, 1]), (16, [2, 3])] \<and>
     map (\<lambda>e. (e_input_mint e, e_output_mint e)) heap = [(INF_LP_PK, 5), (5, INF_LP_PK), (INF_LP_PK, 6), (6, INF_LP_PK)]"
  by (simp add: build_dex_internal_def get_configured_mints_def two_lsts_adapter_def infinity_adapter_def
      infinity_edge_pair_def infinity_ident_def new_edge_def keep_edge_def Let_def upt_conv_Cons flip: numeral_2_eq_2)

theorem infinity_one_sale_witness:
  "\<exists>heap d. build_dex_internal (\<lambda>_. None) two_lsts_adapter None True False True [] [] = Ok (heap, d) \<and>
     length (filter (\<lambda>r. e_input_mint (heap ! r) = INF_LP_PK) (concat (map snd (d_edges_per_pk d)))) = 2 \<and>
     length (filter (\<lambda>r. e_input_mint (heap ! r) = INF_LP_PK) (dex_edges heap d)) \<le> 1"
proof -
  obtain heap d where b: "build_dex_internal (\<lambda>_. None) two_lsts_adapter None True False True [] [] = Ok (heap, d)"
    and d: "d_edges_per_pk d = [(15, [0, 1]), (16, [2, 3])]"
    and h: "map (\<lambda>e. (e_input_mint e, e_output_mint e)) heap = [(INF_LP_PK, 5), (5, INF_LP_PK), (INF_LP_PK, 6), (6, INF_LP_PK)]"
    using two_lsts_built by (elim exE conjE)
  have "map e_input_mint heap = map fst (map (\<lambda>e. (e_input_mint e, e_output_mint e)) heap)" by (simp add: comp_def)
  then have m: "map e_input_mint heap = [INF_LP_PK, 5, INF_LP_PK, 6]" unfolding h by simp
  from arg_cong [OF m, of length] have "length heap = 4" by simp
  then have "e_input_mint (heap ! r) = [INF_LP_PK, 5, INF_LP_PK, 6] ! r" if "r < 4" for r
    using m that by (metis nth_map)
  then have "length (filter (\<lambda>r. e_input_mint (heap ! r) = INF_LP_PK) (concat (map snd (d_edges_per_pk d)))) = 2"
    by (simp add: d) (simp add: INF_LP_PK_def nth_Cons_numeral)
  then show ?thesis using b infinity_one_sale [OF b [unfolded two_lsts_adapter_def]] by blast
qed

end
