(* ===== verification/Orca_Dex.thy ===== *)
theory Orca_Dex
  imports Invariant_Dex Raydium_Dex Api_Model
begin

text \<open>
  The adapter of Orca whirlpools (\<^verbatim>\<open>lib/dex-orca\<close>): which tick arrays a swap reads and which are
  watched (\<^verbatim>\<open>orca.rs\<close>), pool selection and quotes (\<^verbatim>\<open>orca_dex.rs\<close>), and the swap instruction
  (\<^verbatim>\<open>orca_ix_builder.rs\<close>).

  The swap itself, the layouts, the constants of tick arrays and address derivation are other
  crates: the record \<open>orca_lib\<close>, over the type \<open>'ta\<close> of tick arrays. Logging is left out.

  The theorems: the arrays of a swap start at consecutive multiples of the array size, the first
  one holds the current tick, and all of them are watched; the instruction passes only
  addresses of arrays that could be loaded.
\<close>

subsection \<open>What other crates provide\<close>

record whirlpool =
  wp_tick_current_index :: int
  wp_tick_spacing :: u16
  wp_fee_rate :: u16
  wp_token_mint_a :: pubkey
  wp_token_mint_b :: pubkey
  wp_token_vault_a :: pubkey
  wp_token_vault_b :: pubkey
  wp_reward_last_updated_timestamp :: u64

record post_swap_update =
  ps_amount_a :: u64
  ps_amount_b :: u64

datatype orca_error = OrcaAccount | OrcaDecode | NoFirstTickArray | OrcaSwap | OrcaRpc

type_synonym 'ta tick_arrays = "'ta \<times> 'ta option \<times> 'ta option"

record 'ta orca_lib =
  ol_tick_array_size :: int
  ol_min_tick_index :: int
  ol_max_tick_index :: int
  ol_tick_array_len :: nat
  ol_tick_array :: "bytes \<Rightarrow> 'ta"
  ol_start_tick_index :: "'ta \<Rightarrow> int"
  ol_check_is_valid_start_tick :: "int \<Rightarrow> u16 \<Rightarrow> bool"
  ol_sqrt_price_from_tick_index :: "int \<Rightarrow> u128"
  ol_swap :: "whirlpool \<Rightarrow> 'ta tick_arrays \<Rightarrow> u64 \<Rightarrow> u128 \<Rightarrow> bool \<Rightarrow> bool \<Rightarrow> u64 \<Rightarrow> (post_swap_update, orca_error) result"
  ol_whirlpool :: "bytes \<Rightarrow> (whirlpool, orca_error) result"
  ol_find_program_address :: "bytes list \<Rightarrow> pubkey \<Rightarrow> pubkey"
  ol_sha256 :: "bytes \<Rightarrow> bytes"
  ol_token_id :: pubkey
  ol_token_2022_id :: pubkey

subsection \<open>Tick arrays\<close>

definition array_ticks :: "'ta orca_lib \<Rightarrow> u16 \<Rightarrow> (int, 'x) result" where
  "array_ticks lib tick_spacing = i32 (ol_tick_array_size lib * uint tick_spacing)"

definition derive_start_tick :: "'ta orca_lib \<Rightarrow> int \<Rightarrow> u16 \<Rightarrow> (int, 'x) result" where
  "derive_start_tick lib curr_tick tick_spacing =
     rbind (array_ticks lib tick_spacing) (\<lambda>n.
     rbind (assert_that (n \<noteq> 0)) (\<lambda>_.
     let r = curr_tick smod n in
     if curr_tick < 0 \<and> r \<noteq> 0 then rbind (i32 (curr_tick - r)) (\<lambda>x. i32 (x - n))
     else i32 (curr_tick - r)))"

definition derive_first_tick_array_start_tick :: "'ta orca_lib \<Rightarrow> int \<Rightarrow> u16 \<Rightarrow> bool \<Rightarrow> (int, 'x) result" where
  "derive_first_tick_array_start_tick lib curr_tick tick_spacing shifted =
     rbind (if shifted then i32 (curr_tick + uint tick_spacing) else Ok curr_tick) (\<lambda>tick.
     derive_start_tick lib tick tick_spacing)"

definition derive_next_start_tick_in_seq :: "'ta orca_lib \<Rightarrow> int \<Rightarrow> u16 \<Rightarrow> bool \<Rightarrow> (int option, 'x) result" where
  "derive_next_start_tick_in_seq lib start_tick tick_spacing a_to_b =
     rbind (array_ticks lib tick_spacing) (\<lambda>n.
     rbind (i32 (if a_to_b then start_tick - n else start_tick + n)) (\<lambda>potential_last.
     Ok (if potential_last < ol_max_tick_index lib \<and> potential_last > ol_min_tick_index lib
         then Some potential_last else None)))"

type_synonym start_indexes = "int \<times> int option \<times> int option"

definition derive_tick_array_start_indexes ::
    "'ta orca_lib \<Rightarrow> int \<Rightarrow> u16 \<Rightarrow> bool \<Rightarrow> (start_indexes, 'x) result" where
  "derive_tick_array_start_indexes lib curr_tick tick_spacing a_to_b =
     rbind (derive_first_tick_array_start_tick lib curr_tick tick_spacing (\<not> a_to_b)) (\<lambda>s0.
     rbind (derive_next_start_tick_in_seq lib s0 tick_spacing a_to_b) (\<lambda>s1.
     rbind (case s1 of None \<Rightarrow> Ok None | Some s \<Rightarrow> derive_next_start_tick_in_seq lib s tick_spacing a_to_b) (\<lambda>s2.
     Ok (s0, s1, s2))))"

definition derive_last_tick_in_array :: "'ta orca_lib \<Rightarrow> int \<Rightarrow> u16 \<Rightarrow> bool \<Rightarrow> (int, 'x) result" where
  "derive_last_tick_in_array lib start_tick tick_spacing a_to_b =
     rbind (array_ticks lib tick_spacing) (\<lambda>n.
     rbind (if a_to_b then Ok start_tick else rbind (i32 (start_tick + n)) (\<lambda>x. i32 (x - 1))) (\<lambda>potential_last.
     Ok (max (min potential_last (ol_max_tick_index lib)) (ol_min_tick_index lib))))"

fun derive_last_tick_in_seq :: "'ta orca_lib \<Rightarrow> 'ta tick_arrays \<Rightarrow> u16 \<Rightarrow> bool \<Rightarrow> (int, 'x) result" where
  "derive_last_tick_in_seq lib (ta0, ta1, ta2) tick_spacing a_to_b =
     derive_last_tick_in_array lib
       (case ta2 of Some ta \<Rightarrow> ol_start_tick_index lib ta
        | None \<Rightarrow> (case ta1 of Some ta \<Rightarrow> ol_start_tick_index lib ta | None \<Rightarrow> ol_start_tick_index lib ta0))
       tick_spacing a_to_b"

text \<open>\<open>i32::to_string\<close>.\<close>

definition int_to_string :: "int \<Rightarrow> string" where
  "int_to_string i = (if i < 0 then CHR ''-'' # nat_digits (nat (- i)) else nat_digits (nat i))"

definition tick_array_pk :: "'ta orca_lib \<Rightarrow> pubkey \<Rightarrow> pubkey \<Rightarrow> int \<Rightarrow> pubkey" where
  "tick_array_pk lib whirlpool program_id tick =
     ol_find_program_address lib [ascii ''tick_array'', pubkey_bytes whirlpool, ascii (int_to_string tick)] program_id"

definition fetch_tick_array :: "'ta orca_lib \<Rightarrow> orca_error account_view \<Rightarrow> pubkey \<Rightarrow> pubkey \<Rightarrow> int \<Rightarrow> 'ta option" where
  "fetch_tick_array lib view whirlpool_pk program_id tick =
     (case av_account view (tick_array_pk lib whirlpool_pk program_id tick) of
        Ok data \<Rightarrow>
          if length data < ol_tick_array_len lib + 8 then None
          else Some (ol_tick_array lib (take (ol_tick_array_len lib) (drop 8 data)))
      | _ \<Rightarrow> None)"

fun fetch_tick_arrays ::
    "'ta orca_lib \<Rightarrow> orca_error account_view \<Rightarrow> start_indexes \<Rightarrow> pubkey \<Rightarrow> pubkey \<Rightarrow> ('ta tick_arrays, orca_error) result" where
  "fetch_tick_arrays lib view (s0, s1, s2) whirlpool_pk program_id =
     (let fetch = fetch_tick_array lib view whirlpool_pk program_id in
      case fetch s0 of
        None \<Rightarrow> Err NoFirstTickArray
      | Some ta0 \<Rightarrow> Ok (ta0, Option.bind s1 fetch, Option.bind s2 fetch))"

definition load_whirlpool :: "'ta orca_lib \<Rightarrow> orca_error account_view \<Rightarrow> pubkey \<Rightarrow> (whirlpool, orca_error) result" where
  "load_whirlpool lib view whirlpool_pk =
     rbind (av_account view whirlpool_pk) (\<lambda>whirlpool_account.
     rbind (slice_from whirlpool_account 8) (ol_whirlpool lib))"

subsection \<open>The watched tick arrays\<close>

definition TICK_ARRAY_SCAN_RANGE :: int where
  "TICK_ARRAY_SCAN_RANGE = 500"

definition i32_sat :: "int \<Rightarrow> int" where
  "i32_sat x = max (- 2147483648) (min x 2147483647)"

definition whirlpool_tick_array_pks :: "'ta orca_lib \<Rightarrow> whirlpool \<Rightarrow> pubkey \<Rightarrow> pubkey \<Rightarrow> (pubkey list, 'x) result" where
  "whirlpool_tick_array_pks lib whirlpool whirlpool_pk program_id =
     rbind (array_ticks lib (wp_tick_spacing whirlpool)) (\<lambda>ticks_per_tick_array.
     rbind (derive_start_tick lib (wp_tick_current_index whirlpool) (wp_tick_spacing whirlpool)) (\<lambda>current.
     let lowest = i32_sat (current - i32_sat (TICK_ARRAY_SCAN_RANGE div 2 * ticks_per_tick_array));
         scanned = map (\<lambda>i. i32_sat (lowest + i32_sat (i * ticks_per_tick_array))) [0..TICK_ARRAY_SCAN_RANGE - 1] in
     Ok (map (tick_array_pk lib whirlpool_pk program_id)
       (filter (\<lambda>i. ol_check_is_valid_start_tick lib i (wp_tick_spacing whirlpool)) scanned))))"

subsection \<open>Simulation\<close>

definition simulate_swap_with_tick_array ::
    "'ta orca_lib \<Rightarrow> orca_error account_view \<Rightarrow> pubkey \<Rightarrow> whirlpool \<Rightarrow> u64 \<Rightarrow> bool \<Rightarrow> bool \<Rightarrow> bool \<Rightarrow> pubkey \<Rightarrow>
     (post_swap_update, orca_error) result" where
  "simulate_swap_with_tick_array lib view whirlpool_pk whirlpool amount a_to_b amount_specified_is_input
       use_only_first_tick_array program_id =
     (let tick_spacing = wp_tick_spacing whirlpool in
      rbind (derive_tick_array_start_indexes lib (wp_tick_current_index whirlpool) tick_spacing a_to_b) (\<lambda>starts.
      rbind (fetch_tick_arrays lib view starts whirlpool_pk program_id) (\<lambda>tick_arrays.
      rbind (derive_last_tick_in_seq lib tick_arrays tick_spacing a_to_b) (\<lambda>tick_array_end_index.
      ol_swap lib whirlpool
        (if use_only_first_tick_array then (fst tick_arrays, None, None) else tick_arrays)
        amount (ol_sqrt_price_from_tick_index lib tick_array_end_index) amount_specified_is_input a_to_b
        (wp_reward_last_updated_timestamp whirlpool)))))"

definition orca_simulate_swap where
  "orca_simulate_swap lib view whirlpool_pk whirlpool amount a_to_b amount_specified_is_input program_id =
     simulate_swap_with_tick_array lib view whirlpool_pk whirlpool amount a_to_b amount_specified_is_input False program_id"

subsection \<open>The adapter\<close>

record orca_edge_identifier =
  oi_pool :: pubkey
  oi_program :: pubkey
  oi_program_name :: string
  oi_input_mint :: pubkey
  oi_output_mint :: pubkey
  oi_is_a_to_b :: bool

definition orca_ident :: "(pubkey \<Rightarrow> string) \<Rightarrow> orca_edge_identifier \<Rightarrow> edge_ident" where
  "orca_ident base58 i = \<lparr>id_key = oi_pool i, id_desc = oi_program_name i @ ''_'' @ base58 (oi_pool i),
     id_input_mint = oi_input_mint i, id_output_mint = oi_output_mint i, id_accounts_needed = 9\<rparr>"

fun fetch_all_whirlpools :: "'ta orca_lib \<Rightarrow> (pubkey \<times> bytes) list \<Rightarrow> ((pubkey \<times> whirlpool) list, orca_error) result" where
  "fetch_all_whirlpools lib [] = Ok []"
| "fetch_all_whirlpools lib ((pk, data) # rest) =
     rbind (slice_from data 8) (\<lambda>bytes.
     rbind (case ol_whirlpool lib bytes of Ok wp \<Rightarrow> Ok [(pk, wp)] | Err _ \<Rightarrow> Ok [] | Panic \<Rightarrow> Panic) (\<lambda>x.
     rbind (fetch_all_whirlpools lib rest) (\<lambda>xs. Ok (x @ xs))))"

text \<open>The answer for the vaults: address, owner, and whether the account is frozen, if it is a token
  account; what is none counts as frozen.\<close>

definition orca_banned_vaults :: "'ta orca_lib \<Rightarrow> (pubkey \<times> pubkey \<times> bool option) list \<Rightarrow> pubkey set" where
  "orca_banned_vaults lib vaults =
     {pk. \<exists>owner frozen. (pk, owner, frozen) \<in> set vaults \<and> (owner = ol_token_2022_id lib \<or> frozen \<noteq> Some False)}"

definition orca_pool_kept :: "pubkey set \<Rightarrow> pubkey \<times> whirlpool \<Rightarrow> bool" where
  "orca_pool_kept banned p \<longleftrightarrow> wp_token_vault_a (snd p) \<notin> banned \<and> wp_token_vault_b (snd p) \<notin> banned"

definition orca_edge_pair :: "pubkey \<Rightarrow> string \<Rightarrow> pubkey \<Rightarrow> whirlpool \<Rightarrow> orca_edge_identifier list" where
  "orca_edge_pair program_id program_name wp_pk wp =
     [\<lparr>oi_pool = wp_pk, oi_program = program_id, oi_program_name = program_name,
       oi_input_mint = wp_token_mint_a wp, oi_output_mint = wp_token_mint_b wp, oi_is_a_to_b = True\<rparr>,
      \<lparr>oi_pool = wp_pk, oi_program = program_id, oi_program_name = program_name,
       oi_input_mint = wp_token_mint_b wp, oi_output_mint = wp_token_mint_a wp, oi_is_a_to_b = False\<rparr>]"

fun orca_edges_of ::
    "'ta orca_lib \<Rightarrow> pubkey \<Rightarrow> string \<Rightarrow> (pubkey \<times> whirlpool) list \<Rightarrow> (pubkey \<rightharpoonup> orca_edge_identifier list) \<Rightarrow>
     (pubkey \<rightharpoonup> orca_edge_identifier list, orca_error) result" where
  "orca_edges_of lib program_id program_name [] m = Ok m"
| "orca_edges_of lib program_id program_name ((wp_pk, wp) # rest) m =
     rbind (whirlpool_tick_array_pks lib wp wp_pk program_id) (\<lambda>tick_arrays.
     let entry = orca_edge_pair program_id program_name wp_pk wp in
     orca_edges_of lib program_id program_name rest (fold (\<lambda>k m. m(k \<mapsto> entry)) (wp_pk # tick_arrays) m))"

definition orca_load_edge_identifiers ::
    "'ta orca_lib \<Rightarrow> ((pubkey \<times> bytes) list, orca_error) result \<Rightarrow>
     (pubkey set \<Rightarrow> ((pubkey \<times> pubkey \<times> bool option) list, orca_error) result) \<Rightarrow> string \<Rightarrow> pubkey \<Rightarrow>
     (pubkey \<rightharpoonup> orca_edge_identifier list, orca_error) result" where
  "orca_load_edge_identifiers lib snapshot get_vaults program_name program_id =
     rbind snapshot (\<lambda>accounts.
     rbind (fetch_all_whirlpools lib accounts) (\<lambda>whirlpools.
     rbind (get_vaults (\<Union>p \<in> set whirlpools. {wp_token_vault_a (snd p), wp_token_vault_b (snd p)})) (\<lambda>vaults.
     orca_edges_of lib program_id program_name
       (filter (orca_pool_kept (orca_banned_vaults lib vaults)) whirlpools) Map.empty)))"

definition orca_load :: "'ta orca_lib \<Rightarrow> orca_edge_identifier \<Rightarrow> orca_error account_view \<Rightarrow> (whirlpool, orca_error) result" where
  "orca_load lib i view = load_whirlpool lib view (oi_pool i)"

definition orca_fees :: "whirlpool \<Rightarrow> u64 \<Rightarrow> u64" where
  "orca_fees whirlpool in_amount =
     f64_as_u64 (f64_round (f64_mul (f64_div (f64_of_u64 (ucast (wp_fee_rate whirlpool))) (Finite False 1000000))
       (f64_of_u64 in_amount)))"

definition orca_quote_of :: "orca_edge_identifier \<Rightarrow> whirlpool \<Rightarrow> post_swap_update \<Rightarrow> u64 \<Rightarrow> quote" where
  "orca_quote_of i whirlpool update fees =
     (if oi_is_a_to_b i
      then \<lparr>q_in_amount = ps_amount_a update, q_out_amount = ps_amount_b update, q_fee_amount = fees,
            q_fee_mint = wp_token_mint_a whirlpool\<rparr>
      else \<lparr>q_in_amount = ps_amount_b update, q_out_amount = ps_amount_a update, q_fee_amount = fees,
            q_fee_mint = wp_token_mint_b whirlpool\<rparr>)"

definition orca_quote ::
    "'ta orca_lib \<Rightarrow> pubkey \<Rightarrow> orca_edge_identifier \<Rightarrow> whirlpool \<Rightarrow> orca_error account_view \<Rightarrow> u64 \<Rightarrow> (quote, orca_error) result" where
  "orca_quote lib program_id i whirlpool view in_amount =
     rbind (orca_simulate_swap lib view (oi_pool i) whirlpool in_amount (oi_is_a_to_b i) True program_id) (\<lambda>update.
     Ok (orca_quote_of i whirlpool update (orca_fees whirlpool in_amount)))"

definition orca_quote_exact_out ::
    "'ta orca_lib \<Rightarrow> pubkey \<Rightarrow> orca_edge_identifier \<Rightarrow> whirlpool \<Rightarrow> orca_error account_view \<Rightarrow> u64 \<Rightarrow> (quote, orca_error) result" where
  "orca_quote_exact_out lib program_id i whirlpool view out_amount =
     rbind (orca_simulate_swap lib view (oi_pool i) whirlpool out_amount (oi_is_a_to_b i) False program_id) (\<lambda>update.
     let in_amount = (if oi_is_a_to_b i then ps_amount_a update else ps_amount_b update) in
     Ok (orca_quote_of i whirlpool update (orca_fees whirlpool in_amount)))"

definition orca_dex :: "'ta orca_lib \<Rightarrow> pubkey \<Rightarrow> string \<Rightarrow> (orca_edge_identifier, whirlpool, orca_error) dex_interface" where
  "orca_dex lib program_id program_name = \<lparr>dex_name = program_name, dex_load = orca_load lib,
     dex_quote = orca_quote lib program_id, dex_quote_exact_out = orca_quote_exact_out lib program_id,
     dex_supports_exact_out = (\<lambda>_. True)\<rparr>"

subsection \<open>The swap instruction\<close>

text \<open>Addresses of arrays that are not loaded are replaced by the first one.\<close>

definition tick_array_pks_of ::
    "'ta orca_lib \<Rightarrow> orca_edge_identifier \<Rightarrow> start_indexes \<Rightarrow> 'ta tick_arrays \<Rightarrow> pubkey \<times> pubkey \<times> pubkey" where
  "tick_array_pks_of lib i starts tick_arrays =
     (let pk = tick_array_pk lib (oi_pool i) (oi_program i); (s0, s1, s2) = starts; (ta0, ta1, ta2) = tick_arrays;
          ta0_pk = pk s0;
          ta1_pk = case_option ta0_pk pk s1; ta2_pk = case_option ta0_pk pk s2 in
      (ta0_pk, if ta1 = None then ta0_pk else ta1_pk, if ta2 = None then ta0_pk else ta2_pk))"

definition amount_or_zero :: "(post_swap_update \<Rightarrow> u64) \<Rightarrow> (post_swap_update, orca_error) result \<Rightarrow> (u64, 'x) result" where
  "amount_or_zero f r = (case r of Ok u \<Rightarrow> Ok (f u) | Err _ \<Rightarrow> Ok 0 | Panic \<Rightarrow> Panic)"

definition orca_build_swap_ix ::
    "'ta orca_lib \<Rightarrow> (pubkey \<Rightarrow> pubkey \<Rightarrow> pubkey) \<Rightarrow> orca_edge_identifier \<Rightarrow> orca_error account_view \<Rightarrow> pubkey \<Rightarrow>
     u64 \<Rightarrow> u64 \<Rightarrow> u32 \<Rightarrow> (swap_instruction, orca_error) result" where
  "orca_build_swap_ix lib ata i view wallet_pk amount out_amount max_slippage_bps =
     rbind (load_whirlpool lib view (oi_pool i)) (\<lambda>whirlpool.
     let tick_spacing = wp_tick_spacing whirlpool; a_to_b = oi_is_a_to_b i;
         other_amount_threshold = minimum_amount_out out_amount max_slippage_bps in
     rbind (derive_tick_array_start_indexes lib (wp_tick_current_index whirlpool) tick_spacing a_to_b) (\<lambda>starts.
     rbind (fetch_tick_arrays lib view starts (oi_pool i) (oi_program i)) (\<lambda>tick_arrays.
     rbind (derive_last_tick_in_seq lib tick_arrays tick_spacing a_to_b) (\<lambda>tick_array_end_index.
     let sqrt_price_limit = ol_sqrt_price_from_tick_index lib tick_array_end_index;
         pks = tick_array_pks_of lib i starts tick_arrays;
         more = f64_as_u64 (f64_round (f64_mul (f64_of_u64 amount) (f64_of_rat (3 / 2))));
         simulate = (\<lambda>only_first. simulate_swap_with_tick_array lib view (oi_pool i) whirlpool more a_to_b True
                       only_first (oi_program i));
         out = (if a_to_b then ps_amount_b else ps_amount_a) in
     rbind (amount_or_zero out (simulate False)) (\<lambda>x.
     rbind (amount_or_zero out (simulate True)) (\<lambda>y.
     let (pk0, pk1, pk2) = (if x = y then (fst pks, fst pks, fst pks) else pks);
         data = take 8 (ol_sha256 lib (ascii ''global:swap'')) @ u64_le amount @ u64_le other_amount_threshold @
           le_bytes 16 (unat sqrt_price_limit) @ [1] @ [if a_to_b then 1 else 0];
         ro = (\<lambda>k. \<lparr>am_pubkey = k, am_is_signer = False, am_is_writable = False\<rparr>);
         rw = (\<lambda>k s. \<lparr>am_pubkey = k, am_is_signer = s, am_is_writable = True\<rparr>);
         ata_a = ata wallet_pk (wp_token_mint_a whirlpool); ata_b = ata wallet_pk (wp_token_mint_b whirlpool) in
     rbind (assert_that (8 \<le> length (ol_sha256 lib (ascii ''global:swap'')) \<and> length data = 8 + 8 + 8 + 16 + 1 + 1)) (\<lambda>_.
     Ok \<lparr>si_instruction = \<lparr>ix_program_id = oi_program i,
           ix_accounts = [ro (ol_token_id lib), rw wallet_pk True, rw (oi_pool i) False, rw ata_a False,
             rw (wp_token_vault_a whirlpool) False, rw ata_b False, rw (wp_token_vault_b whirlpool) False,
             rw pk0 False, rw pk1 False, rw pk2 False,
             ro (ol_find_program_address lib [ascii ''oracle'', pubkey_bytes (oi_pool i)] (oi_program i))],
           ix_data = data\<rparr>,
         si_out_pubkey = (if a_to_b then ata_b else ata_a),
         si_out_mint = (if a_to_b then wp_token_mint_b whirlpool else wp_token_mint_a whirlpool),
         si_in_amount_offset = 8, si_cu_estimate = Some 65000\<rparr>)))))))"

subsection \<open>Tick arrays are aligned and watched\<close>

lemma floor_bound:
  assumes "0 < (n :: int)" "n \<le> b" "\<bar>t\<bar> \<le> a"
  shows "\<bar>t - t mod n\<bar> \<le> a + b"
proof -
  have "0 \<le> t mod n" "t mod n < n" using assms(1) by simp_all
  then show ?thesis using assms by linarith
qed

text \<open>A step of at most one multiple.\<close>

lemma floor_step:
  assumes "0 < (n :: int)" "0 \<le> x" "x \<le> n"
  obtains j where "t + x - (t + x) mod n = t - t mod n + j * n" "0 \<le> j" "j \<le> 1"
proof
  have m: "0 \<le> t mod n" "t mod n < n" using assms(1) by simp_all
  have "t + x = n * (t div n) + (t mod n + x)" by simp
  then have "(t + x) div n = t div n + (t mod n + x) div n" using assms(1) by (metis div_mult_self4 less_irrefl)
  then show "t + x - (t + x) mod n = t - t mod n + ((t mod n + x) div n) * n"
    by (simp add: minus_mod_eq_mult_div algebra_simps)
  show "0 \<le> (t mod n + x) div n" using m assms by (simp add: pos_imp_zdiv_nonneg_iff)
  have "t mod n + x < 2 * n" using m assms by linarith
  then have "(t mod n + x) div n < 2" using assms(1) zdiv_mono1 [of "t mod n + x" "2 * n - 1" n] by (smt (verit) div_pos_geq div_pos_pos_trivial m(1) assms(2))
  then show "(t mod n + x) div n \<le> 1" by simp
qed

text \<open>The ticks of an array, and the bounds that keep the arithmetic within 32 bits.\<close>

definition array_span :: "'ta orca_lib \<Rightarrow> u16 \<Rightarrow> int" where
  "array_span lib ts = ol_tick_array_size lib * uint ts"

definition span_ok :: "'ta orca_lib \<Rightarrow> u16 \<Rightarrow> bool" where
  "span_ok lib ts \<longleftrightarrow> 0 < ol_tick_array_size lib \<and> 0 < uint ts \<and> array_span lib ts \<le> 2 ^ 23"

lemma i32_in: "- 2147483648 \<le> x \<Longrightarrow> x \<le> 2147483647 \<Longrightarrow> i32 x = Ok x"
  by (simp add: i32_def)

lemma span_pos: "span_ok lib ts \<Longrightarrow> 0 < array_span lib ts \<and> uint ts \<le> array_span lib ts"
  by (auto simp: span_ok_def array_span_def)

lemma array_ticks_ok: "span_ok lib ts \<Longrightarrow> array_ticks lib ts = Ok (array_span lib ts)"
proof -
  assume "span_ok lib ts"
  then have "0 < array_span lib ts" "array_span lib ts \<le> 2 ^ 23" using span_pos by (auto simp: span_ok_def)
  then have "i32 (array_span lib ts) = (Ok (array_span lib ts) :: (_, 'x) result)" by (intro i32_in) simp_all
  then show ?thesis by (simp add: array_ticks_def array_span_def)
qed

lemma smod_floor:
  assumes "0 < (n :: int)"
  shows "(if t < 0 \<and> t smod n \<noteq> 0 then t - t smod n - n else t - t smod n) = t - t mod n"
proof -
  have "t mod n \<noteq> n" "n \<noteq> t mod n" using pos_mod_bound [OF assms, of t] by linarith+
  then show ?thesis using assms
    by (cases "t < 0") (auto simp: signed_modulo_int_def zmod_zminus1_eq_if abs_if sgn_if)
qed

lemma derive_start_tick_floor:
  assumes ok: "span_ok lib ts" and t: "\<bar>t\<bar> \<le> 2 ^ 25"
  shows "derive_start_tick lib t ts = Ok (t - t mod array_span lib ts)"
proof -
  let ?n = "array_span lib ts"
  have n: "0 < ?n" "?n \<le> 2 ^ 23" using ok span_pos by (auto simp: span_ok_def)
  have "\<bar>t smod ?n\<bar> < ?n" using n(1) by (simp add: signed_modulo_int_def abs_mult sgn_if)
  then have r: "- ?n < t smod ?n" "t smod ?n < ?n" by linarith+
  have "0 \<le> t mod ?n" "t mod ?n < ?n" using n(1) by simp_all
  then show ?thesis
    using smod_floor [OF n(1), of t] n r t
    by (auto simp: derive_start_tick_def array_ticks_ok [OF ok] Let_def i32_in split: if_splits)
qed

lemma derive_next_ok:
  assumes ok: "span_ok lib ts" and s: "\<bar>s\<bar> \<le> 2 ^ 26"
  obtains r where "derive_next_start_tick_in_seq lib s ts a_to_b = (Ok r :: (_, 'x) result)"
    "r = None \<or> r = Some (s + (if a_to_b then - array_span lib ts else array_span lib ts))"
proof -
  let ?p = "s + (if a_to_b then - array_span lib ts else array_span lib ts)"
  have "i32 ?p = (Ok ?p :: (_, 'x) result)"
    using ok s span_pos [OF ok] by (intro i32_in) (cases a_to_b; simp add: span_ok_def abs_le_iff)+
  then have in_range: "i32 (if a_to_b then s - array_span lib ts else s + array_span lib ts) = (Ok ?p :: (_, 'x) result)"
    by (cases a_to_b) simp_all
  have "derive_next_start_tick_in_seq lib s ts a_to_b =
      (Ok (if ?p < ol_max_tick_index lib \<and> ol_min_tick_index lib < ?p then Some ?p else None) :: (_, 'x) result)"
    using in_range by (simp add: derive_next_start_tick_in_seq_def array_ticks_ok [OF ok])
  then show ?thesis by (rule that) simp
qed

lemma scanned_member:
  assumes "0 < n" "n \<le> 2 ^ 23" "\<bar>start\<bar> \<le> 2 ^ 25" "- 250 \<le> j" "j \<le> (3 :: int)"
  shows "start + j * n \<in> set (map (\<lambda>i. i32_sat (i32_sat (start - i32_sat (TICK_ARRAY_SCAN_RANGE div 2 * n)) + i32_sat (i * n)))
    [0..TICK_ARRAY_SCAN_RANGE - 1])"
proof -
  have "n * 250 \<le> 2 ^ 23 * 250" "0 \<le> n * 250" "j * n \<le> 3 * n" "(- 250) * n \<le> j * n"
    "(250 + j) * n \<le> 253 * n" "0 \<le> (250 + j) * n"
    using assms mult_right_mono [of "- 250" j n] by (auto intro: mult_right_mono)
  then have "i32_sat (i32_sat (start - i32_sat (250 * n)) + i32_sat ((250 + j) * n)) = start + j * n"
    using assms(2,3) by (simp add: i32_sat_def algebra_simps)
  moreover have "250 + j \<in> set [0..499]" using assms(4,5) by simp
  ultimately show ?thesis by (force simp: TICK_ARRAY_SCAN_RANGE_def image_iff)
qed

lemma watched_arrays:
  assumes ok: "span_ok lib (wp_tick_spacing wp)" and t: "\<bar>wp_tick_current_index wp\<bar> \<le> 2 ^ 24"
  shows "\<exists>pks. whirlpool_tick_array_pks lib wp wp_pk program_id = (Ok pks :: (_, 'x) result) \<and>
    (\<forall>j. - 250 \<le> j \<longrightarrow> j \<le> 3 \<longrightarrow>
       (let n = array_span lib (wp_tick_spacing wp);
            s = wp_tick_current_index wp - wp_tick_current_index wp mod n + j * n in
        ol_check_is_valid_start_tick lib s (wp_tick_spacing wp) \<longrightarrow>
        tick_array_pk lib wp_pk program_id s \<in> set pks))"
proof -
  let ?n = "array_span lib (wp_tick_spacing wp)" and ?t = "wp_tick_current_index wp"
  have n: "0 < ?n" "?n \<le> 2 ^ 23" using ok span_pos by (auto simp: span_ok_def)
  have start: "\<bar>?t - ?t mod ?n\<bar> \<le> 2 ^ 25" using floor_bound [OF n t] by simp
  have floor: "derive_start_tick lib ?t (wp_tick_spacing wp) = (Ok (?t - ?t mod ?n) :: (_, 'x) result)"
    by (rule derive_start_tick_floor [OF ok]) (use t in simp)
  note scanned = scanned_member [OF n start]
  show ?thesis
    unfolding whirlpool_tick_array_pks_def array_ticks_ok [OF ok] floor rbind.simps Let_def
    using scanned by (intro exI conjI [OF refl] allI impI) (auto simp del: set_upto)
qed

text \<open>The arrays after the first one, and where they lie.\<close>

lemma starts_chain:
  assumes ok: "span_ok lib ts" and s0: "\<bar>s0\<bar> \<le> 2 ^ 25 + 2 ^ 23"
    and first: "derive_first_tick_array_start_tick lib t ts (\<not> a_to_b) = (Ok s0 :: (_, 'x) result)"
    and d: "d = (if a_to_b then - array_span lib ts else array_span lib ts)"
  obtains s1 s2 where "derive_tick_array_start_indexes lib t ts a_to_b = (Ok (s0, s1, s2) :: (_, 'x) result)"
    "s1 = None \<or> s1 = Some (s0 + d)" "s2 = None \<or> s2 = Some (s0 + 2 * d)"
proof -
  have n: "0 < array_span lib ts" "array_span lib ts \<le> 2 ^ 23" using ok span_pos by (auto simp: span_ok_def)
  obtain s1 where s1: "derive_next_start_tick_in_seq lib s0 ts a_to_b = (Ok s1 :: (_, 'x) result)"
    "s1 = None \<or> s1 = Some (s0 + d)" using derive_next_ok [OF ok, of s0 a_to_b] s0 unfolding d by auto
  have "\<bar>s0 + d\<bar> \<le> 2 ^ 26" using s0 n by (cases a_to_b) (simp_all add: d)
  from derive_next_ok [OF ok this, of a_to_b] obtain r where
    r: "derive_next_start_tick_in_seq lib (s0 + d) ts a_to_b = (Ok r :: (_, 'x) result)" "r = None \<or> r = Some (s0 + 2 * d)"
    unfolding d by (metis add.assoc mult_2)
  from s1(2) show ?thesis
  proof
    assume "s1 = None"
    then show ?thesis using that [of None None] first s1(1) by (simp add: derive_tick_array_start_indexes_def)
  next
    assume "s1 = Some (s0 + d)"
    then show ?thesis using that [of "Some (s0 + d)" r] first s1(1) r
      by (simp add: derive_tick_array_start_indexes_def)
  qed
qed

lemma starts_near:
  assumes "s = s0 \<or> s = s0 + d \<or> s = s0 + 2 * (d :: int)" and "s0 = base + j * n" and "d = n \<or> d = - n"
    and "0 \<le> j" "j \<le> 1"
  shows "\<exists>k. s = base + k * n \<and> - 250 \<le> k \<and> k \<le> 3"
proof -
  have "\<exists>i. s = s0 + i * n \<and> - 2 \<le> i \<and> i \<le> 2"
    using assms(1,3)
    by (elim disjE) (force intro: exI [of _ 0] exI [of _ 1] exI [of _ "- 1"] exI [of _ 2] exI [of _ "- 2"])+
  then obtain i where "s = base + (j + i) * n" "- 2 \<le> i" "i \<le> 2" by (auto simp: assms(2) algebra_simps)
  with assms(4,5) show ?thesis by (intro exI [of _ "j + i"]) simp
qed

text \<open>
  C40 (orca_arrays_watched). The tick arrays that a swap reads are whole arrays next to each other:
  the first starts at the multiple of the array size below the current tick (for a swap
  upwards, of the tick one spacing above it), the others follow in the direction of the
  swap. Each of them is among the accounts registered for the pool, if the program accepts
  its start; and no computation overflows, for any spacing and tick the program allows.
\<close>

theorem orca_arrays_watched:
  assumes ok: "span_ok lib (wp_tick_spacing wp)" and t: "\<bar>wp_tick_current_index wp\<bar> \<le> 2 ^ 24"
  shows "\<exists>s0 s1 s2 pks.
    derive_tick_array_start_indexes lib (wp_tick_current_index wp) (wp_tick_spacing wp) a_to_b =
      (Ok (s0, s1, s2) :: (_, 'x) result) \<and>
    whirlpool_tick_array_pks lib wp wp_pk program_id = (Ok pks :: (_, 'x) result) \<and>
    (let n = array_span lib (wp_tick_spacing wp); d = (if a_to_b then - n else n);
         tick = wp_tick_current_index wp + (if a_to_b then 0 else uint (wp_tick_spacing wp)) in
     n dvd s0 \<and> s0 \<le> tick \<and> tick < s0 + n \<and> s1 \<in> {None, Some (s0 + d)} \<and> s2 \<in> {None, Some (s0 + 2 * d)}) \<and>
    (\<forall>s. s = s0 \<or> s1 = Some s \<or> s2 = Some s \<longrightarrow> ol_check_is_valid_start_tick lib s (wp_tick_spacing wp) \<longrightarrow>
       tick_array_pk lib wp_pk program_id s \<in> set pks)"
proof -
  define n where "n = array_span lib (wp_tick_spacing wp)"
  define x where "x = (if a_to_b then 0 else uint (wp_tick_spacing wp))"
  define d where "d = (if a_to_b then - n else n)"
  let ?ts = "wp_tick_spacing wp" and ?t = "wp_tick_current_index wp"
  define s0 where "s0 = ?t + x - (?t + x) mod n"
  have n: "0 < n" "n \<le> 2 ^ 23" "0 \<le> x" "x \<le> n" using ok span_pos [OF ok] by (auto simp: span_ok_def n_def x_def)
  have tick: "\<bar>?t + x\<bar> \<le> 2 ^ 25" using t n by simp
  have s0: "\<bar>s0\<bar> \<le> 2 ^ 25 + 2 ^ 23" unfolding s0_def by (rule floor_bound [OF n(1,2) tick])
  have "derive_start_tick lib (?t + x) ?ts = (Ok s0 :: (_, 'x) result)"
    using derive_start_tick_floor [OF ok tick] by (simp add: s0_def n_def)
  then have first: "derive_first_tick_array_start_tick lib ?t ?ts (\<not> a_to_b) = (Ok s0 :: (_, 'x) result)"
    using tick by (cases a_to_b) (simp_all add: derive_first_tick_array_start_tick_def x_def i32_in abs_le_iff)
  obtain s1 s2 where starts: "derive_tick_array_start_indexes lib ?t ?ts a_to_b = (Ok (s0, s1, s2) :: (_, 'x) result)"
    "s1 = None \<or> s1 = Some (s0 + d)" "s2 = None \<or> s2 = Some (s0 + 2 * d)"
    using starts_chain [OF ok s0 first d_def [unfolded n_def]] by (metis n_def)
  obtain j where j: "s0 = ?t - ?t mod n + j * n" "0 \<le> j" "j \<le> 1"
    using floor_step [OF n(1,3,4), of ?t] unfolding s0_def by metis
  obtain pks where pks: "whirlpool_tick_array_pks lib wp wp_pk program_id = (Ok pks :: (_, 'x) result)"
    "\<And>j. - 250 \<le> j \<Longrightarrow> j \<le> 3 \<Longrightarrow> ol_check_is_valid_start_tick lib (?t - ?t mod n + j * n) ?ts \<Longrightarrow>
       tick_array_pk lib wp_pk program_id (?t - ?t mod n + j * n) \<in> set pks"
    using watched_arrays [OF ok t, of wp_pk program_id] unfolding Let_def n_def by blast
  have "tick_array_pk lib wp_pk program_id s \<in> set pks"
    if s: "s = s0 \<or> s1 = Some s \<or> s2 = Some s" and v: "ol_check_is_valid_start_tick lib s ?ts" for s
  proof -
    have "s = s0 \<or> s = s0 + d \<or> s = s0 + 2 * d" using s starts(2,3) by auto
    moreover have "d = n \<or> d = - n" by (simp add: d_def)
    ultimately obtain k where "s = ?t - ?t mod n + k * n" "- 250 \<le> k" "k \<le> 3"
      using starts_near [OF _ j(1) _ j(2,3)] by blast
    then show ?thesis using v pks(2) by metis
  qed
  moreover have "(?t + x) mod n < n" "0 \<le> (?t + x) mod n" using n(1) by simp_all
  then have "s0 \<le> ?t + x" "?t + x < s0 + n" unfolding s0_def by linarith+
  moreover have "n dvd s0" unfolding s0_def by (simp add: minus_mod_eq_mult_div)
  ultimately show ?thesis
    using starts pks(1) unfolding Let_def n_def [symmetric] x_def [symmetric] d_def [symmetric] by blast
qed

text \<open>The instruction passes addresses of tick arrays that could be loaded only.\<close>

lemma tick_array_pks_loaded:
  assumes "fetch_tick_arrays lib view starts (oi_pool i) (oi_program i) = Ok tas"
    and "tick_array_pks_of lib i starts tas = (a, b, c)" and "pk \<in> {a, b, c}"
  shows "\<exists>tick ta. pk = tick_array_pk lib (oi_pool i) (oi_program i) tick \<and>
    fetch_tick_array lib view (oi_pool i) (oi_program i) tick = Some ta"
  using assms
  by (cases starts; cases "fst (snd starts)"; cases "snd (snd starts)")
    ((auto simp: tick_array_pks_of_def Let_def split: option.splits if_splits), blast+)

lemma orca_ix_arrays_loaded:
  assumes "orca_build_swap_ix lib ata i view wallet amount out bps = Ok ix" and "k \<in> {7, 8, 9}"
  shows "\<exists>tick ta. am_pubkey (ix_accounts (si_instruction ix) ! k) = tick_array_pk lib (oi_pool i) (oi_program i) tick \<and>
    fetch_tick_array lib view (oi_pool i) (oi_program i) tick = Some ta"
proof -
  obtain s0 s1 s2 ta0 ta1 ta2 where fetched:
    "fetch_tick_arrays lib view (s0, s1, s2) (oi_pool i) (oi_program i) = Ok (ta0, ta1, ta2)"
    and pks: "map am_pubkey (take 3 (drop 7 (ix_accounts (si_instruction ix)))) \<in>
      (let (a, b, c) = tick_array_pks_of lib i (s0, s1, s2) (ta0, ta1, ta2) in {[a, a, a], [a, b, c]})"
    and len: "length (ix_accounts (si_instruction ix)) = 11"
    using assms(1) by (auto simp: orca_build_swap_ix_def Let_def split: if_splits prod.splits)
  let ?accs = "ix_accounts (si_instruction ix)"
  obtain a b c where abc: "tick_array_pks_of lib i (s0, s1, s2) (ta0, ta1, ta2) = (a, b, c)" by (metis prod_cases3)
  have "?accs ! k = take 3 (drop 7 ?accs) ! (k - 7)" "k - 7 < length (take 3 (drop 7 ?accs))"
    using assms(2) len by auto
  then have "am_pubkey (?accs ! k) \<in> set (map am_pubkey (take 3 (drop 7 ?accs)))" by (metis imageI list.set_map nth_mem)
  then have "am_pubkey (?accs ! k) \<in> {a, b, c}" using pks unfolding abc by auto
  from tick_array_pks_loaded [OF fetched abc this] show ?thesis .
qed

definition ref_orca :: "int orca_lib" where
  "ref_orca = \<lparr>ol_tick_array_size = 88, ol_min_tick_index = - 443636, ol_max_tick_index = 443636,
     ol_tick_array_len = 0, ol_tick_array = (\<lambda>_. 0), ol_start_tick_index = (\<lambda>s. s),
     ol_check_is_valid_start_tick = (\<lambda>_ _. True), ol_sqrt_price_from_tick_index = (\<lambda>_. 0),
     ol_swap = (\<lambda>_ _ _ _ _ _ _. Err OrcaSwap), ol_whirlpool = (\<lambda>_. Err OrcaDecode),
     ol_find_program_address = (\<lambda>seeds _. of_nat (le_val (seeds ! 2))), ol_sha256 = (\<lambda>_. []), ol_token_id = 1,
     ol_token_2022_id = 2\<rparr>"

definition ref_whirlpool :: whirlpool where
  "ref_whirlpool = \<lparr>wp_tick_current_index = - 1, wp_tick_spacing = 64, wp_fee_rate = 3000, wp_token_mint_a = 5,
     wp_token_mint_b = 6, wp_token_vault_a = 7, wp_token_vault_b = 8, wp_reward_last_updated_timestamp = 0\<rparr>"

theorem orca_arrays_watched_witness:
  "\<exists>s1 s2 pks. derive_tick_array_start_indexes ref_orca (- 1) 64 True = (Ok (- 5632, s1, s2) :: (_, unit) result) \<and>
     whirlpool_tick_array_pks ref_orca ref_whirlpool 9 10 = (Ok pks :: (_, unit) result) \<and>
     tick_array_pk ref_orca 9 10 (- 5632) \<in> set pks"
proof -
  have ok: "span_ok ref_orca (wp_tick_spacing ref_whirlpool)" "\<bar>wp_tick_current_index ref_whirlpool\<bar> \<le> 2 ^ 24"
    "array_span ref_orca (wp_tick_spacing ref_whirlpool) = 5632"
    by (simp_all add: span_ok_def array_span_def ref_orca_def ref_whirlpool_def)
  have first: "(5632 :: int) dvd s \<Longrightarrow> s \<le> - 1 \<Longrightarrow> - 1 < s + 5632 \<Longrightarrow> s = - 5632" for s
    by (elim dvdE) simp
  have valid: "ol_check_is_valid_start_tick ref_orca s ts" for s ts by (simp add: ref_orca_def)
  have f: "wp_tick_current_index ref_whirlpool = - 1" "wp_tick_spacing ref_whirlpool = 64"
    by (simp_all add: ref_whirlpool_def)
  from orca_arrays_watched [OF ok(1,2), of True 9 10, unfolded f ok(3) [unfolded f] Let_def if_True]
  obtain s0 s1 s2 pks where
    r: "derive_tick_array_start_indexes ref_orca (- 1) 64 True = (Ok (s0, s1, s2) :: (_, unit) result)"
    "whirlpool_tick_array_pks ref_orca ref_whirlpool 9 10 = (Ok pks :: (_, unit) result)"
    and s0: "5632 dvd s0" "s0 \<le> - 1 + 0" "- 1 + 0 < s0 + 5632"
    and all: "\<forall>s. s = s0 \<or> s1 = Some s \<or> s2 = Some s \<longrightarrow> ol_check_is_valid_start_tick ref_orca s 64 \<longrightarrow>
       tick_array_pk ref_orca 9 10 s \<in> set pks" by (elim exE conjE)
  from s0 have "s0 = - 5632" by (intro first) simp_all
  then show ?thesis using r all valid by blast
qed

end
