(* ===== verification/Spec2Isabelle.thy ===== *)
theory Spec2Isabelle
  imports Exec_Program Raydium_Dex Router_Safety Ix_Builder Invariant_Dex Edge_Updater Tx_Watcher
    Request_Handler Path_Warmer Raydium_Cp Saber_Dex Infinity_Dex Orca_Dex
begin

text \<open>
  Verification of the Autobahn swap aggregator.

  \<^bold>\<open>The program.\<close> Autobahn finds the best way to swap one Solana token for another across many
  exchanges. An adapter per exchange (\<^verbatim>\<open>lib/dex-*\<close>) turns its pools into \<^emph>\<open>edges\<close>, ordered pairs
  of mints with a quote function. The router (\<^verbatim>\<open>bin/autobahn-router\<close>) keeps cached prices of all
  edges, prunes the graph of mints and edges to the best pools, searches paths, quotes them,
  and answers a request with a route. A route is turned into a transaction whose main
  instruction calls the on-chain executor (\<^verbatim>\<open>programs/autobahn-executor\<close>), which runs the swaps
  one after the other, patches the input amount of each with the output of the one before,
  and fails unless the final amount reaches a minimum; it also charges and splits fees.

  \<^bold>\<open>Conventions\<close> (\<open>Autobahn_Prelude\<close>). A Rust computation is a value of \<open>result\<close>: \<open>Ok\<close>, \<open>Err\<close>, or
  \<open>Panic\<close> for an aborted one (index out of range, overflow, failed \<open>unwrap\<close> or \<open>assert\<close>). Unsigned
  integers are words of their width with checked, saturating and panicking operations (the
  workspace is built with overflow checks); \<open>usize\<close> values are naturals; signed integers are
  integers with the range check written out. Loops over lists are \<open>rfold\<close> or recursive
  functions; all of them terminate and none uses fuel. Code outside the repository
  (the Solana runtime, SPL programs, other exchanges' crates) is a parameter, a record of
  functions, and what is relied on about it is a named hypothesis or a locale.

  \<^bold>\<open>The on-chain executor.\<close>
  \<^item> \<open>Exec_Utils\<close>: the wire format of \<^verbatim>\<open>utils.rs\<close>; round trips of the variable-length integers.
  \<^item> \<open>Exec_Runtime\<close>: accounts, cross-program invocation, logs and token helpers (\<^verbatim>\<open>token.rs\<close>,
    \<^verbatim>\<open>logs.rs\<close>, \<^verbatim>\<open>create_pda.rs\<close>); \<open>Exec_Reference_Runtime\<close> is a concrete runtime on which the
    witnesses run.
  \<^item> \<open>Exec_Fees\<close>: fee charging, referral accounts, withdrawals. The fee is split exactly, a
    withdrawal needs the referrer, and the second version pays the referrer's share to the
    wrong account.
  \<^item> \<open>Exec_Swap\<close>: \<^verbatim>\<open>execute_swap_v2.rs\<close>, \<^verbatim>\<open>execute_swap_v3.rs\<close>, \<^verbatim>\<open>execute_openbook_v2_swap.rs\<close> and the
    client-side assembly \<^verbatim>\<open>swap_ix.rs\<close>; \<open>swap_spec\<close> is the abstract run of a route, which the
    byte-level loops implement.
  \<^item> \<open>Exec_Program\<close>: the dispatch of \<^verbatim>\<open>lib.rs\<close> and the test program \<^verbatim>\<open>mock_swap\<close>; the entry point
    run on the generated instruction is the abstract run.

  \<^bold>\<open>Exchanges.\<close> An adapter consists of its edges by account, loading, quoting and the swap
  instruction, over the interface \<open>Dex_Interface\<close> (\<^verbatim>\<open>lib/router-lib/src/dex/interface.rs\<close>).
  \<^item> \<open>Raydium_State\<close>, \<open>Raydium_Math\<close>, \<open>Raydium_Dex\<close>: account layouts, the constant-product
    arithmetic with fees and the adapter (\<^verbatim>\<open>lib/dex-raydium\<close>). Exact-in quotes respect the
    invariant of the pool and are monotone; an exact-out quote can fall short.
  \<^item> \<open>Invariant_Tickmap\<close>, \<open>Invariant_Math\<close>, \<open>Invariant_Log\<close>, \<open>Invariant_Swap\<close>, \<open>Invariant_Dex\<close>: the
    adapter of Invariant with its own simulation (\<^verbatim>\<open>lib/dex-invariant\<close>): the tick bitmap and its
    searches, equal to a search over the whole bitmap; swap steps within their bounds; the price
    of a tick and the tick of a price; a simulated swap consumes exactly its input. The
    decimals crate is written out as fixed-point arithmetic. The theorems also show that only
    three ticks ahead are loaded, that ticks beyond them are crossed as empty, and that the
    bitmaps are registered for the wrong pools.
  \<^item> \<open>Orca_Dex\<close>, \<open>Raydium_Cp\<close>, \<open>Saber_Dex\<close>, \<open>Infinity_Dex\<close>: adapters whose quotes come from other
    crates, which are parameters. The tick arrays of an Orca swap are adjacent, registered and
    computed without overflow; the accounts of Raydium CP lead to the edges of all pools that
    use them; of the Infinity edges that sell its LP token the router keeps only one.

  \<^bold>\<open>The router.\<close>
  \<^item> \<open>Float64\<close>: the double operations the router uses, on Isabelle's words and with rounding
    written out; \<open>Edge_State\<close>: cached prices, validity and cooldown of an edge (\<^verbatim>\<open>edge.rs\<close>).
  \<^item> \<open>Routing_Types\<close>, \<open>Routing_Search\<close>: the object pool and the depth search over paths; every
    path filed is a real path within its limits.
  \<^item> \<open>Path_Cache\<close>: the path discovery cache; \<open>Routing_Select\<close>: pruning of the graph;
    \<open>Routing_Quotes\<close>: quoting a path and building its steps.
  \<^item> \<open>Router\<close>, \<open>Router_Safety\<close>: the state of the router and \<open>find_best_route\<close>; over all reachable
    states a route leads from the requested input to the requested output, after at most
    three attempts. The theorems also record where exact-out requests go wrong.
  \<^item> \<open>Ix_Builder\<close>: the transaction built for a route; composed with the executor, it runs the
    steps of the route with the requested minimum.
  \<^item> \<open>Dex_Build\<close>, \<open>Edge_Updater\<close>: the edge objects built for an adapter, and the event loop that
    refreshes them (\<^verbatim>\<open>utils.rs\<close>, \<^verbatim>\<open>dex/generic\<close>, \<^verbatim>\<open>edge_updater.rs\<close>). With one object per edge no
    update is lost and a dex is ready exactly when all it subscribed to has arrived; but an
    edge listed under several accounts has several objects, and the one the router reads
    misses the updates of the others.
  \<^item> \<open>Tx_Watcher\<close>, \<open>Hot_Mints\<close>, \<open>Path_Warmer\<close>: feedback from failed transactions, the mints asked
    for last, and the job that fills the path cache; a warming round neither panics nor leaves
    the reachable states. The watcher misreads the hop count.
  \<^item> \<open>Alt_Optimizer\<close>, \<open>Liquidity\<close>: the choice of address lookup tables and the estimate of the
    liquidity of a mint (\<^verbatim>\<open>alt\<close>, \<^verbatim>\<open>liquidity\<close>).
  \<^item> \<open>Api_Model\<close>, \<open>Request_Handler\<close>: the messages of the HTTP interface and its handlers
    (\<^verbatim>\<open>lib/router-lib/src/model\<close>, \<^verbatim>\<open>server/route_provider.rs\<close>, \<^verbatim>\<open>server/http_server.rs\<close>). A quoted
    route fits into a transaction, a quote sent back builds the quoted swap, the threshold of a
    quote is on the safe side; the safety check of an exact-out request looks at the wrong
    amount.

  \<^bold>\<open>Interfaces.\<close> Contracts between components are locales, interpreted on the model: the
  codecs of the wire format (\<open>wire_codec\<close>), enumerations stored as integers (\<open>u64_enum\<close>), the
  quotes of an adapter (\<open>quoting_dex\<close>, for Raydium, Invariant, Saber and Infinity), the allocators
  of the object pool (\<open>pool_allocator\<close>), the order of prices (\<open>total_preorder_on\<close>), binary search
  (\<open>slice_search\<close>), the byte store under the tick bitmap (\<open>byte_store\<close>), numbers as text
  (\<open>text_form\<close>).

  \<^bold>\<open>Bounds.\<close> The retry of a request is bounded by the shape of the code (two relaxations), the
  depth search by the maximal path length, the bitmap searches by the limiting byte, the
  quotes of a request by five accounts fewer each, a liquidity estimate by 51 quotes, the lookup
  tables of a transaction by four; each function carries its termination proof. The theorem
  on thresholds is for amounts up to \<open>2 ^ 38\<close>, where the double arithmetic is shown to be
  precise enough; the one on Orca's tick arrays for arrays of up to \<open>2 ^ 23\<close> ticks, which
  covers every 16-bit spacing.

  \<^bold>\<open>Not modelled.\<close> Process wiring, network sources, URL routing, metrics, the liquidity page, price
  feed clients, the RPC-backed caches of the server, operational tools and test tools: input
  and output over third-party libraries. The Openbook v2 adapter, whose quotes run the order
  book of that crate; its on-chain forwarding instruction is modelled. Logging, counters
  that are only logged, and debug printing are left out of the modelled functions.
\<close>

end
